(* ===== verification/Prelude.thy ===== *)
theory Prelude
  imports Main "HOL-Library.Word"
begin

unbundle bit_operations_syntax

text \<open>
  Shared vocabulary of the development: the failures of a C++ execution as values
  (\<open>cpp_error\<close>), computations that may fail (\<open>'a res\<close>) with their sequencing
  \<open>rbind\<close>, the arithmetic of \<open>size_t\<close> and \<open>int\<close> with the wrap-around written
  out, \<open>std::vector\<close> with its capacity (as libstdc++, the library of the \<open>g++\<close>
  that \<open>CMakeLists.txt\<close> selects, grows it), \<open>std::copy\<close> into a vector, and the
  bytes of machine words.
\<close>

section \<open>Automation collections\<close>

named_theorems res_simps \<open>inversion of successful and failing computations\<close>
named_theorems buf_simps \<open>unfolding of buffer observers under the buffer invariant\<close>

section \<open>Failures and fallible computations\<close>

text \<open>
  \<^item> \<open>AssertFailed\<close>: an \<open>assert\<close> does not hold and the process aborts (the default
    build type of \<open>CMakeLists.txt\<close> is Debug, so assertions are compiled in);
  \<^item> \<open>LengthError\<close>: \<open>std::vector\<close> throws \<open>std::length_error\<close>;
  \<^item> \<open>OutOfRange\<close>: an access outside the elements of a container, undefined in C++;
  \<^item> \<open>BadFunctionCall\<close>: an empty \<open>boost::function\<close> is called and throws;
  \<^item> \<open>BadWeakPtr\<close>: \<open>shared_from_this\<close> is called on an object that no \<open>shared_ptr\<close> owns;
  \<^item> \<open>Dangling\<close>: an object is used through a pointer after its lifetime;
  \<^item> \<open>Aborted\<close>: the process calls \<open>abort\<close>;
  \<^item> \<open>Overflow\<close>: a result is outside its signed integer type, undefined in C++.
\<close>

datatype cpp_error = AssertFailed | LengthError | OutOfRange | BadFunctionCall | BadWeakPtr | Dangling | Aborted | Overflow

type_synonym 'a res = "cpp_error + 'a"

definition rbind :: "'a res \<Rightarrow> ('a \<Rightarrow> 'b res) \<Rightarrow> 'b res" where
  "rbind m f = (case m of Inl e \<Rightarrow> Inl e | Inr x \<Rightarrow> f x)"

definition c_assert :: "bool \<Rightarrow> unit res" where
  "c_assert P = (if P then Inr () else Inl AssertFailed)"

lemma rbind_Inl [simp]: "rbind (Inl e) f = Inl e"
  by (simp add: rbind_def)

lemma rbind_Inr [simp]: "rbind (Inr x) f = f x"
  by (simp add: rbind_def)

lemma rbind_assoc: "rbind (rbind m f) g = rbind m (\<lambda>x. rbind (f x) g)"
  by (cases m) simp_all

lemma rbind_eq_Inr [res_simps]: "rbind m f = Inr y \<longleftrightarrow> (\<exists>x. m = Inr x \<and> f x = Inr y)"
  by (cases m) simp_all

lemma rbind_eq_Inl [res_simps]:
  "rbind m f = Inl e \<longleftrightarrow> m = Inl e \<or> (\<exists>x. m = Inr x \<and> f x = Inl e)"
  by (cases m) simp_all

lemma c_assert_True [simp]: "P \<Longrightarrow> c_assert P = Inr ()"
  by (simp add: c_assert_def)

lemma c_assert_False [simp]: "\<not> P \<Longrightarrow> c_assert P = Inl AssertFailed"
  by (simp add: c_assert_def)

lemma c_assert_eq_Inr [res_simps]: "c_assert P = Inr u \<longleftrightarrow> P"
  by (simp add: c_assert_def)

lemma c_assert_eq_Inl [res_simps]: "c_assert P = Inl e \<longleftrightarrow> \<not> P \<and> e = AssertFailed"
  by (auto simp: c_assert_def)

section \<open>Integers of the platform\<close>

text \<open>
  \<open>size_t\<close> has 64 bits (the build passes no \<open>-m32\<close> unless asked to). Sizes are
  natural numbers below \<open>2 ^ 64\<close> and the two operations the code uses wrap around.
\<close>

type_synonym size_t = nat
type_synonym byte = "8 word"

definition size_mod :: nat where
  "size_mod = 2 ^ 64"

definition sz_add :: "size_t \<Rightarrow> size_t \<Rightarrow> size_t" where
  "sz_add a b = (a + b) mod size_mod"

definition sz_sub :: "size_t \<Rightarrow> size_t \<Rightarrow> size_t" where
  "sz_sub a b = (a + (size_mod - b mod size_mod)) mod size_mod"

lemma size_mod_pos [simp]: "0 < size_mod"
  by (simp add: size_mod_def)

lemma sz_add_exact: "a + b < size_mod \<Longrightarrow> sz_add a b = a + b"
  by (simp add: sz_add_def)

lemma sz_sub_exact: "b \<le> a \<Longrightarrow> a < size_mod \<Longrightarrow> sz_sub a b = a - b"
proof -
  assume ba: "b \<le> a" and a: "a < size_mod"
  then have "a + (size_mod - b mod size_mod) = (a - b) + size_mod" by simp
  then have "sz_sub a b = (a - b + size_mod) mod size_mod" by (simp only: sz_sub_def)
  also have "\<dots> = (a - b) mod size_mod" by (rule mod_add_self2)
  finally show ?thesis using a by simp
qed

lemma sz_sub_wraps: "a < b \<Longrightarrow> b < size_mod \<Longrightarrow> sz_sub a b = size_mod - (b - a)"
proof -
  assume ab: "a < b" and b: "b < size_mod"
  then have "a + (size_mod - b) = size_mod - (b - a)" by simp
  with ab b show ?thesis by (simp add: sz_sub_def)
qed

text \<open>Conversion of a wider signed value to the 32-bit \<open>int\<close> (two's complement).\<close>

definition to_int32 :: "int \<Rightarrow> int" where
  "to_int32 r = (r + 2 ^ 31) mod 2 ^ 32 - 2 ^ 31"

lemma to_int32_exact: "- (2 ^ 31) \<le> r \<Longrightarrow> r < 2 ^ 31 \<Longrightarrow> to_int32 r = r"
  by (simp add: to_int32_def)

section \<open>Vectors\<close>

text \<open>
  \<open>std::vector\<close>: the elements and the capacity. \<open>vec_resize\<close> keeps the storage when
  the new size fits in it and otherwise reallocates to
  \<open>size + max size (n - size)\<close> elements, capped by \<open>max_size\<close>; new elements are
  value-initialised.
\<close>

record 'a vec =
  vdata :: "'a list"
  vcap :: nat

definition vec_max_size :: nat where
  "vec_max_size = 2 ^ 63 - 1"

definition vec_make :: "'a \<Rightarrow> size_t \<Rightarrow> 'a vec res" where
  "vec_make z n = (if n \<le> vec_max_size then Inr \<lparr>vdata = replicate n z, vcap = n\<rparr>
                   else Inl LengthError)"

definition vec_resize :: "'a \<Rightarrow> 'a vec \<Rightarrow> size_t \<Rightarrow> 'a vec res" where
  "vec_resize z v n =
     (let s = length (vdata v) in
      if n \<le> s then Inr (v\<lparr>vdata := take n (vdata v)\<rparr>)
      else if n \<le> vcap v then Inr (v\<lparr>vdata := vdata v @ replicate (n - s) z\<rparr>)
      else if n \<le> vec_max_size
        then Inr \<lparr>vdata = vdata v @ replicate (n - s) z,
                  vcap = min vec_max_size (s + max s (n - s))\<rparr>
      else Inl LengthError)"

lemma vec_max_size_less [simp]: "n \<le> vec_max_size \<Longrightarrow> n < size_mod"
  by (simp add: vec_max_size_def size_mod_def)

lemma vec_resize_grow:
  assumes "length (vdata v) < n" and "n \<le> vec_max_size" and "vcap v \<le> vec_max_size"
  shows "\<exists>v'. vec_resize z v n = Inr v' \<and> vdata v' = vdata v @ replicate (n - length (vdata v)) z \<and>
    n \<le> vcap v' \<and> vcap v' \<le> vec_max_size"
  using assms by (cases "n \<le> vcap v") (simp_all add: vec_resize_def Let_def)

text \<open>Writing the elements \<open>ys\<close> at offset \<open>i\<close>: undefined outside the vector.\<close>

definition blit :: "'a list \<Rightarrow> nat \<Rightarrow> 'a list \<Rightarrow> 'a list" where
  "blit xs i ys = take i xs @ ys @ drop (i + length ys) xs"

definition vec_copy_in :: "'a vec \<Rightarrow> nat \<Rightarrow> 'a list \<Rightarrow> 'a vec res" where
  "vec_copy_in v i ys =
     (if i + length ys \<le> length (vdata v) then Inr (v\<lparr>vdata := blit (vdata v) i ys\<rparr>)
      else Inl OutOfRange)"

text \<open>The elements of the half-open range \<open>[i, j)\<close> of a list.\<close>

definition seg :: "nat \<Rightarrow> nat \<Rightarrow> 'a list \<Rightarrow> 'a list" where
  "seg i j xs = take (j - i) (drop i xs)"

lemma length_blit [simp]: "i + length ys \<le> length xs \<Longrightarrow> length (blit xs i ys) = length xs"
  by (simp add: blit_def)

lemma length_seg [simp]: "j \<le> length xs \<Longrightarrow> length (seg i j xs) = j - i"
  by (simp add: seg_def)

lemma seg_empty [simp]: "seg i i xs = []"
  by (simp add: seg_def)

lemma seg_blit_at:
  "i + length ys \<le> length xs \<Longrightarrow> seg i (i + length ys) (blit xs i ys) = ys"
  by (simp add: seg_def blit_def)

lemma seg_blit_extend:
  assumes "i \<le> j" and "j + length ys \<le> length xs"
  shows "seg i (j + length ys) (blit xs j ys) = seg i j xs @ ys"
proof -
  have "take (j - i) (drop i xs) = drop i (take j xs)"
    using assms(1) by (simp add: drop_take)
  with assms show ?thesis
    by (simp add: seg_def blit_def drop_take)
qed

lemma seg_blit_before:
  assumes "j \<le> k" and "k \<le> length xs"
  shows "seg i j (blit xs k ys) = seg i j xs"
proof -
  have "seg i j zs = drop i (take j zs)" for zs :: "'a list"
    by (simp add: seg_def drop_take)
  with assms show ?thesis by (simp add: blit_def)
qed

lemma seg_append_left: "j \<le> length xs \<Longrightarrow> seg i j (xs @ ys) = seg i j xs"
  by (simp add: seg_def)

lemma drop_seg: "n \<le> j - i \<Longrightarrow> drop n (seg i j xs) = seg (i + n) j xs"
  by (simp add: seg_def drop_take add.commute)

lemma take_seg: "n \<le> j - i \<Longrightarrow> take (j - i - n) (seg i j xs) = seg i (j - n) xs"
  by (simp add: seg_def min_def add.commute)

lemma seg_take: "j \<le> n \<Longrightarrow> seg i j (take n xs) = seg i j xs"
  by (simp add: seg_def drop_take min_def)

lemma takeWhile_stops: "c \<in> set xs \<Longrightarrow> length (takeWhile (\<lambda>x. x \<noteq> c) xs) < length xs"
  by (induction xs) auto

section \<open>Words in memory\<close>

text \<open>
  The bytes of a word from the least significant one on, and the word with given bytes.
\<close>

definition le_bytes :: "'a::len word \<Rightarrow> byte list" where
  "le_bytes w = map (\<lambda>i. ucast (drop_bit (8 * i) w)) [0..<LENGTH('a) div 8]"

fun of_le_bytes :: "byte list \<Rightarrow> 'a::len word" where
  "of_le_bytes [] = 0"
| "of_le_bytes (b # bs) = ucast b OR push_bit 8 (of_le_bytes bs)"

lemma length_le_bytes [simp]: "length (le_bytes (w :: 'a::len word)) = LENGTH('a) div 8"
  by (simp add: le_bytes_def)

lemma bit_of_le_bytes:
  "bit (of_le_bytes bs :: 'a::len word) n \<longleftrightarrow>
     n < LENGTH('a) \<and> n div 8 < length bs \<and> bit (bs ! (n div 8)) (n mod 8)"
proof (induction bs arbitrary: n)
  case Nil
  show ?case by simp
next
  case (Cons b bs)
  show ?case
  proof (cases "n < 8")
    case True
    then show ?thesis by (simp add: bit_simps)
  next
    case False
    then have "n div 8 = Suc ((n - 8) div 8)" and "(n - 8) mod 8 = n mod 8"
      by (simp_all add: div_if le_mod_geq)
    moreover have "\<not> bit b n"
      using False by (auto dest: bit_imp_le_length)
    ultimately show ?thesis
      using False Cons.IH [of "n - 8"] by (auto simp: bit_simps)
  qed
qed

lemma of_le_bytes_le_bytes:
  assumes "8 dvd LENGTH('a)"
  shows "of_le_bytes (le_bytes w) = (w :: 'a::len word)"
proof (rule bit_word_eqI)
  fix n assume n: "n < LENGTH('a)"
  then have "n div 8 < LENGTH('a) div 8"
    using assms by auto
  moreover have "8 * (n div 8) + n mod 8 = n" by simp
  ultimately show "bit (of_le_bytes (le_bytes w) :: 'a word) n = bit w n"
    using n by (simp add: bit_of_le_bytes le_bytes_def bit_simps)
qed

end
