(* ===== verification/Endian.thy ===== *)
theory Endian
  imports Prelude
begin

unbundle bit_operations_syntax

text \<open>
  \<^verbatim>\<open>src/muradin/net/endian.h\<close> and \<^verbatim>\<open>endian.cpp\<close>: byte swapping, the run-time test
  of the host's byte order and the conversions between host, big-endian and
  little-endian order. The host is a parameter of every definition that depends on it
  (\<open>byteorder_t\<close>, the enumeration of \<^verbatim>\<open>bytebuffer.h\<close>): the same lemmas hold on
  both kinds of machine. The header defines the conversions for Visual C++ and takes them
  from the system's \<^verbatim>\<open>endian.h\<close> on Linux, where they are documented to do the same.
\<close>

section \<open>Byte orders and the memory of a host\<close>

datatype byteorder_t = lite_endian | big_endian

text \<open>The bytes of a word in the memory of a host, and the word a host reads from bytes.\<close>

definition mem_bytes :: "byteorder_t \<Rightarrow> 'a::len word \<Rightarrow> byte list" where
  "mem_bytes h w = (case h of lite_endian \<Rightarrow> le_bytes w | big_endian \<Rightarrow> rev (le_bytes w))"

definition mem_word :: "byteorder_t \<Rightarrow> byte list \<Rightarrow> 'a::len word" where
  "mem_word h bs = (case h of lite_endian \<Rightarrow> of_le_bytes bs | big_endian \<Rightarrow> of_le_bytes (rev bs))"

section \<open>Swapping\<close>

text \<open>
  \<open>swap_2_bytes\<close> computes in \<open>int\<close> (integer promotion) and the result is truncated to
  16 bits on return.
\<close>

definition swap_2_bytes :: "16 word \<Rightarrow> 16 word" where
  "swap_2_bytes val =
     ucast ((push_bit 8 (ucast val :: 32 word)) OR (drop_bit 8 (ucast val :: 32 word)))"

definition swap_4_bytes :: "32 word \<Rightarrow> 32 word" where
  "swap_4_bytes val =
     push_bit 24 val OR (push_bit 8 val AND 0x00FF0000) OR (drop_bit 8 val AND 0x0000FF00)
       OR drop_bit 24 val"

definition swap_8_bytes :: "64 word \<Rightarrow> 64 word" where
  "swap_8_bytes val =
     push_bit 56 (val AND 0x00000000000000FF) OR
     push_bit 40 (val AND 0x000000000000FF00) OR
     push_bit 24 (val AND 0x0000000000FF0000) OR
     push_bit 8 (val AND 0x00000000FF000000) OR
     drop_bit 8 (val AND 0x000000FF00000000) OR
     drop_bit 24 (val AND 0x0000FF0000000000) OR
     drop_bit 40 (val AND 0x00FF000000000000) OR
     drop_bit 56 (val AND 0xFF00000000000000)"

section \<open>The host's order, tested at run time\<close>

definition is_big_endianess :: "byteorder_t \<Rightarrow> bool" where
  "is_big_endianess h = (mem_bytes h (0x1234 :: 16 word) ! 0 = 0x12)"

definition is_lit_endianess :: "byteorder_t \<Rightarrow> bool" where
  "is_lit_endianess h = (\<not> is_big_endianess h)"

definition is_net_endianess :: "byteorder_t \<Rightarrow> bool" where
  "is_net_endianess h = is_big_endianess h"

section \<open>Conversions\<close>

definition htobe16 :: "byteorder_t \<Rightarrow> 16 word \<Rightarrow> 16 word" where
  "htobe16 h val = (if is_big_endianess h then val else swap_2_bytes val)"

definition htobe32 :: "byteorder_t \<Rightarrow> 32 word \<Rightarrow> 32 word" where
  "htobe32 h val = (if is_big_endianess h then val else swap_4_bytes val)"

definition htobe64 :: "byteorder_t \<Rightarrow> 64 word \<Rightarrow> 64 word" where
  "htobe64 h val = (if is_big_endianess h then val else swap_8_bytes val)"

definition htole16 :: "byteorder_t \<Rightarrow> 16 word \<Rightarrow> 16 word" where
  "htole16 h val = (if is_big_endianess h then swap_2_bytes val else val)"

definition htole32 :: "byteorder_t \<Rightarrow> 32 word \<Rightarrow> 32 word" where
  "htole32 h val = (if is_big_endianess h then swap_4_bytes val else val)"

definition htole64 :: "byteorder_t \<Rightarrow> 64 word \<Rightarrow> 64 word" where
  "htole64 h val = (if is_big_endianess h then swap_8_bytes val else val)"

definition be16toh :: "byteorder_t \<Rightarrow> 16 word \<Rightarrow> 16 word" where
  "be16toh h val = htobe16 h val"

definition be32toh :: "byteorder_t \<Rightarrow> 32 word \<Rightarrow> 32 word" where
  "be32toh h val = htobe32 h val"

definition be64toh :: "byteorder_t \<Rightarrow> 64 word \<Rightarrow> 64 word" where
  "be64toh h val = htobe64 h val"

definition uint16_hton :: "byteorder_t \<Rightarrow> 16 word \<Rightarrow> 16 word" where
  "uint16_hton h val = be16toh h val"

definition uint16_ntoh :: "byteorder_t \<Rightarrow> 16 word \<Rightarrow> 16 word" where
  "uint16_ntoh h val = be16toh h val"

definition uint32_hton :: "byteorder_t \<Rightarrow> 32 word \<Rightarrow> 32 word" where
  "uint32_hton h val = be32toh h val"

definition uint32_ntoh :: "byteorder_t \<Rightarrow> 32 word \<Rightarrow> 32 word" where
  "uint32_ntoh h val = be32toh h val"

text \<open>The parameter of the 64-bit pair is declared \<open>uint32_t\<close> in the source.\<close>

definition uint64_hton :: "byteorder_t \<Rightarrow> 32 word \<Rightarrow> 64 word" where
  "uint64_hton h val = be64toh h (ucast val)"

definition uint64_ntoh :: "byteorder_t \<Rightarrow> 32 word \<Rightarrow> 64 word" where
  "uint64_ntoh h val = be64toh h (ucast val)"

section \<open>Swapping reverses the bytes\<close>

lemma mem_word_mem_bytes:
  "8 dvd LENGTH('a) \<Longrightarrow> mem_word h (mem_bytes h w) = (w :: 'a::len word)"
  by (simp add: mem_word_def mem_bytes_def of_le_bytes_le_bytes split: byteorder_t.split)

lemma length_mem_bytes [simp]: "length (mem_bytes h (w :: 'a::len word)) = LENGTH('a) div 8"
  by (simp add: mem_bytes_def split: byteorder_t.split)

lemma is_big_endianess_iff [simp]: "is_big_endianess h \<longleftrightarrow> h = big_endian"
  by (cases h) (simp_all add: is_big_endianess_def mem_bytes_def le_bytes_def upt_rec)

lemma bit_beyond_length: "bit (w :: 'a::len word) n \<Longrightarrow> n < LENGTH('a)"
  by (rule bit_imp_le_length)

lemma le_bytes_swap_2: "le_bytes (swap_2_bytes v) = rev (le_bytes v)"
  apply (simp add: le_bytes_def upt_rec swap_2_bytes_def)
  apply (intro conjI; rule bit_word_eqI; simp add: bit_simps)
   apply (auto dest: bit_beyond_length)
  done

lemma swap_4_masks:
  "(0x00FF0000 :: 32 word) = push_bit 16 (mask 8)"
  "(0x0000FF00 :: 32 word) = push_bit 8 (mask 8)"
  by (simp_all add: mask_numeral)

lemma swap_8_masks:
  "(0x00000000000000FF :: 64 word) = mask 8"
  "(0x000000000000FF00 :: 64 word) = push_bit 8 (mask 8)"
  "(0x0000000000FF0000 :: 64 word) = push_bit 16 (mask 8)"
  "(0x00000000FF000000 :: 64 word) = push_bit 24 (mask 8)"
  "(0x000000FF00000000 :: 64 word) = push_bit 32 (mask 8)"
  "(0x0000FF0000000000 :: 64 word) = push_bit 40 (mask 8)"
  "(0x00FF000000000000 :: 64 word) = push_bit 48 (mask 8)"
  "(0xFF00000000000000 :: 64 word) = push_bit 56 (mask 8)"
  by (simp_all add: mask_numeral)

lemma le_bytes_swap_4: "le_bytes (swap_4_bytes v) = rev (le_bytes v)"
  apply (simp add: le_bytes_def upt_rec swap_4_bytes_def swap_4_masks)
  apply (intro conjI; rule bit_word_eqI; simp add: bit_simps)
  done

lemma le_bytes_swap_8: "le_bytes (swap_8_bytes v) = rev (le_bytes v)"
  apply (simp add: le_bytes_def upt_rec swap_8_bytes_def swap_8_masks)
  apply (intro conjI; rule bit_word_eqI; simp add: bit_simps)
  done

lemma mem_bytes_inj: "8 dvd LENGTH('a) \<Longrightarrow> mem_bytes h v = mem_bytes h w \<Longrightarrow> v = (w :: 'a::len word)"
  by (metis mem_word_mem_bytes)

lemma mem_bytes_other_host:
  "h \<noteq> h' \<Longrightarrow> mem_bytes h w = rev (mem_bytes h' w)"
  by (cases h; cases h') (simp_all add: mem_bytes_def)

lemmas conv_defs = htobe16_def htobe32_def htobe64_def htole16_def htole32_def htole64_def
lemmas swap_bytes = le_bytes_swap_2 le_bytes_swap_4 le_bytes_swap_8

section \<open>Codecs for a wire order\<close>

text \<open>
  What a client of the conversions relies on: \<open>enc h order v\<close> is the value whose bytes
  in the memory of the host \<open>h\<close> are the bytes of \<open>v\<close> in the order \<open>order\<close>. From this
  one law: converting twice is the identity, a host decodes what it has encoded, and any
  host decodes what any other host has encoded. The three widths of
  \<^verbatim>\<open>bytebuffer::byteorder_value\<close> are its instances.
\<close>

locale wire_codec =
  fixes enc :: "byteorder_t \<Rightarrow> byteorder_t \<Rightarrow> 'a::len word \<Rightarrow> 'a word"
  assumes byte_multiple: "8 dvd LENGTH('a)"
    and mem_enc: "mem_bytes h (enc h order v) = mem_bytes order v"
begin

lemma enc_involutive: "enc h order (enc h order v) = v"
proof (cases "order = h")
  case True
  then have "mem_bytes h (enc h order w) = mem_bytes h w" for w
    by (simp add: mem_enc)
  then show ?thesis
    by (metis byte_multiple mem_bytes_inj)
next
  case False
  have "mem_bytes h (enc h order (enc h order v)) = rev (mem_bytes h (enc h order v))"
    using False by (simp only: mem_enc) (metis mem_enc mem_bytes_other_host)
  also have "\<dots> = mem_bytes h v"
    using False by (metis mem_enc mem_bytes_other_host)
  finally show ?thesis by (rule mem_bytes_inj [OF byte_multiple])
qed

lemma decode_wire: "enc h order (mem_word h (mem_bytes order v)) = v"
  by (metis byte_multiple enc_involutive mem_enc mem_word_mem_bytes)

lemma decode_across_hosts:
  "enc h' order (mem_word h' (mem_bytes h (enc h order v))) = v"
  by (simp add: mem_enc decode_wire)

end

section \<open>Properties\<close>

text \<open>
  C32. On either kind of host, the bytes that \<open>htobe16\<close>, \<open>htobe32\<close> and \<open>htobe64\<close>
  leave in memory are those of the value from the most significant one on, and those of
  \<open>htole16\<close>, \<open>htole32\<close> and \<open>htole64\<close> are those from the least significant one on:
  the layout on the wire does not depend on the machine.
\<close>

theorem htobe_htole_layout:
  "mem_bytes h (htobe16 h v) = rev (le_bytes v) \<and> mem_bytes h (htole16 h v) = le_bytes v \<and>
   mem_bytes h (htobe32 h w) = rev (le_bytes w) \<and> mem_bytes h (htole32 h w) = le_bytes w \<and>
   mem_bytes h (htobe64 h x) = rev (le_bytes x) \<and> mem_bytes h (htole64 h x) = le_bytes x"
  by (cases h) (simp_all add: conv_defs mem_bytes_def swap_bytes)

lemma swap_2_bytes_involutive: "swap_2_bytes (swap_2_bytes v) = v"
  by (rule mem_bytes_inj [of lite_endian]) (simp_all add: mem_bytes_def swap_bytes)

lemma swap_4_bytes_involutive: "swap_4_bytes (swap_4_bytes v) = v"
  by (rule mem_bytes_inj [of lite_endian]) (simp_all add: mem_bytes_def swap_bytes)

text \<open>
  The 16-bit and 32-bit host/network conversions are inverse to each other
  on every value and every host.
\<close>

theorem hton_ntoh_roundtrip:
  "uint16_ntoh h (uint16_hton h v) = v \<and> uint16_hton h (uint16_ntoh h v) = v \<and>
   uint32_ntoh h (uint32_hton h w) = w \<and> uint32_hton h (uint32_ntoh h w) = w"
  by (simp add: uint16_ntoh_def uint16_hton_def uint32_ntoh_def uint32_hton_def be16toh_def
      be32toh_def htobe16_def htobe32_def swap_2_bytes_involutive swap_4_bytes_involutive)

text \<open>
  The 64-bit pair is not: its parameters are declared 32 bits wide, so on
  a little-endian host converting any value to network order and back, through the
  parameter type the header declares, gives zero.
\<close>

theorem uint64_hton_ntoh_zero:
  "uint64_ntoh lite_endian (ucast (uint64_hton lite_endian v)) = 0"
proof (rule bit_word_eqI)
  show "bit (uint64_ntoh lite_endian (ucast (uint64_hton lite_endian v))) n \<longleftrightarrow> bit (0 :: 64 word) n"
    for n
    by (auto simp: uint64_ntoh_def uint64_hton_def be64toh_def htobe64_def swap_8_bytes_def
        swap_8_masks bit_simps dest: bit_beyond_length)
qed

end
