(* ===== verification/Byte_Buffer.thy ===== *)
theory Byte_Buffer
  imports Endian
begin

text \<open>
  \<^verbatim>\<open>src/muradin/net/bytebuffer.h\<close> and \<^verbatim>\<open>bytebuffer.cpp\<close>: the growable byte buffer
  with a reserved prefix, a read index and a write index over one vector. Every member
  function is a definition here, with its assertions and the wrap-around of \<open>size_t\<close>;
  pointers into the buffer are offsets into the vector. Then: the index invariant
  \<open>buf_inv\<close>, the abstraction \<open>contents\<close> to the list of readable bytes, one lemma per
  operation for both, the queue interface \<open>byte_fifo\<close> that the connections rely on with
  its interpretation, and the round trips of integers and strings.
\<close>

section \<open>State\<close>

record bytebuffer =
  m_byteorder :: byteorder_t
  m_contianer :: "byte vec"
  m_rd_index :: size_t
  m_wt_index :: size_t

definition m_resver_index :: size_t where
  "m_resver_index = 8"

definition system_byteorder :: "byteorder_t \<Rightarrow> byteorder_t" where
  "system_byteorder h = (if is_big_endianess h then big_endian else lite_endian)"

definition byteorder_value_s :: "byteorder_t \<Rightarrow> byteorder_t \<Rightarrow> 16 word \<Rightarrow> 16 word" where
  "byteorder_value_s h order val = (if big_endian = order then htobe16 h val else htole16 h val)"

definition byteorder_value_l :: "byteorder_t \<Rightarrow> byteorder_t \<Rightarrow> 32 word \<Rightarrow> 32 word" where
  "byteorder_value_l h order val = (if big_endian = order then htobe32 h val else htole32 h val)"

definition byteorder_value_ll :: "byteorder_t \<Rightarrow> byteorder_t \<Rightarrow> 64 word \<Rightarrow> 64 word" where
  "byteorder_value_ll h order val = (if big_endian = order then htobe64 h val else htole64 h val)"

definition bytebuffer_new :: "byteorder_t \<Rightarrow> size_t \<Rightarrow> bytebuffer res" where
  "bytebuffer_new order sz =
     rbind (vec_make 0 (sz_add sz m_resver_index)) (\<lambda>v.
     Inr \<lparr>m_byteorder = order, m_contianer = v,
          m_rd_index = m_resver_index, m_wt_index = m_resver_index\<rparr>)"

section \<open>Observers\<close>

definition set_byteorder :: "bytebuffer \<Rightarrow> byteorder_t \<Rightarrow> bytebuffer" where
  "set_byteorder b order = b\<lparr>m_byteorder := order\<rparr>"

definition buf_empty :: "bytebuffer \<Rightarrow> bool" where
  "buf_empty b = (m_rd_index b = m_wt_index b)"

definition storage :: "bytebuffer \<Rightarrow> size_t" where
  "storage b = length (vdata (m_contianer b))"

definition space :: "bytebuffer \<Rightarrow> size_t" where
  "space b = sz_sub (storage b) m_resver_index"

definition resver_size :: size_t where
  "resver_size = m_resver_index"

definition readable_bytes :: "bytebuffer \<Rightarrow> size_t res" where
  "readable_bytes b =
     rbind (c_assert (m_rd_index b \<le> m_wt_index b)) (\<lambda>_.
     Inr (sz_sub (m_wt_index b) (m_rd_index b)))"

definition writeable_bytes :: "bytebuffer \<Rightarrow> size_t res" where
  "writeable_bytes b =
     rbind (c_assert (m_wt_index b \<le> vcap (m_contianer b))) (\<lambda>_.
     Inr (sz_sub (storage b) (m_wt_index b)))"

definition discardable_bytes :: "bytebuffer \<Rightarrow> size_t res" where
  "discardable_bytes b =
     rbind (c_assert (m_rd_index b \<ge> m_resver_index)) (\<lambda>_.
     Inr (sz_sub (m_rd_index b) m_resver_index))"

text \<open>Pointers into the buffer, as offsets from \<open>begin()\<close>.\<close>

definition rd_ptr :: "bytebuffer \<Rightarrow> size_t" where
  "rd_ptr b = m_rd_index b"

definition wt_ptr :: "bytebuffer \<Rightarrow> size_t" where
  "wt_ptr b = m_wt_index b"

text \<open>Reading the bytes of the range \<open>[i, j)\<close> of the container.\<close>

definition read_range :: "bytebuffer \<Rightarrow> nat \<Rightarrow> nat \<Rightarrow> byte list res" where
  "read_range b i j =
     (if i \<le> j \<and> j \<le> storage b then Inr (seg i j (vdata (m_contianer b))) else Inl OutOfRange)"

text \<open>The null-terminated string that starts a stretch of memory.\<close>

definition c_string :: "byte list \<Rightarrow> byte list res" where
  "c_string mem = (if 0 \<in> set mem then Inr (takeWhile (\<lambda>c. c \<noteq> 0) mem) else Inl OutOfRange)"

section \<open>Operations\<close>

definition discard_all :: "bytebuffer \<Rightarrow> bytebuffer" where
  "discard_all b = b\<lparr>m_rd_index := m_resver_index, m_wt_index := m_resver_index\<rparr>"

definition make_space :: "bytebuffer \<Rightarrow> size_t \<Rightarrow> bytebuffer res" where
  "make_space b bytes =
     rbind (discardable_bytes b) (\<lambda>d.
     rbind (writeable_bytes b) (\<lambda>w.
     if sz_add d w < bytes then
       rbind (vec_resize 0 (m_contianer b) (sz_add bytes (m_wt_index b))) (\<lambda>v.
       Inr (b\<lparr>m_contianer := v\<rparr>))
     else
       rbind (readable_bytes b) (\<lambda>readable.
       rbind (read_range b (m_rd_index b) (m_wt_index b)) (\<lambda>ys.
       rbind (vec_copy_in (m_contianer b) m_resver_index ys) (\<lambda>v.
       let b' = b\<lparr>m_contianer := v, m_rd_index := m_resver_index,
                  m_wt_index := sz_add m_resver_index readable\<rparr> in
       rbind (readable_bytes b') (\<lambda>r.
       rbind (c_assert (readable = r)) (\<lambda>_. Inr b')))))))"

definition ensure_write_space :: "bytebuffer \<Rightarrow> size_t \<Rightarrow> bytebuffer res" where
  "ensure_write_space b bytes = make_space b bytes"

definition has_written :: "bytebuffer \<Rightarrow> size_t \<Rightarrow> (size_t \<times> bytebuffer) res" where
  "has_written b bytes =
     rbind (c_assert (storage b \<ge> sz_add (m_wt_index b) bytes)) (\<lambda>_.
     let b' = b\<lparr>m_wt_index := sz_add (m_wt_index b) bytes\<rparr> in
     rbind (readable_bytes b') (\<lambda>r. Inr (r, b')))"

text \<open>The caller's memory \<open>[data_ptr, data_ptr + size)\<close> is the byte list \<open>data\<close>.\<close>

definition append_data :: "bytebuffer \<Rightarrow> byte list \<Rightarrow> (size_t \<times> bytebuffer) res" where
  "append_data b data =
     rbind (ensure_write_space b (length data)) (\<lambda>b1.
     rbind (vec_copy_in (m_contianer b1) (wt_ptr b1) data) (\<lambda>v.
     rbind (has_written (b1\<lparr>m_contianer := v\<rparr>) (length data)) (\<lambda>(_, b2).
     rbind (readable_bytes b2) (\<lambda>r. Inr (r, b2)))))"

text \<open>Appending another buffer (an object other than the buffer itself).\<close>

definition append_buffer :: "bytebuffer \<Rightarrow> bytebuffer \<Rightarrow> (size_t \<times> bytebuffer) res" where
  "append_buffer b another =
     rbind (readable_bytes another) (\<lambda>n.
     rbind (read_range another (rd_ptr another) (rd_ptr another + n)) (\<lambda>data.
     append_data b data))"

definition append_str :: "bytebuffer \<Rightarrow> byte list \<Rightarrow> (size_t \<times> bytebuffer) res" where
  "append_str b mem = rbind (c_string mem) (\<lambda>s. append_data b s)"

definition discard :: "bytebuffer \<Rightarrow> size_t \<Rightarrow> (size_t \<times> bytebuffer) res" where
  "discard b bytes =
     rbind (readable_bytes b) (\<lambda>n.
     rbind (c_assert (n \<ge> bytes)) (\<lambda>_.
     let b' = (if n \<le> bytes then discard_all b
               else b\<lparr>m_rd_index := sz_add (m_rd_index b) bytes\<rparr>) in
     rbind (readable_bytes b') (\<lambda>r. Inr (r, b'))))"

definition rollback_write :: "bytebuffer \<Rightarrow> size_t \<Rightarrow> (size_t \<times> bytebuffer) res" where
  "rollback_write b bytes =
     rbind (readable_bytes b) (\<lambda>n.
     rbind (c_assert (n \<ge> bytes)) (\<lambda>_.
     let b' = (if n \<le> bytes then discard_all b
               else b\<lparr>m_wt_index := sz_sub (m_wt_index b) bytes\<rparr>) in
     rbind (readable_bytes b') (\<lambda>r. Inr (r, b'))))"

definition buf_resize :: "bytebuffer \<Rightarrow> size_t \<Rightarrow> bytebuffer res" where
  "buf_resize b new_capacity =
     rbind (vec_resize 0 (m_contianer b) (sz_add new_capacity m_resver_index)) (\<lambda>v.
     Inr (b\<lparr>m_contianer := v\<rparr>))"

definition shrink :: "bytebuffer \<Rightarrow> size_t \<Rightarrow> bytebuffer res" where
  "shrink b resver_bytes =
     rbind (readable_bytes b) (\<lambda>readable.
     rbind (vec_make 0 (sz_add (sz_add m_resver_index readable) resver_bytes)) (\<lambda>buf.
     rbind (read_range b (rd_ptr b) (rd_ptr b + readable)) (\<lambda>ys.
     rbind (vec_copy_in buf m_resver_index ys) (\<lambda>buf'.
     Inr (b\<lparr>m_contianer := buf', m_rd_index := m_resver_index,
            m_wt_index := sz_add m_resver_index readable\<rparr>)))))"

definition buf_swap :: "bytebuffer \<Rightarrow> bytebuffer \<Rightarrow> bytebuffer \<times> bytebuffer" where
  "buf_swap b another =
     (b\<lparr>m_contianer := m_contianer another, m_wt_index := m_wt_index another,
        m_rd_index := m_rd_index another, m_byteorder := m_byteorder another\<rparr>,
      another\<lparr>m_contianer := m_contianer b, m_wt_index := m_wt_index b,
        m_rd_index := m_rd_index b, m_byteorder := m_byteorder b\<rparr>)"

text \<open>\<open>std::find\<close> on the readable range: the distance to the first match or to the end.\<close>

definition find_char :: "bytebuffer \<Rightarrow> byte \<Rightarrow> size_t res" where
  "find_char b c =
     rbind (read_range b (rd_ptr b) (wt_ptr b)) (\<lambda>ys.
     let ptr = rd_ptr b + length (takeWhile (\<lambda>x. x \<noteq> c) ys) in
     if ptr = wt_ptr b then Inr 0 else Inr (sz_add (sz_sub ptr (rd_ptr b)) 1))"

definition as_string :: "bytebuffer \<Rightarrow> byte list res" where
  "as_string b = c_string (drop (rd_ptr b) (vdata (m_contianer b)))"

definition retrieve_string :: "bytebuffer \<Rightarrow> (byte list \<times> bytebuffer) res" where
  "retrieve_string b =
     rbind (find_char b 0) (\<lambda>pos.
     if pos \<noteq> 0 then
       rbind (c_string (drop (rd_ptr b) (vdata (m_contianer b)))) (\<lambda>ret.
       rbind (discard b pos) (\<lambda>(_, b'). Inr (ret, b')))
     else Inr ([], b))"

section \<open>Integers\<close>

definition append_uint8 :: "bytebuffer \<Rightarrow> byte \<Rightarrow> (size_t \<times> bytebuffer) res" where
  "append_uint8 b val = append_data b [val]"

definition append_uint16 ::
  "byteorder_t \<Rightarrow> bytebuffer \<Rightarrow> 16 word \<Rightarrow> bool \<Rightarrow> (size_t \<times> bytebuffer) res" where
  "append_uint16 h b val byteorder_cov =
     (let val' = (if byteorder_cov then
                    (if big_endian = m_byteorder b then htobe16 h val else htole16 h val)
                  else val)
      in append_data b (mem_bytes h val'))"

definition append_uint32 ::
  "byteorder_t \<Rightarrow> bytebuffer \<Rightarrow> 32 word \<Rightarrow> bool \<Rightarrow> (size_t \<times> bytebuffer) res" where
  "append_uint32 h b val byteorder_cov =
     (let val' = (if byteorder_cov then
                    (if big_endian = m_byteorder b then htobe32 h val else htole32 h val)
                  else val)
      in append_data b (mem_bytes h val'))"

definition append_uint64 ::
  "byteorder_t \<Rightarrow> bytebuffer \<Rightarrow> 64 word \<Rightarrow> bool \<Rightarrow> (size_t \<times> bytebuffer) res" where
  "append_uint64 h b val byteorder_cov =
     (let val' = (if byteorder_cov then
                    (if big_endian = m_byteorder b then htobe64 h val else htole64 h val)
                  else val)
      in append_data b (mem_bytes h val'))"

text \<open>\<open>read_integer<T>\<close>: the host reads \<open>sizeof(T)\<close> bytes at the read pointer.\<close>

definition read_integer :: "byteorder_t \<Rightarrow> bytebuffer \<Rightarrow> 'a::len word res" where
  "read_integer h b =
     rbind (read_range b (rd_ptr b) (rd_ptr b + LENGTH('a) div 8)) (\<lambda>ys. Inr (mem_word h ys))"

definition read_uint8 :: "byteorder_t \<Rightarrow> bytebuffer \<Rightarrow> byte res" where
  "read_uint8 h b =
     rbind (readable_bytes b) (\<lambda>n. rbind (c_assert (n \<ge> 1)) (\<lambda>_. read_integer h b))"

definition read_uint16 :: "byteorder_t \<Rightarrow> bytebuffer \<Rightarrow> bool \<Rightarrow> 16 word res" where
  "read_uint16 h b byteorder_cov =
     rbind (readable_bytes b) (\<lambda>n. rbind (c_assert (n \<ge> 2)) (\<lambda>_.
     rbind (read_integer h b) (\<lambda>x.
     Inr (if byteorder_cov then byteorder_value_s h (m_byteorder b) x else x))))"

definition read_uint32 :: "byteorder_t \<Rightarrow> bytebuffer \<Rightarrow> bool \<Rightarrow> 32 word res" where
  "read_uint32 h b byteorder_cov =
     rbind (readable_bytes b) (\<lambda>n. rbind (c_assert (n \<ge> 4)) (\<lambda>_.
     rbind (read_integer h b) (\<lambda>x.
     Inr (if byteorder_cov then byteorder_value_l h (m_byteorder b) x else x))))"

definition read_uint64 :: "byteorder_t \<Rightarrow> bytebuffer \<Rightarrow> bool \<Rightarrow> 64 word res" where
  "read_uint64 h b byteorder_cov =
     rbind (readable_bytes b) (\<lambda>n. rbind (c_assert (n \<ge> 8)) (\<lambda>_.
     rbind (read_integer h b) (\<lambda>x.
     Inr (if byteorder_cov then byteorder_value_ll h (m_byteorder b) x else x))))"

definition retrieve_uint8 :: "byteorder_t \<Rightarrow> bytebuffer \<Rightarrow> (byte \<times> bytebuffer) res" where
  "retrieve_uint8 h b =
     rbind (read_uint8 h b) (\<lambda>val. rbind (discard b 1) (\<lambda>(_, b'). Inr (val, b')))"

definition retrieve_uint16 ::
  "byteorder_t \<Rightarrow> bytebuffer \<Rightarrow> bool \<Rightarrow> (16 word \<times> bytebuffer) res" where
  "retrieve_uint16 h b byteorder_cov =
     rbind (read_uint16 h b byteorder_cov) (\<lambda>val. rbind (discard b 2) (\<lambda>(_, b'). Inr (val, b')))"

definition retrieve_uint32 ::
  "byteorder_t \<Rightarrow> bytebuffer \<Rightarrow> bool \<Rightarrow> (32 word \<times> bytebuffer) res" where
  "retrieve_uint32 h b byteorder_cov =
     rbind (read_uint32 h b byteorder_cov) (\<lambda>val. rbind (discard b 4) (\<lambda>(_, b'). Inr (val, b')))"

definition retrieve_uint64 ::
  "byteorder_t \<Rightarrow> bytebuffer \<Rightarrow> bool \<Rightarrow> (64 word \<times> bytebuffer) res" where
  "retrieve_uint64 h b byteorder_cov =
     rbind (read_uint64 h b byteorder_cov) (\<lambda>val. rbind (discard b 8) (\<lambda>(_, b'). Inr (val, b')))"

section \<open>Invariant and abstraction\<close>

text \<open>
  The picture in the header: \<open>reserveIndex \<le> readerIndex \<le> writerIndex \<le> capacity\<close>,
  with the size of the vector for the last bound, and a vector no larger than it can be.
\<close>

definition buf_inv :: "bytebuffer \<Rightarrow> bool" where
  "buf_inv b \<longleftrightarrow> m_resver_index \<le> m_rd_index b \<and> m_rd_index b \<le> m_wt_index b \<and>
     m_wt_index b \<le> storage b \<and> storage b \<le> vcap (m_contianer b) \<and>
     vcap (m_contianer b) \<le> vec_max_size"

definition contents :: "bytebuffer \<Rightarrow> byte list" where
  "contents b = seg (m_rd_index b) (m_wt_index b) (vdata (m_contianer b))"

text \<open>How many bytes can be appended before the vector reaches its maximal size.\<close>

definition room :: "bytebuffer \<Rightarrow> nat" where
  "room b = vec_max_size - m_wt_index b"

lemma buf_invE:
  assumes "buf_inv b"
  obtains "m_resver_index \<le> m_rd_index b" "m_rd_index b \<le> m_wt_index b"
    "m_wt_index b \<le> length (vdata (m_contianer b))"
    "length (vdata (m_contianer b)) \<le> vcap (m_contianer b)"
    "vcap (m_contianer b) \<le> vec_max_size" "vec_max_size < size_mod"
  using assms by (simp add: buf_inv_def storage_def)

lemma length_contents: "buf_inv b \<Longrightarrow> length (contents b) = m_wt_index b - m_rd_index b"
  by (simp add: contents_def buf_inv_def storage_def)

lemma readable_bytes_inv [buf_simps]: "buf_inv b \<Longrightarrow> readable_bytes b = Inr (length (contents b))"
  by (auto simp: readable_bytes_def length_contents sz_sub_exact elim!: buf_invE)

lemma writeable_bytes_inv [buf_simps]:
  "buf_inv b \<Longrightarrow> writeable_bytes b = Inr (storage b - m_wt_index b)"
  by (auto simp: writeable_bytes_def sz_sub_exact storage_def elim!: buf_invE)

lemma discardable_bytes_inv [buf_simps]:
  "buf_inv b \<Longrightarrow> discardable_bytes b = Inr (m_rd_index b - m_resver_index)"
  by (auto simp: discardable_bytes_def sz_sub_exact elim!: buf_invE)

lemma read_range_contents [buf_simps]:
  "buf_inv b \<Longrightarrow> read_range b (m_rd_index b) (m_wt_index b) = Inr (contents b)"
  by (simp add: read_range_def contents_def buf_inv_def)

lemma buf_empty_iff: "buf_inv b \<Longrightarrow> buf_empty b \<longleftrightarrow> contents b = []"
  by (auto simp: buf_empty_def length_contents simp flip: length_0_conv elim!: buf_invE)

lemma bytebuffer_new_ok:
  assumes "sz \<le> vec_max_size - m_resver_index"
  shows "\<exists>b. bytebuffer_new order sz = Inr b \<and> buf_inv b \<and> contents b = [] \<and>
             m_byteorder b = order \<and> storage b = sz + m_resver_index \<and>
             room b = vec_max_size - m_resver_index"
proof -
  have le: "sz + m_resver_index \<le> vec_max_size"
    using assms by (simp add: m_resver_index_def vec_max_size_def)
  then have "sz_add sz m_resver_index = sz + m_resver_index"
    by (simp add: sz_add_exact)
  with le show ?thesis
    by (simp add: bytebuffer_new_def vec_make_def buf_inv_def contents_def storage_def room_def)
qed

lemma discard_all_ok:
  "buf_inv b \<Longrightarrow> buf_inv (discard_all b) \<and> contents (discard_all b) = [] \<and> room b \<le> room (discard_all b)"
  by (auto simp: buf_inv_def discard_all_def contents_def storage_def room_def)

section \<open>Making space\<close>

lemma make_space_grow:
  assumes inv: "buf_inv b" and n: "n \<le> room b"
    and grow: "(m_rd_index b - m_resver_index) + (storage b - m_wt_index b) < n"
  shows "\<exists>b'. make_space b n = Inr b' \<and> buf_inv b' \<and> contents b' = contents b \<and>
    m_byteorder b' = m_byteorder b \<and> m_rd_index b' = m_rd_index b \<and>
    m_wt_index b' = m_wt_index b \<and> storage b' = m_wt_index b + n"
proof -
  let ?xs = "vdata (m_contianer b)"
  from inv have le: "m_rd_index b \<le> m_wt_index b" "m_wt_index b \<le> length ?xs"
    "length ?xs \<le> vec_max_size" "vec_max_size < size_mod"
    by (auto elim!: buf_invE)
  have sum: "n + m_wt_index b \<le> vec_max_size"
    using n le by (simp add: room_def)
  have big: "length ?xs < n + m_wt_index b"
    using grow le by (simp add: storage_def)
  have guard: "sz_add (m_rd_index b - m_resver_index) (storage b - m_wt_index b) < n"
    using grow sum le by (subst sz_add_exact) auto
  have sz: "sz_add n (m_wt_index b) = n + m_wt_index b"
    using sum le by (intro sz_add_exact) auto
  obtain v where v: "vec_resize 0 (m_contianer b) (n + m_wt_index b) = Inr v"
    and vd: "vdata v = ?xs @ replicate (n + m_wt_index b - length ?xs) 0"
    and vc: "n + m_wt_index b \<le> vcap v" "vcap v \<le> vec_max_size"
    using vec_resize_grow [OF big sum] inv by (auto elim!: buf_invE)
  have "make_space b n = Inr (b\<lparr>m_contianer := v\<rparr>)"
    using guard v inv by (simp add: make_space_def buf_simps sz)
  moreover have "contents (b\<lparr>m_contianer := v\<rparr>) = contents b"
    using le by (simp add: contents_def vd seg_append_left)
  ultimately show ?thesis
    using inv vd vc big le by (auto simp: buf_inv_def storage_def)
qed

lemma make_space_compact:
  assumes inv: "buf_inv b"
    and fits: "n \<le> (m_rd_index b - m_resver_index) + (storage b - m_wt_index b)"
  shows "\<exists>b'. make_space b n = Inr b' \<and> buf_inv b' \<and> contents b' = contents b \<and>
    m_byteorder b' = m_byteorder b \<and> m_rd_index b' = m_resver_index \<and>
    m_wt_index b' = m_resver_index + length (contents b) \<and> storage b' = storage b"
proof -
  let ?xs = "vdata (m_contianer b)" and ?c = "contents b"
  let ?v = "m_contianer b\<lparr>vdata := blit ?xs m_resver_index ?c\<rparr>"
  let ?b = "b\<lparr>m_contianer := ?v, m_rd_index := m_resver_index,
              m_wt_index := m_resver_index + length ?c\<rparr>"
  from inv have le: "m_resver_index \<le> m_rd_index b" "m_rd_index b \<le> m_wt_index b"
    "m_wt_index b \<le> length ?xs" "length ?xs \<le> vec_max_size" "vec_max_size < size_mod"
    by (auto elim!: buf_invE)
  have len: "m_resver_index + length ?c \<le> length ?xs"
    using le by (simp add: length_contents [OF inv])
  have no_wrap: "(m_rd_index b - m_resver_index) + (storage b - m_wt_index b) < size_mod"
    using le by (simp add: storage_def)
  have sz: "sz_add m_resver_index (length ?c) = m_resver_index + length ?c"
    using len le by (intro sz_add_exact) auto
  have inv': "buf_inv ?b"
    using inv len by (auto simp: buf_inv_def storage_def)
  have cont': "contents ?b = ?c"
    using len by (simp add: contents_def [of ?b] seg_blit_at)
  have "make_space b n = Inr ?b"
    using inv fits len no_wrap inv' cont'
    by (simp add: make_space_def buf_simps sz_add_exact [OF no_wrap] vec_copy_in_def sz)
  with inv' cont' len show ?thesis
    by (simp add: storage_def)
qed

lemma make_space_ok:
  assumes inv: "buf_inv b" and n: "n \<le> room b"
  shows "\<exists>b'. make_space b n = Inr b' \<and> buf_inv b' \<and> contents b' = contents b \<and>
    m_byteorder b' = m_byteorder b \<and> m_wt_index b' \<le> m_wt_index b \<and>
    m_wt_index b' + n \<le> storage b'"
proof (cases "(m_rd_index b - m_resver_index) + (storage b - m_wt_index b) < n")
  case True
  from make_space_grow [OF inv n this] show ?thesis by fastforce
next
  case False
  then have fits: "n \<le> (m_rd_index b - m_resver_index) + (storage b - m_wt_index b)" by simp
  have "m_resver_index + length (contents b) + n \<le> storage b"
    using fits inv by (auto simp: length_contents storage_def elim!: buf_invE)
  moreover have "m_resver_index + length (contents b) \<le> m_wt_index b"
    using inv by (auto simp: length_contents elim!: buf_invE)
  ultimately show ?thesis
    using make_space_compact [OF inv fits] by fastforce
qed

section \<open>Appending and discarding\<close>

lemma has_written_ok:
  assumes inv: "buf_inv b" and n: "m_wt_index b + n \<le> storage b"
  shows "\<exists>b'. has_written b n = Inr (length (contents b) + n, b') \<and> buf_inv b' \<and>
    contents b' = seg (m_rd_index b) (m_wt_index b + n) (vdata (m_contianer b)) \<and>
    m_byteorder b' = m_byteorder b \<and> m_wt_index b' = m_wt_index b + n"
proof -
  let ?b = "b\<lparr>m_wt_index := m_wt_index b + n\<rparr>"
  have sz: "sz_add (m_wt_index b) n = m_wt_index b + n"
    using inv n by (intro sz_add_exact) (auto simp: storage_def elim!: buf_invE)
  have inv': "buf_inv ?b"
    using inv n by (simp add: buf_inv_def storage_def)
  moreover have "length (contents ?b) = length (contents b) + n"
    using inv by (simp add: length_contents inv' length_contents [OF inv]) (auto elim!: buf_invE)
  ultimately show ?thesis
    using n by (simp add: has_written_def sz readable_bytes_inv) (simp add: contents_def storage_def)
qed

text \<open>Bytes that are written at the write pointer, by a copy or by \<open>recv\<close>, and then announced.\<close>

lemma receive_ok:
  assumes inv1: "buf_inv b1" and s1: "m_wt_index b1 + length xs \<le> storage b1"
  shows "\<exists>v b2. vec_copy_in (m_contianer b1) (wt_ptr b1) xs = Inr v \<and> buf_inv (b1\<lparr>m_contianer := v\<rparr>) \<and>
    contents (b1\<lparr>m_contianer := v\<rparr>) = contents b1 \<and>
    has_written (b1\<lparr>m_contianer := v\<rparr>) (length xs) = Inr (length (contents b1) + length xs, b2) \<and>
    buf_inv b2 \<and> contents b2 = contents b1 @ xs \<and> m_byteorder b2 = m_byteorder b1 \<and>
    m_wt_index b2 = m_wt_index b1 + length xs"
proof -
  let ?v = "m_contianer b1\<lparr>vdata := blit (vdata (m_contianer b1)) (m_wt_index b1) xs\<rparr>"
  let ?b = "b1\<lparr>m_contianer := ?v\<rparr>"
  have cp: "vec_copy_in (m_contianer b1) (wt_ptr b1) xs = Inr ?v"
    using s1 by (simp add: vec_copy_in_def storage_def wt_ptr_def)
  have inv2: "buf_inv ?b" and st2: "storage ?b = storage b1"
    using inv1 s1 by (simp_all add: buf_inv_def storage_def)
  have c1: "contents ?b = contents b1"
    using inv1 s1 by (simp add: contents_def buf_inv_def storage_def seg_blit_before)
  then obtain b2 where b2: "has_written ?b (length xs) = Inr (length (contents b1) + length xs, b2)"
    "buf_inv b2" "m_byteorder b2 = m_byteorder b1" "m_wt_index b2 = m_wt_index b1 + length xs"
    and c2: "contents b2 = seg (m_rd_index b1) (m_wt_index b1 + length xs) (vdata ?v)"
    using has_written_ok [OF inv2, of "length xs"] s1 st2 by auto
  have "contents b2 = contents b1 @ xs"
    using inv1 s1 by (simp add: c2) (simp add: contents_def buf_inv_def storage_def seg_blit_extend)
  with cp inv2 c1 b2 show ?thesis by blast
qed

lemma append_data_after_space:
  assumes b1: "make_space b (length xs) = Inr b1" and inv1: "buf_inv b1"
    and c1: "contents b1 = contents b" and s1: "m_wt_index b1 + length xs \<le> storage b1"
  shows "\<exists>b'. append_data b xs = Inr (length (contents b) + length xs, b') \<and> buf_inv b' \<and>
    contents b' = contents b @ xs \<and> m_byteorder b' = m_byteorder b1 \<and>
    m_wt_index b' = m_wt_index b1 + length xs"
  using receive_ok [OF inv1 s1] b1 c1
  by (auto simp: append_data_def ensure_write_space_def buf_simps)

lemma append_data_ok:
  assumes inv: "buf_inv b" and n: "length xs \<le> room b"
  shows "\<exists>b'. append_data b xs = Inr (length (contents b) + length xs, b') \<and> buf_inv b' \<and>
    contents b' = contents b @ xs \<and> m_byteorder b' = m_byteorder b \<and>
    room b - length xs \<le> room b'"
proof -
  obtain b1 where "make_space b (length xs) = Inr b1" "buf_inv b1" "contents b1 = contents b"
    "m_wt_index b1 + length xs \<le> storage b1"
    and keeps: "m_byteorder b1 = m_byteorder b" "m_wt_index b1 \<le> m_wt_index b"
    using make_space_ok [OF inv n] by blast
  from append_data_after_space [OF this(1-4)] keeps show ?thesis
    by (auto simp: room_def)
qed

lemma discard_ok:
  assumes inv: "buf_inv b" and n: "n \<le> length (contents b)"
  shows "\<exists>b'. discard b n = Inr (length (contents b) - n, b') \<and> buf_inv b' \<and>
    contents b' = drop n (contents b) \<and> m_byteorder b' = m_byteorder b \<and> room b \<le> room b'"
proof (cases "length (contents b) \<le> n")
  case True
  then show ?thesis
    using inv n discard_all_ok [OF inv]
    by (simp add: discard_def readable_bytes_inv) (simp add: discard_all_def)
next
  case False
  let ?b = "b\<lparr>m_rd_index := m_rd_index b + n\<rparr>"
  have sz: "sz_add (m_rd_index b) n = m_rd_index b + n"
    using inv n by (intro sz_add_exact) (auto simp: length_contents elim!: buf_invE)
  have inv': "buf_inv ?b"
    using inv n by (auto simp: length_contents) (auto simp: buf_inv_def storage_def)
  moreover have "contents ?b = drop n (contents b)"
    using n inv by (simp add: length_contents) (simp add: contents_def drop_seg)
  ultimately show ?thesis
    using False inv n by (simp add: discard_def readable_bytes_inv sz) (simp add: room_def)
qed

lemma discard_too_many:
  "buf_inv b \<Longrightarrow> length (contents b) < n \<Longrightarrow> discard b n = Inl AssertFailed"
  by (simp add: discard_def readable_bytes_inv)

lemma rollback_write_ok:
  assumes inv: "buf_inv b" and n: "n \<le> length (contents b)"
  shows "\<exists>b'. rollback_write b n = Inr (length (contents b) - n, b') \<and> buf_inv b' \<and>
    contents b' = take (length (contents b) - n) (contents b) \<and> m_byteorder b' = m_byteorder b"
proof (cases "length (contents b) \<le> n")
  case True
  then show ?thesis
    using inv n discard_all_ok [OF inv]
    by (simp add: rollback_write_def readable_bytes_inv) (simp add: discard_all_def)
next
  case False
  let ?b = "b\<lparr>m_wt_index := m_wt_index b - n\<rparr>"
  have sz: "sz_sub (m_wt_index b) n = m_wt_index b - n"
    using inv n by (intro sz_sub_exact) (auto simp: length_contents elim!: buf_invE)
  have inv': "buf_inv ?b"
    using inv n by (auto simp: length_contents) (auto simp: buf_inv_def storage_def)
  moreover have "contents ?b = take (m_wt_index b - m_rd_index b - n) (contents b)"
    using n inv by (simp only: length_contents) (simp add: contents_def take_seg del: diff_diff_left)
  ultimately show ?thesis
    using False inv n
    by (simp add: rollback_write_def readable_bytes_inv sz length_contents del: diff_diff_left)
qed

lemma rollback_write_too_many:
  "buf_inv b \<Longrightarrow> length (contents b) < n \<Longrightarrow> rollback_write b n = Inl AssertFailed"
  by (simp add: rollback_write_def readable_bytes_inv)

lemma append_buffer_ok:
  assumes "buf_inv b" and "buf_inv a" and "length (contents a) \<le> room b"
  shows "\<exists>b'. append_buffer b a = Inr (length (contents b) + length (contents a), b') \<and> buf_inv b' \<and>
    contents b' = contents b @ contents a"
proof -
  have "m_rd_index a + length (contents a) = m_wt_index a"
    using assms(2) by (auto simp: length_contents elim!: buf_invE)
  then have "append_buffer b a = append_data b (contents a)"
    using assms(2) by (simp add: append_buffer_def buf_simps rd_ptr_def)
  with append_data_ok [OF assms(1,3)] show ?thesis by fastforce
qed

lemma shrink_ok:
  assumes inv: "buf_inv b" and n: "m_resver_index + length (contents b) + n \<le> vec_max_size"
  shows "\<exists>b'. shrink b n = Inr b' \<and> buf_inv b' \<and> contents b' = contents b \<and>
    m_byteorder b' = m_byteorder b \<and> storage b' = m_resver_index + length (contents b) + n"
proof -
  let ?c = "contents b" and ?r = m_resver_index
  let ?v = "\<lparr>vdata = blit (replicate (?r + length ?c + n) 0) ?r ?c, vcap = ?r + length ?c + n\<rparr>"
  let ?b = "b\<lparr>m_contianer := ?v, m_rd_index := ?r, m_wt_index := ?r + length ?c\<rparr>"
  have sz: "sz_add ?r (length ?c) = ?r + length ?c" "sz_add (?r + length ?c) n = ?r + length ?c + n"
    using n by (simp_all add: sz_add_exact)
  have wt: "m_rd_index b + length ?c = m_wt_index b"
    using inv by (auto simp: length_contents elim!: buf_invE)
  have "shrink b n = Inr ?b"
    using inv n by (simp add: shrink_def buf_simps sz rd_ptr_def wt vec_make_def vec_copy_in_def)
  moreover have "buf_inv ?b"
    using n by (simp add: buf_inv_def storage_def)
  moreover have "contents ?b = ?c"
    by (simp add: contents_def [of ?b] seg_blit_at)
  ultimately show ?thesis by (simp add: storage_def)
qed

section \<open>The queue interface\<close>

text \<open>
  What the connections rely on: a first-in first-out queue of bytes. The laws are about
  an abstract queue; \<open>fifo_run\<close> runs a sequence of operations on it and \<open>spec_run\<close> is the
  same sequence on plain lists, where removing more than there is has no result.
\<close>

datatype fifo_op = Push "byte list" | Pop nat

fun spec_run :: "byte list \<Rightarrow> fifo_op list \<Rightarrow> byte list option" where
  "spec_run xs [] = Some xs"
| "spec_run xs (Push ys # ops) = spec_run (xs @ ys) ops"
| "spec_run xs (Pop n # ops) = (if n \<le> length xs then spec_run (drop n xs) ops else None)"

fun pushed :: "fifo_op list \<Rightarrow> nat" where
  "pushed [] = 0"
| "pushed (Push ys # ops) = length ys + pushed ops"
| "pushed (Pop n # ops) = pushed ops"

fun fifo_run ::
  "('b \<Rightarrow> byte list \<Rightarrow> (size_t \<times> 'b) res) \<Rightarrow> ('b \<Rightarrow> size_t \<Rightarrow> (size_t \<times> 'b) res) \<Rightarrow>
     'b \<Rightarrow> fifo_op list \<Rightarrow> 'b res" where
  "fifo_run push pop b [] = Inr b"
| "fifo_run push pop b (Push ys # ops) = rbind (push b ys) (\<lambda>(_, b'). fifo_run push pop b' ops)"
| "fifo_run push pop b (Pop n # ops) = rbind (pop b n) (\<lambda>(_, b'). fifo_run push pop b' ops)"

locale byte_fifo =
  fixes invar :: "'b \<Rightarrow> bool" and cont :: "'b \<Rightarrow> byte list" and avail :: "'b \<Rightarrow> nat"
    and push :: "'b \<Rightarrow> byte list \<Rightarrow> (size_t \<times> 'b) res"
    and pop :: "'b \<Rightarrow> size_t \<Rightarrow> (size_t \<times> 'b) res"
  assumes push_ok: "invar b \<Longrightarrow> length xs \<le> avail b \<Longrightarrow>
      \<exists>b'. push b xs = Inr (length (cont b) + length xs, b') \<and> invar b' \<and>
        cont b' = cont b @ xs \<and> avail b - length xs \<le> avail b'"
    and pop_ok: "invar b \<Longrightarrow> n \<le> length (cont b) \<Longrightarrow>
      \<exists>b'. pop b n = Inr (length (cont b) - n, b') \<and> invar b' \<and>
        cont b' = drop n (cont b) \<and> avail b \<le> avail b'"
    and pop_fail: "invar b \<Longrightarrow> length (cont b) < n \<Longrightarrow> pop b n = Inl AssertFailed"
begin

lemma run_refines:
  assumes "invar b" and "pushed ops \<le> avail b"
  shows "case spec_run (cont b) ops of
      Some ys \<Rightarrow> \<exists>b'. fifo_run push pop b ops = Inr b' \<and> invar b' \<and> cont b' = ys
    | None \<Rightarrow> fifo_run push pop b ops = Inl AssertFailed"
  using assms
proof (induction ops arbitrary: b)
  case Nil
  then show ?case by simp
next
  case (Cons op ops)
  show ?case
  proof (cases op)
    case (Push xs)
    with Cons.prems obtain b' where "push b xs = Inr (length (cont b) + length xs, b')"
      and b': "invar b'" "cont b' = cont b @ xs" "avail b - length xs \<le> avail b'"
      using push_ok [of b xs] by auto
    moreover have "pushed ops \<le> avail b'"
      using Cons.prems b' Push by simp
    ultimately show ?thesis
      using Cons.IH [of b'] Push by (simp split: option.split_asm)
  next
    case (Pop n)
    show ?thesis
    proof (cases "n \<le> length (cont b)")
      case True
      then obtain b' where "pop b n = Inr (length (cont b) - n, b')"
        and b': "invar b'" "cont b' = drop n (cont b)" "avail b \<le> avail b'"
        using pop_ok [of b n] Cons.prems by auto
      moreover have "pushed ops \<le> avail b'"
        using Cons.prems b' Pop by simp
      ultimately show ?thesis
        using Cons.IH [of b'] Pop True by (simp split: option.split_asm)
    next
      case False
      then show ?thesis
        using Cons.prems Pop pop_fail [of b n] by simp
    qed
  qed
qed

end

interpretation buf_fifo: byte_fifo buf_inv contents room append_data discard
  using append_data_ok discard_ok discard_too_many by unfold_locales blast+

section \<open>Integers and strings\<close>

interpretation wire16: wire_codec byteorder_value_s
  by unfold_locales
    (auto simp: byteorder_value_s_def conv_defs mem_bytes_def swap_bytes split: byteorder_t.splits)

interpretation wire32: wire_codec byteorder_value_l
  by unfold_locales
    (auto simp: byteorder_value_l_def conv_defs mem_bytes_def swap_bytes split: byteorder_t.splits)

interpretation wire64: wire_codec byteorder_value_ll
  by unfold_locales
    (auto simp: byteorder_value_ll_def conv_defs mem_bytes_def swap_bytes split: byteorder_t.splits)

lemma append_uint_eqs:
  "append_uint16 h b v cov =
     append_data b (mem_bytes h (if cov then byteorder_value_s h (m_byteorder b) v else v))"
  "append_uint32 h b w cov =
     append_data b (mem_bytes h (if cov then byteorder_value_l h (m_byteorder b) w else w))"
  "append_uint64 h b x cov =
     append_data b (mem_bytes h (if cov then byteorder_value_ll h (m_byteorder b) x else x))"
  by (simp_all add: append_uint16_def append_uint32_def append_uint64_def byteorder_value_s_def
      byteorder_value_l_def byteorder_value_ll_def Let_def)

lemma read_prefix:
  assumes inv: "buf_inv b" and c: "contents b = ys @ rest"
  shows "read_range b (m_rd_index b) (m_rd_index b + length ys) = Inr ys"
proof -
  have len: "m_rd_index b + length ys \<le> m_wt_index b"
    using inv c length_contents [OF inv] by (auto elim!: buf_invE)
  moreover have "seg (m_rd_index b) (m_rd_index b + length ys) (vdata (m_contianer b)) =
      take (length ys) (contents b)"
    using len by (simp add: contents_def seg_def min_def)
  ultimately show ?thesis
    using inv c by (simp add: read_range_def buf_inv_def)
qed

lemma read_integer_prefix:
  assumes "buf_inv b" and "contents b = ys @ rest" and "length ys = LENGTH('a) div 8"
  shows "read_integer h b = Inr (mem_word h ys :: 'a::len word)"
  using read_prefix [OF assms(1,2)] assms(3) by (simp add: read_integer_def rd_ptr_def)

lemma discard_prefix:
  assumes "buf_inv b" and "contents b = ys @ rest"
  shows "\<exists>b'. discard b (length ys) = Inr (length rest, b') \<and> buf_inv b' \<and> contents b' = rest \<and>
    m_byteorder b' = m_byteorder b"
  using discard_ok [OF assms(1), of "length ys"] assms(2) by auto

text \<open>
  Reading a value from its bytes, for every width at once: \<open>read\<close> and \<open>discard\<close> of the
  bytes of \<open>v\<close> in the order of the buffer give \<open>v\<close> back on any host.
\<close>

context wire_codec begin

lemma read_wire:
  assumes "buf_inv b" and "contents b = mem_bytes order v @ rest"
  shows "rbind (read_integer h b) (\<lambda>x. Inr (enc h order x)) = Inr v"
  by (simp add: read_integer_prefix [OF assms] decode_wire)

lemma retrieve_wire:
  assumes "buf_inv b" and "contents b = mem_bytes order v @ rest"
  shows "\<exists>b'. rbind (rbind (read_integer h b) (\<lambda>x. Inr (enc h order x))) (\<lambda>val.
      rbind (discard b (LENGTH('a) div 8)) (\<lambda>(_, b'). Inr (val, b'))) = Inr (v, b') \<and>
    buf_inv b' \<and> contents b' = rest \<and> m_byteorder b' = m_byteorder b"
  using read_wire [OF assms] discard_prefix [OF assms] by auto

end

lemma retrieve_uint_eqs:
  assumes "buf_inv b"
  shows "2 \<le> length (contents b) \<Longrightarrow> retrieve_uint16 h b cov =
      rbind (rbind (read_integer h b)
        (\<lambda>x. Inr (if cov then byteorder_value_s h (m_byteorder b) x else x))) (\<lambda>val.
      rbind (discard b 2) (\<lambda>(_, b'). Inr (val, b')))"
    and "4 \<le> length (contents b) \<Longrightarrow> retrieve_uint32 h b cov =
      rbind (rbind (read_integer h b)
        (\<lambda>x. Inr (if cov then byteorder_value_l h (m_byteorder b) x else x))) (\<lambda>val.
      rbind (discard b 4) (\<lambda>(_, b'). Inr (val, b')))"
    and "8 \<le> length (contents b) \<Longrightarrow> retrieve_uint64 h b cov =
      rbind (rbind (read_integer h b)
        (\<lambda>x. Inr (if cov then byteorder_value_ll h (m_byteorder b) x else x))) (\<lambda>val.
      rbind (discard b 8) (\<lambda>(_, b'). Inr (val, b')))"
  using assms
  by (simp_all add: retrieve_uint16_def read_uint16_def retrieve_uint32_def read_uint32_def
      retrieve_uint64_def read_uint64_def readable_bytes_inv)

lemma retrieve_uint16_wire:
  assumes "buf_inv b" and "contents b = mem_bytes (m_byteorder b) v @ rest"
  shows "\<exists>b'. retrieve_uint16 h b True = Inr (v, b') \<and> buf_inv b' \<and> contents b' = rest"
  using wire16.retrieve_wire [OF assms, of h] assms by (auto simp: retrieve_uint_eqs)

lemma retrieve_uint32_wire:
  assumes "buf_inv b" and "contents b = mem_bytes (m_byteorder b) v @ rest"
  shows "\<exists>b'. retrieve_uint32 h b True = Inr (v, b') \<and> buf_inv b' \<and> contents b' = rest"
  using wire32.retrieve_wire [OF assms, of h] assms by (auto simp: retrieve_uint_eqs)

lemma retrieve_uint64_wire:
  assumes "buf_inv b" and "contents b = mem_bytes (m_byteorder b) v @ rest"
  shows "\<exists>b'. retrieve_uint64 h b True = Inr (v, b') \<and> buf_inv b' \<and> contents b' = rest"
  using wire64.retrieve_wire [OF assms, of h] assms by (auto simp: retrieve_uint_eqs)

lemma find_char_inv:
  assumes inv: "buf_inv b"
  shows "find_char b c = Inr (if c \<in> set (contents b)
    then Suc (length (takeWhile (\<lambda>x. x \<noteq> c) (contents b))) else 0)"
proof (cases "c \<in> set (contents b)")
  case True
  let ?k = "length (takeWhile (\<lambda>x. x \<noteq> c) (contents b))"
  have "?k < length (contents b)"
    using True by (rule takeWhile_stops)
  then have lt: "m_rd_index b + ?k < m_wt_index b"
    using inv by (simp add: length_contents)
  then have "m_rd_index b + ?k + 1 < size_mod"
    using inv by (auto elim!: buf_invE)
  then have "sz_add (sz_sub (m_rd_index b + ?k) (m_rd_index b)) 1 = Suc ?k"
    by (simp add: sz_sub_exact sz_add_exact)
  with True lt inv show ?thesis
    by (simp add: find_char_def buf_simps rd_ptr_def wt_ptr_def Let_def)
next
  case False
  then have "takeWhile (\<lambda>x. x \<noteq> c) (contents b) = contents b"
    by (subst takeWhile_eq_all_conv) auto
  then have "length (takeWhile (\<lambda>x. x \<noteq> c) (contents b)) = length (contents b)"
    by (rule arg_cong)
  moreover have "m_rd_index b + length (contents b) = m_wt_index b"
    using inv by (auto simp: length_contents elim!: buf_invE)
  ultimately show ?thesis
    using False inv by (simp add: find_char_def buf_simps rd_ptr_def wt_ptr_def Let_def)
qed

lemma contents_prefix_of_data:
  "buf_inv b \<Longrightarrow> \<exists>rest. drop (m_rd_index b) (vdata (m_contianer b)) = contents b @ rest"
  by (metis append_take_drop_id contents_def seg_def)

lemma c_string_at_rd:
  assumes "buf_inv b" and "0 \<in> set (contents b)"
  shows "c_string (drop (m_rd_index b) (vdata (m_contianer b))) =
    Inr (takeWhile (\<lambda>x. x \<noteq> 0) (contents b))"
proof -
  obtain rest where "drop (m_rd_index b) (vdata (m_contianer b)) = contents b @ rest"
    using contents_prefix_of_data [OF assms(1)] by blast
  with assms(2) show ?thesis
    by (simp add: c_string_def takeWhile_append1 [of 0])
qed

section \<open>Reachable buffers\<close>

text \<open>
  Every buffer that the public operations produce from a new one. Sizes are bounded by
  the largest object the platform has; \<open>resize\<close> is taken to keep the readable bytes.
\<close>

inductive buf_reach :: "bytebuffer \<Rightarrow> bool" where
  reach_new: "sz \<le> vec_max_size \<Longrightarrow> bytebuffer_new order sz = Inr b \<Longrightarrow> buf_reach b"
| reach_order: "buf_reach b \<Longrightarrow> buf_reach (set_byteorder b order)"
| reach_append: "buf_reach b \<Longrightarrow> length xs \<le> vec_max_size \<Longrightarrow> append_data b xs = Inr (r, b') \<Longrightarrow>
    buf_reach b'"
| reach_ensure: "buf_reach b \<Longrightarrow> n \<le> vec_max_size \<Longrightarrow> ensure_write_space b n = Inr b' \<Longrightarrow>
    buf_reach b'"
| reach_has_written: "buf_reach b \<Longrightarrow> n \<le> vec_max_size \<Longrightarrow> has_written b n = Inr (r, b') \<Longrightarrow>
    buf_reach b'"
| reach_discard: "buf_reach b \<Longrightarrow> discard b n = Inr (r, b') \<Longrightarrow> buf_reach b'"
| reach_rollback: "buf_reach b \<Longrightarrow> rollback_write b n = Inr (r, b') \<Longrightarrow> buf_reach b'"
| reach_discard_all: "buf_reach b \<Longrightarrow> buf_reach (discard_all b)"
| reach_resize: "buf_reach b \<Longrightarrow> n \<le> vec_max_size \<Longrightarrow> m_wt_index b \<le> n + m_resver_index \<Longrightarrow>
    buf_resize b n = Inr b' \<Longrightarrow> buf_reach b'"
| reach_shrink: "buf_reach b \<Longrightarrow> n \<le> vec_max_size \<Longrightarrow> shrink b n = Inr b' \<Longrightarrow> buf_reach b'"
| reach_swap: "buf_reach b \<Longrightarrow> buf_reach a \<Longrightarrow> buf_swap b a = (b', a') \<Longrightarrow> buf_reach b'"
| reach_retrieve: "buf_reach b \<Longrightarrow> retrieve_string b = Inr (str, b') \<Longrightarrow> buf_reach b'"

lemma two_sizes_no_wrap: "m \<le> vec_max_size \<Longrightarrow> n \<le> vec_max_size \<Longrightarrow> m + n < size_mod"
  by (simp add: vec_max_size_def size_mod_def)

lemma make_space_cases:
  assumes inv: "buf_inv b" and n: "n \<le> vec_max_size"
  shows "(\<exists>b'. make_space b n = Inr b' \<and> buf_inv b' \<and> contents b' = contents b \<and>
      m_byteorder b' = m_byteorder b \<and> m_wt_index b' + n \<le> storage b') \<or>
    make_space b n = Inl LengthError \<and> room b < n"
proof (cases "(m_rd_index b - m_resver_index) + (storage b - m_wt_index b) < n \<and> room b < n")
  case False
  then consider "n \<le> room b" | "n \<le> (m_rd_index b - m_resver_index) + (storage b - m_wt_index b)"
    by linarith
  then show ?thesis
  proof cases
    case 1
    from make_space_ok [OF inv 1] show ?thesis by blast
  next
    case 2
    have "m_resver_index + length (contents b) + n \<le> storage b"
      using 2 inv by (auto simp: length_contents storage_def elim!: buf_invE)
    with make_space_compact [OF inv 2] show ?thesis by auto
  qed
next
  case True
  from inv have le: "m_rd_index b \<le> m_wt_index b" "m_wt_index b \<le> storage b"
    "storage b \<le> vcap (m_contianer b)" "vcap (m_contianer b) \<le> vec_max_size"
    by (auto simp: buf_inv_def)
  then have sz: "sz_add n (m_wt_index b) = n + m_wt_index b"
    using n by (intro sz_add_exact two_sizes_no_wrap) auto
  have "sz_add (m_rd_index b - m_resver_index) (storage b - m_wt_index b) < n"
    using True le two_sizes_no_wrap [of n 0] n by (subst sz_add_exact) auto
  moreover have "vec_max_size < n + m_wt_index b"
    using True le by (auto simp: room_def)
  then have "vec_resize 0 (m_contianer b) (n + m_wt_index b) = Inl LengthError"
    using le by (simp add: vec_resize_def Let_def storage_def)
  ultimately show ?thesis
    using inv True by (simp add: make_space_def buf_simps sz)
qed

lemma append_data_cases:
  assumes inv: "buf_inv b" and n: "length xs \<le> vec_max_size"
  shows "(\<exists>b'. append_data b xs = Inr (length (contents b) + length xs, b') \<and> buf_inv b' \<and>
      contents b' = contents b @ xs \<and> m_byteorder b' = m_byteorder b) \<or>
    append_data b xs = Inl LengthError \<and> room b < length xs"
  using make_space_cases [OF inv n] append_data_after_space [of b xs]
  by (fastforce simp: append_data_def ensure_write_space_def)

lemma has_written_inv:
  assumes "buf_inv b" and "n \<le> vec_max_size" and "has_written b n = Inr (r, b')"
  shows "buf_inv b'"
proof -
  have "m_wt_index b + n < size_mod"
    using assms(1,2) by (intro two_sizes_no_wrap) (auto simp: buf_inv_def)
  then have "m_wt_index b + n \<le> storage b"
    using assms(3) by (auto simp: has_written_def sz_add_exact res_simps)
  from has_written_ok [OF assms(1) this] assms(3) show ?thesis by auto
qed

lemma discard_inv: "buf_inv b \<Longrightarrow> discard b n = Inr (r, b') \<Longrightarrow> buf_inv b'"
  by (cases "n \<le> length (contents b)") (use discard_ok discard_too_many in fastforce)+

lemma rollback_write_inv: "buf_inv b \<Longrightarrow> rollback_write b n = Inr (r, b') \<Longrightarrow> buf_inv b'"
  by (cases "n \<le> length (contents b)") (use rollback_write_ok rollback_write_too_many in fastforce)+

lemma buf_resize_inv:
  assumes inv: "buf_inv b" and n: "n \<le> vec_max_size" "m_wt_index b \<le> n + m_resver_index"
    and r: "buf_resize b n = Inr b'"
  shows "buf_inv b' \<and> contents b' = contents b"
proof -
  let ?xs = "vdata (m_contianer b)"
  have sz: "sz_add n m_resver_index = n + m_resver_index"
    using n by (intro sz_add_exact two_sizes_no_wrap) (auto simp: m_resver_index_def vec_max_size_def)
  have le: "m_wt_index b \<le> length ?xs" "vcap (m_contianer b) \<le> vec_max_size"
    using inv by (auto simp: buf_inv_def storage_def)
  show ?thesis
  proof (cases "length ?xs < n + m_resver_index")
    case True
    then have "n + m_resver_index \<le> vec_max_size"
      using r le by (auto simp: buf_resize_def sz vec_resize_def Let_def res_simps split: if_splits)
    from vec_resize_grow [OF True this le(2), of 0] r inv True le show ?thesis
      by (auto simp: buf_resize_def sz buf_inv_def storage_def contents_def seg_append_left)
  next
    case False
    with r inv n show ?thesis
      by (auto simp: buf_resize_def sz vec_resize_def buf_inv_def storage_def contents_def seg_take)
  qed
qed

lemma shrink_inv:
  assumes inv: "buf_inv b" and n: "n \<le> vec_max_size" and r: "shrink b n = Inr b'"
  shows "buf_inv b'"
proof -
  have len: "m_resver_index + length (contents b) \<le> vec_max_size"
    using inv by (auto simp: length_contents elim!: buf_invE)
  then have sz: "sz_add m_resver_index (length (contents b)) = m_resver_index + length (contents b)"
    "sz_add (m_resver_index + length (contents b)) n = m_resver_index + length (contents b) + n"
    using n two_sizes_no_wrap [OF len n] by (simp_all add: sz_add_exact)
  then have "m_resver_index + length (contents b) + n \<le> vec_max_size"
    using r inv by (auto simp: shrink_def buf_simps vec_make_def res_simps split: if_splits)
  from shrink_ok [OF inv this] r show ?thesis by auto
qed

lemma retrieve_string_cases:
  assumes inv: "buf_inv b"
  shows "0 \<in> set (contents b) \<Longrightarrow> \<exists>b'. retrieve_string b =
      Inr (takeWhile (\<lambda>x. x \<noteq> 0) (contents b), b') \<and> buf_inv b' \<and>
      contents b' = tl (dropWhile (\<lambda>x. x \<noteq> 0) (contents b))"
    and "0 \<notin> set (contents b) \<Longrightarrow> retrieve_string b = Inr ([], b)"
proof -
  let ?k = "length (takeWhile (\<lambda>x. x \<noteq> 0) (contents b))"
  assume nul: "0 \<in> set (contents b)"
  then have "Suc ?k \<le> length (contents b)"
    using takeWhile_stops by (metis Suc_leI)
  moreover have "drop (Suc ?k) (contents b) = tl (dropWhile (\<lambda>x. x \<noteq> 0) (contents b))"
    by (simp add: drop_Suc dropWhile_eq_drop tl_drop)
  ultimately show "\<exists>b'. retrieve_string b =
      Inr (takeWhile (\<lambda>x. x \<noteq> 0) (contents b), b') \<and> buf_inv b' \<and>
      contents b' = tl (dropWhile (\<lambda>x. x \<noteq> 0) (contents b))"
    using discard_ok [OF inv, of "Suc ?k"] c_string_at_rd [OF inv nul] nul
    by (auto simp: retrieve_string_def find_char_inv [OF inv] rd_ptr_def)
next
  assume "0 \<notin> set (contents b)"
  then show "retrieve_string b = Inr ([], b)"
    by (simp add: retrieve_string_def find_char_inv [OF inv])
qed

lemma bytebuffer_new_inv:
  assumes "sz \<le> vec_max_size" and "bytebuffer_new order sz = Inr b"
  shows "buf_inv b"
proof -
  have "sz_add sz m_resver_index = sz + m_resver_index"
    using assms(1) by (intro sz_add_exact two_sizes_no_wrap)
      (auto simp: m_resver_index_def vec_max_size_def)
  then have "sz \<le> vec_max_size - m_resver_index"
    using assms(2) by (auto simp: bytebuffer_new_def vec_make_def split: if_splits)
  from bytebuffer_new_ok [OF this, of order] assms(2) show ?thesis by auto
qed

section \<open>Properties\<close>

text \<open>A concrete buffer for the instances below: four free bytes after the reserved eight.\<close>

definition sample_buf :: bytebuffer where
  "sample_buf = \<lparr>m_byteorder = lite_endian, m_contianer = \<lparr>vdata = replicate 12 0, vcap = 12\<rparr>,
     m_rd_index = 8, m_wt_index = 8\<rparr>"

lemma sample_buf_new: "bytebuffer_new lite_endian 4 = Inr sample_buf"
  by (simp add: bytebuffer_new_def vec_make_def sz_add_def size_mod_def m_resver_index_def
      vec_max_size_def sample_buf_def)

lemma sample_buf_facts [simp]:
  "buf_inv sample_buf" "contents sample_buf = []" "room sample_buf = 2 ^ 63 - 9"
  "m_byteorder sample_buf = lite_endian" "m_rd_index sample_buf = 8" "m_wt_index sample_buf = 8"
  "storage sample_buf = 12"
  by (simp_all add: sample_buf_def buf_inv_def contents_def room_def storage_def
      m_resver_index_def vec_max_size_def)

text \<open>
  C22. The index invariant of the picture in \<^verbatim>\<open>bytebuffer.h\<close> (reserved index
  \<open>\<le>\<close> read index \<open>\<le>\<close> write index \<open>\<le>\<close> size \<open>\<le>\<close> capacity) holds in every buffer that
  the public operations produce from a new one, for sizes up to the largest object and
  \<open>resize\<close> calls that keep the readable bytes.
\<close>

theorem buf_reach_inv: "buf_reach b \<Longrightarrow> buf_inv b"
proof (induction rule: buf_reach.induct)
  case (reach_append b xs r b')
  then show ?case using append_data_cases [of b xs] by auto
next
  case (reach_ensure b n b')
  then show ?case using make_space_cases [of b n] by (auto simp: ensure_write_space_def)
next
  case (reach_swap b a b' a')
  then show ?case by (auto simp: buf_swap_def buf_inv_def storage_def)
next
  case (reach_retrieve b str b')
  then show ?case
    by (cases "0 \<in> set (contents b)") (use retrieve_string_cases in fastforce)+
next
  case (reach_order b order)
  then show ?case by (simp add: set_byteorder_def buf_inv_def storage_def)
qed (blast dest: bytebuffer_new_inv has_written_inv discard_inv rollback_write_inv
      discard_all_ok buf_resize_inv shrink_inv)+

theorem buf_reach_inv_witness: "buf_reach sample_buf \<and> buf_inv sample_buf"
proof -
  have "buf_reach sample_buf"
    by (rule reach_new [OF _ sample_buf_new]) (simp add: vec_max_size_def)
  with buf_reach_inv [OF this] show ?thesis by simp
qed

text \<open>
  C4. The buffer implements a first-in first-out queue of bytes: any sequence of
  \<open>append\<close> and \<open>discard\<close> calls that fits in memory leaves exactly the bytes that the same
  sequence leaves on lists, through every reallocation and every move of the readable
  bytes to the front; a sequence that discards more than is readable fails its assertion.
\<close>

theorem buf_fifo_refinement:
  assumes "buf_inv b" and "pushed ops \<le> room b"
  shows "case spec_run (contents b) ops of
      Some ys \<Rightarrow> \<exists>b'. fifo_run append_data discard b ops = Inr b' \<and> buf_inv b' \<and> contents b' = ys
    | None \<Rightarrow> fifo_run append_data discard b ops = Inl AssertFailed"
  using assms by (rule buf_fifo.run_refines)

theorem buf_fifo_refinement_witness:
  "(\<exists>b'. fifo_run append_data discard sample_buf [Push [1, 2, 3], Pop 2, Push [4, 5, 6, 7]] = Inr b' \<and>
      buf_inv b' \<and> contents b' = [3, 4, 5, 6, 7]) \<and>
   fifo_run append_data discard sample_buf [Push [1], Pop 2] = Inl AssertFailed"
  using buf_fifo_refinement [of sample_buf "[Push [1, 2, 3], Pop 2, Push [4, 5, 6, 7]]"]
    buf_fifo_refinement [of sample_buf "[Push [1], Pop 2]"] by simp



text \<open>
  \<open>ensure_write_space\<close> keeps the readable bytes and provides the space it is
  asked for; the vector is only enlarged, to exactly the size needed, when the discardable
  and the writable bytes together are not enough, otherwise the readable bytes are moved
  to the front in the same storage.
\<close>

theorem ensure_write_space_spec:
  assumes inv: "buf_inv b" and n: "n \<le> room b"
  shows "\<exists>b'. ensure_write_space b n = Inr b' \<and> buf_inv b' \<and> contents b' = contents b \<and>
    m_wt_index b' + n \<le> storage b' \<and>
    storage b' = (if (m_rd_index b - m_resver_index) + (storage b - m_wt_index b) < n
                  then m_wt_index b + n else storage b)"
proof (cases "(m_rd_index b - m_resver_index) + (storage b - m_wt_index b) < n")
  case True
  from make_space_grow [OF inv n True] True show ?thesis
    by (auto simp: ensure_write_space_def)
next
  case False
  then have fits: "n \<le> (m_rd_index b - m_resver_index) + (storage b - m_wt_index b)" by simp
  then have "m_resver_index + length (contents b) + n \<le> storage b"
    using inv by (auto simp: length_contents storage_def elim!: buf_invE)
  with make_space_compact [OF inv fits] False show ?thesis
    by (auto simp: ensure_write_space_def)
qed

theorem ensure_write_space_spec_witness:
  "\<exists>b'. ensure_write_space sample_buf 6 = Inr b' \<and> contents b' = [] \<and> storage b' = 14"
  using ensure_write_space_spec [of sample_buf 6]
  by (auto simp: m_resver_index_def)

text \<open>
  \<open>rollback_write\<close> takes back the last bytes written and only those, failing its
  assertion when asked for more than is readable, and \<open>shrink\<close> keeps the readable bytes in a
  vector of exactly the documented size: reserved, readable and requested spare bytes.
\<close>

theorem rollback_shrink_spec:
  assumes inv: "buf_inv b"
  shows "(if k \<le> length (contents b)
      then \<exists>b'. rollback_write b k = Inr (length (contents b) - k, b') \<and> buf_inv b' \<and>
        contents b' = take (length (contents b) - k) (contents b)
      else rollback_write b k = Inl AssertFailed) \<and>
    (m_resver_index + length (contents b) + n \<le> vec_max_size \<longrightarrow>
      (\<exists>b'. shrink b n = Inr b' \<and> buf_inv b' \<and> contents b' = contents b \<and>
        storage b' = m_resver_index + length (contents b) + n))"
  using rollback_write_ok [OF inv] rollback_write_too_many [OF inv] shrink_ok [OF inv] by fastforce

theorem rollback_shrink_spec_witness:
  "rollback_write sample_buf 1 = Inl AssertFailed \<and>
   (\<exists>b'. shrink sample_buf 2 = Inr b' \<and> contents b' = [] \<and> storage b' = 10)"
  using rollback_shrink_spec [of sample_buf 1 2]
  by (auto simp: m_resver_index_def vec_max_size_def)

text \<open>
  Appending an integer to an empty buffer and retrieving it on the same host gives
  the value back and leaves the buffer empty, for each width and for both values of the
  conversion flag.
\<close>

theorem uint_append_retrieve:
  assumes "buf_inv b" and "contents b = []" and "8 \<le> room b"
  shows "(\<exists>b1 b2. append_uint16 h b v cov = Inr (2, b1) \<and> retrieve_uint16 h b1 cov = Inr (v, b2) \<and>
      buf_inv b2 \<and> contents b2 = []) \<and>
    (\<exists>b1 b2. append_uint32 h b w cov = Inr (4, b1) \<and> retrieve_uint32 h b1 cov = Inr (w, b2) \<and>
      buf_inv b2 \<and> contents b2 = []) \<and>
    (\<exists>b1 b2. append_uint64 h b x cov = Inr (8, b1) \<and> retrieve_uint64 h b1 cov = Inr (x, b2) \<and>
      buf_inv b2 \<and> contents b2 = [])"
proof -
  have app: "\<exists>b1. append_data b ys = Inr (length ys, b1) \<and> buf_inv b1 \<and> contents b1 = ys @ [] \<and>
      m_byteorder b1 = m_byteorder b" if "length ys \<le> 8" for ys
    using append_data_ok [OF assms(1), of ys] that assms(2,3) by auto
  let ?v = "if cov then byteorder_value_s h (m_byteorder b) v else v"
  let ?w = "if cov then byteorder_value_l h (m_byteorder b) w else w"
  let ?x = "if cov then byteorder_value_ll h (m_byteorder b) x else x"
  obtain b1 where b1: "append_data b (mem_bytes h ?v) = Inr (2, b1)" "buf_inv b1"
    "contents b1 = mem_bytes h ?v @ []" "m_byteorder b1 = m_byteorder b"
    using app [of "mem_bytes h ?v"] by auto
  have "retrieve_uint16 h b1 cov = rbind (discard b1 2) (\<lambda>(_, b'). Inr (v, b'))"
    using read_integer_prefix [OF b1(2,3), where 'a = 16] b1
    by (simp add: retrieve_uint_eqs mem_word_mem_bytes wire16.enc_involutive)
  moreover obtain b4 where b4: "append_data b (mem_bytes h ?w) = Inr (4, b4)" "buf_inv b4"
    "contents b4 = mem_bytes h ?w @ []" "m_byteorder b4 = m_byteorder b"
    using app [of "mem_bytes h ?w"] by auto
  moreover have "retrieve_uint32 h b4 cov = rbind (discard b4 4) (\<lambda>(_, b'). Inr (w, b'))"
    using read_integer_prefix [OF b4(2,3), where 'a = 32] b4
    by (simp add: retrieve_uint_eqs mem_word_mem_bytes wire32.enc_involutive)
  moreover obtain b8 where b8: "append_data b (mem_bytes h ?x) = Inr (8, b8)" "buf_inv b8"
    "contents b8 = mem_bytes h ?x @ []" "m_byteorder b8 = m_byteorder b"
    using app [of "mem_bytes h ?x"] by auto
  moreover have "retrieve_uint64 h b8 cov = rbind (discard b8 8) (\<lambda>(_, b'). Inr (x, b'))"
    using read_integer_prefix [OF b8(2,3), where 'a = 64] b8
    by (simp add: retrieve_uint_eqs mem_word_mem_bytes wire64.enc_involutive)
  ultimately show ?thesis
    using b1 discard_prefix [OF b1(2,3)] discard_prefix [OF b4(2,3)] discard_prefix [OF b8(2,3)]
    by (fastforce simp: append_uint_eqs)
qed

theorem uint_append_retrieve_witness:
  "\<exists>b1 b2. append_uint32 big_endian sample_buf 0xDEADBEEF True = Inr (4, b1) \<and>
     retrieve_uint32 big_endian b1 True = Inr (0xDEADBEEF, b2) \<and> contents b2 = []"
  using uint_append_retrieve [of sample_buf big_endian 0 True "0xDEADBEEF" 0] by auto

text \<open>
  C31. Between machines: with the conversion flag, the bytes appended are the bytes of
  the value in the byte order of the buffer, whatever the host that writes, and any host
  that finds these bytes in front of a buffer with this order retrieves the value and
  leaves the bytes behind it.
\<close>

theorem uint_wire_across_hosts:
  assumes "buf_inv b" and "8 \<le> room b" and "buf_inv c" and "buf_inv d" and "buf_inv e"
    and "contents c = mem_bytes (m_byteorder c) (v :: 16 word) @ rest"
    and "contents d = mem_bytes (m_byteorder d) (w :: 32 word) @ rest"
    and "contents e = mem_bytes (m_byteorder e) (x :: 64 word) @ rest"
  shows "(\<exists>b'. append_uint16 h b v True = Inr (length (contents b) + 2, b') \<and>
        contents b' = contents b @ mem_bytes (m_byteorder b) v) \<and>
    (\<exists>b'. append_uint32 h b w True = Inr (length (contents b) + 4, b') \<and>
        contents b' = contents b @ mem_bytes (m_byteorder b) w) \<and>
    (\<exists>b'. append_uint64 h b x True = Inr (length (contents b) + 8, b') \<and>
        contents b' = contents b @ mem_bytes (m_byteorder b) x) \<and>
    (\<exists>c'. retrieve_uint16 h' c True = Inr (v, c') \<and> contents c' = rest) \<and>
    (\<exists>d'. retrieve_uint32 h' d True = Inr (w, d') \<and> contents d' = rest) \<and>
    (\<exists>e'. retrieve_uint64 h' e True = Inr (x, e') \<and> contents e' = rest)"
  using append_data_ok [OF assms(1), of "mem_bytes (m_byteorder b) v"]
    append_data_ok [OF assms(1), of "mem_bytes (m_byteorder b) w"]
    append_data_ok [OF assms(1), of "mem_bytes (m_byteorder b) x"]
    retrieve_uint16_wire [OF assms(3,6), of h'] retrieve_uint32_wire [OF assms(4,7), of h']
    retrieve_uint64_wire [OF assms(5,8), of h'] assms(2)
  by (auto simp: append_uint_eqs wire16.mem_enc wire32.mem_enc wire64.mem_enc)

theorem uint_wire_across_hosts_witness:
  "\<exists>c c'. contents c = mem_bytes lite_endian (0x1234 :: 16 word) \<and>
     retrieve_uint16 big_endian c True = Inr (0x1234, c') \<and> contents c' = []"
proof -
  have ex: "\<exists>c. buf_inv c \<and> m_byteorder c = lite_endian \<and> contents c = ys"
    if "length ys \<le> 8" for ys
    using append_data_ok [of sample_buf ys] that by auto
  obtain c where "buf_inv c" "m_byteorder c = lite_endian"
    "contents c = mem_bytes lite_endian (0x1234 :: 16 word)"
    using ex [of "mem_bytes lite_endian (0x1234 :: 16 word)"] by auto
  moreover obtain d where "buf_inv d" "m_byteorder d = lite_endian"
    "contents d = mem_bytes lite_endian (0 :: 32 word)"
    using ex [of "mem_bytes lite_endian (0 :: 32 word)"] by auto
  moreover obtain e where "buf_inv e" "m_byteorder e = lite_endian"
    "contents e = mem_bytes lite_endian (0 :: 64 word)"
    using ex [of "mem_bytes lite_endian (0 :: 64 word)"] by auto
  ultimately show ?thesis
    using uint_wire_across_hosts [of sample_buf c d e "0x1234" "[]" 0 0 lite_endian big_endian]
    by auto
qed

text \<open>
  A string without null bytes, appended from null-terminated memory and followed by a
  null byte, is retrieved unchanged from an empty buffer.
\<close>

theorem string_roundtrip:
  assumes inv: "buf_inv b" and empty: "contents b = []" and str: "0 \<notin> set str"
    and r: "length str < room b"
  shows "\<exists>b1 b2 b3. append_str b (str @ 0 # junk) = Inr (length str, b1) \<and>
    append_uint8 b1 0 = Inr (Suc (length str), b2) \<and>
    retrieve_string b2 = Inr (str, b3) \<and> buf_inv b3 \<and> contents b3 = []"
proof -
  have tw: "takeWhile (\<lambda>c. c \<noteq> 0) (str @ 0 # ys) = str" for ys
    using str by (induction str) auto
  obtain b1 where b1: "append_data b str = Inr (length str, b1)" "buf_inv b1" "contents b1 = str"
    "room b - length str \<le> room b1"
    using append_data_ok [OF inv, of str] empty r by auto
  have "Suc 0 \<le> room b1" using b1(4) r by linarith
  then obtain b2 where b2: "append_data b1 [0] = Inr (Suc (length str), b2)" "buf_inv b2"
    "contents b2 = str @ [0]"
    using append_data_ok [of b1 "[0]"] b1(2-4) r by auto
  have "dropWhile (\<lambda>c. c \<noteq> 0) (str @ [0]) = [0]"
    using str by (induction str) auto
  then show ?thesis
    using b1(1) b2 retrieve_string_cases(1) [OF b2(2)] tw [of junk] tw [of "[]"]
    by (auto simp: append_str_def append_uint8_def c_string_def)
qed

theorem string_roundtrip_witness:
  "\<exists>b1 b2 b3. append_str sample_buf [104, 105, 0, 33] = Inr (2, b1) \<and>
     append_uint8 b1 0 = Inr (3, b2) \<and> retrieve_string b2 = Inr ([104, 105], b3)"
  using string_roundtrip [of sample_buf "[104, 105]" "[33]"] by fastforce

text \<open>
  \<open>find_char\<close> returns the distance, counted from one, to the first occurrence of
  the byte among the readable ones, or zero; \<open>retrieve_string\<close> returns the bytes before the
  first null byte and consumes them and it, and without a null byte returns the empty
  string and consumes nothing.
\<close>

theorem retrieve_string_spec:
  assumes inv: "buf_inv b"
  shows "find_char b c = Inr (if c \<in> set (contents b)
      then Suc (length (takeWhile (\<lambda>x. x \<noteq> c) (contents b))) else 0) \<and>
    (if 0 \<in> set (contents b)
     then \<exists>b'. retrieve_string b = Inr (takeWhile (\<lambda>x. x \<noteq> 0) (contents b), b') \<and> buf_inv b' \<and>
       contents b' = tl (dropWhile (\<lambda>x. x \<noteq> 0) (contents b))
     else retrieve_string b = Inr ([], b))"
  using find_char_inv [OF inv] retrieve_string_cases [OF inv] by simp

theorem retrieve_string_spec_witness:
  "find_char sample_buf 10 = Inr 0 \<and> retrieve_string sample_buf = Inr ([], sample_buf)"
  using retrieve_string_spec [of sample_buf 10] by simp

section \<open>Where the buffer departs from its documentation\<close>

lemmas sample_eval = sample_buf_def append_data_def ensure_write_space_def make_space_def
  discardable_bytes_def writeable_bytes_def readable_bytes_def storage_def m_resver_index_def
  sz_add_def sz_sub_def size_mod_def read_range_def vec_copy_in_def blit_def seg_def wt_ptr_def
  has_written_def discard_all_def contents_def as_string_def rd_ptr_def c_string_def Let_def

text \<open>
  \<open>as_string\<close>, documented to return the readable area as a string, looks for the null
  byte beyond it: after writing three bytes, discarding them and writing one, it returns
  two stale bytes after the readable one.
\<close>

theorem as_string_stale:
  "\<exists>b1 b3. append_data sample_buf [97, 98, 99] = Inr (3, b1) \<and>
     append_data (discard_all b1) [120] = Inr (1, b3) \<and>
     contents b3 = [120] \<and> as_string b3 = Inr [120, 98, 99]"
proof -
  let ?b1 = "sample_buf\<lparr>m_contianer := \<lparr>vdata = replicate 8 0 @ [97, 98, 99, 0], vcap = 12\<rparr>,
               m_wt_index := 11\<rparr>"
  let ?b3 = "sample_buf\<lparr>m_contianer := \<lparr>vdata = replicate 8 0 @ [120, 98, 99, 0], vcap = 12\<rparr>,
               m_wt_index := 9\<rparr>"
  have "append_data sample_buf [97, 98, 99] = Inr (3, ?b1)"
    by (simp add: sample_eval)
  moreover have "append_data (discard_all ?b1) [120] = Inr (1, ?b3)"
    by (simp add: sample_eval)
  moreover have "contents ?b3 = [120]" and "as_string ?b3 = Inr [120, 98, 99]"
    by (simp_all add: sample_eval)
  ultimately show ?thesis by blast
qed

text \<open>
  \<open>resize\<close> to fewer bytes than are readable leaves the indices where they were: the
  invariant breaks, the number of writable bytes wraps around to almost \<open>2 ^ 64\<close>, and the
  next \<open>append\<close> reads outside the vector instead of enlarging it.
\<close>

theorem resize_below_readable:
  assumes inv: "buf_inv b" and n: "n < length (contents b)" and xs: "length xs \<le> vec_max_size"
  shows "\<exists>b'. buf_resize b n = Inr b' \<and> \<not> buf_inv b' \<and>
    writeable_bytes b' = Inr (size_mod - (m_wt_index b - (n + m_resver_index))) \<and>
    append_data b' xs = Inl OutOfRange"
proof -
  let ?k = "m_wt_index b - (n + m_resver_index)" and ?d = "m_rd_index b - m_resver_index"
  let ?b = "b\<lparr>m_contianer := (m_contianer b)\<lparr>vdata := take (n + m_resver_index) (vdata (m_contianer b))\<rparr>\<rparr>"
  from inv have le: "m_resver_index \<le> m_rd_index b" "m_rd_index b \<le> m_wt_index b"
    "m_wt_index b \<le> length (vdata (m_contianer b))"
    "length (vdata (m_contianer b)) \<le> vcap (m_contianer b)"
    "vcap (m_contianer b) \<le> vec_max_size" by (auto elim!: buf_invE)
  have wt: "n + m_resver_index < m_wt_index b" and dk: "?d < ?k" and k: "?k \<le> vec_max_size"
    using n le by (auto simp: length_contents [OF inv])
  have "m_wt_index b < size_mod" using le by simp
  have st: "storage ?b = n + m_resver_index"
    using wt le by (simp add: storage_def)
  have w: "writeable_bytes ?b = Inr (size_mod - ?k)"
    using wt le by (simp add: writeable_bytes_def st sz_sub_wraps)
  have d: "discardable_bytes ?b = Inr ?d"
    using le by (simp add: discardable_bytes_def sz_sub_exact)
  have "sz_add ?d (size_mod - ?k) = size_mod - (?k - ?d)"
    using dk k by (subst sz_add_exact) (auto simp: vec_max_size_def size_mod_def)
  then have guard: "\<not> sz_add ?d (size_mod - ?k) < length xs"
    using dk k xs by (auto simp: vec_max_size_def size_mod_def)
  have "readable_bytes ?b = Inr (m_wt_index b - m_rd_index b)"
    using le by (simp add: readable_bytes_def sz_sub_exact)
  moreover have "read_range ?b (m_rd_index b) (m_wt_index b) = Inl OutOfRange"
    using wt by (simp add: read_range_def st)
  ultimately have "append_data ?b xs = Inl OutOfRange"
    using guard by (simp add: append_data_def ensure_write_space_def make_space_def w d)
  moreover have "buf_resize b n = Inr ?b"
    using wt le by (simp add: buf_resize_def sz_add_exact vec_resize_def)
  moreover have "\<not> buf_inv ?b"
    using wt by (simp add: buf_inv_def st)
  ultimately show ?thesis using w by blast
qed

theorem resize_below_readable_witness:
  "\<exists>b b'. append_data sample_buf [1, 2, 3] = Inr (3, b) \<and> buf_resize b 1 = Inr b' \<and>
     append_data b' [4] = Inl OutOfRange"
proof -
  obtain b where "append_data sample_buf [1, 2, 3] = Inr (3, b)" "buf_inv b" "contents b = [1, 2, 3]"
    using append_data_ok [of sample_buf "[1, 2, 3]"] by auto
  with resize_below_readable [of b 1 "[4]"] show ?thesis by (auto simp: vec_max_size_def)
qed

end
