(* ===== verification/Net_Address.thy ===== *)
theory Net_Address
  imports Endian
begin

text \<open>
  \<^verbatim>\<open>src/muradin/net/net_address.h\<close> and \<^verbatim>\<open>net_address.cpp\<close>: IPv4 endpoints. The
  conversions \<open>inet_pton\<close> and \<open>inet_ntop\<close> of the system are parameters (on the stored
  32-bit address); \<open>junk\<close> is what the uninitialised address field holds when
  \<open>inet_pton\<close> fails, a case the constructors do not check.
\<close>

record endpoint_v4 =
  sin_family :: nat
  sin_port :: "16 word"
  s_addr :: "32 word"

definition AF_INET :: nat where
  "AF_INET = 2"

definition INADDR_ANY :: "32 word" where
  "INADDR_ANY = 0"

definition kPortAny :: "16 word" where
  "kPortAny = 0"

definition endpoint_ip_port ::
  "byteorder_t \<Rightarrow> (string \<Rightarrow> 32 word option) \<Rightarrow> 32 word \<Rightarrow> string \<Rightarrow> 16 word \<Rightarrow> endpoint_v4" where
  "endpoint_ip_port h inet_pton junk ip port =
     \<lparr>sin_family = AF_INET, sin_port = uint16_hton h port,
      s_addr = (if length ip = 0 then INADDR_ANY
                else case inet_pton ip of Some a \<Rightarrow> a | None \<Rightarrow> junk)\<rparr>"

definition endpoint_ip ::
  "byteorder_t \<Rightarrow> (string \<Rightarrow> 32 word option) \<Rightarrow> 32 word \<Rightarrow> string \<Rightarrow> endpoint_v4" where
  "endpoint_ip h inet_pton junk ip =
     \<lparr>sin_family = AF_INET, sin_port = uint16_hton h kPortAny,
      s_addr = (case inet_pton ip of Some a \<Rightarrow> a | None \<Rightarrow> junk)\<rparr>"

definition endpoint_port :: "byteorder_t \<Rightarrow> 16 word \<Rightarrow> endpoint_v4" where
  "endpoint_port h port =
     \<lparr>sin_family = AF_INET, sin_port = uint16_hton h port, s_addr = INADDR_ANY\<rparr>"

definition endpoint_default :: "byteorder_t \<Rightarrow> endpoint_v4" where
  "endpoint_default h =
     \<lparr>sin_family = AF_INET, sin_port = uint16_hton h kPortAny, s_addr = INADDR_ANY\<rparr>"

definition endpoint_of_address :: "endpoint_v4 \<Rightarrow> endpoint_v4" where
  "endpoint_of_address address = address"

definition get_ip :: "(32 word \<Rightarrow> string) \<Rightarrow> endpoint_v4 \<Rightarrow> string" where
  "get_ip inet_ntop e = inet_ntop (s_addr e)"

definition get_port :: "byteorder_t \<Rightarrow> endpoint_v4 \<Rightarrow> 16 word" where
  "get_port h e = uint16_ntoh h (sin_port e)"

definition address_any :: "(32 word \<Rightarrow> string) \<Rightarrow> string" where
  "address_any inet_ntop = inet_ntop INADDR_ANY"

definition port_any :: "16 word" where
  "port_any = kPortAny"

section \<open>Properties\<close>

lemma hton_ntoh16: "uint16_ntoh h (uint16_hton h v) = v"
  by (simp add: uint16_ntoh_def uint16_hton_def be16toh_def htobe16_def swap_2_bytes_involutive)

text \<open>
  The port of an endpoint is stored in network byte order (most significant byte
  first in memory) on every host, and \<open>get_port\<close> returns the port the endpoint was
  constructed with; the constructors without a port give \<open>port_any\<close>.
\<close>

theorem endpoint_port_roundtrip:
  "get_port h (endpoint_ip_port h inet_pton junk ip port) = port \<and>
   get_port h (endpoint_port h port) = port \<and>
   get_port h (endpoint_ip h inet_pton junk ip) = port_any \<and>
   get_port h (endpoint_default h) = port_any \<and>
   mem_bytes h (sin_port (endpoint_ip_port h inet_pton junk ip port)) = rev (le_bytes port)"
proof -
  have "mem_bytes h (uint16_hton h port) = rev (le_bytes port)"
    by (cases h) (simp_all add: uint16_hton_def be16toh_def htobe16_def mem_bytes_def swap_bytes)
  then show ?thesis
    by (simp add: get_port_def endpoint_ip_port_def endpoint_port_def endpoint_ip_def
        endpoint_default_def port_any_def hton_ntoh16)
qed

end
