(* ===== verification/Time_Stamp.thy ===== *)
theory Time_Stamp
  imports Prelude
begin

text \<open>
  \<^verbatim>\<open>src/muradin/base/timestamp.h\<close> and \<^verbatim>\<open>timestamp.cpp\<close>: microseconds since the
  epoch, their comparison and their printing. The \<open>printf\<close> conversions that the code
  uses are written out; \<open>gmtime_r\<close> and \<open>gettimeofday\<close> of the system are parameters.
  The two functions over \<open>double\<close> (\<open>time_difference\<close>, \<open>add_time\<close>) are in \<open>Time_Double\<close>.
\<close>

section \<open>Decimal conversions of printf\<close>

fun dec_nat :: "nat \<Rightarrow> string" where
  "dec_nat n = (if n < 10 then [char_of (48 + n)] else dec_nat (n div 10) @ [char_of (48 + n mod 10)])"

declare dec_nat.simps [simp del]

text \<open>\<open>%0wd\<close> (or \<open>%wd\<close> with the fill character a space): the width counts the sign; zeros go after it.\<close>

definition fmt_pad :: "char \<Rightarrow> nat \<Rightarrow> int \<Rightarrow> string" where
  "fmt_pad fill w i =
     (let digits = dec_nat (nat \<bar>i\<bar>); sign = (if i < 0 then ''-'' else '''');
          pad = replicate (w - (length sign + length digits)) fill
      in if fill = CHR ''0'' then sign @ pad @ digits else pad @ sign @ digits)"

definition fmt_d :: "int \<Rightarrow> string" where
  "fmt_d i = fmt_pad (CHR '' '') 0 i"

text \<open>\<open>snprintf\<close> into a buffer of \<open>n\<close> characters keeps at most \<open>n - 1\<close> of them.\<close>

definition snprintf_into :: "nat \<Rightarrow> string \<Rightarrow> string" where
  "snprintf_into n s = take (n - 1) s"

text \<open>Division and remainder of C++ truncate towards zero.\<close>

definition c_div :: "int \<Rightarrow> int \<Rightarrow> int" where
  "c_div a b = sgn a * sgn b * (\<bar>a\<bar> div \<bar>b\<bar>)"

definition c_mod :: "int \<Rightarrow> int \<Rightarrow> int" where
  "c_mod a b = a - b * c_div a b"

section \<open>The class\<close>

record timestamp =
  microSecondsSinceEpoch :: int

record tm_time =
  tm_year :: int
  tm_mon :: int
  tm_mday :: int
  tm_hour :: int
  tm_min :: int
  tm_sec :: int

definition kMicroSecondsPerSecond :: int where
  "kMicroSecondsPerSecond = 1000 * 1000"

definition timestamp_of :: "int \<Rightarrow> timestamp" where
  "timestamp_of microseconds = \<lparr>microSecondsSinceEpoch = microseconds\<rparr>"

definition timestamp_default :: timestamp where
  "timestamp_default = \<lparr>microSecondsSinceEpoch = 0\<rparr>"

definition timestamp_swap :: "timestamp \<Rightarrow> timestamp \<Rightarrow> timestamp \<times> timestamp" where
  "timestamp_swap this that =
     (this\<lparr>microSecondsSinceEpoch := microSecondsSinceEpoch that\<rparr>,
      that\<lparr>microSecondsSinceEpoch := microSecondsSinceEpoch this\<rparr>)"

definition timestamp_invalid :: timestamp where
  "timestamp_invalid = timestamp_default"

definition timestamp_valid :: "timestamp \<Rightarrow> bool" where
  "timestamp_valid t = (microSecondsSinceEpoch t > 0)"

definition micro_seconds_since_epoch :: "timestamp \<Rightarrow> int" where
  "micro_seconds_since_epoch t = microSecondsSinceEpoch t"

definition seconds_since_epoch :: "timestamp \<Rightarrow> int" where
  "seconds_since_epoch t = c_div (microSecondsSinceEpoch t) kMicroSecondsPerSecond"

text \<open>\<open>tv\<close> is what \<open>gettimeofday\<close> reports: seconds and microseconds.\<close>

definition timestamp_now :: "int \<times> int \<Rightarrow> timestamp" where
  "timestamp_now tv = timestamp_of (fst tv * kMicroSecondsPerSecond + snd tv)"

definition timestamp_less :: "timestamp \<Rightarrow> timestamp \<Rightarrow> bool" where
  "timestamp_less lhs rhs = (microSecondsSinceEpoch lhs < microSecondsSinceEpoch rhs)"

definition timestamp_eq :: "timestamp \<Rightarrow> timestamp \<Rightarrow> bool" where
  "timestamp_eq lhs rhs = (microSecondsSinceEpoch lhs = microSecondsSinceEpoch rhs)"

text \<open>The comparisons make time stamps a linear order, as \<open>boost::less_than_comparable\<close> expects.\<close>

instantiation timestamp_ext :: (linorder) linorder
begin

definition less_eq_timestamp_ext :: "'a timestamp_ext \<Rightarrow> 'a timestamp_ext \<Rightarrow> bool" where
  "less_eq_timestamp_ext a b \<longleftrightarrow> microSecondsSinceEpoch a < microSecondsSinceEpoch b \<or>
     microSecondsSinceEpoch a = microSecondsSinceEpoch b \<and> timestamp.more a \<le> timestamp.more b"

definition less_timestamp_ext :: "'a timestamp_ext \<Rightarrow> 'a timestamp_ext \<Rightarrow> bool" where
  "less_timestamp_ext a b \<longleftrightarrow> a \<le> b \<and> \<not> b \<le> a"

instance
  by standard (auto simp: less_eq_timestamp_ext_def less_timestamp_ext_def)

end

definition to_string :: "timestamp \<Rightarrow> string" where
  "to_string t =
     (let seconds = c_div (microSecondsSinceEpoch t) kMicroSecondsPerSecond;
          microseconds = c_mod (microSecondsSinceEpoch t) kMicroSecondsPerSecond
      in snprintf_into 31 (fmt_d seconds @ ''.'' @ fmt_pad (CHR ''0'') 6 microseconds))"

definition to_formatted_string :: "(int \<Rightarrow> tm_time) \<Rightarrow> timestamp \<Rightarrow> string" where
  "to_formatted_string gmtime t =
     (let seconds = c_div (microSecondsSinceEpoch t) kMicroSecondsPerSecond;
          microseconds = to_int32 (c_mod (microSecondsSinceEpoch t) kMicroSecondsPerSecond);
          tm = gmtime seconds
      in snprintf_into 32
           (fmt_pad (CHR '' '') 4 (tm_year tm + 1900) @ fmt_pad (CHR ''0'') 2 (tm_mon tm + 1) @
            fmt_pad (CHR ''0'') 2 (tm_mday tm) @ '' '' @ fmt_pad (CHR ''0'') 2 (tm_hour tm) @ '':'' @
            fmt_pad (CHR ''0'') 2 (tm_min tm) @ '':'' @ fmt_pad (CHR ''0'') 2 (tm_sec tm) @ ''.'' @
            fmt_pad (CHR ''0'') 6 microseconds))"

definition to_formatted_string1 :: "(int \<Rightarrow> tm_time) \<Rightarrow> timestamp \<Rightarrow> string" where
  "to_formatted_string1 gmtime t =
     (let seconds = c_div (microSecondsSinceEpoch t) kMicroSecondsPerSecond;
          microseconds = to_int32 (c_mod (microSecondsSinceEpoch t) kMicroSecondsPerSecond);
          tm = gmtime seconds
      in snprintf_into 32
           (fmt_pad (CHR '' '') 4 (tm_year tm + 1900) @ fmt_pad (CHR ''0'') 2 (tm_mon tm + 1) @
            fmt_pad (CHR ''0'') 2 (tm_mday tm) @ ''-'' @ fmt_pad (CHR ''0'') 2 (tm_hour tm) @
            fmt_pad (CHR ''0'') 2 (tm_min tm) @ fmt_pad (CHR ''0'') 2 (tm_sec tm) @ ''-'' @
            fmt_pad (CHR ''0'') 6 microseconds))"

section \<open>Digits\<close>

lemma timestamp_less_iff: "timestamp_less a b \<longleftrightarrow> a < b"
  by (cases a; cases b) (auto simp: timestamp_less_def less_timestamp_ext_def less_eq_timestamp_ext_def)

lemma timestamp_eq_iff: "timestamp_eq a b \<longleftrightarrow> a = b"
  by (cases a; cases b) (auto simp: timestamp_eq_def)

definition dec_value :: "string \<Rightarrow> nat" where
  "dec_value s = foldl (\<lambda>a c. 10 * a + (of_char c - 48)) 0 s"

lemma dec_value_snoc: "dec_value (s @ [c]) = 10 * dec_value s + (of_char c - 48)"
  by (simp add: dec_value_def)

lemma of_digit_char: "d < 10 \<Longrightarrow> of_char (char_of (48 + d) :: char) = (48 + d :: nat)"
  by simp

lemma dec_value_dec_nat [simp]: "dec_value (dec_nat n) = n"
proof (induction n rule: dec_nat.induct)
  case (1 n)
  show ?case
  proof (cases "n < 10")
    case True
    then show ?thesis
      by (simp add: dec_nat.simps [of n] dec_value_def of_digit_char)
  next
    case False
    have "dec_value (dec_nat n) = 10 * (n div 10) + n mod 10"
      using False 1 by (simp add: dec_nat.simps [of n] dec_value_snoc of_digit_char)
    then show ?thesis by simp
  qed
qed

lemma length_dec_nat: "n < 10 ^ k \<Longrightarrow> 0 < k \<Longrightarrow> length (dec_nat n) \<le> k"
proof (induction n arbitrary: k rule: dec_nat.induct)
  case (1 n)
  show ?case
  proof (cases "n < 10")
    case True
    with 1(3) show ?thesis by (simp add: dec_nat.simps [of n])
  next
    case False
    with 1(2,3) obtain j where k: "k = Suc j" "0 < j"
      by (cases k; cases "k - 1") auto
    then have "n div 10 < 10 ^ j" using 1(2) by (simp add: less_mult_imp_div_less mult.commute)
    with 1(1) [OF False this k(2)] False k show ?thesis
      by (simp add: dec_nat.simps [of n])
  qed
qed

lemma dec_nat_digits: "c \<in> set (dec_nat n) \<Longrightarrow> 48 \<le> (of_char c :: nat) \<and> of_char c < (58 :: nat)"
proof (induction n rule: dec_nat.induct)
  case (1 n)
  then show ?case
    by (cases "n < 10") (auto simp: dec_nat.simps [of n] of_digit_char)
qed

lemma dec_value_zeros: "dec_value (replicate k (CHR ''0'') @ s) = dec_value s"
  by (induction k) (simp_all add: dec_value_def)

lemma fmt_pad_zero:
  assumes "0 \<le> i" and "nat i < 10 ^ w" and "0 < w"
  shows "length (fmt_pad (CHR ''0'') w i) = w" and "dec_value (fmt_pad (CHR ''0'') w i) = nat i"
    and "fmt_pad (CHR ''0'') w i = replicate (w - length (dec_nat (nat i))) (CHR ''0'') @ dec_nat (nat i)"
  using assms length_dec_nat [of "nat i" w] by (simp_all add: fmt_pad_def Let_def dec_value_zeros)

lemma fmt_d_nonneg: "0 \<le> i \<Longrightarrow> fmt_d i = dec_nat (nat i)"
  by (simp add: fmt_d_def fmt_pad_def Let_def)

lemma c_div_mod_nonneg: "0 \<le> a \<Longrightarrow> 0 < b \<Longrightarrow> c_div a b = a div b \<and> c_mod a b = a mod b"
  by (cases "a = 0") (simp_all add: c_div_def c_mod_def minus_mult_div_eq_mod)

section \<open>Properties\<close>



text \<open>What \<open>gmtime_r\<close> is documented to return for a time of a four-digit year.\<close>

definition tm_in_range :: "tm_time \<Rightarrow> bool" where
  "tm_in_range tm \<longleftrightarrow> 1000 \<le> tm_year tm + 1900 \<and> tm_year tm + 1900 \<le> 9999 \<and>
     0 \<le> tm_mon tm \<and> tm_mon tm \<le> 11 \<and> 1 \<le> tm_mday tm \<and> tm_mday tm \<le> 31 \<and>
     0 \<le> tm_hour tm \<and> tm_hour tm \<le> 23 \<and> 0 \<le> tm_min tm \<and> tm_min tm \<le> 59 \<and>
     0 \<le> tm_sec tm \<and> tm_sec tm \<le> 60"

definition two :: "int \<Rightarrow> string" where
  "two i = fmt_pad (CHR ''0'') 2 i"

lemma length_dec_nat_exact: "10 ^ k \<le> n \<Longrightarrow> n < 10 ^ Suc k \<Longrightarrow> length (dec_nat n) = Suc k"
proof (induction k arbitrary: n)
  case 0
  then show ?case by (simp add: dec_nat.simps [of n])
next
  case (Suc k)
  then have "10 ^ k \<le> n div 10" and "n div 10 < 10 ^ Suc k" and "\<not> n < 10"
    using le_trans [of 10 "10 ^ Suc k" n] one_le_power [of "10 :: nat" k]
    by (auto simp: less_eq_div_iff_mult_less_eq less_mult_imp_div_less)
  with Suc.IH [of "n div 10"] show ?case by (simp add: dec_nat.simps [of n])
qed

lemma year_four: "1000 \<le> y \<Longrightarrow> y \<le> 9999 \<Longrightarrow>
    length (fmt_pad (CHR '' '') 4 y) = 4 \<and> dec_value (fmt_pad (CHR '' '') 4 y) = nat y"
  using length_dec_nat_exact [of 3 "nat y"] by (simp add: fmt_pad_def Let_def)

text \<open>
  The formatted string of a time stamp is \<open>yyyymmdd hh:nn:ss.uuuuuu\<close>, 24 characters
  that fit the 32-byte buffer: every field stands at its fixed place with its fixed
  width and reads back as the field of the broken-down time, and the last six digits are
  the microseconds. Hypothesis: the broken-down time is in the range \<open>gmtime_r\<close> documents.
\<close>

theorem to_formatted_string_layout:
  assumes "0 \<le> microSecondsSinceEpoch t"
    and "tm_in_range (gmtime (microSecondsSinceEpoch t div 1000000))"
  shows "\<exists>y mo d h mi s us. to_formatted_string gmtime t =
      y @ mo @ d @ '' '' @ h @ '':'' @ mi @ '':'' @ s @ ''.'' @ us \<and>
    map length [y, mo, d, h, mi, s, us] = [4, 2, 2, 2, 2, 2, 6] \<and>
    (let tm = gmtime (microSecondsSinceEpoch t div 1000000) in
      map (int \<circ> dec_value) [y, mo, d, h, mi, s, us] =
        [tm_year tm + 1900, tm_mon tm + 1, tm_mday tm, tm_hour tm, tm_min tm, tm_sec tm,
         microSecondsSinceEpoch t mod 1000000])"
proof -
  let ?m = "microSecondsSinceEpoch t" and ?tm = "gmtime (microSecondsSinceEpoch t div 1000000)"
  let ?y = "fmt_pad (CHR '' '') 4 (tm_year ?tm + 1900)" and ?us = "fmt_pad (CHR ''0'') 6 (?m mod 1000000)"
  have two: "length (two i) = 2 \<and> dec_value (two i) = nat i" if "0 \<le> i" "i < 100" for i
    using fmt_pad_zero [of i 2] that by (simp add: two_def)
  have us: "length ?us = 6" "dec_value ?us = nat (?m mod 1000000)"
    using fmt_pad_zero [of "?m mod 1000000" 6] by simp_all
  have y: "length ?y = 4 \<and> dec_value ?y = nat (tm_year ?tm + 1900)"
    using assms(2) by (intro year_four) (auto simp: tm_in_range_def)
  have cd: "c_div ?m kMicroSecondsPerSecond = ?m div 1000000"
    "c_mod ?m kMicroSecondsPerSecond = ?m mod 1000000" "to_int32 (?m mod 1000000) = ?m mod 1000000"
    using assms(1) c_div_mod_nonneg [of ?m kMicroSecondsPerSecond]
      pos_mod_bound [of 1000000 ?m] pos_mod_sign [of 1000000 ?m]
    by (simp_all add: kMicroSecondsPerSecond_def to_int32_exact)
  have f: "length (two i) = 2 \<and> dec_value (two i) = nat i"
    if "i \<in> {tm_mon ?tm + 1, tm_mday ?tm, tm_hour ?tm, tm_min ?tm, tm_sec ?tm}" for i
    using that assms(2) by (intro two) (auto simp: tm_in_range_def)
  let ?out = "?y @ two (tm_mon ?tm + 1) @ two (tm_mday ?tm) @ '' '' @ two (tm_hour ?tm) @ '':'' @
    two (tm_min ?tm) @ '':'' @ two (tm_sec ?tm) @ ''.'' @ ?us"
  have "to_formatted_string gmtime t = take (32 - 1) ?out"
    unfolding to_formatted_string_def Let_def cd snprintf_into_def two_def by (rule refl)
  also have "\<dots> = ?out"
    by (rule take_all) (simp add: f y us)
  finally have eq: "to_formatted_string gmtime t = ?out" .
  let ?fs = "[?y, two (tm_mon ?tm + 1), two (tm_mday ?tm), two (tm_hour ?tm), two (tm_min ?tm),
    two (tm_sec ?tm), ?us]"
  have lens: "map length ?fs = [4, 2, 2, 2, 2, 2, 6]"
    by (simp add: f y us)
  have vals: "let tm = ?tm in map (int \<circ> dec_value) ?fs =
      [tm_year tm + 1900, tm_mon tm + 1, tm_mday tm, tm_hour tm, tm_min tm, tm_sec tm, ?m mod 1000000]"
    using assms(2) by (simp add: f y us tm_in_range_def Let_def)
  show ?thesis
    by (intro exI conjI) (rule eq, rule lens, rule vals)
qed

theorem to_formatted_string_layout_witness:
  "length (to_formatted_string (\<lambda>_. \<lparr>tm_year = 112, tm_mon = 9, tm_mday = 30, tm_hour = 0, tm_min = 0,
     tm_sec = 0\<rparr>) (timestamp_of 1351555200000042)) = 24"
  (is "length (to_formatted_string ?g ?t) = 24")
proof -
  obtain y mo d h mi sc us where
    "to_formatted_string ?g ?t = y @ mo @ d @ '' '' @ h @ '':'' @ mi @ '':'' @ sc @ ''.'' @ us"
    and "map length [y, mo, d, h, mi, sc, us] = [4, 2, 2, 2, 2, 2, 6]"
    using to_formatted_string_layout [of ?t ?g]
    by (elim exE conjE impE meta_impE) (simp_all add: timestamp_of_def tm_in_range_def)
  then show ?thesis by simp
qed

end
