(* ===== verification/Log_Warper.thy ===== *)
theory Log_Warper
  imports Time_Stamp
begin

text \<open>
  \<^verbatim>\<open>src/muradin/base/log_warper.h\<close> and \<^verbatim>\<open>log_warper.cpp\<close>: the logger. The class
  \<open>loger\<close> collects one line in a stream, \<open>finish\<close> hands it to the output function when
  its level passes the global threshold, and the destructor finishes the line and aborts
  the process for the fatal level. The global variables are a record that also collects
  what the output functions receive. \<open>log_warper\<close> owns one \<open>loger\<close> and forwards to it.
  The clock and \<open>gmtime_r\<close> are parameters; the build does not define
  \<^verbatim>\<open>ENABLE_LOG_FUNCTION_NAME\<close>.
\<close>

section \<open>Levels and globals\<close>

datatype loging_level = ll_debug | ll_info | ll_warning | ll_error | ll_fatal_err | ll_end_palce

fun level_num :: "loging_level \<Rightarrow> nat" where
  "level_num ll_debug = 0"
| "level_num ll_info = 1"
| "level_num ll_warning = 2"
| "level_num ll_error = 3"
| "level_num ll_fatal_err = 4"
| "level_num ll_end_palce = 5"

lemma level_num_inj: "level_num a = level_num b \<Longrightarrow> a = b"
  by (cases a; cases b) simp_all

instantiation loging_level :: linorder
begin

definition less_eq_loging_level :: "loging_level \<Rightarrow> loging_level \<Rightarrow> bool" where
  "less_eq_loging_level a b \<longleftrightarrow> level_num a \<le> level_num b"

definition less_loging_level :: "loging_level \<Rightarrow> loging_level \<Rightarrow> bool" where
  "less_loging_level a b \<longleftrightarrow> level_num a < level_num b"

instance
  by standard (auto simp: less_eq_loging_level_def less_loging_level_def intro: level_num_inj)

end

text \<open>The table has five entries; \<open>ll_end_palce_\<close> indexes past its end.\<close>

fun LOG_LVL_NAME :: "loging_level \<Rightarrow> string res" where
  "LOG_LVL_NAME ll_debug = Inr ''DEBUG ''"
| "LOG_LVL_NAME ll_info = Inr ''INFO  ''"
| "LOG_LVL_NAME ll_warning = Inr ''WARN  ''"
| "LOG_LVL_NAME ll_error = Inr ''ERROR ''"
| "LOG_LVL_NAME ll_fatal_err = Inr ''FATAL ''"
| "LOG_LVL_NAME ll_end_palce = Inl OutOfRange"

text \<open>
  Output and flush functions are identified by a number; \<open>None\<close> is the null pointer, for
  which the default functions write to and flush standard output.
\<close>

record log_global =
  g_log_level :: loging_level
  g_out_put_func :: "nat option"
  g_flush_func :: "nat option"
  g_written :: "(nat option \<times> string) list"
  g_flushed :: "nat option list"

definition default_writ_func :: "string \<Rightarrow> log_global \<Rightarrow> log_global" where
  "default_writ_func msg g = g\<lparr>g_written := g_written g @ [(None, msg)]\<rparr>"

definition default_flush_func :: "log_global \<Rightarrow> log_global" where
  "default_flush_func g = g\<lparr>g_flushed := g_flushed g @ [None]\<rparr>"

definition logLevel :: "log_global \<Rightarrow> loging_level" where
  "logLevel g = g_log_level g"

definition setLogLevel :: "loging_level \<Rightarrow> log_global \<Rightarrow> log_global" where
  "setLogLevel level g = g\<lparr>g_log_level := level\<rparr>"

definition setOutput :: "nat option \<Rightarrow> log_global \<Rightarrow> log_global" where
  "setOutput func g = g\<lparr>g_out_put_func := func\<rparr>"

definition setFlush :: "nat option \<Rightarrow> log_global \<Rightarrow> log_global" where
  "setFlush func g = g\<lparr>g_flush_func := func\<rparr>"

section \<open>Base names\<close>

text \<open>\<open>std::string::find_last_of\<close> for one character; \<open>None\<close> is \<open>npos\<close>.\<close>

fun find_last_of :: "char \<Rightarrow> string \<Rightarrow> nat option" where
  "find_last_of c [] = None"
| "find_last_of c (x # xs) =
     (case find_last_of c xs of Some i \<Rightarrow> Some (Suc i) | None \<Rightarrow> if x = c then Some 0 else None)"

definition file_base_name :: "string \<Rightarrow> string" where
  "file_base_name full_file_name =
     (let pos = find_last_of (char_of (92 :: nat)) full_file_name;
          pos' = (if pos = None then find_last_of (CHR ''/'') full_file_name else pos)
      in case pos' of Some p \<Rightarrow> drop (p + 1) full_file_name | None \<Rightarrow> full_file_name)"

section \<open>The logger\<close>

record loger =
  ostream :: string
  log_levl :: loging_level
  log_src_info :: string

text \<open>\<open>sprintf\<close> into the array of 512 characters: a longer text is written past its end.\<close>

definition sprintf_512 :: "string \<Rightarrow> string res" where
  "sprintf_512 s = (if length s < 512 then Inr s else Inl OutOfRange)"

definition prepare :: "string \<Rightarrow> string \<Rightarrow> string \<Rightarrow> int \<Rightarrow> loger \<Rightarrow> loger res" where
  "prepare now source_file func_name line_number l =
     rbind (LOG_LVL_NAME (log_levl l)) (\<lambda>name.
     rbind (sprintf_512 (source_file @ '':'' @ fmt_d line_number)) (\<lambda>info.
     Inr (l\<lparr>ostream := ostream l @ now @ '' '' @ name @ '' | '', log_src_info := info\<rparr>)))"

definition prepare_err :: "string \<Rightarrow> string \<Rightarrow> string \<Rightarrow> int \<Rightarrow> int \<Rightarrow> loger \<Rightarrow> loger res" where
  "prepare_err now source_file func_name line_number error_no l =
     rbind (LOG_LVL_NAME (log_levl l)) (\<lambda>name.
     rbind (sprintf_512 (source_file @ '':'' @ fmt_d line_number @ '' | errno : '' @ fmt_d error_no)) (\<lambda>info.
     Inr (l\<lparr>ostream := ostream l @ now @ name @ '' | '', log_src_info := info\<rparr>)))"

text \<open>The three constructors; \<open>now\<close> is \<open>timestamp::now().to_formatted_string()\<close>.\<close>

definition loger_new :: "string \<Rightarrow> loging_level \<Rightarrow> loger res" where
  "loger_new now log_lvl =
     prepare now '''' '''' (-1) \<lparr>ostream = '''', log_levl = log_lvl, log_src_info = ''''\<rparr>"

definition loger_new_at :: "string \<Rightarrow> loging_level \<Rightarrow> string \<Rightarrow> string \<Rightarrow> int \<Rightarrow> loger res" where
  "loger_new_at now log_lvl source_file func_name line_number =
     prepare now (file_base_name source_file) func_name line_number
       \<lparr>ostream = '''', log_levl = log_lvl, log_src_info = ''''\<rparr>"

definition loger_new_err ::
  "string \<Rightarrow> loging_level \<Rightarrow> string \<Rightarrow> string \<Rightarrow> int \<Rightarrow> int \<Rightarrow> loger res" where
  "loger_new_err now log_lvl source_file func_name line_number error_code =
     prepare_err now (file_base_name source_file) func_name line_number error_code
       \<lparr>ostream = '''', log_levl = log_lvl, log_src_info = ''''\<rparr>"

definition loger_reset ::
  "string \<Rightarrow> loging_level \<Rightarrow> string \<Rightarrow> string \<Rightarrow> int \<Rightarrow> loger \<Rightarrow> loger res" where
  "loger_reset now log_lvl source_file func_name line_number l =
     rbind (prepare now (file_base_name source_file) func_name line_number (l\<lparr>ostream := ''''\<rparr>)) (\<lambda>l'.
     Inr (l'\<lparr>log_levl := log_lvl\<rparr>))"

definition loger_finish :: "loger \<Rightarrow> log_global \<Rightarrow> loger \<times> log_global" where
  "loger_finish l g =
     (let out = ostream l @ '' @ '' @ log_src_info l @ [char_of (13 :: nat), char_of (10 :: nat)];
          l' = l\<lparr>ostream := ''''\<rparr>
      in if log_levl l \<ge> g_log_level g then
           (case g_out_put_func g of
              Some f \<Rightarrow> (l', g\<lparr>g_written := g_written g @ [(Some f, out)]\<rparr>)
            | None \<Rightarrow> (l', default_writ_func out g))
         else (l', g))"

definition loger_flush :: "log_global \<Rightarrow> log_global" where
  "loger_flush g =
     (case g_flush_func g of Some f \<Rightarrow> g\<lparr>g_flushed := g_flushed g @ [Some f]\<rparr>
                           | None \<Rightarrow> default_flush_func g)"

text \<open>The destructor; the flag tells whether it calls \<open>abort\<close>.\<close>

definition loger_dtor :: "loger \<Rightarrow> log_global \<Rightarrow> log_global \<times> bool" where
  "loger_dtor l g = (snd (loger_finish l g), log_levl l = ll_fatal_err)"

text \<open>\<open>stream() << text\<close>, and one logging statement: construct, write, destroy.\<close>

definition stream_put :: "string \<Rightarrow> loger \<Rightarrow> loger" where
  "stream_put s l = l\<lparr>ostream := ostream l @ s\<rparr>"

definition log_statement ::
  "string \<Rightarrow> loging_level \<Rightarrow> string \<Rightarrow> string \<Rightarrow> int \<Rightarrow> string \<Rightarrow> log_global \<Rightarrow> (log_global \<times> bool) res" where
  "log_statement now lvl source_file func_name line_number text g =
     rbind (loger_new_at now lvl source_file func_name line_number) (\<lambda>l.
     Inr (loger_dtor (stream_put text l) g))"

section \<open>Properties\<close>

lemma find_last_of_None: "find_last_of c s = None \<longleftrightarrow> c \<notin> set s"
  by (induction s) (auto split: option.splits)

lemma find_last_of_Some:
  "find_last_of c s = Some i \<Longrightarrow> i < length s \<and> s ! i = c \<and> c \<notin> set (drop (Suc i) s)"
proof (induction s arbitrary: i)
  case Nil
  then show ?case by simp
next
  case (Cons x xs)
  then show ?case
    by (auto simp: find_last_of_None split: option.splits if_splits)
qed

lemma split_at_last:
  assumes "find_last_of c s = Some i"
  shows "\<exists>dir. s = dir @ [c] @ drop (i + 1) s \<and> c \<notin> set (drop (i + 1) s)"
proof -
  from find_last_of_Some [OF assms] have "s = take i s @ [c] @ drop (i + 1) s"
    using id_take_nth_drop [of i s] by auto
  with find_last_of_Some [OF assms] show ?thesis by auto
qed

text \<open>
  \<open>file_base_name\<close> returns the part of a path after its last backslash when it has
  one, otherwise the part after its last slash, otherwise the whole path.
\<close>

theorem file_base_name_spec:
  "(if char_of (92 :: nat) \<in> set p
    then \<exists>dir. p = dir @ [char_of (92 :: nat)] @ file_base_name p \<and>
           char_of (92 :: nat) \<notin> set (file_base_name p)
    else if CHR ''/'' \<in> set p
    then \<exists>dir. p = dir @ ''/'' @ file_base_name p \<and> CHR ''/'' \<notin> set (file_base_name p)
    else file_base_name p = p)"
proof -
  consider (b) i where "find_last_of (char_of (92 :: nat)) p = Some i"
    | (s) i where "find_last_of (char_of (92 :: nat)) p = None" "find_last_of (CHR ''/'') p = Some i"
    | (n) "find_last_of (char_of (92 :: nat)) p = None" "find_last_of (CHR ''/'') p = None"
    by fastforce
  then show ?thesis
  proof cases
    case b
    then have "char_of (92 :: nat) \<in> set p"
      by (metis find_last_of_None option.distinct(1))
    with b split_at_last [OF b] show ?thesis
      by (simp add: file_base_name_def)
  next
    case s
    then have "char_of (92 :: nat) \<notin> set p" and "CHR ''/'' \<in> set p"
      by (metis find_last_of_None) (metis s(2) find_last_of_None option.distinct(1))
    with s split_at_last [OF s(2)] show ?thesis
      by (simp add: file_base_name_def)
  next
    case n
    then have "char_of (92 :: nat) \<notin> set p" and "CHR ''/'' \<notin> set p"
      by (metis find_last_of_None)+
    with n show ?thesis
      by (simp add: file_base_name_def)
  qed
qed



text \<open>
  \<open>loger::reset\<close> writes the header of the new line before it stores the new level: the
  line carries the name of the old level while it is filtered by the new one.
\<close>

theorem reset_keeps_old_level_name:
  "\<exists>l l'. loger_new ''T'' ll_debug = Inr l \<and> loger_reset ''T'' ll_error ''a.cpp'' ''f'' 1 l = Inr l' \<and>
     log_levl l' = ll_error \<and> ostream l' = ''T DEBUG  | ''"
  by (simp add: loger_new_def loger_reset_def prepare_def sprintf_512_def file_base_name_def
      fmt_d_def fmt_pad_def Let_def dec_nat.simps)

end
