(* ===== verification/Socket.thy ===== *)
theory Socket
  imports Byte_Buffer Net_Address Log_Warper
begin

unbundle bit_operations_syntax

text \<open>
  The operating system as a parameter, and the two classes that wrap it:
  \<^verbatim>\<open>src/muradin/net/socket.h\<close>, \<^verbatim>\<open>socket.cpp\<close>, \<^verbatim>\<open>socket_ctl.h\<close>,
  \<^verbatim>\<open>socket_ctl.cpp\<close>, together with \<^verbatim>\<open>base/sys_error.h\<close>. A \<open>kernel\<close> has one
  function per system call that the library makes; each takes the arguments of the call and
  the state of the system and gives the return value, the value of \<open>errno\<close> after the call,
  what the call writes into its output arguments, and the new state. Nothing is assumed of
  these functions unless a theorem says so.
\<close>

section \<open>System calls\<close>

type_synonym fd = int
type_synonym ptr = nat
type_synonym epoll_event = "32 word \<times> ptr"

record 'k kernel =
  sys_strerror :: "int \<Rightarrow> string"
  sys_send :: "fd \<Rightarrow> byte list \<Rightarrow> 'k \<Rightarrow> (int \<times> int) \<times> 'k"
  sys_recv :: "fd \<Rightarrow> size_t \<Rightarrow> 'k \<Rightarrow> (int \<times> int \<times> byte list) \<times> 'k"
  sys_socket :: "'k \<Rightarrow> (int \<times> int) \<times> 'k"
  sys_close :: "fd \<Rightarrow> 'k \<Rightarrow> (int \<times> int) \<times> 'k"
  sys_shutdown :: "fd \<Rightarrow> int \<Rightarrow> 'k \<Rightarrow> (int \<times> int) \<times> 'k"
  sys_bind :: "fd \<Rightarrow> endpoint_v4 \<Rightarrow> 'k \<Rightarrow> (int \<times> int) \<times> 'k"
  sys_listen :: "fd \<Rightarrow> int \<Rightarrow> 'k \<Rightarrow> (int \<times> int) \<times> 'k"
  sys_accept4 :: "fd \<Rightarrow> endpoint_v4 \<Rightarrow> 'k \<Rightarrow> (int \<times> int \<times> endpoint_v4) \<times> 'k"
  sys_connect :: "fd \<Rightarrow> endpoint_v4 \<Rightarrow> 'k \<Rightarrow> (int \<times> int) \<times> 'k"
  sys_getsockopt :: "fd \<Rightarrow> int \<Rightarrow> int \<Rightarrow> 'k \<Rightarrow> (int \<times> int \<times> int) \<times> 'k"
  sys_setsockopt :: "fd \<Rightarrow> int \<Rightarrow> int \<Rightarrow> int \<Rightarrow> 'k \<Rightarrow> (int \<times> int) \<times> 'k"
  sys_fcntl :: "fd \<Rightarrow> int \<Rightarrow> 32 word \<Rightarrow> 'k \<Rightarrow> (int \<times> int) \<times> 'k"
  sys_epoll_create :: "'k \<Rightarrow> (int \<times> int) \<times> 'k"
  sys_epoll_ctl :: "fd \<Rightarrow> int \<Rightarrow> fd \<Rightarrow> epoll_event option \<Rightarrow> 'k \<Rightarrow> (int \<times> int) \<times> 'k"
  sys_epoll_wait :: "fd \<Rightarrow> nat \<Rightarrow> int \<Rightarrow> 'k \<Rightarrow> (int \<times> int \<times> epoll_event list) \<times> 'k"
  sys_eventfd :: "'k \<Rightarrow> (int \<times> int) \<times> 'k"
  sys_write64 :: "fd \<Rightarrow> 64 word \<Rightarrow> 'k \<Rightarrow> (int \<times> int) \<times> 'k"
  sys_read64 :: "fd \<Rightarrow> 'k \<Rightarrow> (int \<times> int \<times> 64 word) \<times> 'k"

text \<open>
  The part of the program's state that every component shares: the system, the thread that
  is executing, the next free address for an allocated object, and the log lines written
  (level, text, the numbers streamed into it). The components extend this record.
\<close>

record 'k base_state =
  kern :: 'k
  this_tid :: nat
  next_addr :: ptr
  log_out :: "(loging_level \<times> string \<times> int list) list"

definition log_line ::
  "loging_level \<Rightarrow> string \<Rightarrow> int list \<Rightarrow> ('k, 'm) base_state_scheme \<Rightarrow> ('k, 'm) base_state_scheme" where
  "log_line lvl msg args w = w\<lparr>log_out := log_out w @ [(lvl, msg, args)]\<rparr>"

definition kcall ::
  "('k \<Rightarrow> 'r \<times> 'k) \<Rightarrow> ('k, 'm) base_state_scheme \<Rightarrow> 'r \<times> ('k, 'm) base_state_scheme" where
  "kcall f w = (let (r, k) = f (kern w) in (r, w\<lparr>kern := k\<rparr>))"

section \<open>Errors of the system\<close>

record sys_error =
  m_error_number :: int
  m_msg :: string

definition max_msg_length :: nat where
  "max_msg_length = 256"

text \<open>\<open>strncpy\<close> copies at most 256 characters and fills the rest with null characters.\<close>

definition sys_error_new :: "(int \<Rightarrow> string) \<Rightarrow> int \<Rightarrow> sys_error" where
  "sys_error_new strerror error_number =
     \<lparr>m_error_number = error_number,
      m_msg = take max_msg_length (strerror error_number @ replicate max_msg_length (CHR 0x00))\<rparr>"

definition err_code :: "sys_error \<Rightarrow> int" where
  "err_code e = m_error_number e"

definition err_what :: "sys_error \<Rightarrow> string res" where
  "err_what e = (if CHR 0x00 \<in> set (m_msg e) then Inr (takeWhile (\<lambda>c. c \<noteq> CHR 0x00) (m_msg e))
                 else Inl OutOfRange)"

definition sys_error_eq :: "sys_error \<Rightarrow> sys_error \<Rightarrow> bool" where
  "sys_error_eq e rh = (m_error_number e = m_error_number rh)"

definition sys_error_bool :: "sys_error \<Rightarrow> bool" where
  "sys_error_bool e = (m_error_number e \<noteq> 0)"

definition no_error :: "(int \<Rightarrow> string) \<Rightarrow> sys_error" where
  "no_error strerror = sys_error_new strerror 0"

section \<open>class socket\<close>

datatype tcp_close_flag = k_tcp_close_read | k_tcp_close_writ | k_tcp_close_both

fun close_flag_num :: "tcp_close_flag \<Rightarrow> int" where
  "close_flag_num k_tcp_close_read = 0"
| "close_flag_num k_tcp_close_writ = 1"
| "close_flag_num k_tcp_close_both = 2"

text \<open>\<open>send\<close> and \<open>recv\<close> return \<open>ssize_t\<close>, narrowed to \<open>int\<close> by the wrapper.\<close>

definition socket_send ::
  "'k kernel \<Rightarrow> fd \<Rightarrow> byte list \<Rightarrow> ('k, 'm) base_state_scheme \<Rightarrow>
     (int \<times> int) \<times> ('k, 'm) base_state_scheme" where
  "socket_send K m_fd data w =
     (let ((r, errno), w') = kcall (sys_send K m_fd data) w in ((to_int32 r, errno), w'))"

definition socket_recv ::
  "'k kernel \<Rightarrow> fd \<Rightarrow> size_t \<Rightarrow> ('k, 'm) base_state_scheme \<Rightarrow>
     (int \<times> int \<times> byte list) \<times> ('k, 'm) base_state_scheme" where
  "socket_recv K m_fd max_bytes w =
     (let ((r, errno, bs), w') = kcall (sys_recv K m_fd max_bytes) w in ((to_int32 r, errno, bs), w'))"

definition socket_create ::
  "'k kernel \<Rightarrow> ('k, 'm) base_state_scheme \<Rightarrow> (int \<times> int) \<times> ('k, 'm) base_state_scheme" where
  "socket_create K w = kcall (sys_socket K) w"

definition socket_close ::
  "'k kernel \<Rightarrow> fd \<Rightarrow> ('k, 'm) base_state_scheme \<Rightarrow> ('k, 'm) base_state_scheme" where
  "socket_close K f w = snd (kcall (sys_close K f) w)"

definition socket_shutdown ::
  "'k kernel \<Rightarrow> fd \<Rightarrow> tcp_close_flag \<Rightarrow> ('k, 'm) base_state_scheme \<Rightarrow>
     (int \<times> int) \<times> ('k, 'm) base_state_scheme" where
  "socket_shutdown K f how w = kcall (sys_shutdown K f (close_flag_num how)) w"

definition socket_bind ::
  "'k kernel \<Rightarrow> fd \<Rightarrow> endpoint_v4 \<Rightarrow> ('k, 'm) base_state_scheme \<Rightarrow>
     (int \<times> int) \<times> ('k, 'm) base_state_scheme" where
  "socket_bind K f addr w = kcall (sys_bind K f addr) w"

definition socket_listen ::
  "'k kernel \<Rightarrow> fd \<Rightarrow> int \<Rightarrow> ('k, 'm) base_state_scheme \<Rightarrow>
     (int \<times> int) \<times> ('k, 'm) base_state_scheme" where
  "socket_listen K f backlog w = kcall (sys_listen K f backlog) w"

definition socket_accept ::
  "'k kernel \<Rightarrow> fd \<Rightarrow> endpoint_v4 \<Rightarrow> ('k, 'm) base_state_scheme \<Rightarrow>
     (int \<times> int \<times> endpoint_v4) \<times> ('k, 'm) base_state_scheme" where
  "socket_accept K listen_fd remote_addr w = kcall (sys_accept4 K listen_fd remote_addr) w"

definition socket_connect ::
  "'k kernel \<Rightarrow> fd \<Rightarrow> endpoint_v4 \<Rightarrow> ('k, 'm) base_state_scheme \<Rightarrow>
     (int \<times> int) \<times> ('k, 'm) base_state_scheme" where
  "socket_connect K f remote_addr w = kcall (sys_connect K f remote_addr) w"

definition SOL_SOCKET :: int where "SOL_SOCKET = 1"
definition SO_REUSEADDR :: int where "SO_REUSEADDR = 2"
definition SO_ERROR :: int where "SO_ERROR = 4"
definition SO_SNDBUF :: int where "SO_SNDBUF = 7"
definition SO_RCVBUF :: int where "SO_RCVBUF = 8"
definition SO_KEEPALIVE :: int where "SO_KEEPALIVE = 9"
definition IPPROTO_TCP :: int where "IPPROTO_TCP = 6"
definition TCP_NODELAY :: int where "TCP_NODELAY = 1"

definition socket_retrieve_err ::
  "'k kernel \<Rightarrow> fd \<Rightarrow> ('k, 'm) base_state_scheme \<Rightarrow> int \<times> ('k, 'm) base_state_scheme" where
  "socket_retrieve_err K f w =
     (let ((r, errno, optval), w') = kcall (sys_getsockopt K f SOL_SOCKET SO_ERROR) w
      in if r < 0 then (errno, w') else (optval, w'))"

section \<open>class socket_ctl\<close>

definition F_GETFD :: int where "F_GETFD = 1"
definition F_SETFD :: int where "F_SETFD = 2"
definition F_GETFL :: int where "F_GETFL = 3"
definition F_SETFL :: int where "F_SETFL = 4"
definition O_NONBLOCK :: "32 word" where "O_NONBLOCK = 2048"
definition FD_CLOEXEC :: "32 word" where "FD_CLOEXEC = 1"

definition set_nonblcok ::
  "'k kernel \<Rightarrow> fd \<Rightarrow> bool \<Rightarrow> ('k, 'm) base_state_scheme \<Rightarrow>
     (int \<times> int) \<times> ('k, 'm) base_state_scheme" where
  "set_nonblcok K f nonblcok w =
     (let ((r, _), w1) = kcall (sys_fcntl K f F_GETFL 0) w;
          flags = (word_of_int r :: 32 word);
          flags' = (if nonblcok then flags OR O_NONBLOCK else flags AND O_NONBLOCK)
      in kcall (sys_fcntl K f F_SETFL flags') w1)"

definition set_cloexec ::
  "'k kernel \<Rightarrow> fd \<Rightarrow> ('k, 'm) base_state_scheme \<Rightarrow> (int \<times> int) \<times> ('k, 'm) base_state_scheme" where
  "set_cloexec K f w =
     (let ((r, _), w1) = kcall (sys_fcntl K f F_GETFD 0) w;
          flags = (word_of_int r :: 32 word)
      in kcall (sys_fcntl K f F_SETFD (flags OR FD_CLOEXEC)) w1)"

definition set_tcp_nodelay ::
  "'k kernel \<Rightarrow> fd \<Rightarrow> bool \<Rightarrow> ('k, 'm) base_state_scheme \<Rightarrow>
     (int \<times> int) \<times> ('k, 'm) base_state_scheme" where
  "set_tcp_nodelay K f on w = kcall (sys_setsockopt K f IPPROTO_TCP TCP_NODELAY (if on then 1 else 0)) w"

definition set_reuse_addr ::
  "'k kernel \<Rightarrow> fd \<Rightarrow> bool \<Rightarrow> ('k, 'm) base_state_scheme \<Rightarrow>
     (int \<times> int) \<times> ('k, 'm) base_state_scheme" where
  "set_reuse_addr K f on w = kcall (sys_setsockopt K f SOL_SOCKET SO_REUSEADDR (if on then 1 else 0)) w"

definition set_recv_buff_size ::
  "'k kernel \<Rightarrow> fd \<Rightarrow> int \<Rightarrow> ('k, 'm) base_state_scheme \<Rightarrow>
     (int \<times> int) \<times> ('k, 'm) base_state_scheme" where
  "set_recv_buff_size K f bytes w = kcall (sys_setsockopt K f SOL_SOCKET SO_RCVBUF bytes) w"

definition set_send_buff_size ::
  "'k kernel \<Rightarrow> fd \<Rightarrow> int \<Rightarrow> ('k, 'm) base_state_scheme \<Rightarrow>
     (int \<times> int) \<times> ('k, 'm) base_state_scheme" where
  "set_send_buff_size K f bytes w = kcall (sys_setsockopt K f SOL_SOCKET SO_SNDBUF bytes) w"

definition set_keepalive ::
  "'k kernel \<Rightarrow> fd \<Rightarrow> ('k, 'm) base_state_scheme \<Rightarrow> (int \<times> int) \<times> ('k, 'm) base_state_scheme" where
  "set_keepalive K f w = kcall (sys_setsockopt K f SOL_SOCKET SO_KEEPALIVE 1) w"

end
