(* ===== verification/Ref_System.thy ===== *)
theory Ref_System
  imports Socket
begin

text \<open>
  A small concrete operating system for the instances of the theorems: \<open>epoll\<close> interest
  sets, \<open>eventfd\<close> counters, scripted results for \<open>send\<close>, bytes to receive, and a record
  of what was sent, shut down and closed. It is one of the systems the theorems quantify
  over and shows that their hypotheses about the system can hold.
\<close>

record ref_sys =
  rs_interest :: "fd \<Rightarrow> fd \<rightharpoonup> epoll_event"
  rs_counter :: "fd \<Rightarrow> nat"
  rs_ready :: "epoll_event list"
  rs_send_result :: "int \<times> int"
  rs_inbox :: "byte list"
  rs_sent :: "(fd \<times> byte list) list"
  rs_closed :: "fd list"
  rs_next_fd :: fd

definition rs_epoll_ctl ::
  "fd \<Rightarrow> int \<Rightarrow> fd \<Rightarrow> epoll_event option \<Rightarrow> ref_sys \<Rightarrow> (int \<times> int) \<times> ref_sys" where
  "rs_epoll_ctl ep op f e s =
     (let old = rs_interest s ep f;
          set = (\<lambda>x. s\<lparr>rs_interest := (rs_interest s)(ep := (rs_interest s ep)(f := x))\<rparr>)
      in if op = 1 \<and> old = None \<and> e \<noteq> None then ((0, 0), set e)
         else if op = 3 \<and> old \<noteq> None \<and> e \<noteq> None then ((0, 0), set e)
         else if op = 2 \<and> old \<noteq> None then ((0, 0), set None)
         else ((-1, if op = 1 then 17 else 2), s))"

definition ref_kernel :: "ref_sys kernel" where
  "ref_kernel =
     \<lparr>sys_strerror = (\<lambda>e. ''error''),
      sys_send = (\<lambda>f data s. (rs_send_result s,
         s\<lparr>rs_sent := rs_sent s @ [(f, take (nat (fst (rs_send_result s))) data)]\<rparr>)),
      sys_recv = (\<lambda>f n s. ((int (length (take n (rs_inbox s))), 0, take n (rs_inbox s)),
         s\<lparr>rs_inbox := drop n (rs_inbox s)\<rparr>)),
      sys_socket = (\<lambda>s. ((rs_next_fd s, 0), s\<lparr>rs_next_fd := rs_next_fd s + 1\<rparr>)),
      sys_close = (\<lambda>f s. ((0, 0), s\<lparr>rs_closed := rs_closed s @ [f]\<rparr>)),
      sys_shutdown = (\<lambda>f how s. ((0, 0), s)),
      sys_bind = (\<lambda>f a s. ((0, 0), s)),
      sys_listen = (\<lambda>f n s. ((0, 0), s)),
      sys_accept4 = (\<lambda>f a s. ((rs_next_fd s, 0, a), s\<lparr>rs_next_fd := rs_next_fd s + 1\<rparr>)),
      sys_connect = (\<lambda>f a s. ((0, 0), s)),
      sys_getsockopt = (\<lambda>f l n s. ((0, 0, 104), s)),
      sys_setsockopt = (\<lambda>f l n v s. ((0, 0), s)),
      sys_fcntl = (\<lambda>f c v s. ((if c = 3 then 2 else 0, 0), s)),
      sys_epoll_create = (\<lambda>s. ((rs_next_fd s, 0), s\<lparr>rs_next_fd := rs_next_fd s + 1\<rparr>)),
      sys_epoll_ctl = rs_epoll_ctl,
      sys_epoll_wait = (\<lambda>ep n t s. ((int (length (take n (rs_ready s))), 0, take n (rs_ready s)),
         s\<lparr>rs_ready := []\<rparr>)),
      sys_eventfd = (\<lambda>s. ((rs_next_fd s, 0), s\<lparr>rs_next_fd := rs_next_fd s + 1\<rparr>)),
      sys_write64 = (\<lambda>f v s. ((8, 0), s\<lparr>rs_counter := (rs_counter s)(f := rs_counter s f + unat v)\<rparr>)),
      sys_read64 = (\<lambda>f s. if rs_counter s f = 0 then ((-1, 11, 0), s)
         else ((8, 0, of_nat (rs_counter s f)), s\<lparr>rs_counter := (rs_counter s)(f := 0)\<rparr>))\<rparr>"

definition ref_init :: ref_sys where
  "ref_init = \<lparr>rs_interest = (\<lambda>_. Map.empty), rs_counter = (\<lambda>_. 0), rs_ready = [],
     rs_send_result = (0, 0), rs_inbox = [], rs_sent = [], rs_closed = [], rs_next_fd = 3\<rparr>"

lemma ref_kernel_simps [simp]:
  "sys_send ref_kernel f data s = (rs_send_result s,
     s\<lparr>rs_sent := rs_sent s @ [(f, take (nat (fst (rs_send_result s))) data)]\<rparr>)"
  "sys_recv ref_kernel f n s = ((int (length (take n (rs_inbox s))), 0, take n (rs_inbox s)),
     s\<lparr>rs_inbox := drop n (rs_inbox s)\<rparr>)"
  "sys_close ref_kernel f s = ((0, 0), s\<lparr>rs_closed := rs_closed s @ [f]\<rparr>)"
  "sys_fcntl ref_kernel f c v s = ((if c = 3 then 2 else 0, 0), s)"
  "sys_epoll_ctl ref_kernel = rs_epoll_ctl"
  "sys_epoll_wait ref_kernel ep n t s = ((int (length (take n (rs_ready s))), 0, take n (rs_ready s)),
     s\<lparr>rs_ready := []\<rparr>)"
  "sys_write64 ref_kernel f x s = ((8, 0), s\<lparr>rs_counter := (rs_counter s)(f := rs_counter s f + unat x)\<rparr>)"
  "sys_read64 ref_kernel f s = (if rs_counter s f = 0 then ((-1, 11, 0), s)
     else ((8, 0, of_nat (rs_counter s f)), s\<lparr>rs_counter := (rs_counter s)(f := 0)\<rparr>))"
  "sys_strerror ref_kernel e = ''error''"
  "sys_setsockopt ref_kernel f l opt val s = ((0, 0), s)"
  "sys_shutdown ref_kernel f how s = ((0, 0), s)"
  "sys_getsockopt ref_kernel f l opt s = ((0, 0, 104), s)"
  "sys_accept4 ref_kernel f a s = ((rs_next_fd s, 0, a), s\<lparr>rs_next_fd := rs_next_fd s + 1\<rparr>)"
  by (simp_all add: ref_kernel_def)

end
