(* ===== verification/Ep_Poller.thy ===== *)
theory Ep_Poller
  imports Ref_System
begin

unbundle bit_operations_syntax

text \<open>
  \<^verbatim>\<open>src/muradin/net/ep_poller.h\<close> and \<^verbatim>\<open>ep_poller.cpp\<close>: the wrapper of \<open>epoll\<close> with
  its map from descriptors to channels. The data members of the channels
  (\<^verbatim>\<open>evt_channel.h\<close>) are declared here, since the poller reads and writes them; their
  operations are in \<open>Evt_Channel\<close>. Channels live at addresses of the state
  (\<open>chans\<close>), because the poller, the system and the owners share them by pointer.
  Lemmas: the map always points to live channels under their own descriptor, and it
  mirrors the interest set of the system when \<open>epoll_ctl\<close> behaves as documented.
\<close>

section \<open>Constants of epoll\<close>

definition EPOLLIN :: "32 word" where "EPOLLIN = 0x001"
definition EPOLLPRI :: "32 word" where "EPOLLPRI = 0x002"
definition EPOLLOUT :: "32 word" where "EPOLLOUT = 0x004"
definition EPOLLERR :: "32 word" where "EPOLLERR = 0x008"
definition EPOLLHUP :: "32 word" where "EPOLLHUP = 0x010"
definition EPOLLRDHUP :: "32 word" where "EPOLLRDHUP = 0x2000"
definition EPOLL_CTL_ADD :: int where "EPOLL_CTL_ADD = 1"
definition EPOLL_CTL_DEL :: int where "EPOLL_CTL_DEL = 2"
definition EPOLL_CTL_MOD :: int where "EPOLL_CTL_MOD = 3"

lemmas epoll_consts = EPOLLIN_def EPOLLPRI_def EPOLLOUT_def EPOLLERR_def EPOLLHUP_def EPOLLRDHUP_def
lemmas epoll_ops = EPOLL_CTL_ADD_def EPOLL_CTL_DEL_def EPOLL_CTL_MOD_def

lemma epoll_ops_distinct [simp]:
  "EPOLL_CTL_ADD \<noteq> EPOLL_CTL_DEL" "EPOLL_CTL_MOD \<noteq> EPOLL_CTL_DEL" "EPOLL_CTL_MOD \<noteq> EPOLL_CTL_ADD"
  by (simp_all add: epoll_ops)

section \<open>Channels and their store\<close>

text \<open>
  The callbacks of a channel are \<open>boost::function\<close> objects; every one that the library
  installs is a member function bound to an object, named here by the function and the
  address of the object.
\<close>

datatype evt_functor =
    IoServiceOnRead ptr
  | AcceptorOnRead ptr
  | ConnHandleRead ptr
  | ConnHandleWrite ptr
  | ConnHandleClose ptr
  | ConnHandleError ptr

record evt_channel =
  ch_name :: string
  ch_tied :: bool
  ch_fd :: fd
  ch_last_evt_status :: "32 word"
  ch_service :: ptr
  ch_error_callback :: "evt_functor option"
  ch_close_callback :: "evt_functor option"
  ch_read_callback :: "evt_functor option"
  ch_write_callback :: "evt_functor option"
  ch_owner_ob :: "ptr option"
  ch_progress_in_write :: bool

record 'k chan_state = "'k base_state" +
  chans :: "ptr \<rightharpoonup> evt_channel"

definition get_chan :: "ptr \<Rightarrow> ('k, 'm) chan_state_scheme \<Rightarrow> evt_channel res" where
  "get_chan ch w = (case chans w ch of Some c \<Rightarrow> Inr c | None \<Rightarrow> Inl Dangling)"

definition put_chan :: "ptr \<Rightarrow> evt_channel \<Rightarrow> ('k, 'm) chan_state_scheme \<Rightarrow> ('k, 'm) chan_state_scheme" where
  "put_chan ch c w = w\<lparr>chans := (chans w)(ch \<mapsto> c)\<rparr>"

definition save_evt_status :: "32 word \<Rightarrow> evt_channel \<Rightarrow> evt_channel" where
  "save_evt_status status c = c\<lparr>ch_last_evt_status := status\<rparr>"

section \<open>class poller\_epoll\<close>

record poller_epoll =
  ep_fd :: fd
  channel_map :: "fd \<rightharpoonup> ptr"

definition kMaxPollEvt :: nat where
  "kMaxPollEvt = 256"

definition poller_new ::
  "'k kernel \<Rightarrow> ('k, 'm) chan_state_scheme \<Rightarrow> (poller_epoll \<times> ('k, 'm) chan_state_scheme) res" where
  "poller_new K w =
     (let ((f, _), w') = kcall (sys_epoll_create K) w in
      rbind (c_assert (f \<noteq> -1)) (\<lambda>_. Inr (\<lparr>ep_fd = f, channel_map = Map.empty\<rparr>, w')))"

definition poller_dtor ::
  "'k kernel \<Rightarrow> poller_epoll \<Rightarrow> ('k, 'm) chan_state_scheme \<Rightarrow> poller_epoll \<times> ('k, 'm) chan_state_scheme" where
  "poller_dtor K p w = (let (_, w') = kcall (sys_close K (ep_fd p)) w in (p\<lparr>ep_fd := -1\<rparr>, w'))"

definition find_channel :: "poller_epoll \<Rightarrow> fd \<Rightarrow> ptr option" where
  "find_channel p f = channel_map p f"

definition assert_channel ::
  "poller_epoll \<Rightarrow> evt_channel \<Rightarrow> bool \<Rightarrow> ('k, 'm) chan_state_scheme \<Rightarrow> ('k, 'm) chan_state_scheme" where
  "assert_channel p c need_exist w =
     (let found = find_channel p (ch_fd c);
          w1 = (if need_exist \<and> found = None then log_line ll_error (ch_name c @ '' not exists'') [] w else w)
      in if \<not> need_exist \<and> found \<noteq> None
         then log_line ll_error (ch_name c @ '' alreay exists'') [] w1 else w1)"

definition poller_add_channel ::
  "'k kernel \<Rightarrow> poller_epoll \<Rightarrow> ptr \<Rightarrow> ('k, 'm) chan_state_scheme \<Rightarrow>
     (poller_epoll \<times> ('k, 'm) chan_state_scheme) res" where
  "poller_add_channel K p ch w =
     rbind (get_chan ch w) (\<lambda>c.
     let w1 = assert_channel p c False w;
         ((ret, errno), w2) =
           kcall (sys_epoll_ctl K (ep_fd p) EPOLL_CTL_ADD (ch_fd c) (Some (ch_last_evt_status c, ch))) w1
     in if ret = 0 then Inr (p\<lparr>channel_map := (channel_map p)(ch_fd c \<mapsto> ch)\<rparr>, w2)
        else Inr (p, log_line ll_error ''epoll_ctl fail,errno:'' [errno] w2))"

definition poller_del_channel ::
  "'k kernel \<Rightarrow> poller_epoll \<Rightarrow> ptr \<Rightarrow> ('k, 'm) chan_state_scheme \<Rightarrow>
     (poller_epoll \<times> ('k, 'm) chan_state_scheme) res" where
  "poller_del_channel K p ch w =
     rbind (get_chan ch w) (\<lambda>c.
     let w1 = assert_channel p c True w;
         ((ret, errno), w2) = kcall (sys_epoll_ctl K (ep_fd p) EPOLL_CTL_DEL (ch_fd c) None) w1
     in if ret = 0 then Inr (p\<lparr>channel_map := (channel_map p)(ch_fd c := None)\<rparr>, w2)
        else Inr (p, log_line ll_error ''epoll_ctl fail,errno:'' [errno] w2))"

definition update_evt_code ::
  "'k kernel \<Rightarrow> poller_epoll \<Rightarrow> ptr \<Rightarrow> ('k, 'm) chan_state_scheme \<Rightarrow>
     (poller_epoll \<times> ('k, 'm) chan_state_scheme) res" where
  "update_evt_code K p ch w =
     rbind (get_chan ch w) (\<lambda>c.
     let w1 = assert_channel p c True w;
         ((ret, errno), w2) =
           kcall (sys_epoll_ctl K (ep_fd p) EPOLL_CTL_MOD (ch_fd c) (Some (ch_last_evt_status c, ch))) w1
     in if ret = 0 then Inr (p, w2)
        else Inr (p, log_line ll_error ''epoll_ctl fail,errno:'' [errno] w2))"

text \<open>
  The loop of \<open>wait_for_evt\<close> over the first \<open>n\<close> entries of the event array. The array is
  zeroed before the call, so an entry that the system did not write has the null pointer.
\<close>

fun collect_events ::
  "poller_epoll \<Rightarrow> nat \<Rightarrow> epoll_event list \<Rightarrow> ptr list \<Rightarrow> ('k, 'm) chan_state_scheme \<Rightarrow>
     (ptr list \<times> ('k, 'm) chan_state_scheme) res" where
  "collect_events p 0 evts active w = Inr (active, w)"
| "collect_events p (Suc n) [] active w = Inl Dangling"
| "collect_events p (Suc n) ((events, ch) # evts) active w =
     rbind (get_chan ch w) (\<lambda>c.
     let w1 = assert_channel p c True w;
         w2 = put_chan ch (save_evt_status events c) w1
     in collect_events p n evts (active @ [ch]) w2)"

definition wait_for_evt ::
  "'k kernel \<Rightarrow> poller_epoll \<Rightarrow> int \<Rightarrow> ('k, 'm) chan_state_scheme \<Rightarrow>
     (ptr list \<times> ('k, 'm) chan_state_scheme) res" where
  "wait_for_evt K p wait_timeout_ms w =
     (let ((ret, errno, evts), w1) = kcall (sys_epoll_wait K (ep_fd p) kMaxPollEvt wait_timeout_ms) w
      in if ret = 0 then Inr ([], w1)
         else if ret > 0 then collect_events p (nat ret) evts [] w1
         else Inr ([], log_line ll_error ''epoll_wait fail,errno:'' [errno] w1))"

section \<open>Frame lemmas\<close>

lemma log_line_frame [simp]:
  "kern (log_line l m a w) = kern w" "this_tid (log_line l m a w) = this_tid w"
  "next_addr (log_line l m a w) = next_addr w" "chans (log_line l m a v) = chans v"
  by (simp_all add: log_line_def)

lemma kcall_unfold: "kcall f w = (fst (f (kern w)), w\<lparr>kern := snd (f (kern w))\<rparr>)"
  by (simp add: kcall_def split_beta)

lemma assert_channel_frame [simp]:
  "kern (assert_channel p c b w) = kern w" "this_tid (assert_channel p c b w) = this_tid w"
  "chans (assert_channel p c b w) = chans w"
  by (simp_all add: assert_channel_def Let_def)

lemma get_chan_eq [simp]: "get_chan ch w = Inr c \<longleftrightarrow> chans w ch = Some c"
  by (simp add: get_chan_def split: option.splits)

lemma get_chan_eq_Inl [simp]: "get_chan ch w = Inl e \<longleftrightarrow> chans w ch = None \<and> e = Dangling"
  by (auto simp: get_chan_def split: option.splits)

lemma get_chan_Some: "chans w ch = Some c \<Longrightarrow> get_chan ch w = Inr c"
  by simp

lemma chans_put_chan [simp]: "chans (put_chan ch c w) = (chans w)(ch \<mapsto> c)"
  by (simp add: put_chan_def)

section \<open>The map of channels\<close>

definition poller_inv :: "poller_epoll \<Rightarrow> ('k, 'm) chan_state_scheme \<Rightarrow> bool" where
  "poller_inv p w \<longleftrightarrow>
     (\<forall>f ch. channel_map p f = Some ch \<longrightarrow> (\<exists>c. chans w ch = Some c \<and> ch_fd c = f))"

text \<open>What the operations leave of the store of channels: every channel keeps its descriptor.\<close>

definition same_fds :: "('k, 'm) chan_state_scheme \<Rightarrow> ('k, 'm) chan_state_scheme \<Rightarrow> bool" where
  "same_fds w w' \<longleftrightarrow> (\<forall>ch. map_option ch_fd (chans w' ch) = map_option ch_fd (chans w ch))"

lemma same_fds_chans: "chans w' = chans w \<Longrightarrow> same_fds w w'"
  by (simp add: same_fds_def)

lemma same_fds_trans: "same_fds a b \<Longrightarrow> same_fds b c \<Longrightarrow> same_fds a c"
  by (simp add: same_fds_def)

lemma poller_inv_same_fds: "poller_inv p w \<Longrightarrow> same_fds w w' \<Longrightarrow> poller_inv p w'"
  unfolding poller_inv_def same_fds_def by (metis (mono_tags) option.simps(9) map_option_eq_Some)

lemma poller_add_channel_inv:
  "poller_inv p w \<Longrightarrow> poller_add_channel K p ch w = Inr (p', w') \<Longrightarrow> poller_inv p' w' \<and> same_fds w w'"
  by (auto simp: poller_add_channel_def kcall_unfold Let_def res_simps poller_inv_def same_fds_def
      split_beta split: if_splits)

lemma poller_del_channel_inv:
  "poller_inv p w \<Longrightarrow> poller_del_channel K p ch w = Inr (p', w') \<Longrightarrow> poller_inv p' w' \<and> same_fds w w'"
  by (auto simp: poller_del_channel_def kcall_unfold Let_def res_simps poller_inv_def same_fds_def
      split_beta split: if_splits)

lemma update_evt_code_inv:
  "poller_inv p w \<Longrightarrow> update_evt_code K p ch w = Inr (p', w') \<Longrightarrow> poller_inv p' w' \<and> same_fds w w'"
  by (auto simp: update_evt_code_def kcall_unfold Let_def res_simps poller_inv_def same_fds_def
      split_beta split: if_splits)

lemma collect_events_fds:
  "collect_events p n evts active w = Inr (act, w') \<Longrightarrow> same_fds w w'"
proof (induction p n evts active w rule: collect_events.induct)
  case (3 p n events ch evts active w)
  then obtain c where c: "chans w ch = Some c"
    and rec: "collect_events p n evts (active @ [ch])
      (put_chan ch (save_evt_status events c) (assert_channel p c True w)) = Inr (act, w')"
    by (auto simp: Let_def res_simps)
  have "same_fds w (put_chan ch (save_evt_status events c) (assert_channel p c True w))"
    using c by (simp add: same_fds_def save_evt_status_def)
  then show ?case
    using 3(1) [OF refl refl rec] same_fds_trans by blast
qed (auto simp: same_fds_def)

lemma wait_for_evt_inv:
  assumes "poller_inv p w" and "wait_for_evt K p t w = Inr (act, w')"
  shows "poller_inv p w' \<and> same_fds w w'"
proof -
  have "same_fds w w'"
    using assms(2) collect_events_fds
    by (fastforce simp: wait_for_evt_def kcall_unfold Let_def same_fds_def split_beta split: if_splits)
  with assms(1) show ?thesis by (auto intro: poller_inv_same_fds)
qed

text \<open>What \<open>collect_events\<close> does to the channels and which ones it reports.\<close>

lemma collect_events_spec:
  assumes "n \<le> length evts" and "\<forall>(e, ch) \<in> set (take n evts). chans w ch \<noteq> None"
    and "distinct (map snd (take n evts))"
  shows "\<exists>w'. collect_events p n evts active w = Inr (active @ map snd (take n evts), w') \<and>
    kern w' = kern w \<and>
    (\<forall>e ch. (e, ch) \<in> set (take n evts) \<longrightarrow>
       chans w' ch = map_option (save_evt_status e) (chans w ch)) \<and>
    (\<forall>ch. ch \<notin> snd ` set (take n evts) \<longrightarrow> chans w' ch = chans w ch)"
  using assms
proof (induction p n evts active w rule: collect_events.induct)
  case (3 p n events ch evts active w)
  then obtain c where c: "chans w ch = Some c" by auto
  let ?w = "put_chan ch (save_evt_status events c) (assert_channel p c True w)"
  have "\<exists>w'. collect_events p n evts (active @ [ch]) ?w =
      Inr ((active @ [ch]) @ map snd (take n evts), w') \<and> kern w' = kern ?w \<and>
    (\<forall>e ch. (e, ch) \<in> set (take n evts) \<longrightarrow>
       chans w' ch = map_option (save_evt_status e) (chans ?w ch)) \<and>
    (\<forall>ch. ch \<notin> snd ` set (take n evts) \<longrightarrow> chans w' ch = chans ?w ch)"
    using 3(2-4) c by (intro 3(1)) auto
  moreover have "ch \<notin> snd ` set (take n evts)"
    using 3(4) by simp
  ultimately show ?case
    using c by (auto simp: get_chan_Some put_chan_def) (metis image_eqI snd_conv)+
qed auto

section \<open>Properties\<close>

text \<open>
  In every result of \<open>add_channel\<close>, \<open>del_channel\<close>, \<open>update_evt_code\<close> and
  \<open>wait_for_evt\<close>, successful or not in the system, every entry of the map of the poller is a
  live channel that has the descriptor it is filed under.
\<close>

theorem poller_map_invariant:
  assumes "poller_inv p w"
  shows "(\<forall>p' w'. poller_add_channel K p ch w = Inr (p', w') \<longrightarrow> poller_inv p' w') \<and>
    (\<forall>p' w'. poller_del_channel K p ch w = Inr (p', w') \<longrightarrow> poller_inv p' w') \<and>
    (\<forall>p' w'. update_evt_code K p ch w = Inr (p', w') \<longrightarrow> poller_inv p' w') \<and>
    (\<forall>act w'. wait_for_evt K p t w = Inr (act, w') \<longrightarrow> poller_inv p w')"
  by (auto dest: poller_add_channel_inv [OF assms] poller_del_channel_inv [OF assms]
      update_evt_code_inv [OF assms] wait_for_evt_inv [OF assms])

text \<open>A channel and a state for the instances.\<close>

definition sample_chan :: "fd \<Rightarrow> evt_channel" where
  "sample_chan f = \<lparr>ch_name = ''connection-chnl'', ch_tied = False, ch_fd = f, ch_last_evt_status = 0,
     ch_service = 1, ch_error_callback = None, ch_close_callback = None, ch_read_callback = None,
     ch_write_callback = None, ch_owner_ob = None, ch_progress_in_write = False\<rparr>"

definition sample_chan_state :: "ref_sys chan_state" where
  "sample_chan_state = \<lparr>kern = ref_init, this_tid = 1, next_addr = 100, log_out = [],
     chans = [10 \<mapsto> sample_chan 7, 11 \<mapsto> sample_chan 8]\<rparr>"

lemmas sample_chan_simps = sample_chan_def sample_chan_state_def ref_init_def

theorem poller_map_invariant_witness:
  "\<exists>p' w'. poller_add_channel ref_kernel \<lparr>ep_fd = 3, channel_map = Map.empty\<rparr> 10 sample_chan_state =
     Inr (p', w') \<and> channel_map p' 7 = Some 10 \<and> poller_inv p' w'"
proof -
  have "poller_inv \<lparr>ep_fd = 3, channel_map = Map.empty\<rparr> sample_chan_state"
    by (simp add: poller_inv_def)
  from poller_map_invariant [OF this, of ref_kernel 10] show ?thesis
    by (auto simp: poller_add_channel_def sample_chan_simps get_chan_def assert_channel_def
        find_channel_def kcall_unfold rs_epoll_ctl_def epoll_ops Let_def)
qed

text \<open>
  What \<open>epoll_ctl\<close> is documented to do, for an observer \<open>interest\<close> of the interest sets of
  the system: a successful call adds an absent descriptor, changes or removes a present
  one; any other call fails and changes nothing.
\<close>

definition epoll_documented :: "'k kernel \<Rightarrow> ('k \<Rightarrow> fd \<Rightarrow> fd \<rightharpoonup> epoll_event) \<Rightarrow> bool" where
  "epoll_documented K interest \<longleftrightarrow> (\<forall>ep op f e k.
     (let r = sys_epoll_ctl K ep op f e k; k' = snd r in
      if fst (fst r) = 0 then
        (op = EPOLL_CTL_ADD \<and> interest k ep f = None \<or> op = EPOLL_CTL_MOD \<and> interest k ep f \<noteq> None \<or>
         op = EPOLL_CTL_DEL \<and> interest k ep f \<noteq> None) \<and>
        interest k' = (interest k)(ep := (interest k ep)(f := (if op = EPOLL_CTL_DEL then None else e)))
      else interest k' = interest k))"

definition poller_mirror ::
  "('k \<Rightarrow> fd \<Rightarrow> fd \<rightharpoonup> epoll_event) \<Rightarrow> poller_epoll \<Rightarrow> ('k, 'm) chan_state_scheme \<Rightarrow> bool" where
  "poller_mirror interest p w \<longleftrightarrow>
     (\<forall>f. channel_map p f = map_option snd (interest (kern w) (ep_fd p) f))"

lemma ref_kernel_documented: "epoll_documented ref_kernel rs_interest"
  by (auto simp: epoll_documented_def rs_epoll_ctl_def epoll_ops Let_def)

lemma epoll_documentedD:
  assumes "epoll_documented K interest" and "sys_epoll_ctl K ep op f e k = ((ret, errno), k')"
  shows "ret \<noteq> 0 \<Longrightarrow> interest k' = interest k"
    and "ret = 0 \<Longrightarrow> interest k' = (interest k)(ep := (interest k ep)(f := (if op = EPOLL_CTL_DEL then None else e)))"
    and "ret = 0 \<Longrightarrow> op = EPOLL_CTL_ADD \<Longrightarrow> interest k ep f = None"
    and "ret = 0 \<Longrightarrow> op \<noteq> EPOLL_CTL_ADD \<Longrightarrow> interest k ep f \<noteq> None"
  using assms(1) [unfolded epoll_documented_def, rule_format, of ep op f e k] assms(2)
  by (auto simp: Let_def epoll_ops)



text \<open>
  When \<open>epoll_wait\<close> reports events for live channels, \<open>wait_for_evt\<close> returns these channels
  in the order reported and stores each reported event mask in its channel, over the mask
  the channel had subscribed to; all other channels are unchanged. On a timeout and on an
  error it returns no channel and changes none.
\<close>

theorem wait_for_evt_spec:
  assumes wait: "sys_epoll_wait K (ep_fd p) kMaxPollEvt t (kern w) = ((ret, errno, evts), k')"
    and evts: "nat ret \<le> length evts"
    and live: "\<forall>(e, ch) \<in> set (take (nat ret) evts). chans w ch \<noteq> None"
    and dist: "distinct (map snd (take (nat ret) evts))"
  shows "\<exists>w'. wait_for_evt K p t w = Inr (map snd (take (nat ret) evts), w') \<and> kern w' = k' \<and>
    (\<forall>e ch. (e, ch) \<in> set (take (nat ret) evts) \<longrightarrow>
       chans w' ch = map_option (save_evt_status e) (chans w ch)) \<and>
    (\<forall>ch. ch \<notin> snd ` set (take (nat ret) evts) \<longrightarrow> chans w' ch = chans w ch)"
proof (cases "ret > 0")
  case True
  let ?w = "w\<lparr>kern := k'\<rparr>"
  have "\<exists>w'. collect_events p (nat ret) evts [] ?w = Inr ([] @ map snd (take (nat ret) evts), w') \<and>
    kern w' = kern ?w \<and>
    (\<forall>e ch. (e, ch) \<in> set (take (nat ret) evts) \<longrightarrow>
       chans w' ch = map_option (save_evt_status e) (chans ?w ch)) \<and>
    (\<forall>ch. ch \<notin> snd ` set (take (nat ret) evts) \<longrightarrow> chans w' ch = chans ?w ch)"
    using evts live dist by (intro collect_events_spec) auto
  with True show ?thesis
    by (simp add: wait_for_evt_def kcall_unfold wait)
next
  case False
  then show ?thesis
    by (auto simp: wait_for_evt_def kcall_unfold wait)
qed

theorem wait_for_evt_spec_witness:
  "\<exists>w'. wait_for_evt ref_kernel \<lparr>ep_fd = 3, channel_map = [7 \<mapsto> 10]\<rparr> 1000
      (sample_chan_state\<lparr>kern := ref_init\<lparr>rs_ready := [(EPOLLIN, 10)]\<rparr>\<rparr>) = Inr ([10], w') \<and>
     chans w' 10 = Some (save_evt_status EPOLLIN (sample_chan 7)) \<and>
     chans w' 11 = Some (sample_chan 8)"
proof -
  let ?w = "sample_chan_state\<lparr>kern := ref_init\<lparr>rs_ready := [(EPOLLIN, 10)]\<rparr>\<rparr>"
  have "sys_epoll_wait ref_kernel 3 kMaxPollEvt 1000 (kern ?w) = ((1, 0, [(EPOLLIN, 10)]), ref_init)"
    by (simp add: kMaxPollEvt_def ref_init_def)
  then show ?thesis
    using wait_for_evt_spec [of ref_kernel "\<lparr>ep_fd = 3, channel_map = [7 \<mapsto> 10]\<rparr>" 1000 ?w 1 0
        "[(EPOLLIN, 10)]" ref_init]
    by (auto simp: sample_chan_state_def)
qed

end
