(* ===== verification/Io_Service.thy ===== *)
theory Io_Service
  imports Ep_Poller
begin

text \<open>
  \<^verbatim>\<open>src/muradin/net/io_service.h\<close> and \<^verbatim>\<open>io_service.cpp\<close>: the event loop. A task is a
  \<open>boost::function\<close> object; every one the library creates is a bound function, named by the
  constructors of \<open>task\<close> with the values it captures. The loop is parametric in what a task
  and a channel do when they are called (\<open>X\<close>, \<open>P\<close>), so that its lemmas hold for every
  user program; \<open>Connection\<close> and \<open>Tcp_Server\<close> give the tasks of the library their meaning.
  The mutex of the queue protects single appends and the swap; each is one step here.
  Lemmas: tasks run once and in the order queued, tasks queued by a running task wait for
  the next round, calls from another thread take effect when the loop gets to them, and the
  loop ends when it is told to.
\<close>

section \<open>Tasks and the state of the services\<close>

text \<open>A pointer into memory: memory of the user, or the storage of the read buffer of a connection.\<close>

datatype mem_ref = UserMem ptr nat | ReadCache ptr nat

datatype task =
    TAddChannel ptr
  | TDelChannel ptr
  | TUpdateChannel ptr
  | TConnCb "nat option" ptr
  | TReadCb "nat option" ptr sys_error
  | TWriteCb "nat option" ptr sys_error size_t
  | TErrCb "nat option" ptr sys_error
  | TCloseCb "ptr option" ptr
  | THandleClose ptr
  | TWriteInLoop ptr mem_ref size_t
  | TShutdownInLoop ptr
  | TUser nat

text \<open>
  The objects that a task keeps alive: the callbacks of the user are bound to a
  \<open>shared_ptr\<close> of the connection, the member functions of the library to a plain pointer.
\<close>

fun task_refs :: "task \<Rightarrow> ptr list" where
  "task_refs (TConnCb f c) = [c]"
| "task_refs (TReadCb f c e) = [c]"
| "task_refs (TWriteCb f c e n) = [c]"
| "task_refs (TErrCb f c e) = [c]"
| "task_refs (TCloseCb f c) = [c]"
| "task_refs (TAddChannel ch) = []"
| "task_refs (TDelChannel ch) = []"
| "task_refs (TUpdateChannel ch) = []"
| "task_refs (THandleClose c) = []"
| "task_refs (TWriteInLoop c m n) = []"
| "task_refs (TShutdownInLoop c) = []"
| "task_refs (TUser n) = []"

record io_service =
  m_owner_tid :: nat
  m_poller :: poller_epoll
  m_wakeup_fd :: fd
  m_self_channel :: ptr
  m_running_pending_tasks :: bool
  m_quit :: bool
  m_pending_tasks :: "task list"

record 'k ios_state = "'k chan_state" +
  services :: "ptr \<rightharpoonup> io_service"
  refs :: "ptr \<Rightarrow> nat"

definition get_ios :: "ptr \<Rightarrow> ('k, 'm) ios_state_scheme \<Rightarrow> io_service res" where
  "get_ios s w = (case services w s of Some i \<Rightarrow> Inr i | None \<Rightarrow> Inl Dangling)"

definition put_ios :: "ptr \<Rightarrow> io_service \<Rightarrow> ('k, 'm) ios_state_scheme \<Rightarrow> ('k, 'm) ios_state_scheme" where
  "put_ios s i w = w\<lparr>services := (services w)(s \<mapsto> i)\<rparr>"

text \<open>
  Reference counts of the objects that \<open>shared_ptr\<close>s own: \<open>acquire\<close> copies a pointer,
  \<open>release\<close> destroys one, and the last one destroys the object with \<open>D\<close>.
\<close>

definition acquire :: "ptr \<Rightarrow> ('k, 'm) ios_state_scheme \<Rightarrow> ('k, 'm) ios_state_scheme" where
  "acquire c w = w\<lparr>refs := (refs w)(c := refs w c + 1)\<rparr>"

definition release ::
  "(ptr \<Rightarrow> ('k, 'm) ios_state_scheme \<Rightarrow> ('k, 'm) ios_state_scheme res) \<Rightarrow> ptr \<Rightarrow>
     ('k, 'm) ios_state_scheme \<Rightarrow> ('k, 'm) ios_state_scheme res" where
  "release D c w =
     (case refs w c of 0 \<Rightarrow> Inl Dangling
      | Suc n \<Rightarrow> let w' = w\<lparr>refs := (refs w)(c := n)\<rparr> in if n = 0 then D c w' else Inr w')"

fun acquire_all :: "ptr list \<Rightarrow> ('k, 'm) ios_state_scheme \<Rightarrow> ('k, 'm) ios_state_scheme" where
  "acquire_all [] w = w"
| "acquire_all (c # cs) w = acquire_all cs (acquire c w)"

text \<open>The elements of a list processed one after the other, until one fails.\<close>

fun run_all :: "('a \<Rightarrow> 'w \<Rightarrow> 'w res) \<Rightarrow> 'a list \<Rightarrow> 'w \<Rightarrow> 'w res" where
  "run_all X [] w = Inr w"
| "run_all X (t # ts) w = rbind (X t w) (run_all X ts)"

section \<open>class io\_service\<close>

definition create_evt_fd ::
  "'k kernel \<Rightarrow> ('k, 'm) ios_state_scheme \<Rightarrow> (fd \<times> ('k, 'm) ios_state_scheme) res" where
  "create_evt_fd K w =
     (let ((evtfd, _), w') = kcall (sys_eventfd K) w
      in if evtfd < 0 then Inl Aborted else Inr (evtfd, w'))"

definition check_this_loop :: "io_service \<Rightarrow> ('k, 'm) ios_state_scheme \<Rightarrow> bool" where
  "check_this_loop i w = (m_owner_tid i = this_tid w)"

definition wake_me_up ::
  "'k kernel \<Rightarrow> ptr \<Rightarrow> ('k, 'm) ios_state_scheme \<Rightarrow> ('k, 'm) ios_state_scheme res" where
  "wake_me_up K s w =
     rbind (get_ios s w) (\<lambda>i.
     let ((ret, _), w') = kcall (sys_write64 K (m_wakeup_fd i) 0) w
     in rbind (c_assert (ret = 8)) (\<lambda>_. Inr w'))"

definition on_read ::
  "'k kernel \<Rightarrow> ptr \<Rightarrow> ('k, 'm) ios_state_scheme \<Rightarrow> ('k, 'm) ios_state_scheme res" where
  "on_read K s w =
     rbind (get_ios s w) (\<lambda>i.
     let ((ret, _, _), w') = kcall (sys_read64 K (m_wakeup_fd i)) w
     in rbind (c_assert (ret = 8)) (\<lambda>_. Inr w'))"

definition queue_task ::
  "'k kernel \<Rightarrow> ptr \<Rightarrow> task \<Rightarrow> ('k, 'm) ios_state_scheme \<Rightarrow> ('k, 'm) ios_state_scheme res" where
  "queue_task K s t w =
     rbind (get_ios s w) (\<lambda>i.
     let i' = i\<lparr>m_pending_tasks := m_pending_tasks i @ [t]\<rparr>;
         w' = put_ios s i' (acquire_all (task_refs t) w)
     in if \<not> check_this_loop i' w' \<or> m_running_pending_tasks i' then wake_me_up K s w' else Inr w')"

text \<open>\<open>run_task\<close> has the task twice: \<open>f\<close> is what it does and \<open>t\<close> is its name in the queue.\<close>

definition run_task ::
  "'k kernel \<Rightarrow> ptr \<Rightarrow> task \<Rightarrow> (('k, 'm) ios_state_scheme \<Rightarrow> ('k, 'm) ios_state_scheme res) \<Rightarrow>
     ('k, 'm) ios_state_scheme \<Rightarrow> ('k, 'm) ios_state_scheme res" where
  "run_task K s t f w =
     rbind (get_ios s w) (\<lambda>i. if check_this_loop i w then f w else queue_task K s t w)"

definition run_task_at :: "task \<Rightarrow> ('k, 'm) ios_state_scheme \<Rightarrow> ('k, 'm) ios_state_scheme" where
  "run_task_at t w = w"

definition run_task_after :: "task \<Rightarrow> 32 word \<Rightarrow> ('k, 'm) ios_state_scheme \<Rightarrow> ('k, 'm) ios_state_scheme" where
  "run_task_after t milliseconds w = w"

definition run_task_every :: "task \<Rightarrow> 32 word \<Rightarrow> ('k, 'm) ios_state_scheme \<Rightarrow> ('k, 'm) ios_state_scheme" where
  "run_task_every t milliseconds w = w"

definition must_run_in_loop ::
  "io_service \<Rightarrow> ('k, 'm) ios_state_scheme \<Rightarrow> ('k, 'm) ios_state_scheme" where
  "must_run_in_loop i w = (if \<not> check_this_loop i w then log_line ll_error ''must run in-loop'' [] w else w)"

definition add_channel_in_loop ::
  "'k kernel \<Rightarrow> ptr \<Rightarrow> ptr \<Rightarrow> ('k, 'm) ios_state_scheme \<Rightarrow> ('k, 'm) ios_state_scheme res" where
  "add_channel_in_loop K s ch w =
     rbind (get_ios s w) (\<lambda>i.
     rbind (poller_add_channel K (m_poller i) ch (must_run_in_loop i w)) (\<lambda>(p, w').
     Inr (put_ios s (i\<lparr>m_poller := p\<rparr>) w')))"

definition del_channel_in_loop ::
  "'k kernel \<Rightarrow> ptr \<Rightarrow> ptr \<Rightarrow> ('k, 'm) ios_state_scheme \<Rightarrow> ('k, 'm) ios_state_scheme res" where
  "del_channel_in_loop K s ch w =
     rbind (get_ios s w) (\<lambda>i.
     rbind (poller_del_channel K (m_poller i) ch (must_run_in_loop i w)) (\<lambda>(p, w').
     Inr (put_ios s (i\<lparr>m_poller := p\<rparr>) w')))"

definition update_channel_in_loop ::
  "'k kernel \<Rightarrow> ptr \<Rightarrow> ptr \<Rightarrow> ('k, 'm) ios_state_scheme \<Rightarrow> ('k, 'm) ios_state_scheme res" where
  "update_channel_in_loop K s ch w =
     rbind (get_ios s w) (\<lambda>i.
     rbind (update_evt_code K (m_poller i) ch (must_run_in_loop i w)) (\<lambda>(p, w').
     Inr (put_ios s (i\<lparr>m_poller := p\<rparr>) w')))"

definition add_channel ::
  "'k kernel \<Rightarrow> ptr \<Rightarrow> ptr \<Rightarrow> ('k, 'm) ios_state_scheme \<Rightarrow> ('k, 'm) ios_state_scheme res" where
  "add_channel K s ch w =
     rbind (get_ios s w) (\<lambda>i.
     if check_this_loop i w then add_channel_in_loop K s ch w else queue_task K s (TAddChannel ch) w)"

definition del_channel ::
  "'k kernel \<Rightarrow> ptr \<Rightarrow> ptr \<Rightarrow> ('k, 'm) ios_state_scheme \<Rightarrow> ('k, 'm) ios_state_scheme res" where
  "del_channel K s ch w =
     rbind (get_ios s w) (\<lambda>i.
     if check_this_loop i w then del_channel_in_loop K s ch w
     else queue_task K s (TDelChannel ch) (log_line ll_info '''' [] w))"

definition update_channel ::
  "'k kernel \<Rightarrow> ptr \<Rightarrow> ptr \<Rightarrow> ('k, 'm) ios_state_scheme \<Rightarrow> ('k, 'm) ios_state_scheme res" where
  "update_channel K s ch w =
     rbind (get_ios s w) (\<lambda>i.
     if check_this_loop i w then update_channel_in_loop K s ch w else queue_task K s (TUpdateChannel ch) w)"

text \<open>
  \<open>run_pending_task\<close> swaps the queue out, calls every task, clears the flag; then the local
  vector with the tasks is destroyed and with it the pointers they hold.
\<close>

definition run_pending_task ::
  "(ptr \<Rightarrow> ('k, 'm) ios_state_scheme \<Rightarrow> ('k, 'm) ios_state_scheme res) \<Rightarrow>
   (task \<Rightarrow> ('k, 'm) ios_state_scheme \<Rightarrow> ('k, 'm) ios_state_scheme res) \<Rightarrow> ptr \<Rightarrow>
     ('k, 'm) ios_state_scheme \<Rightarrow> ('k, 'm) ios_state_scheme res" where
  "run_pending_task D X s w =
     rbind (get_ios s w) (\<lambda>i.
     let to_run = m_pending_tasks i;
         w1 = put_ios s (i\<lparr>m_running_pending_tasks := True, m_pending_tasks := []\<rparr>) w
     in rbind (run_all X to_run w1) (\<lambda>w2.
        rbind (get_ios s w2) (\<lambda>j.
        run_all (release D) (concat (map task_refs to_run))
          (put_ios s (j\<lparr>m_running_pending_tasks := False\<rparr>) w2))))"

definition wait_channel ::
  "'k kernel \<Rightarrow> ptr \<Rightarrow> int \<Rightarrow> ('k, 'm) ios_state_scheme \<Rightarrow> (ptr list \<times> ('k, 'm) ios_state_scheme) res" where
  "wait_channel K s timeout_ms w =
     rbind (get_ios s w) (\<lambda>i. wait_for_evt K (m_poller i) timeout_ms w)"

definition poll_timout_ms :: int where
  "poll_timout_ms = 1000"

text \<open>One round of the loop of \<open>run\<close>; \<open>P\<close> is \<open>evt_channel::process_work\<close>.\<close>

definition run_round ::
  "'k kernel \<Rightarrow> (ptr \<Rightarrow> ('k, 'm) ios_state_scheme \<Rightarrow> ('k, 'm) ios_state_scheme res) \<Rightarrow>
   (task \<Rightarrow> ('k, 'm) ios_state_scheme \<Rightarrow> ('k, 'm) ios_state_scheme res) \<Rightarrow>
   (ptr \<Rightarrow> ('k, 'm) ios_state_scheme \<Rightarrow> ('k, 'm) ios_state_scheme res) \<Rightarrow> ptr \<Rightarrow>
     ('k, 'm) ios_state_scheme \<Rightarrow> ('k, 'm) ios_state_scheme res" where
  "run_round K D X P s w =
     rbind (wait_channel K s poll_timout_ms w) (\<lambda>(active_channels, w1).
     rbind (run_all P active_channels w1) (run_pending_task D X s))"

text \<open>\<open>run\<close> with a bound on the number of rounds; \<open>None\<close> when the loop is still running after them.\<close>

fun run ::
  "nat \<Rightarrow> 'k kernel \<Rightarrow> (ptr \<Rightarrow> ('k, 'm) ios_state_scheme \<Rightarrow> ('k, 'm) ios_state_scheme res) \<Rightarrow>
   (task \<Rightarrow> ('k, 'm) ios_state_scheme \<Rightarrow> ('k, 'm) ios_state_scheme res) \<Rightarrow>
   (ptr \<Rightarrow> ('k, 'm) ios_state_scheme \<Rightarrow> ('k, 'm) ios_state_scheme res) \<Rightarrow> ptr \<Rightarrow>
     ('k, 'm) ios_state_scheme \<Rightarrow> ('k, 'm) ios_state_scheme res option" where
  "run 0 K D X P s w = None"
| "run (Suc n) K D X P s w =
     (case get_ios s w of
        Inl e \<Rightarrow> Some (Inl e)
      | Inr i \<Rightarrow>
          if m_quit i then Some (Inr w)
          else (case run_round K D X P s w of
                  Inl e \<Rightarrow> Some (Inl e)
                | Inr w' \<Rightarrow> run n K D X P s w'))"

definition quit ::
  "'k kernel \<Rightarrow> ptr \<Rightarrow> ('k, 'm) ios_state_scheme \<Rightarrow> ('k, 'm) ios_state_scheme res" where
  "quit K s w = rbind (get_ios s w) (\<lambda>i. wake_me_up K s (put_ios s (i\<lparr>m_quit := True\<rparr>) w))"

text \<open>What the tasks that \<open>io_service\<close> itself queues do when they are called.\<close>

fun exec_channel_task ::
  "'k kernel \<Rightarrow> ptr \<Rightarrow> (task \<Rightarrow> ('k, 'm) ios_state_scheme \<Rightarrow> ('k, 'm) ios_state_scheme res) \<Rightarrow>
     task \<Rightarrow> ('k, 'm) ios_state_scheme \<Rightarrow> ('k, 'm) ios_state_scheme res" where
  "exec_channel_task K s X (TAddChannel ch) w = add_channel_in_loop K s ch w"
| "exec_channel_task K s X (TDelChannel ch) w = del_channel_in_loop K s ch w"
| "exec_channel_task K s X (TUpdateChannel ch) w = update_channel_in_loop K s ch w"
| "exec_channel_task K s X t w = X t w"

section \<open>Frame lemmas\<close>

lemma get_ios_eq [simp]: "get_ios s w = Inr i \<longleftrightarrow> services w s = Some i"
  by (simp add: get_ios_def split: option.splits)

lemma get_ios_eq_Inl [simp]: "get_ios s w = Inl e \<longleftrightarrow> services w s = None \<and> e = Dangling"
  by (auto simp: get_ios_def split: option.splits)

lemma get_ios_Some: "services w s = Some i \<Longrightarrow> get_ios s w = Inr i"
  by simp

lemma put_ios_frame [simp]:
  "services (put_ios s i w) = (services w)(s \<mapsto> i)" "refs (put_ios s i w) = refs w"
  "chans (put_ios s i w) = chans w" "kern (put_ios s i w) = kern w"
  "this_tid (put_ios s i w) = this_tid w" "log_out (put_ios s i w) = log_out w"
  by (simp_all add: put_ios_def)

lemma acquire_frame [simp]:
  "services (acquire c w) = services w" "chans (acquire c w) = chans w" "kern (acquire c w) = kern w"
  "this_tid (acquire c w) = this_tid w" "log_out (acquire c w) = log_out w" "refs (acquire c w) = (refs w)(c := refs w c + 1)"
  by (simp_all add: acquire_def)

lemma acquire_all_frame [simp]:
  "services (acquire_all cs w) = services w" "chans (acquire_all cs w) = chans w"
  "kern (acquire_all cs w) = kern w" "this_tid (acquire_all cs w) = this_tid w"
  "log_out (acquire_all cs w) = log_out w"
  by (induction cs arbitrary: w) simp_all

lemma refs_acquire_all: "refs (acquire_all cs w) c = refs w c + count_list cs c"
  by (induction cs arbitrary: w) simp_all

lemma log_line_ios_frame [simp]:
  "services (log_line l m a w) = services w" "refs (log_line l m a w) = refs w"
  by (simp_all add: log_line_def)

lemma must_run_in_loop_frame [simp]:
  "services (must_run_in_loop i w) = services w" "refs (must_run_in_loop i w) = refs w"
  "chans (must_run_in_loop i w) = chans w" "kern (must_run_in_loop i w) = kern w"
  "this_tid (must_run_in_loop i w) = this_tid w"
  by (simp_all add: must_run_in_loop_def)

lemma must_run_in_loop_owner: "this_tid w = m_owner_tid i \<Longrightarrow> must_run_in_loop i w = w"
  by (simp add: must_run_in_loop_def check_this_loop_def)

lemma run_all_append: "run_all X (ts @ us) w = rbind (run_all X ts w) (run_all X us)"
proof (induction ts arbitrary: w)
  case (Cons t ts)
  then show ?case by (cases "X t w") simp_all
qed simp

lemma run_all_inv:
  assumes "\<And>t v v'. t \<in> set ts \<Longrightarrow> Inv v \<Longrightarrow> X t v = Inr v' \<Longrightarrow> Inv v'"
    and "Inv w" and "run_all X ts w = Inr w'"
  shows "Inv w'"
  using assms by (induction ts arbitrary: w) (auto simp: res_simps)

section \<open>Waking the loop up\<close>

text \<open>
  The documented behaviour of an \<open>eventfd\<close> opened non-blocking, for an observer of the
  counters: a write adds its value unless the counter would pass its maximum, a read takes
  the counter and fails when it is zero, which is also when the descriptor is not readable.
\<close>

definition eventfd_documented :: "'k kernel \<Rightarrow> ('k \<Rightarrow> fd \<Rightarrow> nat) \<Rightarrow> bool" where
  "eventfd_documented K counter \<longleftrightarrow>
     (\<forall>f v k. counter k f + unat v < 2 ^ 64 - 1 \<longrightarrow>
        fst (fst (sys_write64 K f v k)) = 8 \<and>
        counter (snd (sys_write64 K f v k)) = (counter k)(f := counter k f + unat v)) \<and>
     (\<forall>f k. if counter k f = 0 then fst (fst (sys_read64 K f k)) = -1
            else fst (fst (sys_read64 K f k)) = 8 \<and> counter (snd (sys_read64 K f k)) = (counter k)(f := 0))"

lemma ref_eventfd: "eventfd_documented ref_kernel rs_counter"
  by (auto simp: eventfd_documented_def)

lemma wake_me_up_eq:
  assumes "eventfd_documented K counter" and "services w s = Some i"
    and "counter (kern w) (m_wakeup_fd i) < 2 ^ 64 - 1"
  shows "wake_me_up K s w = Inr (w\<lparr>kern := snd (sys_write64 K (m_wakeup_fd i) 0 (kern w))\<rparr>)"
    and "counter (snd (sys_write64 K (m_wakeup_fd i) 0 (kern w))) = counter (kern w)"
  using assms
  by (auto simp: wake_me_up_def get_ios_Some kcall_unfold split_beta eventfd_documented_def)

lemma wake_me_up_frame:
  "wake_me_up K s w = Inr w' \<Longrightarrow>
     services w' = services w \<and> refs w' = refs w \<and> chans w' = chans w \<and>
     this_tid w' = this_tid w \<and> log_out w' = log_out w"
  by (auto simp: wake_me_up_def kcall_unfold res_simps split_beta Let_def)

section \<open>The queue\<close>

abbreviation pend :: "ptr \<Rightarrow> ('k, 'm) ios_state_scheme \<Rightarrow> task list" where
  "pend s w \<equiv> (case services w s of Some i \<Rightarrow> m_pending_tasks i | None \<Rightarrow> [])"

lemma queue_task_effect:
  assumes "queue_task K s t w = Inr w'"
  shows "\<exists>i. services w s = Some i \<and>
     services w' = (services w)(s \<mapsto> i\<lparr>m_pending_tasks := m_pending_tasks i @ [t]\<rparr>) \<and>
     chans w' = chans w \<and> this_tid w' = this_tid w \<and> log_out w' = log_out w \<and> refs w' = refs (acquire_all (task_refs t) w)"
  using assms
  by (auto simp: queue_task_def res_simps Let_def split: if_splits dest!: wake_me_up_frame)

lemma queue_task_ok:
  assumes "eventfd_documented K counter" and "services w s = Some i"
    and "counter (kern w) (m_wakeup_fd i) < 2 ^ 64 - 1"
  shows "\<exists>w'. queue_task K s t w = Inr w' \<and> counter (kern w') = counter (kern w)"
proof -
  let ?i = "i\<lparr>m_pending_tasks := m_pending_tasks i @ [t]\<rparr>"
  let ?w = "put_ios s ?i (acquire_all (task_refs t) w)"
  have "services ?w s = Some ?i" "counter (kern ?w) (m_wakeup_fd ?i) < 2 ^ 64 - 1"
    using assms by simp_all
  from wake_me_up_eq [OF assms(1) this] assms(2) show ?thesis
    by (auto simp: queue_task_def get_ios_Some Let_def)
qed

lemma queue_task_eq:
  assumes "eventfd_documented K counter" and "services w s = Some i"
    and "counter (kern w) (m_wakeup_fd i) < 2 ^ 64 - 1" and "this_tid w \<noteq> m_owner_tid i"
  shows "queue_task K s t w = Inr ((acquire_all (task_refs t) w)\<lparr>kern := snd (sys_write64 K (m_wakeup_fd i) 0 (kern w)),
      services := (services w)(s \<mapsto> i\<lparr>m_pending_tasks := m_pending_tasks i @ [t]\<rparr>)\<rparr>)"
proof -
  let ?i = "i\<lparr>m_pending_tasks := m_pending_tasks i @ [t]\<rparr>"
  let ?w = "put_ios s ?i (acquire_all (task_refs t) w)"
  have "services ?w s = Some ?i" "counter (kern ?w) (m_wakeup_fd ?i) < 2 ^ 64 - 1"
    using assms by simp_all
  from wake_me_up_eq(1) [OF assms(1) this] assms(2,4) show ?thesis
    by (simp add: queue_task_def get_ios_Some Let_def check_this_loop_def put_ios_def)
qed

lemma queue_task_form:
  assumes "eventfd_documented K counter" and "services w s = Some i"
    and "counter (kern w) (m_wakeup_fd i) < 2 ^ 64 - 1" and "this_tid w \<noteq> m_owner_tid i"
  shows "\<exists>k. queue_task K s t w = Inr ((acquire_all (task_refs t) w)\<lparr>kern := k,
      services := (services w)(s \<mapsto> i\<lparr>m_pending_tasks := m_pending_tasks i @ [t]\<rparr>)\<rparr>) \<and>
     counter k = counter (kern w) \<and> k = snd (sys_write64 K (m_wakeup_fd i) 0 (kern w))"
  using queue_task_eq [OF assms] wake_me_up_eq(2) [OF assms(1-3)] by blast

lemma queue_all_effect:
  assumes "run_all (queue_task K s) ts w = Inr w'" and "services w s = Some i"
  shows "services w' = (services w)(s \<mapsto> i\<lparr>m_pending_tasks := m_pending_tasks i @ ts\<rparr>) \<and>
     chans w' = chans w \<and> this_tid w' = this_tid w"
  using assms
proof (induction ts arbitrary: w i)
  case (Cons t ts)
  then obtain w1 where 1: "queue_task K s t w = Inr w1" and 2: "run_all (queue_task K s) ts w1 = Inr w'"
    by (auto simp: res_simps)
  from queue_task_effect [OF 1] Cons.prems(2) Cons.IH [OF 2] show ?case
    by auto
qed auto

lemma queue_all_ok:
  assumes "eventfd_documented K counter" and "services w s = Some i"
    and "counter (kern w) (m_wakeup_fd i) < 2 ^ 64 - 1"
  shows "\<exists>w'. run_all (queue_task K s) ts w = Inr w'"
  using assms(2-)
proof (induction ts arbitrary: w i)
  case (Cons t ts)
  from queue_task_ok [OF assms(1) Cons.prems, of t] obtain w1
    where 1: "queue_task K s t w = Inr w1" "counter (kern w1) = counter (kern w)" by blast
  from queue_task_effect [OF 1(1)] Cons.prems(1)
  have "services w1 s = Some (i\<lparr>m_pending_tasks := m_pending_tasks i @ [t]\<rparr>)" by simp
  from Cons.IH [OF this] Cons.prems 1 show ?case by simp
qed simp

lemma run_pending_task_unfold:
  "services w s = Some i \<Longrightarrow>
   run_pending_task D X s w =
     rbind (run_all X (m_pending_tasks i)
             (put_ios s (i\<lparr>m_running_pending_tasks := True, m_pending_tasks := []\<rparr>) w)) (\<lambda>w2.
     rbind (get_ios s w2) (\<lambda>j.
     run_all (release D) (concat (map task_refs (m_pending_tasks i)))
       (put_ios s (j\<lparr>m_running_pending_tasks := False\<rparr>) w2)))"
  by (simp add: run_pending_task_def get_ios_Some Let_def)

section \<open>Rounds of the loop\<close>

text \<open>Some number of complete rounds, not looking at the flag.\<close>

fun rounds ::
  "nat \<Rightarrow> 'k kernel \<Rightarrow> (ptr \<Rightarrow> ('k, 'm) ios_state_scheme \<Rightarrow> ('k, 'm) ios_state_scheme res) \<Rightarrow>
   (task \<Rightarrow> ('k, 'm) ios_state_scheme \<Rightarrow> ('k, 'm) ios_state_scheme res) \<Rightarrow>
   (ptr \<Rightarrow> ('k, 'm) ios_state_scheme \<Rightarrow> ('k, 'm) ios_state_scheme res) \<Rightarrow> ptr \<Rightarrow>
     ('k, 'm) ios_state_scheme \<Rightarrow> ('k, 'm) ios_state_scheme res" where
  "rounds 0 K D X P s w = Inr w"
| "rounds (Suc n) K D X P s w = rbind (run_round K D X P s w) (rounds n K D X P s)"

lemma run_enough:
  assumes "rounds n K D X P s w = Inr w'" and "services w' s = Some i" and "m_quit i"
    and "services w s \<noteq> None" and "n < m"
  shows "\<exists>r. run m K D X P s w = Some r"
  using assms
proof (induction n arbitrary: w m)
  case 0
  then show ?case by (cases m) (auto simp: get_ios_Some)
next
  case (Suc n)
  then obtain w1 j m' where w1: "run_round K D X P s w = Inr w1" "rounds n K D X P s w1 = Inr w'"
    and j: "services w s = Some j" and m: "m = Suc m'" "n < m'"
    by (auto simp: res_simps) (metis Suc_lessE)
  show ?case
  proof (cases "m_quit j \<or> services w1 s = None")
    case True
    with w1 j m show ?thesis
      by (cases m') (auto simp: get_ios_Some get_ios_def)
  next
    case False
    with Suc.IH [OF w1(2) Suc.prems(2,3), of m'] w1 j m show ?thesis
      by (auto simp: get_ios_Some)
  qed
qed

lemma run_mono: "run n K D X P s w = Some r \<Longrightarrow> n \<le> m \<Longrightarrow> run m K D X P s w = Some r"
proof (induction n arbitrary: w m)
  case (Suc n)
  then show ?case
    by (cases m) (auto split: sum.splits if_splits)
qed simp

lemma run_result_quit: "run n K D X P s w = Some (Inr w') \<Longrightarrow> \<exists>i. services w' s = Some i \<and> m_quit i"
  by (induction n arbitrary: w) (auto split: sum.splits if_splits)

text \<open>
  What the loop keeps when its handlers keep it: the contract between the loop and the
  channels, tasks and destructors that run in it.
\<close>

locale loop_handlers =
  fixes Inv :: "('k, 'm) ios_state_scheme \<Rightarrow> bool"
    and K :: "'k kernel"
    and D :: "ptr \<Rightarrow> ('k, 'm) ios_state_scheme \<Rightarrow> ('k, 'm) ios_state_scheme res"
    and X :: "task \<Rightarrow> ('k, 'm) ios_state_scheme \<Rightarrow> ('k, 'm) ios_state_scheme res"
    and P :: "ptr \<Rightarrow> ('k, 'm) ios_state_scheme \<Rightarrow> ('k, 'm) ios_state_scheme res"
    and s :: ptr
  assumes wait_keeps: "Inv w \<Longrightarrow> wait_channel K s poll_timout_ms w = Inr (act, w') \<Longrightarrow> Inv w'"
    and work_keeps: "Inv w \<Longrightarrow> P ch w = Inr w' \<Longrightarrow> Inv w'"
    and task_keeps: "Inv w \<Longrightarrow> X t w = Inr w' \<Longrightarrow> Inv w'"
    and release_keeps: "Inv w \<Longrightarrow> release D c w = Inr w' \<Longrightarrow> Inv w'"
    and queue_keeps: "Inv w \<Longrightarrow> services w s = Some i \<Longrightarrow>
      Inv (put_ios s (i\<lparr>m_running_pending_tasks := b, m_pending_tasks := ts\<rparr>) w)"
begin

lemma pending_keeps:
  assumes "Inv w" and "run_pending_task D X s w = Inr w'"
  shows "Inv w'"
proof -
  from assms(2) obtain i w2 j where i: "services w s = Some i"
    and w2: "run_all X (m_pending_tasks i)
      (put_ios s (i\<lparr>m_running_pending_tasks := True, m_pending_tasks := []\<rparr>) w) = Inr w2"
    and j: "services w2 s = Some j"
    and w': "run_all (release D) (concat (map task_refs (m_pending_tasks i)))
      (put_ios s (j\<lparr>m_running_pending_tasks := False\<rparr>) w2) = Inr w'"
    by (auto simp: run_pending_task_def res_simps Let_def)
  have "Inv w2"
    using run_all_inv [OF _ _ w2, of Inv] task_keeps queue_keeps [OF assms(1) i] by blast
  then have "Inv (put_ios s (j\<lparr>m_running_pending_tasks := False\<rparr>) w2)"
    using queue_keeps [OF _ j, where b = False and ts = "m_pending_tasks j"] by simp
  then show ?thesis
    using run_all_inv [OF _ _ w', of Inv] release_keeps by blast
qed

lemma round_keeps:
  assumes "Inv w" and "run_round K D X P s w = Inr w'"
  shows "Inv w'"
proof -
  from assms(2) obtain act w1 w2 where 1: "wait_channel K s poll_timout_ms w = Inr (act, w1)"
    and 2: "run_all P act w1 = Inr w2" and 3: "run_pending_task D X s w2 = Inr w'"
    by (auto simp: run_round_def res_simps)
  have "Inv w2"
    by (rule run_all_inv [where Inv = Inv, OF _ wait_keeps [OF assms(1) 1] 2]) (rule work_keeps)
  then show ?thesis using pending_keeps 3 by blast
qed

lemma rounds_keep: "Inv w \<Longrightarrow> rounds n K D X P s w = Inr w' \<Longrightarrow> Inv w'"
  by (induction n arbitrary: w) (auto simp: res_simps dest: round_keeps)

lemma run_keeps: "Inv w \<Longrightarrow> run n K D X P s w = Some (Inr w') \<Longrightarrow> Inv w'"
  by (induction n arbitrary: w) (auto split: sum.splits if_splits dest: round_keeps)

end

section \<open>The services and their pollers\<close>

definition ios_inv :: "('k, 'm) ios_state_scheme \<Rightarrow> bool" where
  "ios_inv w \<longleftrightarrow> (\<forall>s i. services w s = Some i \<longrightarrow> poller_inv (m_poller i) w)"

lemma ios_invD: "ios_inv w \<Longrightarrow> services w s = Some i \<Longrightarrow> poller_inv (m_poller i) w"
  by (simp add: ios_inv_def)

lemma ios_inv_frame:
  "ios_inv w \<Longrightarrow> same_fds w w' \<Longrightarrow> services w' = services w \<Longrightarrow> ios_inv w'"
  by (auto simp: ios_inv_def intro: poller_inv_same_fds)

lemma ios_inv_put:
  "ios_inv w \<Longrightarrow> poller_inv (m_poller i) w \<Longrightarrow> ios_inv (put_ios s i w)"
  by (auto simp: ios_inv_def poller_inv_def)

lemma poller_ops_services:
  "poller_add_channel K p ch w = Inr (p', w') \<Longrightarrow> services w' = services w \<and> refs w' = refs w"
  "poller_del_channel K p ch w = Inr (p', w') \<Longrightarrow> services w' = services w \<and> refs w' = refs w"
  "update_evt_code K p ch w = Inr (p', w') \<Longrightarrow> services w' = services w \<and> refs w' = refs w"
  by (auto simp: poller_add_channel_def poller_del_channel_def update_evt_code_def kcall_unfold
      res_simps Let_def split_beta assert_channel_def split: if_splits)

lemma channel_in_loop_inv:
  assumes "ios_inv w"
  shows "add_channel_in_loop K s ch w = Inr w' \<Longrightarrow> ios_inv w'"
    and "del_channel_in_loop K s ch w = Inr w' \<Longrightarrow> ios_inv w'"
    and "update_channel_in_loop K s ch w = Inr w' \<Longrightarrow> ios_inv w'"
proof -
  have base: "ios_inv (must_run_in_loop i w)" for i
    using ios_inv_frame [OF assms] by (simp add: same_fds_chans)
  have close: "ios_inv (put_ios s (i\<lparr>m_poller := p\<rparr>) v)"
    if "services v = services w" "poller_inv p v \<and> same_fds (must_run_in_loop j w) v" for i j p v
    using ios_inv_frame [OF base, of j v] that by (simp add: ios_inv_put)
  note inv = ios_invD [OF base, of _ s, simplified]
  show "add_channel_in_loop K s ch w = Inr w' \<Longrightarrow> ios_inv w'"
    by (auto simp: add_channel_in_loop_def res_simps intro!: close
        dest: poller_add_channel_inv [OF inv] poller_ops_services(1))
  show "del_channel_in_loop K s ch w = Inr w' \<Longrightarrow> ios_inv w'"
    by (auto simp: del_channel_in_loop_def res_simps intro!: close
        dest: poller_del_channel_inv [OF inv] poller_ops_services(2))
  show "update_channel_in_loop K s ch w = Inr w' \<Longrightarrow> ios_inv w'"
    by (auto simp: update_channel_in_loop_def res_simps intro!: close
        dest: update_evt_code_inv [OF inv] poller_ops_services(3))
qed

lemma queue_task_inv:
  assumes "ios_inv w" and "queue_task K s t w = Inr w'"
  shows "ios_inv w'"
proof -
  from queue_task_effect [OF assms(2)] obtain i where i: "services w s = Some i"
    "services w' = (services w)(s \<mapsto> i\<lparr>m_pending_tasks := m_pending_tasks i @ [t]\<rparr>)" "chans w' = chans w"
    by blast
  from i ios_invD [OF assms(1)] show ?thesis
    by (auto simp: ios_inv_def poller_inv_def)
qed

lemma channel_ops_inv:
  assumes "ios_inv w"
  shows "add_channel K s ch w = Inr w' \<Longrightarrow> ios_inv w'"
    and "del_channel K s ch w = Inr w' \<Longrightarrow> ios_inv w'"
    and "update_channel K s ch w = Inr w' \<Longrightarrow> ios_inv w'"
proof -
  have "ios_inv (log_line l m a w)" for l m a
    using ios_inv_frame [OF assms] by (simp add: same_fds_chans)
  note rules = channel_in_loop_inv [OF assms] queue_task_inv [OF assms] queue_task_inv [OF this]
  show "add_channel K s ch w = Inr w' \<Longrightarrow> ios_inv w'" "del_channel K s ch w = Inr w' \<Longrightarrow> ios_inv w'"
    "update_channel K s ch w = Inr w' \<Longrightarrow> ios_inv w'"
    by (auto simp: add_channel_def del_channel_def update_channel_def res_simps split: if_splits
        intro: rules)
qed

lemma collect_events_services:
  "collect_events p n evts active w = Inr (act, w') \<Longrightarrow> services w' = services w \<and> refs w' = refs w"
proof (induction p n evts active w rule: collect_events.induct)
  case (3 p n events ch evts active w)
  then show ?case
    by (auto simp: res_simps Let_def put_chan_def assert_channel_def)
qed auto

lemma wait_channel_inv:
  assumes "ios_inv w" and "wait_channel K s t w = Inr (act, w')"
  shows "ios_inv w' \<and> services w' = services w \<and> refs w' = refs w"
proof -
  from assms(2) obtain i where i: "services w s = Some i" and e: "wait_for_evt K (m_poller i) t w = Inr (act, w')"
    by (auto simp: wait_channel_def res_simps)
  have "services w' = services w \<and> refs w' = refs w"
    using e collect_events_services
    by (fastforce simp: wait_for_evt_def kcall_unfold Let_def split_beta split: if_splits)
  with wait_for_evt_inv [OF ios_invD [OF assms(1) i] e] assms(1) show ?thesis
    by (auto intro: ios_inv_frame)
qed

section \<open>Properties\<close>

text \<open>A loop of thread 1 at address 1, with two channels, for the instances.\<close>

definition sample_ios :: io_service where
  "sample_ios = \<lparr>m_owner_tid = 1, m_poller = \<lparr>ep_fd = 3, channel_map = Map.empty\<rparr>, m_wakeup_fd = 4,
     m_self_channel = 12, m_running_pending_tasks = False, m_quit = False, m_pending_tasks = []\<rparr>"

definition sample_ios_state :: "nat \<Rightarrow> ref_sys ios_state" where
  "sample_ios_state tid = \<lparr>kern = ref_init, this_tid = tid, next_addr = 100, log_out = [],
     chans = [10 \<mapsto> sample_chan 7, 11 \<mapsto> sample_chan 8], services = [1 \<mapsto> sample_ios], refs = (\<lambda>_. 0)\<rparr>"

lemmas sample_ios_simps = sample_ios_def sample_ios_state_def sample_chan_def ref_init_def

text \<open>
  C7. Let every task \<open>t\<close> leave the mark \<open>lab t\<close> when it is called and queue the tasks \<open>q t\<close> on its
  own loop. Then one \<open>run_pending_task\<close> calls every task that was in the queue exactly once
  and in the order of the queue, none of the tasks queued meanwhile, leaves exactly these in
  the queue for the next round, in order, and ends with the flag cleared.
\<close>

theorem pending_round:
  assumes X: "\<And>t v v'. X t v = Inr v' \<Longrightarrow> tr v' = tr v @ [lab t] \<and> pend s v' = pend s v @ q t"
    and D: "\<And>c v v'. release D c v = Inr v' \<Longrightarrow> tr v' = tr v \<and> services v' = services v"
    and tr: "\<And>i v. tr (put_ios s i v) = tr v"
    and run: "run_pending_task D X s w = Inr w'"
  shows "tr w' = tr w @ map lab (pend s w) \<and> pend s w' = concat (map q (pend s w)) \<and>
    (\<exists>j. services w' s = Some j \<and> \<not> m_running_pending_tasks j)"
proof -
  from run obtain i w2 j where i: "services w s = Some i"
    and w2: "run_all X (m_pending_tasks i)
      (put_ios s (i\<lparr>m_running_pending_tasks := True, m_pending_tasks := []\<rparr>) w) = Inr w2"
    and j: "services w2 s = Some j"
    and w': "run_all (release D) (concat (map task_refs (m_pending_tasks i)))
      (put_ios s (j\<lparr>m_running_pending_tasks := False\<rparr>) w2) = Inr w'"
    by (auto simp: run_pending_task_def res_simps Let_def)
  have all: "run_all X ts v = Inr v' \<Longrightarrow>
      tr v' = tr v @ map lab ts \<and> pend s v' = pend s v @ concat (map q ts)" for ts v v'
    by (induction ts arbitrary: v) (auto simp: res_simps dest!: X)
  have rel: "run_all (release D) cs v = Inr v' \<Longrightarrow> tr v' = tr v \<and> services v' = services v" for cs v v'
    by (induction cs arbitrary: v) (auto simp: res_simps dest!: D)
  from all [OF w2] rel [OF w'] i j show ?thesis
    by (simp add: tr)
qed

text \<open>A program for the instance: a task logs its number and queues its two successors.\<close>

definition sample_task :: "task \<Rightarrow> ref_sys ios_state \<Rightarrow> ref_sys ios_state res" where
  "sample_task t w = (case t of
     TUser n \<Rightarrow> run_all (queue_task ref_kernel 1) [TUser (n + 10), TUser (n + 20)] (log_line ll_info '''' [int n] w)
   | _ \<Rightarrow> Inl BadFunctionCall)"

theorem pending_round_witness:
  "\<exists>w1 w2. run_all (queue_task ref_kernel 1) [TUser 1, TUser 2] (sample_ios_state 2) = Inr w1 \<and>
     run_pending_task (\<lambda>_ w. Inr w) sample_task 1 (w1\<lparr>this_tid := 1\<rparr>) = Inr w2 \<and>
     log_out w2 = [(ll_info, '''', [1]), (ll_info, '''', [2])] \<and>
     pend 1 w2 = [TUser 11, TUser 21, TUser 12, TUser 22]"
proof -
  let ?lab = "\<lambda>t. case t of TUser n \<Rightarrow> (ll_info, '''', [int n]) | _ \<Rightarrow> (ll_info, '''', [])"
  let ?q = "\<lambda>t. case t of TUser n \<Rightarrow> [TUser (n + 10), TUser (n + 20)] | _ \<Rightarrow> []"
  let ?w = "sample_ios_state 2"
  have ok: "eventfd_documented ref_kernel rs_counter" by (rule ref_eventfd)
  have X: "log_out v' = log_out v @ [?lab t] \<and> pend 1 v' = pend 1 v @ ?q t" if "sample_task t v = Inr v'" for t v v'
    using that by (auto simp: sample_task_def res_simps log_line_def split: task.splits
        dest!: queue_task_effect)
  have D: "log_out v' = log_out v \<and> services v' = services v"
    if "release (\<lambda>_ w. Inr w) c v = Inr v'" for c and v v' :: "ref_sys ios_state"
    using that by (auto simp: release_def Let_def split: nat.splits if_splits)
  have "services ?w 1 = Some sample_ios" "rs_counter (kern ?w) (m_wakeup_fd sample_ios) < 2 ^ 64 - 1"
    by (simp_all add: sample_ios_simps)
  from queue_all_ok [OF ok this] obtain w1
    where w1: "run_all (queue_task ref_kernel 1) [TUser 1, TUser 2] ?w = Inr w1" by blast
  have l1: "log_out w1 = []" and p1: "pend 1 w1 = [TUser 1, TUser 2]"
    using w1 queue_all_effect [OF w1, of sample_ios] by (auto simp: res_simps sample_ios_simps dest!: queue_task_effect)
  have "\<exists>w2. run_pending_task (\<lambda>_ w. Inr w) sample_task 1 (w1\<lparr>this_tid := 1\<rparr>) = Inr w2"
    using w1 by (auto simp: run_pending_task_def sample_task_def queue_task_def wake_me_up_def kcall_unfold
        get_ios_def check_this_loop_def sample_ios_simps put_ios_def Let_def log_line_def)
  then obtain w2 where w2: "run_pending_task (\<lambda>_ w. Inr w) sample_task 1 (w1\<lparr>this_tid := 1\<rparr>) = Inr w2" ..
  from pending_round [where tr = log_out and lab = ?lab and q = ?q, OF X D _ w2] w1 w2 l1 p1 show ?thesis
    by (simp add: put_ios_def)
qed




definition quit_task :: "task \<Rightarrow> ref_sys ios_state \<Rightarrow> ref_sys ios_state res" where
  "quit_task t w = quit ref_kernel 1 w"


text \<open>
  \<open>wake_me_up\<close> writes the value 0, and a write of 0 does not change the counter of an
  \<open>eventfd\<close>: a descriptor that was not readable before \<open>queue_task\<close> or \<open>quit\<close> is still not
  readable after it (a read of it would fail), so the loop is not woken and notices the task
  or the flag only when \<open>epoll_wait\<close> returns for another reason, at the latest after
  \<open>poll_timout_ms\<close>.
\<close>

theorem wake_me_up_keeps_counter:
  assumes evt: "eventfd_documented K counter" and i: "services w s = Some i"
    and zero: "counter (kern w) (m_wakeup_fd i) = 0"
  shows "(\<exists>w'. queue_task K s t w = Inr w' \<and> pend s w' = m_pending_tasks i @ [t] \<and>
      counter (kern w') (m_wakeup_fd i) = 0 \<and> on_read K s w' = Inl AssertFailed) \<and>
    (\<exists>w' j. quit K s w = Inr w' \<and> services w' s = Some j \<and> m_quit j \<and>
      counter (kern w') (m_wakeup_fd i) = 0 \<and> on_read K s w' = Inl AssertFailed)"
proof -
  have bad: "on_read K s v = Inl AssertFailed"
    if "services v s = Some j" "m_wakeup_fd j = m_wakeup_fd i" "counter (kern v) (m_wakeup_fd i) = 0" for v j
    using evt that by (auto simp: eventfd_documented_def on_read_def get_ios_Some kcall_unfold split_beta)
  from queue_task_ok [OF evt i, of t] zero obtain w1
    where 1: "queue_task K s t w = Inr w1" "counter (kern w1) = counter (kern w)" by auto
  let ?j = "i\<lparr>m_quit := True\<rparr>"
  have "services (put_ios s ?j w) s = Some ?j" "counter (kern (put_ios s ?j w)) (m_wakeup_fd ?j) < 2 ^ 64 - 1"
    using zero by simp_all
  note 2 = wake_me_up_eq [OF evt this]
  show ?thesis
    using queue_task_effect [OF 1(1)] 1 2 i zero
    by (auto simp: quit_def get_ios_Some intro!: bad)
qed

theorem wake_me_up_keeps_counter_witness:
  "\<exists>w' j. quit ref_kernel 1 (sample_ios_state 2) = Inr w' \<and> services w' 1 = Some j \<and> m_quit j \<and>
     rs_counter (kern w') 4 = 0 \<and> on_read ref_kernel 1 w' = Inl AssertFailed"
proof -
  have "services (sample_ios_state 2) 1 = Some sample_ios" "m_wakeup_fd sample_ios = 4"
    "rs_counter (kern (sample_ios_state 2)) (m_wakeup_fd sample_ios) = 0"
    by (simp_all add: sample_ios_simps)
  with wake_me_up_keeps_counter [OF ref_eventfd, of "sample_ios_state 2" 1 sample_ios] show ?thesis by auto
qed

end
