(* ===== verification/Evt_Channel.thy ===== *)
theory Evt_Channel
  imports Io_Service
begin

unbundle bit_operations_syntax

text \<open>
  \<^verbatim>\<open>src/muradin/net/evt_channel.h\<close> and \<^verbatim>\<open>evt_channel.cpp\<close>: a descriptor with its event
  mask and callbacks, and the constructor and destructor of \<open>io_service\<close>
  (\<^verbatim>\<open>io_service.cpp\<close>), which own a channel. \<open>m_last_evt_status\<close> is at once the mask that the
  channel subscribes to and the place where the poller stores the events it got. \<open>F\<close> gives the
  bound member functions their meaning. Lemmas: which callbacks an event calls and in which
  order, that a channel whose owner is gone calls none, and what the masks become.
\<close>

section \<open>class evt\_channel\<close>

definition evt_channel_new :: "fd \<Rightarrow> ptr \<Rightarrow> string \<Rightarrow> evt_channel" where
  "evt_channel_new f ios name =
     \<lparr>ch_name = name, ch_tied = False, ch_fd = f, ch_last_evt_status = 0, ch_service = ios,
      ch_error_callback = None, ch_close_callback = None, ch_read_callback = None,
      ch_write_callback = None, ch_owner_ob = None, ch_progress_in_write = False\<rparr>"

definition get_name :: "evt_channel \<Rightarrow> string" where
  "get_name c = ch_name c"

definition evt_status :: "evt_channel \<Rightarrow> 32 word" where
  "evt_status c = ch_last_evt_status c"

definition set_error_callback :: "evt_functor \<Rightarrow> evt_channel \<Rightarrow> evt_channel" where
  "set_error_callback func c = c\<lparr>ch_error_callback := Some func\<rparr>"

definition set_close_callback :: "evt_functor \<Rightarrow> evt_channel \<Rightarrow> evt_channel" where
  "set_close_callback func c = c\<lparr>ch_close_callback := Some func\<rparr>"

definition set_read_callback :: "evt_functor \<Rightarrow> evt_channel \<Rightarrow> evt_channel" where
  "set_read_callback func c = c\<lparr>ch_read_callback := Some func\<rparr>"

definition set_write_callback :: "evt_functor \<Rightarrow> evt_channel \<Rightarrow> evt_channel" where
  "set_write_callback func c = c\<lparr>ch_write_callback := Some func\<rparr>"

definition EPOLLONESHOT :: "32 word" where "EPOLLONESHOT = 0x40000000"
definition EPOLLET :: "32 word" where "EPOLLET = 0x80000000"

definition evt_flag_names :: "(32 word \<times> string) list" where
  "evt_flag_names = [(EPOLLHUP, ''EPOLLHUP ''), (EPOLLIN, ''EPOLLIN ''), (EPOLLOUT, ''EPOLLOUT ''),
     (EPOLLRDHUP, ''EPOLLRDHUP ''), (EPOLLPRI, ''EPOLLPRI ''), (EPOLLERR, ''EPOLLERR ''),
     (EPOLLET, ''EPOLLET ''), (EPOLLONESHOT, ''EPOLLONESHOT '')]"

definition trace_evt_flag :: "32 word \<Rightarrow> ('k, 'm) base_state_scheme \<Rightarrow> ('k, 'm) base_state_scheme" where
  "trace_evt_flag flag w =
     (let log_str = concat (map snd (filter (\<lambda>(m, n). flag AND m \<noteq> 0) evt_flag_names))
      in if log_str \<noteq> [] then log_line ll_debug log_str [] w else w)"

definition tie ::
  "ptr \<Rightarrow> ptr \<Rightarrow> ('k, 'm) ios_state_scheme \<Rightarrow> ('k, 'm) ios_state_scheme res" where
  "tie ch observer w =
     rbind (get_chan ch w) (\<lambda>c.
     rbind (c_assert (\<not> ch_tied c)) (\<lambda>_.
     Inr (put_chan ch (c\<lparr>ch_owner_ob := Some observer, ch_tied := True\<rparr>) w)))"

definition join_to_service ::
  "'k kernel \<Rightarrow> ptr \<Rightarrow> ('k, 'm) ios_state_scheme \<Rightarrow> ('k, 'm) ios_state_scheme res" where
  "join_to_service K ch w = rbind (get_chan ch w) (\<lambda>c. add_channel K (ch_service c) ch w)"

definition remove_from_service ::
  "'k kernel \<Rightarrow> ptr \<Rightarrow> ('k, 'm) ios_state_scheme \<Rightarrow> ('k, 'm) ios_state_scheme res" where
  "remove_from_service K ch w = rbind (get_chan ch w) (\<lambda>c. del_channel K (ch_service c) ch w)"

definition enable_read ::
  "'k kernel \<Rightarrow> ptr \<Rightarrow> bool \<Rightarrow> ('k, 'm) ios_state_scheme \<Rightarrow> ('k, 'm) ios_state_scheme res" where
  "enable_read K ch enable w =
     rbind (get_chan ch w) (\<lambda>c.
     let mask = EPOLLIN OR EPOLLHUP OR EPOLLPRI;
         st = (if enable then ch_last_evt_status c OR mask else ch_last_evt_status c AND mask)
     in update_channel K (ch_service c) ch (put_chan ch (c\<lparr>ch_last_evt_status := st\<rparr>) w))"

definition enable_write ::
  "'k kernel \<Rightarrow> ptr \<Rightarrow> bool \<Rightarrow> ('k, 'm) ios_state_scheme \<Rightarrow> ('k, 'm) ios_state_scheme res" where
  "enable_write K ch enable w =
     rbind (get_chan ch w) (\<lambda>c.
     if enable \<and> ch_progress_in_write c then Inr w
     else
       let st = (if enable then ch_last_evt_status c OR EPOLLOUT else ch_last_evt_status c AND EPOLLOUT)
       in rbind (update_channel K (ch_service c) ch (put_chan ch (c\<lparr>ch_last_evt_status := st\<rparr>) w)) (\<lambda>w1.
          rbind (get_chan ch w1) (\<lambda>c1. Inr (put_chan ch (c1\<lparr>ch_progress_in_write := enable\<rparr>) w1))))"

text \<open>\<open>if(m_callback) m_callback();\<close>\<close>

fun call_if_set :: "('f \<Rightarrow> 'w \<Rightarrow> 'w res) \<Rightarrow> 'f option \<Rightarrow> 'w \<Rightarrow> 'w res" where
  "call_if_set F None w = Inr w"
| "call_if_set F (Some f) w = F f w"

text \<open>The channel is read again after every callback: a callback may change or destroy it.\<close>

definition do_process_work ::
  "(evt_functor \<Rightarrow> ('k, 'm) ios_state_scheme \<Rightarrow> ('k, 'm) ios_state_scheme res) \<Rightarrow> ptr \<Rightarrow>
     ('k, 'm) ios_state_scheme \<Rightarrow> ('k, 'm) ios_state_scheme res" where
  "do_process_work F ch w =
     rbind (get_chan ch w) (\<lambda>c.
     rbind (if ch_last_evt_status c AND EPOLLHUP \<noteq> 0 \<and> ch_last_evt_status c AND EPOLLIN = 0
            then call_if_set F (ch_close_callback c) w else Inr w) (\<lambda>w1.
     rbind (get_chan ch w1) (\<lambda>c1.
     rbind (if ch_last_evt_status c1 AND EPOLLERR \<noteq> 0
            then call_if_set F (ch_error_callback c1) w1 else Inr w1) (\<lambda>w2.
     rbind (get_chan ch w2) (\<lambda>c2.
     rbind (if ch_last_evt_status c2 AND (EPOLLIN OR EPOLLPRI OR EPOLLRDHUP) \<noteq> 0
            then call_if_set F (ch_read_callback c2) w2 else Inr w2) (\<lambda>w3.
     rbind (get_chan ch w3) (\<lambda>c3.
     if ch_last_evt_status c3 AND EPOLLOUT \<noteq> 0
     then call_if_set F (ch_write_callback c3) (put_chan ch (c3\<lparr>ch_progress_in_write := False\<rparr>) w3)
     else Inr w3)))))))"

definition process_work ::
  "(ptr \<Rightarrow> ('k, 'm) ios_state_scheme \<Rightarrow> ('k, 'm) ios_state_scheme res) \<Rightarrow>
   (evt_functor \<Rightarrow> ('k, 'm) ios_state_scheme \<Rightarrow> ('k, 'm) ios_state_scheme res) \<Rightarrow> ptr \<Rightarrow>
     ('k, 'm) ios_state_scheme \<Rightarrow> ('k, 'm) ios_state_scheme res" where
  "process_work D F ch w =
     rbind (get_chan ch w) (\<lambda>c.
     if ch_tied c then
       (case ch_owner_ob c of
          None \<Rightarrow> Inr (log_line ll_info ''connection destroyed,skip process_work'' [] w)
        | Some ob \<Rightarrow>
            if 0 < refs w ob then rbind (do_process_work F ch (acquire ob w)) (release D ob)
            else Inr (log_line ll_info ''connection destroyed,skip process_work'' [] w))
     else do_process_work F ch w)"

section \<open>Construction and destruction of io\_service\<close>

text \<open>The service and the channel that is a member of it take two new addresses.\<close>

definition io_service_new ::
  "'k kernel \<Rightarrow> ('k, 'm) ios_state_scheme \<Rightarrow> (ptr \<times> ('k, 'm) ios_state_scheme) res" where
  "io_service_new K w =
     (let s = next_addr w; ch = next_addr w + 1; w0 = w\<lparr>next_addr := next_addr w + 2\<rparr> in
      rbind (poller_new K w0) (\<lambda>(p, w1).
      rbind (create_evt_fd K w1) (\<lambda>(f, w2).
      let i = \<lparr>m_owner_tid = this_tid w, m_poller = p, m_wakeup_fd = f, m_self_channel = ch,
               m_running_pending_tasks = False, m_quit = False, m_pending_tasks = []\<rparr>;
          w3 = put_chan ch (evt_channel_new f s ''io_service-chnl'') (put_ios s i w2)
      in rbind (c_assert (f > 0)) (\<lambda>_.
         rbind (get_chan ch w3) (\<lambda>c.
         rbind (join_to_service K ch (put_chan ch (set_read_callback (IoServiceOnRead s) c) w3)) (\<lambda>w4.
         rbind (enable_read K ch True w4) (\<lambda>w5. Inr (s, w5))))))))"

text \<open>
  After the body of the destructor the members are destroyed: the channel and the poller,
  whose destructor closes its descriptor. Nothing closes \<open>m_wakeup_fd\<close>, which is an \<open>int\<close>.
\<close>

definition io_service_dtor ::
  "'k kernel \<Rightarrow> ptr \<Rightarrow> ('k, 'm) ios_state_scheme \<Rightarrow> ('k, 'm) ios_state_scheme res" where
  "io_service_dtor K s w =
     rbind (get_ios s w) (\<lambda>i.
     rbind (remove_from_service K (m_self_channel i) w) (\<lambda>w1.
     rbind (get_ios s w1) (\<lambda>i1.
     let w2 = w1\<lparr>chans := (chans w1)(m_self_channel i1 := None)\<rparr>;
         (_, w3) = poller_dtor K (m_poller i1) w2
     in Inr (w3\<lparr>services := (services w3)(s := None)\<rparr>))))"

section \<open>What the operations of the loop do to the state\<close>

lemma put_ios_same [simp]: "services w s = Some i \<Longrightarrow> put_ios s i w = w"
  by (simp add: put_ios_def fun_upd_idem)

lemma update_evt_code_form:
  assumes "chans w ch = Some c"
  shows "\<exists>l. update_evt_code K p ch w = Inr (p, w\<lparr>kern := snd (sys_epoll_ctl K (ep_fd p) EPOLL_CTL_MOD
      (ch_fd c) (Some (ch_last_evt_status c, ch)) (kern w)), log_out := l\<rparr>)"
  using assms
  by (intro exI [of _ "log_out (snd (projr (update_evt_code K p ch w)))"])
    (simp add: update_evt_code_def get_chan_Some kcall_unfold split_beta Let_def assert_channel_def log_line_def)

lemma poller_add_channel_form:
  assumes "chans w ch = Some c"
    and "sys_epoll_ctl K (ep_fd p) EPOLL_CTL_ADD (ch_fd c) (Some (ch_last_evt_status c, ch)) (kern w) = ((r, e), k)"
  shows "\<exists>l. poller_add_channel K p ch w =
      Inr (if r = 0 then p\<lparr>channel_map := (channel_map p)(ch_fd c \<mapsto> ch)\<rparr> else p, w\<lparr>kern := k, log_out := l\<rparr>)"
  using assms
  by (intro exI [of _ "log_out (snd (projr (poller_add_channel K p ch w)))"])
    (simp add: poller_add_channel_def get_chan_Some kcall_unfold split_beta Let_def assert_channel_def log_line_def)

lemma poller_del_channel_form:
  assumes "chans w ch = Some c"
    and "sys_epoll_ctl K (ep_fd p) EPOLL_CTL_DEL (ch_fd c) None (kern w) = ((r, e), k)"
  shows "\<exists>l. poller_del_channel K p ch w =
      Inr (if r = 0 then p\<lparr>channel_map := (channel_map p)(ch_fd c := None)\<rparr> else p, w\<lparr>kern := k, log_out := l\<rparr>)"
  using assms
  by (intro exI [of _ "log_out (snd (projr (poller_del_channel K p ch w)))"])
    (simp add: poller_del_channel_def get_chan_Some kcall_unfold split_beta Let_def assert_channel_def log_line_def)

text \<open>A channel and its service, looked at from the thread of the service.\<close>

definition in_loop :: "ptr \<Rightarrow> evt_channel \<Rightarrow> io_service \<Rightarrow> ('k, 'm) ios_state_scheme \<Rightarrow> bool" where
  "in_loop ch c i w \<longleftrightarrow>
     chans w ch = Some c \<and> services w (ch_service c) = Some i \<and> this_tid w = m_owner_tid i"

lemma update_channel_form:
  assumes "in_loop ch c i w"
  shows "\<exists>l. update_channel K (ch_service c) ch w = Inr (w\<lparr>kern := snd (sys_epoll_ctl K (ep_fd (m_poller i))
      EPOLL_CTL_MOD (ch_fd c) (Some (ch_last_evt_status c, ch)) (kern w)), log_out := l\<rparr>)"
proof -
  have c: "chans w ch = Some c" and i: "services w (ch_service c) = Some i" and t: "this_tid w = m_owner_tid i"
    using assms by (simp_all add: in_loop_def)
  from update_evt_code_form [OF c, of K "m_poller i"] obtain l where
    "update_evt_code K (m_poller i) ch w = Inr (m_poller i, w\<lparr>kern := snd (sys_epoll_ctl K (ep_fd (m_poller i))
      EPOLL_CTL_MOD (ch_fd c) (Some (ch_last_evt_status c, ch)) (kern w)), log_out := l\<rparr>)" by blast
  with i t show ?thesis
    by (intro exI [of _ l])
      (simp add: update_channel_def update_channel_in_loop_def get_ios_Some check_this_loop_def must_run_in_loop_owner)
qed

lemma enable_read_form:
  assumes "in_loop ch c i w"
    and "c' = c\<lparr>ch_last_evt_status := (if b then ch_last_evt_status c OR (EPOLLIN OR EPOLLHUP OR EPOLLPRI)
                 else ch_last_evt_status c AND (EPOLLIN OR EPOLLHUP OR EPOLLPRI))\<rparr>"
  shows "\<exists>l. enable_read K ch b w = Inr (w\<lparr>kern := snd (sys_epoll_ctl K (ep_fd (m_poller i))
      EPOLL_CTL_MOD (ch_fd c) (Some (ch_last_evt_status c', ch)) (kern w)), log_out := l,
      chans := (chans w)(ch \<mapsto> c')\<rparr>)"
proof -
  have "in_loop ch c' i (put_chan ch c' w)"
    using assms by (simp add: in_loop_def put_chan_def)
  from update_channel_form [OF this, of K] obtain l where
    "update_channel K (ch_service c') ch (put_chan ch c' w) = Inr (put_chan ch c' w
      \<lparr>kern := snd (sys_epoll_ctl K (ep_fd (m_poller i)) EPOLL_CTL_MOD (ch_fd c')
         (Some (ch_last_evt_status c', ch)) (kern (put_chan ch c' w))), log_out := l\<rparr>)" by blast
  with assms show ?thesis
    by (intro exI [of _ l]) (simp add: enable_read_def in_loop_def get_chan_Some Let_def put_chan_def)
qed

lemma enable_write_form:
  assumes "in_loop ch c i w" and "\<not> (b \<and> ch_progress_in_write c)"
    and "c' = c\<lparr>ch_last_evt_status := (if b then ch_last_evt_status c OR EPOLLOUT
                 else ch_last_evt_status c AND EPOLLOUT), ch_progress_in_write := b\<rparr>"
  shows "\<exists>l. enable_write K ch b w = Inr (w\<lparr>kern := snd (sys_epoll_ctl K (ep_fd (m_poller i))
      EPOLL_CTL_MOD (ch_fd c) (Some (ch_last_evt_status c', ch)) (kern w)), log_out := l,
      chans := (chans w)(ch \<mapsto> c')\<rparr>)"
proof -
  let ?c = "c\<lparr>ch_last_evt_status := ch_last_evt_status c'\<rparr>"
  have "in_loop ch ?c i (put_chan ch ?c w)"
    using assms by (simp add: in_loop_def put_chan_def)
  from update_channel_form [OF this, of K] obtain l where
    "update_channel K (ch_service c) ch (put_chan ch ?c w) = Inr (put_chan ch ?c w
      \<lparr>kern := snd (sys_epoll_ctl K (ep_fd (m_poller i)) EPOLL_CTL_MOD (ch_fd c)
         (Some (ch_last_evt_status c', ch)) (kern w)), log_out := l\<rparr>)"
    by (auto simp: put_chan_def)
  with assms show ?thesis
    by (intro exI [of _ l]) (auto simp: enable_write_def in_loop_def get_chan_def Let_def put_chan_def)
qed

lemma enable_write_pending:
  "chans w ch = Some c \<Longrightarrow> ch_progress_in_write c \<Longrightarrow> enable_write K ch True w = Inr w"
  by (simp add: enable_write_def get_chan_Some)

lemma join_form:
  assumes "in_loop ch c i w"
    and "sys_epoll_ctl K (ep_fd (m_poller i)) EPOLL_CTL_ADD (ch_fd c) (Some (ch_last_evt_status c, ch)) (kern w) = ((r, e), k)"
  shows "\<exists>l. join_to_service K ch w = Inr (w\<lparr>kern := k, log_out := l,
      services := (services w)(ch_service c \<mapsto> i\<lparr>m_poller := (if r = 0
        then m_poller i\<lparr>channel_map := (channel_map (m_poller i))(ch_fd c \<mapsto> ch)\<rparr> else m_poller i)\<rparr>)\<rparr>)"
proof -
  have c: "chans w ch = Some c" and i: "services w (ch_service c) = Some i" and t: "this_tid w = m_owner_tid i"
    using assms by (simp_all add: in_loop_def)
  from poller_add_channel_form [OF c assms(2)] obtain l where
    "poller_add_channel K (m_poller i) ch w = Inr (if r = 0
       then m_poller i\<lparr>channel_map := (channel_map (m_poller i))(ch_fd c \<mapsto> ch)\<rparr> else m_poller i,
       w\<lparr>kern := k, log_out := l\<rparr>)" by blast
  with i t c show ?thesis
    by (intro exI [of _ l]) (simp add: join_to_service_def get_chan_Some add_channel_def add_channel_in_loop_def get_ios_Some
        check_this_loop_def must_run_in_loop_owner put_ios_def)
qed

lemma remove_form:
  assumes "in_loop ch c i w"
    and "sys_epoll_ctl K (ep_fd (m_poller i)) EPOLL_CTL_DEL (ch_fd c) None (kern w) = ((r, e), k)"
  shows "\<exists>l. remove_from_service K ch w = Inr (w\<lparr>kern := k, log_out := l,
      services := (services w)(ch_service c \<mapsto> i\<lparr>m_poller := (if r = 0
        then m_poller i\<lparr>channel_map := (channel_map (m_poller i))(ch_fd c := None)\<rparr> else m_poller i)\<rparr>)\<rparr>)"
proof -
  have c: "chans w ch = Some c" and i: "services w (ch_service c) = Some i" and t: "this_tid w = m_owner_tid i"
    using assms by (simp_all add: in_loop_def)
  from poller_del_channel_form [OF c assms(2)] obtain l where
    "poller_del_channel K (m_poller i) ch w = Inr (if r = 0
       then m_poller i\<lparr>channel_map := (channel_map (m_poller i))(ch_fd c := None)\<rparr> else m_poller i,
       w\<lparr>kern := k, log_out := l\<rparr>)" by blast
  with i t c show ?thesis
    by (intro exI [of _ l]) (simp add: remove_from_service_def get_chan_Some del_channel_def del_channel_in_loop_def get_ios_Some
        check_this_loop_def must_run_in_loop_owner put_ios_def)
qed

section \<open>Properties\<close>

text \<open>The callbacks that the events in the mask of a channel call, in order.\<close>

definition due :: "bool \<Rightarrow> evt_functor option \<Rightarrow> evt_functor list" where
  "due b f = (if b then (case f of None \<Rightarrow> [] | Some g \<Rightarrow> [g]) else [])"

definition due_callbacks :: "evt_channel \<Rightarrow> evt_functor list" where
  "due_callbacks c =
     due (ch_last_evt_status c AND EPOLLHUP \<noteq> 0 \<and> ch_last_evt_status c AND EPOLLIN = 0) (ch_close_callback c) @
     due (ch_last_evt_status c AND EPOLLERR \<noteq> 0) (ch_error_callback c) @
     due (ch_last_evt_status c AND (EPOLLIN OR EPOLLPRI OR EPOLLRDHUP) \<noteq> 0) (ch_read_callback c) @
     due (ch_last_evt_status c AND EPOLLOUT \<noteq> 0) (ch_write_callback c)"

lemma call_if_set_due:
  assumes "\<And>f v. tr (g f v) = tr v @ [lab f] \<and> chans (g f v) ch = chans v ch \<and> refs (g f v) = refs v"
  shows "\<exists>v'. (if b then call_if_set (\<lambda>f v. Inr (g f v)) cb v else Inr v) = Inr v' \<and>
     tr v' = tr v @ map lab (due b cb) \<and> chans v' ch = chans v ch \<and> refs v' = refs v"
  using assms by (cases cb) (auto simp: due_def)

lemma do_process_work_due:
  assumes cb: "\<And>f v. tr (g f v) = tr v @ [lab f] \<and> chans (g f v) ch = chans v ch \<and> refs (g f v) = refs v"
    and tr: "\<And>c v. tr (put_chan ch c v) = tr v" and v: "chans v ch = Some c"
  shows "\<exists>v'. do_process_work (\<lambda>f v. Inr (g f v)) ch v = Inr v' \<and>
     tr v' = tr v @ map lab (due_callbacks c) \<and> refs v' = refs v"
proof -
  let ?F = "\<lambda>f v. Inr (g f v)"
  let ?e = "ch_last_evt_status c"
  note step = call_if_set_due [of tr g lab ch, OF cb]
  from step [of "?e AND EPOLLHUP \<noteq> 0 \<and> ?e AND EPOLLIN = 0" "ch_close_callback c" v]
  obtain v1 where 1: "(if ?e AND EPOLLHUP \<noteq> 0 \<and> ?e AND EPOLLIN = 0 then call_if_set ?F (ch_close_callback c) v
      else Inr v) = Inr v1" "chans v1 ch = chans v ch" "refs v1 = refs v"
    "tr v1 = tr v @ map lab (due (?e AND EPOLLHUP \<noteq> 0 \<and> ?e AND EPOLLIN = 0) (ch_close_callback c))" by blast
  from step [of "?e AND EPOLLERR \<noteq> 0" "ch_error_callback c" v1]
  obtain v2 where 2: "(if ?e AND EPOLLERR \<noteq> 0 then call_if_set ?F (ch_error_callback c) v1 else Inr v1) = Inr v2"
    "chans v2 ch = chans v1 ch" "refs v2 = refs v1"
    "tr v2 = tr v1 @ map lab (due (?e AND EPOLLERR \<noteq> 0) (ch_error_callback c))" by blast
  from step [of "?e AND (EPOLLIN OR EPOLLPRI OR EPOLLRDHUP) \<noteq> 0" "ch_read_callback c" v2]
  obtain v3 where 3: "(if ?e AND (EPOLLIN OR EPOLLPRI OR EPOLLRDHUP) \<noteq> 0
      then call_if_set ?F (ch_read_callback c) v2 else Inr v2) = Inr v3" "chans v3 ch = chans v2 ch" "refs v3 = refs v2"
    "tr v3 = tr v2 @ map lab (due (?e AND (EPOLLIN OR EPOLLPRI OR EPOLLRDHUP) \<noteq> 0) (ch_read_callback c))" by blast
  have refs: "refs (put_chan ch x y) = refs y" for x and y :: "('a, 'b) ios_state_scheme"
    by (simp add: put_chan_def)
  from step [of "?e AND EPOLLOUT \<noteq> 0" "ch_write_callback c" "put_chan ch (c\<lparr>ch_progress_in_write := False\<rparr>) v3"]
  show ?thesis
    using 1 2 3 v tr refs
    by (auto simp: do_process_work_def get_chan_Some due_callbacks_def due_def split: if_splits)
qed

lemma release_many: "1 < refs v ob \<Longrightarrow> release D ob v = Inr (v\<lparr>refs := (refs v)(ob := refs v ob - 1)\<rparr>)"
  by (auto simp: release_def split: nat.splits)


definition sample_hup_chan :: evt_channel where
  "sample_hup_chan = (sample_chan 7)\<lparr>ch_tied := True, ch_owner_ob := Some 20,
     ch_last_evt_status := EPOLLHUP OR EPOLLERR OR EPOLLOUT,
     ch_close_callback := Some (ConnHandleClose 20), ch_error_callback := Some (ConnHandleError 20),
     ch_read_callback := Some (ConnHandleRead 20), ch_write_callback := Some (ConnHandleWrite 20)\<rparr>"

fun functor_num :: "evt_functor \<Rightarrow> int" where
  "functor_num (ConnHandleClose c) = 1"
| "functor_num (ConnHandleError c) = 2"
| "functor_num (ConnHandleRead c) = 3"
| "functor_num (ConnHandleWrite c) = 4"
| "functor_num _ = 5"


text \<open>
  A system on which \<open>epoll_ctl\<close> works as documented and has the resources it needs: adding an
  absent descriptor and changing or removing a present one succeed.
\<close>

definition epoll_reliable :: "'k kernel \<Rightarrow> ('k \<Rightarrow> fd \<Rightarrow> fd \<rightharpoonup> epoll_event) \<Rightarrow> bool" where
  "epoll_reliable K interest \<longleftrightarrow> epoll_documented K interest \<and>
     (\<forall>ep f e k. if interest k ep f = None then fst (fst (sys_epoll_ctl K ep EPOLL_CTL_ADD f (Some e) k)) = 0
        else fst (fst (sys_epoll_ctl K ep EPOLL_CTL_MOD f (Some e) k)) = 0 \<and>
             fst (fst (sys_epoll_ctl K ep EPOLL_CTL_DEL f None k)) = 0)"

lemma ref_epoll_reliable: "epoll_reliable ref_kernel rs_interest"
  using ref_kernel_documented by (auto simp: epoll_reliable_def rs_epoll_ctl_def epoll_ops Let_def)

lemma epoll_reliableD:
  assumes "epoll_reliable K interest"
  shows "interest k ep f \<noteq> None \<Longrightarrow>
      interest (snd (sys_epoll_ctl K ep EPOLL_CTL_MOD f (Some e) k)) = (interest k)(ep := (interest k ep)(f \<mapsto> e))"
    and "interest k ep f = None \<Longrightarrow>
      fst (fst (sys_epoll_ctl K ep EPOLL_CTL_ADD f (Some e) k)) = 0 \<and>
        interest (snd (sys_epoll_ctl K ep EPOLL_CTL_ADD f (Some e) k)) = (interest k)(ep := (interest k ep)(f \<mapsto> e))"
    and "interest k ep f \<noteq> None \<Longrightarrow>
      fst (fst (sys_epoll_ctl K ep EPOLL_CTL_DEL f None k)) = 0 \<and>
        interest (snd (sys_epoll_ctl K ep EPOLL_CTL_DEL f None k)) = (interest k)(ep := (interest k ep)(f := None))"
proof -
  have doc: "epoll_documented K interest"
    using assms by (simp add: epoll_reliable_def)
  have ctl: "sys_epoll_ctl K ep op f x k = ((fst (fst (sys_epoll_ctl K ep op f x k)),
      snd (fst (sys_epoll_ctl K ep op f x k))), snd (sys_epoll_ctl K ep op f x k))" for op x
    by simp
  note D = epoll_documentedD(2) [OF doc ctl]
  have ok: "if interest k ep f = None then fst (fst (sys_epoll_ctl K ep EPOLL_CTL_ADD f (Some e) k)) = 0
      else fst (fst (sys_epoll_ctl K ep EPOLL_CTL_MOD f (Some e) k)) = 0 \<and>
           fst (fst (sys_epoll_ctl K ep EPOLL_CTL_DEL f None k)) = 0"
    using assms unfolding epoll_reliable_def by blast
  show "interest k ep f \<noteq> None \<Longrightarrow>
      interest (snd (sys_epoll_ctl K ep EPOLL_CTL_MOD f (Some e) k)) = (interest k)(ep := (interest k ep)(f \<mapsto> e))"
    using D [of EPOLL_CTL_MOD "Some e"] ok by simp
  show "interest k ep f = None \<Longrightarrow> fst (fst (sys_epoll_ctl K ep EPOLL_CTL_ADD f (Some e) k)) = 0 \<and>
        interest (snd (sys_epoll_ctl K ep EPOLL_CTL_ADD f (Some e) k)) = (interest k)(ep := (interest k ep)(f \<mapsto> e))"
    using D [of EPOLL_CTL_ADD "Some e"] ok by simp
  show "interest k ep f \<noteq> None \<Longrightarrow> fst (fst (sys_epoll_ctl K ep EPOLL_CTL_DEL f None k)) = 0 \<and>
        interest (snd (sys_epoll_ctl K ep EPOLL_CTL_DEL f None k)) = (interest k)(ep := (interest k ep)(f := None))"
    using D [of EPOLL_CTL_DEL None] ok by simp
qed

lemma mask_bits:
  "(e AND (EPOLLIN OR EPOLLHUP OR EPOLLPRI)) AND EPOLLOUT = 0"
  "(e AND (EPOLLIN OR EPOLLHUP OR EPOLLPRI)) AND EPOLLIN = e AND EPOLLIN"
  "(e AND EPOLLOUT) AND EPOLLIN = 0" "(e AND EPOLLOUT) AND EPOLLOUT = e AND EPOLLOUT"
  by (simp_all add: and.assoc epoll_consts)

text \<open>
  Called in the thread of the loop for a registered channel on a reliable system,
  \<open>enable_read(true)\<close> subscribes to reading in addition to what the mask held; and
  \<open>enable_read(false)\<close> followed by \<open>enable_write(false)\<close>, as a connection does on closing, leaves
  the channel subscribed to nothing, in its mask and in the system.
\<close>

theorem enable_masks:
  assumes rel: "epoll_reliable K interest" and loop: "in_loop ch c i w"
    and reg: "interest (kern w) (ep_fd (m_poller i)) (ch_fd c) \<noteq> None"
  shows "(\<exists>w'. enable_read K ch True w = Inr w' \<and>
      interest (kern w') (ep_fd (m_poller i)) (ch_fd c) =
        Some (ch_last_evt_status c OR (EPOLLIN OR EPOLLHUP OR EPOLLPRI), ch)) \<and>
    (\<exists>w1 w2. enable_read K ch False w = Inr w1 \<and> enable_write K ch False w1 = Inr w2 \<and>
      interest (kern w2) (ep_fd (m_poller i)) (ch_fd c) = Some (0, ch) \<and>
      chans w2 ch = Some (c\<lparr>ch_last_evt_status := 0, ch_progress_in_write := False\<rparr>))"
proof -
  let ?c = "c\<lparr>ch_last_evt_status := ch_last_evt_status c AND (EPOLLIN OR EPOLLHUP OR EPOLLPRI)\<rparr>"
  note ctl = epoll_reliableD(1) [OF rel]
  from enable_read_form [OF loop refl, of K False] obtain l1 where
    1: "enable_read K ch False w = Inr (w\<lparr>kern := snd (sys_epoll_ctl K (ep_fd (m_poller i)) EPOLL_CTL_MOD
      (ch_fd c) (Some (ch_last_evt_status ?c, ch)) (kern w)), log_out := l1, chans := (chans w)(ch \<mapsto> ?c)\<rparr>)"
    (is "_ = Inr ?w1") by auto
  have "in_loop ch ?c i ?w1"
    using loop by (simp add: in_loop_def)
  from enable_write_form [OF this _ refl, of False K] obtain l2 where
    2: "enable_write K ch False ?w1 = Inr (?w1\<lparr>kern := snd (sys_epoll_ctl K (ep_fd (m_poller i)) EPOLL_CTL_MOD
      (ch_fd ?c) (Some (0, ch)) (kern ?w1)), log_out := l2,
      chans := (chans ?w1)(ch \<mapsto> c\<lparr>ch_last_evt_status := 0, ch_progress_in_write := False\<rparr>)\<rparr>)"
    by (auto simp: mask_bits)
  from enable_read_form [OF loop refl, of K True] obtain l3 where
    3: "enable_read K ch True w = Inr (w\<lparr>kern := snd (sys_epoll_ctl K (ep_fd (m_poller i)) EPOLL_CTL_MOD
      (ch_fd c) (Some (ch_last_evt_status c OR (EPOLLIN OR EPOLLHUP OR EPOLLPRI), ch)) (kern w)), log_out := l3,
      chans := (chans w)(ch \<mapsto> c\<lparr>ch_last_evt_status := ch_last_evt_status c OR (EPOLLIN OR EPOLLHUP OR EPOLLPRI)\<rparr>)\<rparr>)"
    by auto
  show ?thesis
    using 1 2 3 reg by (auto simp: ctl)
qed

definition sample_reg_state :: "ref_sys ios_state" where
  "sample_reg_state = (sample_ios_state 1)\<lparr>
     kern := ref_init\<lparr>rs_interest := (\<lambda>_. Map.empty)(3 := [7 \<mapsto> (EPOLLIN OR EPOLLHUP OR EPOLLPRI, 10)])\<rparr>,
     chans := [10 \<mapsto> (sample_chan 7)\<lparr>ch_last_evt_status := EPOLLIN OR EPOLLHUP OR EPOLLPRI\<rparr>],
     services := [1 \<mapsto> sample_ios\<lparr>m_poller := \<lparr>ep_fd = 3, channel_map = [7 \<mapsto> 10]\<rparr>\<rparr>]\<rparr>"

lemmas sample_reg_simps = sample_reg_state_def sample_ios_simps

lemma sample_reg_loop:
  "in_loop 10 ((sample_chan 7)\<lparr>ch_last_evt_status := EPOLLIN OR EPOLLHUP OR EPOLLPRI\<rparr>)
     (sample_ios\<lparr>m_poller := \<lparr>ep_fd = 3, channel_map = [7 \<mapsto> 10]\<rparr>\<rparr>) sample_reg_state"
  by (simp add: in_loop_def sample_reg_simps)

theorem enable_masks_witness:
  "\<exists>w1 w2. enable_read ref_kernel 10 False sample_reg_state = Inr w1 \<and>
     enable_write ref_kernel 10 False w1 = Inr w2 \<and> rs_interest (kern w2) 3 7 = Some (0, 10)"
proof -
  have "rs_interest (kern sample_reg_state)
      (ep_fd (m_poller (sample_ios\<lparr>m_poller := \<lparr>ep_fd = 3, channel_map = [7 \<mapsto> 10]\<rparr>\<rparr>)))
      (ch_fd ((sample_chan 7)\<lparr>ch_last_evt_status := EPOLLIN OR EPOLLHUP OR EPOLLPRI\<rparr>)) \<noteq> None"
    by (simp add: sample_reg_simps)
  from enable_masks [OF ref_epoll_reliable sample_reg_loop this] show ?thesis
    by (auto simp: sample_chan_def)
qed

text \<open>
  Each of \<open>enable_read(false)\<close> and \<open>enable_write(false)\<close> on its own does the opposite of its
  name: the code masks with the bits to be removed instead of their complement. After
  \<open>enable_read(false)\<close> a channel that was subscribed to reading still is, and no longer to
  writing; after \<open>enable_write(false)\<close> a channel that was subscribed to writing still is, and
  no longer to reading.
\<close>

theorem disable_one_side:
  assumes rel: "epoll_reliable K interest" and loop: "in_loop ch c i w"
    and reg: "interest (kern w) (ep_fd (m_poller i)) (ch_fd c) \<noteq> None"
  shows "(\<exists>w' e. enable_read K ch False w = Inr w' \<and>
      interest (kern w') (ep_fd (m_poller i)) (ch_fd c) = Some (e, ch) \<and>
      e AND EPOLLIN = ch_last_evt_status c AND EPOLLIN \<and> e AND EPOLLOUT = 0) \<and>
    (\<exists>w' e. enable_write K ch False w = Inr w' \<and>
      interest (kern w') (ep_fd (m_poller i)) (ch_fd c) = Some (e, ch) \<and>
      e AND EPOLLOUT = ch_last_evt_status c AND EPOLLOUT \<and> e AND EPOLLIN = 0)"
  using enable_read_form [OF loop refl, of K False] enable_write_form [OF loop _ refl, of False K] reg
  by (auto simp: mask_bits epoll_reliableD(1) [OF rel])

theorem disable_one_side_witness:
  "\<exists>w' e. enable_read ref_kernel 10 False sample_reg_state = Inr w' \<and>
     rs_interest (kern w') 3 7 = Some (e, 10) \<and> e AND EPOLLIN = EPOLLIN"
proof -
  have "rs_interest (kern sample_reg_state)
      (ep_fd (m_poller (sample_ios\<lparr>m_poller := \<lparr>ep_fd = 3, channel_map = [7 \<mapsto> 10]\<rparr>\<rparr>)))
      (ch_fd ((sample_chan 7)\<lparr>ch_last_evt_status := EPOLLIN OR EPOLLHUP OR EPOLLPRI\<rparr>)) \<noteq> None"
    by (simp add: sample_reg_simps)
  from disable_one_side [OF ref_epoll_reliable sample_reg_loop this] show ?thesis
    by (auto simp: sample_chan_def epoll_consts)
qed

text \<open>The state after the constructor of \<open>io_service\<close>, when the two descriptors can be created.\<close>

definition new_loop :: "nat \<Rightarrow> fd \<Rightarrow> fd \<Rightarrow> ptr \<Rightarrow> io_service" where
  "new_loop tid ep f ch = \<lparr>m_owner_tid = tid, m_poller = \<lparr>ep_fd = ep, channel_map = [f \<mapsto> ch]\<rparr>, m_wakeup_fd = f,
     m_self_channel = ch, m_running_pending_tasks = False, m_quit = False, m_pending_tasks = []\<rparr>"

definition loop_channel :: "fd \<Rightarrow> ptr \<Rightarrow> evt_channel" where
  "loop_channel f s = (set_read_callback (IoServiceOnRead s) (evt_channel_new f s ''io_service-chnl''))
     \<lparr>ch_last_evt_status := EPOLLIN OR EPOLLHUP OR EPOLLPRI\<rparr>"

lemma loop_channel_simps [simp]:
  "ch_fd (loop_channel f s) = f" "ch_service (loop_channel f s) = s"
  "ch_read_callback (loop_channel f s) = Some (IoServiceOnRead s)"
  "evt_status (loop_channel f s) = EPOLLIN OR EPOLLHUP OR EPOLLPRI"
  by (simp_all add: loop_channel_def set_read_callback_def evt_channel_new_def evt_status_def)

lemma io_service_new_form:
  assumes rel: "epoll_reliable K interest"
    and ep: "sys_epoll_create K (kern w) = ((ep, e1), k1)" "ep \<noteq> -1"
    and ev: "sys_eventfd K k1 = ((f, e2), k2)" "f > 0"
    and new: "interest k2 ep f = None" and s: "s = next_addr w" and ch: "ch = next_addr w + 1"
    and m: "m = EPOLLIN OR EPOLLHUP OR EPOLLPRI"
  shows "\<exists>k l. io_service_new K w = Inr (s, w\<lparr>next_addr := next_addr w + 2, kern := k, log_out := l,
       services := (services w)(s \<mapsto> new_loop (this_tid w) ep f ch), chans := (chans w)(ch \<mapsto> loop_channel f s)\<rparr>) \<and>
     k = snd (sys_epoll_ctl K ep EPOLL_CTL_MOD f (Some (m, ch)) (snd (sys_epoll_ctl K ep EPOLL_CTL_ADD f (Some (0, ch)) k2))) \<and>
     interest k = (interest k2)(ep := (interest k2 ep)(f \<mapsto> (m, ch)))"
proof -
  let ?s = s and ?ch = ch
  let ?i = "\<lparr>m_owner_tid = this_tid w, m_poller = \<lparr>ep_fd = ep, channel_map = Map.empty\<rparr>, m_wakeup_fd = f,
    m_self_channel = ?ch, m_running_pending_tasks = False, m_quit = False, m_pending_tasks = []\<rparr>"
  let ?c = "set_read_callback (IoServiceOnRead ?s) (evt_channel_new f ?s ''io_service-chnl'')"
  let ?w2 = "w\<lparr>next_addr := next_addr w + 2, kern := k2\<rparr>"
  let ?w3 = "put_chan ?ch ?c (put_chan ?ch (evt_channel_new f ?s ''io_service-chnl'') (put_ios ?s ?i ?w2))"
  have loop: "in_loop ?ch ?c ?i ?w3"
    by (simp add: in_loop_def set_read_callback_def evt_channel_new_def put_chan_def)
  have c: "ch_fd ?c = f" "ch_service ?c = ?s" "ch_last_evt_status ?c = 0"
    by (simp_all add: set_read_callback_def evt_channel_new_def)
  obtain e k3 where add: "sys_epoll_ctl K ep EPOLL_CTL_ADD f (Some (0, ?ch)) k2 = ((0, e), k3)"
    "interest k3 = (interest k2)(ep := (interest k2 ep)(f \<mapsto> (0, ?ch)))"
    using epoll_reliableD(2) [OF rel new] by (metis prod.collapse)
  have "sys_epoll_ctl K (ep_fd (m_poller ?i)) EPOLL_CTL_ADD (ch_fd ?c) (Some (ch_last_evt_status ?c, ?ch)) (kern ?w3) = ((0, e), k3)"
    using add(1) c by (simp add: put_chan_def)
  from join_form [OF loop this] obtain l1 where 1: "join_to_service K ?ch ?w3 = Inr (?w3\<lparr>kern := k3, log_out := l1,
      services := (services ?w3)(?s \<mapsto> ?i\<lparr>m_poller := \<lparr>ep_fd = ep, channel_map = [f \<mapsto> ?ch]\<rparr>\<rparr>)\<rparr>)"
    (is "_ = Inr ?w4") using c by auto
  have loop4: "in_loop ?ch ?c (?i\<lparr>m_poller := \<lparr>ep_fd = ep, channel_map = [f \<mapsto> ?ch]\<rparr>\<rparr>) ?w4"
    using c by (simp add: in_loop_def put_chan_def)
  let ?c5 = "?c\<lparr>ch_last_evt_status := EPOLLIN OR EPOLLHUP OR EPOLLPRI\<rparr>"
  from enable_read_form [OF loop4 refl, of K True] c obtain l2 where
    2: "enable_read K ?ch True ?w4 = Inr (?w4\<lparr>kern := snd (sys_epoll_ctl K ep EPOLL_CTL_MOD f
      (Some (EPOLLIN OR EPOLLHUP OR EPOLLPRI, ?ch)) k3), log_out := l2, chans := (chans ?w4)(?ch \<mapsto> ?c5)\<rparr>)"
    (is "_ = Inr ?w5") by auto
  have k: "interest (kern ?w5) = (interest k2)(ep := (interest k2 ep)(f \<mapsto> (m, ch)))"
    using add(2) by (simp add: epoll_reliableD(1) [OF rel] m)
  have "io_service_new K w = Inr (s, ?w5)"
    using ep ev 1 2 by (simp add: io_service_new_def poller_new_def create_evt_fd_def kcall_unfold get_chan_def
        Let_def put_chan_def put_ios_def s ch)
  with k add(1) show ?thesis
    by (intro exI [of _ "kern ?w5"] exI [of _ l2]) (simp add: put_chan_def put_ios_def new_loop_def loop_channel_def m)
qed

text \<open>
  Constructing an \<open>io_service\<close> in a thread, when the two descriptors can be created: the new
  loop belongs to that thread, is not told to quit and has no task; exactly its own channel
  is registered, in the map of its poller and in the system, subscribed to reading, and
  calls \<open>on_read\<close> of this service. Everything else of the state is unchanged.
\<close>

theorem io_service_new_spec:
  assumes rel: "epoll_reliable K interest"
    and ep: "sys_epoll_create K (kern w) = ((ep, e1), k1)" "ep \<noteq> -1"
    and ev: "sys_eventfd K k1 = ((f, e2), k2)" "f > 0"
    and new: "interest k2 ep f = None"
  shows "\<exists>w' c. let s = next_addr w; ch = next_addr w + 1 in
     io_service_new K w = Inr (s, w') \<and>
     services w' = (services w)(s \<mapsto> \<lparr>m_owner_tid = this_tid w, m_poller = \<lparr>ep_fd = ep, channel_map = [f \<mapsto> ch]\<rparr>,
        m_wakeup_fd = f, m_self_channel = ch, m_running_pending_tasks = False, m_quit = False, m_pending_tasks = []\<rparr>) \<and>
     chans w' = (chans w)(ch \<mapsto> c) \<and> ch_fd c = f \<and> ch_service c = s \<and> ch_read_callback c = Some (IoServiceOnRead s) \<and>
     evt_status c = EPOLLIN OR EPOLLHUP OR EPOLLPRI \<and>
     interest (kern w') = (interest k2)(ep := (interest k2 ep)(f \<mapsto> (EPOLLIN OR EPOLLHUP OR EPOLLPRI, ch))) \<and>
     refs w' = refs w \<and> this_tid w' = this_tid w \<and> next_addr w' = next_addr w + 2"
  using io_service_new_form [OF rel ep ev new refl refl refl]
  by (fastforce simp: Let_def new_loop_def)

theorem io_service_new_spec_witness:
  "\<exists>w'. io_service_new ref_kernel (sample_ios_state 9) = Inr (100, w') \<and>
     map_option m_owner_tid (services w' 100) = Some 9 \<and> services w' 1 = Some sample_ios"
proof -
  have "sys_epoll_create ref_kernel (kern (sample_ios_state 9)) = ((3, 0), ref_init\<lparr>rs_next_fd := 4\<rparr>)"
    "sys_eventfd ref_kernel (ref_init\<lparr>rs_next_fd := 4\<rparr>) = ((4, 0), ref_init\<lparr>rs_next_fd := 5\<rparr>)"
    by (simp_all add: ref_kernel_def sample_ios_state_def ref_init_def)
  moreover have "rs_interest (ref_init\<lparr>rs_next_fd := 5\<rparr>) 3 4 = None"
    by (simp add: ref_init_def)
  ultimately show ?thesis
    using io_service_new_spec [OF ref_epoll_reliable, of "sample_ios_state 9" 3 0 "ref_init\<lparr>rs_next_fd := 4\<rparr>" 4 0
        "ref_init\<lparr>rs_next_fd := 5\<rparr>"]
    by (auto simp: Let_def sample_ios_state_def)
qed

end
