(* ===== verification/Connection.thy ===== *)
theory Connection
  imports Evt_Channel
begin

unbundle bit_operations_syntax

text \<open>
  \<^verbatim>\<open>src/muradin/net/connection.h\<close>, \<^verbatim>\<open>connection.cpp\<close>, \<^verbatim>\<open>buffer.h\<close> and
  \<^verbatim>\<open>user_callback.h\<close>: a TCP connection with its two buffers, its channel and the callbacks
  of the user. Connections live at addresses of the state and are owned by \<open>shared_ptr\<close>s
  (\<open>refs\<close>); the code of the user is the parameter \<open>U\<close>, one function of the state per kind of
  callback. Lemmas: what every branch of the handlers does to the buffers, the masks and the
  system, and which callbacks it calls with which arguments.
\<close>

section \<open>State\<close>

datatype conn_stat = kDisconnect | kConnected | kInConnec | kInDisconnect

record connection =
  cn_socket :: fd
  cn_service :: ptr
  cn_channle :: ptr
  cn_write_cache :: bytebuffer
  cn_read_cache :: bytebuffer
  cn_peer_address :: endpoint_v4
  cn_conn_cb :: "nat option"
  cn_read_cb :: "nat option"
  cn_write_cb :: "nat option"
  cn_close_cb :: "ptr option"
  cn_err_cb :: "nat option"
  cn_conn_status :: conn_stat

record net_buffer =
  nb_ptr :: mem_ref
  nb_size :: size_t

record 'k conn_state = "'k ios_state" +
  conns :: "ptr \<rightharpoonup> connection"
  user_mem :: "ptr \<Rightarrow> byte list"

text \<open>
  The functions of the user, by the number that a callback object holds, and the close
  callback, which the server installs with its own address.
\<close>

record 'w user_code =
  uc_conn :: "nat \<Rightarrow> ptr \<Rightarrow> 'w \<Rightarrow> 'w res"
  uc_read :: "nat \<Rightarrow> ptr \<Rightarrow> sys_error \<Rightarrow> 'w \<Rightarrow> 'w res"
  uc_write :: "nat \<Rightarrow> ptr \<Rightarrow> sys_error \<Rightarrow> size_t \<Rightarrow> 'w \<Rightarrow> 'w res"
  uc_err :: "nat \<Rightarrow> ptr \<Rightarrow> sys_error \<Rightarrow> 'w \<Rightarrow> 'w res"
  uc_close :: "ptr \<Rightarrow> ptr \<Rightarrow> 'w \<Rightarrow> 'w res"
  uc_task :: "nat \<Rightarrow> 'w \<Rightarrow> 'w res"

definition get_conn :: "ptr \<Rightarrow> ('k, 'm) conn_state_scheme \<Rightarrow> connection res" where
  "get_conn c w = (case conns w c of Some cn \<Rightarrow> Inr cn | None \<Rightarrow> Inl Dangling)"

definition put_conn :: "ptr \<Rightarrow> connection \<Rightarrow> ('k, 'm) conn_state_scheme \<Rightarrow> ('k, 'm) conn_state_scheme" where
  "put_conn c cn w = w\<lparr>conns := (conns w)(c \<mapsto> cn)\<rparr>"

text \<open>The bytes behind a pointer.\<close>

fun read_mem :: "mem_ref \<Rightarrow> size_t \<Rightarrow> ('k, 'm) conn_state_scheme \<Rightarrow> byte list res" where
  "read_mem (UserMem p off) n w =
     (if off + n \<le> length (user_mem w p) then Inr (seg off (off + n) (user_mem w p)) else Inl OutOfRange)"
| "read_mem (ReadCache c off) n w =
     rbind (get_conn c w) (\<lambda>cn. read_range (cn_read_cache cn) off (off + n))"

definition EAGAIN :: int where "EAGAIN = 11"

section \<open>Callbacks of the user\<close>

text \<open>Calling a \<open>boost::function\<close>: an empty one throws.\<close>

fun call_conn_cb :: "'w user_code \<Rightarrow> nat option \<Rightarrow> ptr \<Rightarrow> 'w \<Rightarrow> 'w res" where
  "call_conn_cb U None c w = Inl BadFunctionCall"
| "call_conn_cb U (Some f) c w = uc_conn U f c w"

fun call_read_cb :: "'w user_code \<Rightarrow> nat option \<Rightarrow> ptr \<Rightarrow> sys_error \<Rightarrow> 'w \<Rightarrow> 'w res" where
  "call_read_cb U None c e w = Inl BadFunctionCall"
| "call_read_cb U (Some f) c e w = uc_read U f c e w"

fun call_write_cb :: "'w user_code \<Rightarrow> nat option \<Rightarrow> ptr \<Rightarrow> sys_error \<Rightarrow> size_t \<Rightarrow> 'w \<Rightarrow> 'w res" where
  "call_write_cb U None c e n w = Inl BadFunctionCall"
| "call_write_cb U (Some f) c e n w = uc_write U f c e n w"

fun call_err_cb :: "'w user_code \<Rightarrow> nat option \<Rightarrow> ptr \<Rightarrow> sys_error \<Rightarrow> 'w \<Rightarrow> 'w res" where
  "call_err_cb U None c e w = Inl BadFunctionCall"
| "call_err_cb U (Some f) c e w = uc_err U f c e w"

fun call_close_cb :: "'w user_code \<Rightarrow> ptr option \<Rightarrow> ptr \<Rightarrow> 'w \<Rightarrow> 'w res" where
  "call_close_cb U None c w = Inl BadFunctionCall"
| "call_close_cb U (Some srv) c w = uc_close U srv c w"

section \<open>Construction and destruction\<close>

text \<open>
  Default-constructed buffers are little-endian with 2048 bytes. The connection and the
  channel that is a member of it take two new addresses.
\<close>

definition connection_new ::
  "'k kernel \<Rightarrow> ptr \<Rightarrow> fd \<Rightarrow> endpoint_v4 \<Rightarrow> ('k, 'm) conn_state_scheme \<Rightarrow>
     (ptr \<times> ('k, 'm) conn_state_scheme) res" where
  "connection_new K ios f peer_addr w =
     (let c = next_addr w; ch = next_addr w + 1; w0 = w\<lparr>next_addr := next_addr w + 2\<rparr> in
      rbind (bytebuffer_new lite_endian 2048) (\<lambda>wc.
      rbind (bytebuffer_new lite_endian 2048) (\<lambda>rc.
      let cn = \<lparr>cn_socket = f, cn_service = ios, cn_channle = ch, cn_write_cache = wc, cn_read_cache = rc,
                cn_peer_address = peer_addr, cn_conn_cb = None, cn_read_cb = None, cn_write_cb = None,
                cn_close_cb = None, cn_err_cb = None, cn_conn_status = kDisconnect\<rparr>;
          chn = set_error_callback (ConnHandleError c) (set_close_callback (ConnHandleClose c)
                (set_write_callback (ConnHandleWrite c) (set_read_callback (ConnHandleRead c)
                  (evt_channel_new f ios ''connection-chnl''))));
          w1 = snd (set_tcp_nodelay K f True w0);
          w2 = snd (set_keepalive K f w1)
      in Inr (c, put_conn c cn (put_chan ch chn w2)))))"

text \<open>The last \<open>shared_ptr\<close> destroys the members: the channel, and the socket, which closes its descriptor.\<close>

definition connection_dtor ::
  "'k kernel \<Rightarrow> ptr \<Rightarrow> ('k, 'm) conn_state_scheme \<Rightarrow> ('k, 'm) conn_state_scheme res" where
  "connection_dtor K c w =
     rbind (get_conn c w) (\<lambda>cn.
     let w1 = w\<lparr>chans := (chans w)(cn_channle cn := None)\<rparr>;
         w2 = socket_close K (cn_socket cn) w1
     in Inr (w2\<lparr>conns := (conns w2)(c := None)\<rparr>))"

definition shared_from_this :: "ptr \<Rightarrow> ('k, 'm) conn_state_scheme \<Rightarrow> ('k, 'm) conn_state_scheme res" where
  "shared_from_this c w = (if 0 < refs w c then Inr (acquire c w) else Inl BadWeakPtr)"

text \<open>
  \<open>m_service.run_task(boost::bind(callback, shared_from_this(), ...))\<close>: the temporary function
  object holds a pointer to the connection until \<open>run_task\<close> has returned.
\<close>

definition post ::
  "'k kernel \<Rightarrow> ptr \<Rightarrow> ptr \<Rightarrow> task \<Rightarrow>
   (('k, 'm) conn_state_scheme \<Rightarrow> ('k, 'm) conn_state_scheme res) \<Rightarrow>
     ('k, 'm) conn_state_scheme \<Rightarrow> ('k, 'm) conn_state_scheme res" where
  "post K s c t f w =
     rbind (shared_from_this c w) (\<lambda>w1.
     rbind (run_task K s t f w1) (release (connection_dtor K) c))"

section \<open>class connection\<close>

definition connected :: "connection \<Rightarrow> bool" where
  "connected cn = (cn_conn_status cn = kConnected)"

definition conn_fd :: "connection \<Rightarrow> fd" where
  [simp]: "conn_fd cn = cn_socket cn"

text \<open>The setters of the callbacks; the close callback is bound to a server.\<close>

definition conn_set_error_callback :: "nat option \<Rightarrow> connection \<Rightarrow> connection" where
  [simp]: "conn_set_error_callback func cn = cn\<lparr>cn_err_cb := func\<rparr>"

definition conn_set_close_callback :: "ptr \<Rightarrow> connection \<Rightarrow> connection" where
  [simp]: "conn_set_close_callback srv cn = cn\<lparr>cn_close_cb := Some srv\<rparr>"

definition conn_set_read_callback :: "nat option \<Rightarrow> connection \<Rightarrow> connection" where
  [simp]: "conn_set_read_callback func cn = cn\<lparr>cn_read_cb := func\<rparr>"

definition conn_set_write_callback :: "nat option \<Rightarrow> connection \<Rightarrow> connection" where
  [simp]: "conn_set_write_callback func cn = cn\<lparr>cn_write_cb := func\<rparr>"

definition conn_set_conn_callback :: "nat option \<Rightarrow> connection \<Rightarrow> connection" where
  [simp]: "conn_set_conn_callback func cn = cn\<lparr>cn_conn_cb := func\<rparr>"

definition read_buffer :: "connection \<Rightarrow> bytebuffer" where
  "read_buffer cn = cn_read_cache cn"

definition post_conn_cb ::
  "'k kernel \<Rightarrow> ('k, 'm) conn_state_scheme user_code \<Rightarrow> ptr \<Rightarrow>
     ('k, 'm) conn_state_scheme \<Rightarrow> ('k, 'm) conn_state_scheme res" where
  "post_conn_cb K U c w =
     rbind (get_conn c w) (\<lambda>cn.
     post K (cn_service cn) c (TConnCb (cn_conn_cb cn) c) (call_conn_cb U (cn_conn_cb cn) c) w)"

definition post_close_cb ::
  "'k kernel \<Rightarrow> ('k, 'm) conn_state_scheme user_code \<Rightarrow> ptr \<Rightarrow>
     ('k, 'm) conn_state_scheme \<Rightarrow> ('k, 'm) conn_state_scheme res" where
  "post_close_cb K U c w =
     rbind (get_conn c w) (\<lambda>cn.
     post K (cn_service cn) c (TCloseCb (cn_close_cb cn) c) (call_close_cb U (cn_close_cb cn) c) w)"

definition post_read_cb ::
  "'k kernel \<Rightarrow> ('k, 'm) conn_state_scheme user_code \<Rightarrow> ptr \<Rightarrow> sys_error \<Rightarrow>
     ('k, 'm) conn_state_scheme \<Rightarrow> ('k, 'm) conn_state_scheme res" where
  "post_read_cb K U c e w =
     rbind (get_conn c w) (\<lambda>cn.
     post K (cn_service cn) c (TReadCb (cn_read_cb cn) c e) (call_read_cb U (cn_read_cb cn) c e) w)"

definition post_write_cb ::
  "'k kernel \<Rightarrow> ('k, 'm) conn_state_scheme user_code \<Rightarrow> ptr \<Rightarrow> sys_error \<Rightarrow> size_t \<Rightarrow>
     ('k, 'm) conn_state_scheme \<Rightarrow> ('k, 'm) conn_state_scheme res" where
  "post_write_cb K U c e n w =
     rbind (get_conn c w) (\<lambda>cn.
     post K (cn_service cn) c (TWriteCb (cn_write_cb cn) c e n) (call_write_cb U (cn_write_cb cn) c e n) w)"

definition set_conn_status ::
  "ptr \<Rightarrow> conn_stat \<Rightarrow> ('k, 'm) conn_state_scheme \<Rightarrow> ('k, 'm) conn_state_scheme res" where
  "set_conn_status c st w = rbind (get_conn c w) (\<lambda>cn. Inr (put_conn c (cn\<lparr>cn_conn_status := st\<rparr>) w))"

definition conn_start ::
  "'k kernel \<Rightarrow> ('k, 'm) conn_state_scheme user_code \<Rightarrow> ptr \<Rightarrow>
     ('k, 'm) conn_state_scheme \<Rightarrow> ('k, 'm) conn_state_scheme res" where
  "conn_start K U c w =
     rbind (get_conn c w) (\<lambda>cn.
     rbind (shared_from_this c w) (\<lambda>w1.
     rbind (tie (cn_channle cn) c w1) (\<lambda>w2.
     rbind (release (connection_dtor K) c w2) (\<lambda>w3.
     rbind (join_to_service K (cn_channle cn) w3) (\<lambda>w4.
     rbind (enable_read K (cn_channle cn) True w4) (\<lambda>w5.
     rbind (set_conn_status c kConnected w5) (post_conn_cb K U c)))))))"

definition final_destory ::
  "'k kernel \<Rightarrow> ptr \<Rightarrow> ('k, 'm) conn_state_scheme \<Rightarrow> ('k, 'm) conn_state_scheme res" where
  "final_destory K c w =
     rbind (get_conn c w) (\<lambda>cn.
     rbind (c_assert (cn_conn_status cn = kDisconnect)) (\<lambda>_.
     remove_from_service K (cn_channle cn) w))"

definition write_cache_append ::
  "ptr \<Rightarrow> byte list \<Rightarrow> ('k, 'm) conn_state_scheme \<Rightarrow> ('k, 'm) conn_state_scheme res" where
  "write_cache_append c data w =
     rbind (get_conn c w) (\<lambda>cn.
     rbind (append_data (cn_write_cache cn) data) (\<lambda>(_, b).
     Inr (put_conn c (cn\<lparr>cn_write_cache := b\<rparr>) w)))"

definition write_cache_discard ::
  "ptr \<Rightarrow> size_t \<Rightarrow> ('k, 'm) conn_state_scheme \<Rightarrow> ('k, 'm) conn_state_scheme res" where
  "write_cache_discard c n w =
     rbind (get_conn c w) (\<lambda>cn.
     rbind (discard (cn_write_cache cn) n) (\<lambda>(_, b).
     Inr (put_conn c (cn\<lparr>cn_write_cache := b\<rparr>) w)))"

text \<open>
  \<open>write_in_loop(data, len)\<close>. After a short write the code appends the first \<open>len - ret\<close> bytes
  at \<open>data\<close>.
\<close>

definition write_in_loop ::
  "'k kernel \<Rightarrow> ('k, 'm) conn_state_scheme user_code \<Rightarrow> ptr \<Rightarrow> mem_ref \<Rightarrow> size_t \<Rightarrow>
     ('k, 'm) conn_state_scheme \<Rightarrow> ('k, 'm) conn_state_scheme res" where
  "write_in_loop K U c m len w =
     rbind (get_conn c w) (\<lambda>cn.
     rbind (get_ios (cn_service cn) w) (\<lambda>i.
     rbind (c_assert (check_this_loop i w)) (\<lambda>_.
     rbind (read_mem m len w) (\<lambda>data.
     rbind (readable_bytes (cn_write_cache cn)) (\<lambda>n.
     if n > 0 then rbind (write_cache_append c data w) (enable_write K (cn_channle cn) True)
     else
       let ((ret, errno), w1) = socket_send K (cn_socket cn) data w
       in if ret < 0 then
            if errno = EAGAIN then rbind (write_cache_append c data w1) (enable_write K (cn_channle cn) True)
            else post_write_cb K U c (sys_error_new (sys_strerror K) errno) 0 w1
          else
            rbind (if nat ret < len
                   then rbind (write_cache_append c (take (len - nat ret) data) w1) (enable_write K (cn_channle cn) True)
                   else Inr w1) (\<lambda>w2.
            if ret > 0 then post_write_cb K U c (no_error (sys_strerror K)) (nat ret) w2 else Inr w2))))))"

definition conn_write ::
  "'k kernel \<Rightarrow> ('k, 'm) conn_state_scheme user_code \<Rightarrow> ptr \<Rightarrow> net_buffer \<Rightarrow>
     ('k, 'm) conn_state_scheme \<Rightarrow> ('k, 'm) conn_state_scheme res" where
  "conn_write K U c data w =
     rbind (get_conn c w) (\<lambda>cn.
     rbind (get_ios (cn_service cn) w) (\<lambda>i.
     if check_this_loop i w then write_in_loop K U c (nb_ptr data) (nb_size data) w
     else run_task K (cn_service cn) (TWriteInLoop c (nb_ptr data) (nb_size data))
            (write_in_loop K U c (nb_ptr data) (nb_size data)) w))"

definition shutdown_in_loop ::
  "'k kernel \<Rightarrow> ptr \<Rightarrow> ('k, 'm) conn_state_scheme \<Rightarrow> ('k, 'm) conn_state_scheme res" where
  "shutdown_in_loop K c w =
     rbind (get_conn c w) (\<lambda>cn. Inr (snd (socket_shutdown K (cn_socket cn) k_tcp_close_writ w)))"

definition conn_shutdown ::
  "'k kernel \<Rightarrow> ptr \<Rightarrow> ('k, 'm) conn_state_scheme \<Rightarrow> ('k, 'm) conn_state_scheme res" where
  "conn_shutdown K c w =
     rbind (set_conn_status c kInDisconnect w) (\<lambda>w1.
     rbind (get_conn c w1) (\<lambda>cn.
     rbind (get_ios (cn_service cn) w1) (\<lambda>i.
     if check_this_loop i w1 then shutdown_in_loop K c w1
     else run_task K (cn_service cn) (TShutdownInLoop c) (shutdown_in_loop K c) w1)))"

definition handle_close ::
  "'k kernel \<Rightarrow> ('k, 'm) conn_state_scheme user_code \<Rightarrow> ptr \<Rightarrow>
     ('k, 'm) conn_state_scheme \<Rightarrow> ('k, 'm) conn_state_scheme res" where
  "handle_close K U c w =
     rbind (set_conn_status c kDisconnect (log_line ll_info ''handle_close '' [] w)) (\<lambda>w1.
     rbind (get_conn c w1) (\<lambda>cn.
     rbind (enable_read K (cn_channle cn) False w1) (\<lambda>w2.
     rbind (enable_write K (cn_channle cn) False w2) (\<lambda>w3.
     rbind (post_conn_cb K U c w3) (post_close_cb K U c)))))"

definition max_readbytes_once :: size_t where
  "max_readbytes_once = 1024 * 32"

text \<open>\<open>recv\<close> writes into the container at the write pointer of the read buffer.\<close>

definition handle_read ::
  "'k kernel \<Rightarrow> ('k, 'm) conn_state_scheme user_code \<Rightarrow> ptr \<Rightarrow>
     ('k, 'm) conn_state_scheme \<Rightarrow> ('k, 'm) conn_state_scheme res" where
  "handle_read K U c w =
     rbind (get_conn c w) (\<lambda>cn.
     rbind (ensure_write_space (cn_read_cache cn) max_readbytes_once) (\<lambda>b1.
     let ((ret, errno, bytes), w1) = socket_recv K (cn_socket cn) max_readbytes_once w
     in rbind (vec_copy_in (m_contianer b1) (wt_ptr b1) bytes) (\<lambda>v.
        let b2 = b1\<lparr>m_contianer := v\<rparr>; w2 = put_conn c (cn\<lparr>cn_read_cache := b2\<rparr>) w1
        in if ret = 0 then
             rbind (post_conn_cb K U c w2) (\<lambda>w3.
             rbind (get_conn c w3) (\<lambda>cn3.
             run_task K (cn_service cn3) (THandleClose c) (handle_close K U c) w3))
           else if ret > 0 then
             rbind (has_written b2 (nat ret)) (\<lambda>(_, b3).
             post_read_cb K U c (no_error (sys_strerror K)) (put_conn c (cn\<lparr>cn_read_cache := b3\<rparr>) w2))
           else post_read_cb K U c (sys_error_new (sys_strerror K) errno) w2)))"

definition handle_write ::
  "'k kernel \<Rightarrow> ('k, 'm) conn_state_scheme user_code \<Rightarrow> ptr \<Rightarrow>
     ('k, 'm) conn_state_scheme \<Rightarrow> ('k, 'm) conn_state_scheme res" where
  "handle_write K U c w =
     rbind (get_conn c w) (\<lambda>cn.
     rbind (readable_bytes (cn_write_cache cn)) (\<lambda>n.
     rbind (read_range (cn_write_cache cn) (rd_ptr (cn_write_cache cn)) (rd_ptr (cn_write_cache cn) + n)) (\<lambda>data.
     let ((ret, errno), w1) = socket_send K (cn_socket cn) data w
     in if ret < 0 then
          if errno = EAGAIN then enable_write K (cn_channle cn) True w1
          else post_write_cb K U c (sys_error_new (sys_strerror K) errno) 0 w1
        else
          rbind (write_cache_discard c (nat ret) w1) (\<lambda>w2.
          rbind (get_conn c w2) (\<lambda>cn2.
          rbind (readable_bytes (cn_write_cache cn2)) (\<lambda>n2.
          rbind (if n2 > 0 then enable_write K (cn_channle cn2) True w2 else Inr w2) (\<lambda>w3.
          if ret > 0 then
            rbind (write_cache_discard c (nat ret) w3) (post_write_cb K U c (no_error (sys_strerror K)) (nat ret))
          else Inr w3)))))))"

definition handle_error ::
  "'k kernel \<Rightarrow> ('k, 'm) conn_state_scheme user_code \<Rightarrow> ptr \<Rightarrow>
     ('k, 'm) conn_state_scheme \<Rightarrow> ('k, 'm) conn_state_scheme res" where
  "handle_error K U c w =
     rbind (get_conn c w) (\<lambda>cn.
     let (code, w1) = socket_retrieve_err K (cn_socket cn) w;
         err = sys_error_new (sys_strerror K) code
     in rbind (err_what err) (\<lambda>msg.
        let w2 = log_line ll_info (''handle_error '' @ msg) [] w1
        in case cn_err_cb cn of
             None \<Rightarrow> Inr w2
           | Some f \<Rightarrow> post K (cn_service cn) c (TErrCb (Some f) c err) (call_err_cb U (Some f) c err) w2))"

text \<open>What the queued tasks of the library do when the loop of service \<open>s\<close> calls them.\<close>

fun exec_conn_task ::
  "'k kernel \<Rightarrow> ('k, 'm) conn_state_scheme user_code \<Rightarrow> task \<Rightarrow>
     ('k, 'm) conn_state_scheme \<Rightarrow> ('k, 'm) conn_state_scheme res" where
  "exec_conn_task K U (TConnCb f c) w = call_conn_cb U f c w"
| "exec_conn_task K U (TReadCb f c e) w = call_read_cb U f c e w"
| "exec_conn_task K U (TWriteCb f c e n) w = call_write_cb U f c e n w"
| "exec_conn_task K U (TErrCb f c e) w = call_err_cb U f c e w"
| "exec_conn_task K U (TCloseCb f c) w = call_close_cb U f c w"
| "exec_conn_task K U (THandleClose c) w = handle_close K U c w"
| "exec_conn_task K U (TWriteInLoop c m n) w = write_in_loop K U c m n w"
| "exec_conn_task K U (TShutdownInLoop c) w = shutdown_in_loop K c w"
| "exec_conn_task K U (TUser n) w = uc_task U n w"
| "exec_conn_task K U (TAddChannel ch) w = Inl BadFunctionCall"
| "exec_conn_task K U (TDelChannel ch) w = Inl BadFunctionCall"
| "exec_conn_task K U (TUpdateChannel ch) w = Inl BadFunctionCall"

definition exec_task ::
  "'k kernel \<Rightarrow> ('k, 'm) conn_state_scheme user_code \<Rightarrow> ptr \<Rightarrow> task \<Rightarrow>
     ('k, 'm) conn_state_scheme \<Rightarrow> ('k, 'm) conn_state_scheme res" where
  "exec_task K U s = exec_channel_task K s (exec_conn_task K U)"

text \<open>What the callbacks of the channels do; \<open>A\<close> is \<open>acceptor::on_read\<close>.\<close>

fun exec_functor ::
  "'k kernel \<Rightarrow> ('k, 'm) conn_state_scheme user_code \<Rightarrow>
   (ptr \<Rightarrow> ('k, 'm) conn_state_scheme \<Rightarrow> ('k, 'm) conn_state_scheme res) \<Rightarrow> evt_functor \<Rightarrow>
     ('k, 'm) conn_state_scheme \<Rightarrow> ('k, 'm) conn_state_scheme res" where
  "exec_functor K U A (IoServiceOnRead s) w = on_read K s w"
| "exec_functor K U A (AcceptorOnRead a) w = A a w"
| "exec_functor K U A (ConnHandleRead c) w = handle_read K U c w"
| "exec_functor K U A (ConnHandleWrite c) w = handle_write K U c w"
| "exec_functor K U A (ConnHandleClose c) w = handle_close K U c w"
| "exec_functor K U A (ConnHandleError c) w = handle_error K U c w"

section \<open>Frame lemmas\<close>

lemma get_conn_eq [simp]: "get_conn c w = Inr cn \<longleftrightarrow> conns w c = Some cn"
  by (simp add: get_conn_def split: option.splits)

lemma get_conn_eq_Inl [simp]: "get_conn c w = Inl e \<longleftrightarrow> conns w c = None \<and> e = Dangling"
  by (auto simp: get_conn_def split: option.splits)

lemma get_conn_Some: "conns w c = Some cn \<Longrightarrow> get_conn c w = Inr cn"
  by simp

lemma conns_frame [simp]:
  "conns (acquire c w) = conns w" "conns (log_line l m a w) = conns w"
  "conns (put_chan ch x w) = conns w" "conns (put_ios s i w) = conns w"
  "user_mem (acquire c w) = user_mem w" "user_mem (put_conn c cn w) = user_mem w"
  by (simp_all add: acquire_def log_line_def put_chan_def put_ios_def put_conn_def)

lemma put_conn_frame [simp]:
  "conns (put_conn c cn w) = (conns w)(c \<mapsto> cn)" "chans (put_conn c cn w) = chans w"
  "services (put_conn c cn w) = services w" "refs (put_conn c cn w) = refs w"
  "kern (put_conn c cn w) = kern w" "this_tid (put_conn c cn w) = this_tid w"
  by (simp_all add: put_conn_def)

text \<open>A live connection, its channel and its loop, looked at from the thread of the loop.\<close>

definition conn_loop ::
  "ptr \<Rightarrow> connection \<Rightarrow> evt_channel \<Rightarrow> io_service \<Rightarrow> ('k, 'm) conn_state_scheme \<Rightarrow> bool" where
  "conn_loop c cn chn i w \<longleftrightarrow>
     conns w c = Some cn \<and> in_loop (cn_channle cn) chn i w \<and> ch_service chn = cn_service cn \<and>
     ch_fd chn = cn_socket cn \<and> 0 < refs w c \<and> buf_inv (cn_write_cache cn) \<and> buf_inv (cn_read_cache cn)"

lemma conn_loopD:
  assumes "conn_loop c cn chn i w"
  shows "conns w c = Some cn" "in_loop (cn_channle cn) chn i w" "chans w (cn_channle cn) = Some chn"
    "services w (cn_service cn) = Some i" "this_tid w = m_owner_tid i" "0 < refs w c"
    "buf_inv (cn_write_cache cn)" "buf_inv (cn_read_cache cn)"
  using assms by (auto simp: conn_loop_def in_loop_def)

lemma post_in_loop:
  assumes "services w s = Some i" "this_tid w = m_owner_tid i" "0 < refs w c"
  shows "post K s c t f w = rbind (f (acquire c w)) (release (connection_dtor K) c)"
  using assms by (simp add: post_def shared_from_this_def run_task_def get_ios_Some check_this_loop_def)

lemma socket_send_form:
  "sys_send K f data (kern w) = ((r, e), k) \<Longrightarrow> - (2 ^ 31) \<le> r \<Longrightarrow> r < 2 ^ 31 \<Longrightarrow>
   socket_send K f data w = ((r, e), w\<lparr>kern := k\<rparr>)"
  by (simp add: socket_send_def kcall_unfold to_int32_exact)

text \<open>Subscribing to writing, whether or not a write is already in progress.\<close>

lemma enable_write_on:
  assumes "in_loop ch c i w"
  shows "\<exists>k l c'. enable_write K ch True w = Inr (w\<lparr>kern := k, log_out := l, chans := (chans w)(ch \<mapsto> c')\<rparr>) \<and>
     ch_service c' = ch_service c \<and> ch_fd c' = ch_fd c \<and> ch_progress_in_write c' \<and>
     (ch_progress_in_write c \<longrightarrow> k = kern w \<and> c' = c) \<and>
     (\<not> ch_progress_in_write c \<longrightarrow>
        c' = c\<lparr>ch_last_evt_status := ch_last_evt_status c OR EPOLLOUT, ch_progress_in_write := True\<rparr> \<and>
        k = snd (sys_epoll_ctl K (ep_fd (m_poller i)) EPOLL_CTL_MOD (ch_fd c)
                   (Some (ch_last_evt_status c OR EPOLLOUT, ch)) (kern w)))"
proof (cases "ch_progress_in_write c")
  case True
  have "chans w ch = Some c"
    using assms by (simp add: in_loop_def)
  with enable_write_pending [OF this True, of K] True show ?thesis
    by (intro exI [of _ "kern w"] exI [of _ "log_out w"] exI [of _ c]) (simp add: fun_upd_idem)
next
  case False
  from enable_write_form [OF assms _ refl, of True K] False show ?thesis by fastforce
qed

lemma write_cache_append_form:
  assumes "conns w c = Some cn" "buf_inv (cn_write_cache cn)" "length xs \<le> room (cn_write_cache cn)"
  shows "\<exists>b. write_cache_append c xs w = Inr (put_conn c (cn\<lparr>cn_write_cache := b\<rparr>) w) \<and> buf_inv b \<and>
     contents b = contents (cn_write_cache cn) @ xs"
  using buf_fifo.push_ok [OF assms(2,3)] assms(1)
  by (auto simp: write_cache_append_def get_conn_Some)

lemma write_cache_discard_form:
  assumes "conns w c = Some cn" "buf_inv (cn_write_cache cn)" "n \<le> length (contents (cn_write_cache cn))"
  shows "\<exists>b. write_cache_discard c n w = Inr (put_conn c (cn\<lparr>cn_write_cache := b\<rparr>) w) \<and> buf_inv b \<and>
     contents b = drop n (contents (cn_write_cache cn))"
  using buf_fifo.pop_ok [OF assms(2,3)] assms(1)
  by (auto simp: write_cache_discard_def get_conn_Some)

lemma write_cache_discard_fail:
  "conns w c = Some cn \<Longrightarrow> buf_inv (cn_write_cache cn) \<Longrightarrow> length (contents (cn_write_cache cn)) < n \<Longrightarrow>
   write_cache_discard c n w = Inl AssertFailed"
  by (simp add: write_cache_discard_def get_conn_Some buf_fifo.pop_fail)

text \<open>The bytes of a connection that wait to be sent.\<close>

definition unsent :: "ptr \<Rightarrow> ('k, 'm) conn_state_scheme \<Rightarrow> byte list" where
  "unsent c w = (case conns w c of Some cn \<Rightarrow> contents (cn_write_cache cn) | None \<Rightarrow> [])"

text \<open>Bytes put into the write buffer: the loop is then subscribed to writing.\<close>

lemma cache_and_enable:
  assumes "conn_loop c cn chn i w" and "length xs \<le> room (cn_write_cache cn)"
  shows "\<exists>w' chn' cn'. rbind (write_cache_append c xs w) (enable_write K (cn_channle cn) True) = Inr w' \<and>
     conn_loop c cn' chn' i w' \<and> unsent c w' = unsent c w @ xs \<and> ch_progress_in_write chn' \<and>
     cn_write_cb cn' = cn_write_cb cn \<and> refs w' = refs w \<and>
     (ch_progress_in_write chn \<longrightarrow> kern w' = kern w) \<and>
     (\<not> ch_progress_in_write chn \<longrightarrow> ch_last_evt_status chn' = ch_last_evt_status chn OR EPOLLOUT \<and>
        kern w' = snd (sys_epoll_ctl K (ep_fd (m_poller i)) EPOLL_CTL_MOD (cn_socket cn)
                    (Some (ch_last_evt_status chn OR EPOLLOUT, cn_channle cn)) (kern w)))"
proof -
  note D = conn_loopD [OF assms(1)]
  from write_cache_append_form [OF D(1,7) assms(2)] obtain b where
    1: "write_cache_append c xs w = Inr (put_conn c (cn\<lparr>cn_write_cache := b\<rparr>) w)" "buf_inv b"
    "contents b = contents (cn_write_cache cn) @ xs" by blast
  have "in_loop (cn_channle cn) chn i (put_conn c (cn\<lparr>cn_write_cache := b\<rparr>) w)"
    using D(2) by (simp add: in_loop_def)
  from enable_write_on [OF this, of K] 1 assms(1) show ?thesis
    by (auto simp: conn_loop_def in_loop_def unsent_def put_conn_def)
qed

section \<open>Writing\<close>

lemma write_in_loop_start:
  assumes "conn_loop c cn chn i w" and "read_mem m len w = Inr data"
  shows "write_in_loop K U c m len w =
     (if unsent c w \<noteq> [] then rbind (write_cache_append c data w) (enable_write K (cn_channle cn) True)
      else
       let ((ret, errno), w1) = socket_send K (cn_socket cn) data w
       in if ret < 0 then
            if errno = EAGAIN then rbind (write_cache_append c data w1) (enable_write K (cn_channle cn) True)
            else post_write_cb K U c (sys_error_new (sys_strerror K) errno) 0 w1
          else
            rbind (if nat ret < len
                   then rbind (write_cache_append c (take (len - nat ret) data) w1) (enable_write K (cn_channle cn) True)
                   else Inr w1) (\<lambda>w2.
            if ret > 0 then post_write_cb K U c (no_error (sys_strerror K)) (nat ret) w2 else Inr w2))"
  using conn_loopD [OF assms(1)] assms(2)
  by (simp add: write_in_loop_def get_conn_Some get_ios_Some check_this_loop_def buf_simps unsent_def)

lemma post_write_cb_form:
  assumes "conn_loop c cn chn i w"
  shows "post_write_cb K U c e n w =
     rbind (call_write_cb U (cn_write_cb cn) c e n (acquire c w)) (release (connection_dtor K) c)"
  using conn_loopD [OF assms] by (simp add: post_write_cb_def get_conn_Some post_in_loop)

lemma conn_loop_kern: "conn_loop c cn chn i w \<Longrightarrow> conn_loop c cn chn i (w\<lparr>kern := k\<rparr>)"
  by (auto simp: conn_loop_def in_loop_def)

lemma unsent_kern [simp]: "unsent c (w\<lparr>kern := k\<rparr>) = unsent c w"
  by (simp add: unsent_def)

text \<open>A connection at address 20 for the instances, in the loop of thread 1, registered for reading.\<close>

definition sample_conn :: "byte list \<Rightarrow> connection" where
  "sample_conn out = \<lparr>cn_socket = 7, cn_service = 1, cn_channle = 10,
     cn_write_cache = \<lparr>m_byteorder = lite_endian,
        m_contianer = \<lparr>vdata = replicate 8 0 @ out @ replicate 4 0, vcap = 12 + length out\<rparr>,
        m_rd_index = 8, m_wt_index = 8 + length out\<rparr>,
     cn_read_cache = sample_buf, cn_peer_address = \<lparr>sin_family = 2, sin_port = 0, s_addr = 0\<rparr>,
     cn_conn_cb = Some 1, cn_read_cb = Some 2, cn_write_cb = Some 3, cn_close_cb = Some 30, cn_err_cb = Some 4,
     cn_conn_status = kConnected\<rparr>"

definition sample_conn_chan :: evt_channel where
  "sample_conn_chan = (sample_chan 7)\<lparr>ch_tied := True, ch_owner_ob := Some 20,
     ch_last_evt_status := EPOLLIN OR EPOLLHUP OR EPOLLPRI,
     ch_close_callback := Some (ConnHandleClose 20), ch_error_callback := Some (ConnHandleError 20),
     ch_read_callback := Some (ConnHandleRead 20), ch_write_callback := Some (ConnHandleWrite 20)\<rparr>"

definition sample_conn_ios :: io_service where
  "sample_conn_ios = sample_ios\<lparr>m_poller := \<lparr>ep_fd = 3, channel_map = [7 \<mapsto> 10]\<rparr>\<rparr>"

definition sample_conn_state :: "int \<times> int \<Rightarrow> byte list \<Rightarrow> byte list \<Rightarrow> ref_sys conn_state" where
  "sample_conn_state send_result inbox out =
     \<lparr>kern = ref_init\<lparr>rs_interest := (\<lambda>_. Map.empty)(3 := [7 \<mapsto> (EPOLLIN OR EPOLLHUP OR EPOLLPRI, 10)]),
        rs_send_result := send_result, rs_inbox := inbox\<rparr>,
      this_tid = 1, next_addr = 100, log_out = [], chans = [10 \<mapsto> sample_conn_chan],
      services = [1 \<mapsto> sample_conn_ios], refs = (\<lambda>_. 0)(20 := 1), conns = [20 \<mapsto> sample_conn out],
      user_mem = (\<lambda>_. [1, 2, 3])\<rparr>"

text \<open>Code of the user that logs one line per call, for the instances.\<close>

definition log_code :: "('k, 'm) conn_state_scheme user_code" where
  "log_code = \<lparr>uc_conn = (\<lambda>f c w. Inr (log_line ll_info ''conn'' [] w)),
     uc_read = (\<lambda>f c e w. Inr (log_line ll_info ''read'' [err_code e] w)),
     uc_write = (\<lambda>f c e n w. Inr (log_line ll_info ''write'' [err_code e, int n] w)),
     uc_err = (\<lambda>f c e w. Inr (log_line ll_info ''err'' [err_code e] w)),
     uc_close = (\<lambda>v c w. Inr (log_line ll_info ''close'' [] w)),
     uc_task = (\<lambda>n w. Inr (log_line ll_info ''task'' [int n] w))\<rparr>"

lemmas sample_conn_simps = sample_conn_def sample_conn_chan_def sample_conn_ios_def sample_conn_state_def

lemma sample_out:
  assumes "length out \<le> 1000"
  shows "buf_inv (cn_write_cache (sample_conn out))" "contents (cn_write_cache (sample_conn out)) = out"
    "1000 \<le> room (cn_write_cache (sample_conn out))" "unsent 20 (sample_conn_state r x out) = out"
  using assms
  by (simp_all add: sample_conn_simps buf_inv_def contents_def storage_def m_resver_index_def vec_max_size_def
      room_def seg_def unsent_def)

lemma sample_conn_loop:
  "length out \<le> 1000 \<Longrightarrow> conn_loop 20 (sample_conn out) sample_conn_chan sample_conn_ios (sample_conn_state r x out)"
  using sample_out [of out]
  by (simp add: conn_loop_def in_loop_def) (simp add: sample_conn_simps sample_ios_simps)



text \<open>
  A short write: of the \<open>len\<close> bytes \<open>send\<close> took \<open>ret\<close>. The code then keeps the first
  \<open>len - ret\<close> bytes of the data instead of the last ones, so the peer receives
  \<open>take ret data @ take (len - ret) data\<close>, which is the data only when the two stretches happen
  to be equal.
\<close>

theorem short_write_keeps_prefix:
  assumes loop: "conn_loop c cn chn i w" and data: "read_mem m len w = Inr data" "length data = len"
    and room: "len \<le> room (cn_write_cache cn)" and idle: "unsent c w = []"
    and send: "sys_send K (cn_socket cn) data (kern w) = ((ret, errno), k)" "0 < ret" "ret < int len" "ret < 2 ^ 31"
  shows "\<exists>w2 cn2 chn2. conn_loop c cn2 chn2 i w2 \<and> unsent c w2 = take (len - nat ret) data \<and>
     ch_progress_in_write chn2 \<and>
     write_in_loop K U c m len w =
       rbind (call_write_cb U (cn_write_cb cn) c (no_error (sys_strerror K)) (nat ret) (acquire c w2))
         (release (connection_dtor K) c) \<and>
     (take (nat ret) data @ unsent c w2 = data \<longleftrightarrow> take (len - nat ret) data = drop (nat ret) data)"
proof -
  have "length (take (len - nat ret) data) \<le> room (cn_write_cache cn)"
    using room data(2) by simp
  from cache_and_enable [OF conn_loop_kern [OF loop, of k] this, of K] idle
  obtain w2 chn2 cn2 where w2: "rbind (write_cache_append c (take (len - nat ret) data) (w\<lparr>kern := k\<rparr>))
      (enable_write K (cn_channle cn) True) = Inr w2" "conn_loop c cn2 chn2 i w2"
    "unsent c w2 = take (len - nat ret) data" "ch_progress_in_write chn2" "cn_write_cb cn2 = cn_write_cb cn"
    by auto
  moreover have "write_in_loop K U c m len w = post_write_cb K U c (no_error (sys_strerror K)) (nat ret) w2"
    using socket_send_form [OF send(1)] send(2-) idle w2(1)
    by (simp add: write_in_loop_start [OF loop data(1)] nat_less_iff)
  moreover have "take (nat ret) data @ ys = data \<longleftrightarrow> ys = drop (nat ret) data" for ys
    by (metis append_take_drop_id same_append_eq)
  ultimately show ?thesis
    by (intro exI [of _ w2] exI [of _ cn2] exI [of _ chn2]) (simp add: post_write_cb_form)
qed

theorem short_write_keeps_prefix_witness:
  "\<exists>w2. write_in_loop ref_kernel log_code 20 (UserMem 5 0) 3 (sample_conn_state (1, 0) [] []) =
       rbind (call_write_cb log_code (Some 3) 20 (no_error (sys_strerror ref_kernel)) 1 (acquire 20 w2))
         (release (connection_dtor ref_kernel) 20) \<and>
     unsent 20 w2 = [1, 2] \<and> [1] @ unsent 20 w2 \<noteq> [1, 2, 3]"
proof -
  let ?w = "sample_conn_state (1, 0) [] []"
  have "sys_send ref_kernel (cn_socket (sample_conn [])) [1, 2, 3] (kern ?w) =
      ((1, 0), (kern ?w)\<lparr>rs_sent := [(7, [1])]\<rparr>)"
    by (simp add: sample_conn_simps ref_init_def)
  moreover have "read_mem (UserMem 5 0) 3 ?w = Inr [1, 2, 3]"
    by (simp add: sample_conn_simps seg_def)
  moreover have "conn_loop 20 (sample_conn []) sample_conn_chan sample_conn_ios ?w"
    by (rule sample_conn_loop) simp
  moreover have "cn_write_cb (sample_conn []) = Some 3"
    by (simp add: sample_conn_def)
  ultimately have "\<exists>w2. unsent 20 w2 = take (3 - nat 1) [1, 2, 3] \<and>
      write_in_loop ref_kernel log_code 20 (UserMem 5 0) 3 ?w =
       rbind (call_write_cb log_code (Some 3) 20 (no_error (sys_strerror ref_kernel)) (nat 1) (acquire 20 w2))
         (release (connection_dtor ref_kernel) 20)"
    using short_write_keeps_prefix [of 20 "sample_conn []" sample_conn_chan sample_conn_ios ?w "UserMem 5 0" 3
        "[1, 2, 3]" ref_kernel 1 0 _ log_code] sample_out(3) [of "[]"] sample_out(4) [of "[]"]
    by fastforce
  then obtain w2 where w2: "unsent 20 w2 = take (3 - nat 1) [1, 2, 3]"
    "write_in_loop ref_kernel log_code 20 (UserMem 5 0) 3 ?w =
       rbind (call_write_cb log_code (Some 3) 20 (no_error (sys_strerror ref_kernel)) (nat 1) (acquire 20 w2))
         (release (connection_dtor ref_kernel) 20)" by blast
  then have "unsent 20 w2 = [1, 2]" by simp
  with w2(2) show ?thesis
    by (intro exI [of _ w2]) simp
qed

text \<open>\<open>handle_write\<close> up to its second removal of the sent bytes.\<close>

lemma handle_write_sent:
  assumes loop: "conn_loop c cn chn i w"
    and send: "sys_send K (cn_socket cn) (unsent c w) (kern w) = ((ret, errno), k)" "0 < ret" "ret < 2 ^ 31"
      "nat ret \<le> length (unsent c w)"
  shows "\<exists>w3 chn3 b. conn_loop c (cn\<lparr>cn_write_cache := b\<rparr>) chn3 i w3 \<and> contents b = drop (nat ret) (unsent c w) \<and>
     handle_write K U c w =
       rbind (write_cache_discard c (nat ret) w3) (post_write_cb K U c (no_error (sys_strerror K)) (nat ret))"
proof -
  note D = conn_loopD [OF loop]
  let ?n = "nat ret" and ?w1 = "w\<lparr>kern := k\<rparr>"
  have u: "contents (cn_write_cache cn) = unsent c w"
    using D(1) by (simp add: unsent_def)
  have rng: "read_range (cn_write_cache cn) (rd_ptr (cn_write_cache cn))
      (rd_ptr (cn_write_cache cn) + length (unsent c w)) = Inr (unsent c w)"
    using read_range_contents [OF D(7)] D(7) u length_contents [OF D(7)]
    by (auto simp: rd_ptr_def elim!: buf_invE)
  from write_cache_discard_form [of ?w1 c cn, OF _ D(7), of ?n] D(1) u send(4) obtain b where
    b: "write_cache_discard c ?n ?w1 = Inr (put_conn c (cn\<lparr>cn_write_cache := b\<rparr>) ?w1)" "buf_inv b"
    "contents b = drop ?n (unsent c w)" by auto
  let ?cn = "cn\<lparr>cn_write_cache := b\<rparr>"
  let ?w2 = "put_conn c ?cn ?w1"
  have loop2: "conn_loop c ?cn chn i ?w2"
    using loop b(2) by (auto simp: conn_loop_def in_loop_def)
  have "\<exists>w3 chn3. (if contents b \<noteq> [] then enable_write K (cn_channle cn) True ?w2 else Inr ?w2) = Inr w3 \<and>
      conn_loop c ?cn chn3 i w3"
    using enable_write_on [OF conn_loopD(2) [OF loop2], of K] loop2
    by (auto simp: conn_loop_def in_loop_def)
  then obtain w3 chn3 where w3: "(if contents b \<noteq> [] then enable_write K (cn_channle cn) True ?w2 else Inr ?w2) = Inr w3"
    "conn_loop c ?cn chn3 i w3" by blast
  have "handle_write K U c w =
      rbind (write_cache_discard c ?n w3) (post_write_cb K U c (no_error (sys_strerror K)) ?n)"
    using D socket_send_form [OF send(1) _ send(3)] send(2) b w3(1) rng
    by (auto simp: handle_write_def get_conn_Some buf_simps u not_less split: if_splits)
  with w3(2) b(3) show ?thesis by blast
qed

text \<open>
  C39. When the descriptor becomes writeable and \<open>send\<close> takes \<open>ret > 0\<close> of the waiting bytes,
  \<open>handle_write\<close> removes \<open>ret\<close> bytes from the buffer twice. If at least \<open>2 * ret\<close> bytes waited,
  \<open>ret\<close> bytes are lost that were never sent; if fewer waited, in particular whenever all of
  them were sent, the second removal fails its assertion and the process ends.
\<close>

theorem handle_write_discards_twice:
  assumes loop: "conn_loop c cn chn i w"
    and send: "sys_send K (cn_socket cn) (unsent c w) (kern w) = ((ret, errno), k)" "0 < ret" "ret < 2 ^ 31"
      "nat ret \<le> length (unsent c w)"
  shows "(length (unsent c w) < 2 * nat ret \<longrightarrow> handle_write K U c w = Inl AssertFailed) \<and>
    (2 * nat ret \<le> length (unsent c w) \<longrightarrow>
      (\<exists>w2 cn2 chn2. conn_loop c cn2 chn2 i w2 \<and> unsent c w2 = drop (2 * nat ret) (unsent c w) \<and>
         handle_write K U c w = rbind (call_write_cb U (cn_write_cb cn) c (no_error (sys_strerror K)) (nat ret)
           (acquire c w2)) (release (connection_dtor K) c)))"
proof -
  let ?n = "nat ret"
  from handle_write_sent [OF loop send, of U] obtain w3 chn3 b where
    w3: "conn_loop c (cn\<lparr>cn_write_cache := b\<rparr>) chn3 i w3" and b: "contents b = drop ?n (unsent c w)"
    and form: "handle_write K U c w =
      rbind (write_cache_discard c ?n w3) (post_write_cb K U c (no_error (sys_strerror K)) ?n)" by blast
  note D = conn_loopD [OF w3]
  show ?thesis
  proof (intro conjI impI)
    assume "length (unsent c w) < 2 * ?n"
    then show "handle_write K U c w = Inl AssertFailed"
      using write_cache_discard_fail [OF D(1,7), of ?n] b send(4) form by simp
  next
    assume "2 * ?n \<le> length (unsent c w)"
    then have "?n \<le> length (contents (cn_write_cache (cn\<lparr>cn_write_cache := b\<rparr>)))"
      using b by simp
    from write_cache_discard_form [OF D(1,7) this] b obtain b' where
      b': "write_cache_discard c ?n w3 = Inr (put_conn c (cn\<lparr>cn_write_cache := b'\<rparr>) w3)" "buf_inv b'"
      "contents b' = drop (2 * ?n) (unsent c w)" by (auto simp: mult_2)
    have "conn_loop c (cn\<lparr>cn_write_cache := b'\<rparr>) chn3 i (put_conn c (cn\<lparr>cn_write_cache := b'\<rparr>) w3)"
      using w3 b'(2) by (auto simp: conn_loop_def in_loop_def)
    with b' form post_write_cb_form [OF this, of K U] show "\<exists>w2 cn2 chn2. conn_loop c cn2 chn2 i w2 \<and>
        unsent c w2 = drop (2 * ?n) (unsent c w) \<and>
        handle_write K U c w = rbind (call_write_cb U (cn_write_cb cn) c (no_error (sys_strerror K)) ?n
           (acquire c w2)) (release (connection_dtor K) c)"
      by (intro exI [of _ "put_conn c (cn\<lparr>cn_write_cache := b'\<rparr>) w3"] exI [of _ "cn\<lparr>cn_write_cache := b'\<rparr>"]
          exI [of _ chn3]) (simp add: unsent_def)
  qed
qed

theorem handle_write_discards_twice_witness:
  "handle_write ref_kernel log_code 20 (sample_conn_state (3, 0) [] [1, 2, 3]) = Inl AssertFailed"
proof -
  let ?w = "sample_conn_state (3, 0) [] [1, 2, 3]"
  have "unsent 20 ?w = [1, 2, 3]"
    by (rule sample_out(4)) simp
  moreover have "sys_send ref_kernel (cn_socket (sample_conn [1, 2, 3])) [1, 2, 3] (kern ?w) =
      ((3, 0), (kern ?w)\<lparr>rs_sent := [(7, [1, 2, 3])]\<rparr>)"
    by (simp add: sample_conn_simps ref_init_def)
  moreover have "conn_loop 20 (sample_conn [1, 2, 3]) sample_conn_chan sample_conn_ios ?w"
    by (rule sample_conn_loop) simp
  ultimately show ?thesis
    using handle_write_discards_twice [of 20 "sample_conn [1, 2, 3]" sample_conn_chan sample_conn_ios ?w ref_kernel 3]
    by auto
qed

section \<open>Reading and closing\<close>

lemma socket_recv_form:
  "sys_recv K f n (kern w) = ((r, e, bs), k) \<Longrightarrow> - (2 ^ 31) \<le> r \<Longrightarrow> r < 2 ^ 31 \<Longrightarrow>
   socket_recv K f n w = ((r, e, bs), w\<lparr>kern := k\<rparr>)"
  by (simp add: socket_recv_def kcall_unfold to_int32_exact)

lemma post_read_cb_form:
  assumes "conn_loop c cn chn i w"
  shows "post_read_cb K U c e w =
     rbind (call_read_cb U (cn_read_cb cn) c e (acquire c w)) (release (connection_dtor K) c)"
  using conn_loopD [OF assms] by (simp add: post_read_cb_def get_conn_Some post_in_loop)

lemma post_conn_cb_form:
  assumes "conn_loop c cn chn i w"
  shows "post_conn_cb K U c w =
     rbind (call_conn_cb U (cn_conn_cb cn) c (acquire c w)) (release (connection_dtor K) c)"
  using conn_loopD [OF assms] by (simp add: post_conn_cb_def get_conn_Some post_in_loop)

lemma post_close_cb_form:
  assumes "conn_loop c cn chn i w"
  shows "post_close_cb K U c w =
     rbind (call_close_cb U (cn_close_cb cn) c (acquire c w)) (release (connection_dtor K) c)"
  using conn_loopD [OF assms] by (simp add: post_close_cb_def get_conn_Some post_in_loop)

text \<open>The connection with another read buffer is still in its loop.\<close>

lemma conn_loop_read_cache:
  "conn_loop c cn chn i w \<Longrightarrow> buf_inv b \<Longrightarrow>
   conn_loop c (cn\<lparr>cn_read_cache := b\<rparr>) chn i (put_conn c (cn\<lparr>cn_read_cache := b\<rparr>) (w\<lparr>kern := k\<rparr>))"
  by (auto simp: conn_loop_def in_loop_def)

text \<open>
  What \<open>recv\<close> is documented to return: the number of bytes written to the memory, at most
  the number asked for; nothing is written when it fails.
\<close>

definition recv_result :: "size_t \<Rightarrow> int \<Rightarrow> byte list \<Rightarrow> bool" where
  "recv_result maxb ret bytes \<longleftrightarrow> (if ret < 0 then ret = -1 \<and> bytes = [] else nat ret = length bytes \<and> length bytes \<le> maxb)"

lemma handle_read_space:
  assumes loop: "conn_loop c cn chn i w"
    and b1: "make_space (cn_read_cache cn) max_readbytes_once = Inr b1" "buf_inv b1"
      "contents b1 = contents (cn_read_cache cn)" "m_wt_index b1 + max_readbytes_once \<le> storage b1"
    and recv: "sys_recv K (cn_socket cn) max_readbytes_once (kern w) = ((ret, errno, bytes), k)"
      "recv_result max_readbytes_once ret bytes"
  shows "\<exists>b w2. w2 = put_conn c (cn\<lparr>cn_read_cache := b\<rparr>) (w\<lparr>kern := k\<rparr>) \<and>
     conn_loop c (cn\<lparr>cn_read_cache := b\<rparr>) chn i w2 \<and> contents b = contents (cn_read_cache cn) @ bytes \<and>
     handle_read K U c w =
       (if ret = 0 then
          rbind (post_conn_cb K U c w2) (\<lambda>w3. rbind (get_conn c w3) (\<lambda>cn3.
            run_task K (cn_service cn3) (THandleClose c) (handle_close K U c) w3))
        else post_read_cb K U c
          (if ret > 0 then no_error (sys_strerror K) else sys_error_new (sys_strerror K) errno) w2)"
proof -
  note D = conn_loopD [OF loop]
  have max: "max_readbytes_once < 2 ^ 31"
    by (simp add: max_readbytes_once_def)
  have r: "socket_recv K (cn_socket cn) max_readbytes_once w = ((ret, errno, bytes), w\<lparr>kern := k\<rparr>)"
    using recv(2) max by (intro socket_recv_form [OF recv(1)]) (auto simp: recv_result_def split: if_splits)
  have "m_wt_index b1 + length bytes \<le> storage b1"
    using b1(4) recv(2) by (auto simp: recv_result_def split: if_splits)
  from receive_ok [OF b1(2) this] obtain v b2 where
    v: "vec_copy_in (m_contianer b1) (wt_ptr b1) bytes = Inr v" "buf_inv (b1\<lparr>m_contianer := v\<rparr>)"
    "contents (b1\<lparr>m_contianer := v\<rparr>) = contents b1"
    and b2: "has_written (b1\<lparr>m_contianer := v\<rparr>) (length bytes) = Inr (length (contents b1) + length bytes, b2)"
    "buf_inv b2" "contents b2 = contents b1 @ bytes" by blast
  note facts = r b1 v b2 conn_loop_read_cache [OF loop v(2), of k] conn_loop_read_cache [OF loop b2(2), of k]
  show ?thesis
  proof (cases "ret > 0")
    case True
    then have "nat ret = length bytes" using recv(2) by (simp add: recv_result_def)
    with True facts show ?thesis
      by (intro exI [of _ b2] exI [of _ "put_conn c (cn\<lparr>cn_read_cache := b2\<rparr>) (w\<lparr>kern := k\<rparr>)"])
        (simp add: handle_read_def get_conn_Some [OF D(1)] ensure_write_space_def put_conn_def)
  next
    case False
    then have "bytes = []" using recv(2) by (simp add: recv_result_def split: if_splits)
    with False facts show ?thesis
      by (intro exI [of _ "b1\<lparr>m_contianer := v\<rparr>"]
          exI [of _ "put_conn c (cn\<lparr>cn_read_cache := b1\<lparr>m_contianer := v\<rparr>\<rparr>) (w\<lparr>kern := k\<rparr>)"])
        (simp add: handle_read_def get_conn_Some [OF D(1)] ensure_write_space_def put_conn_def)
  qed
qed

lemma handle_read_form:
  assumes loop: "conn_loop c cn chn i w" and room: "max_readbytes_once \<le> room (cn_read_cache cn)"
    and recv: "sys_recv K (cn_socket cn) max_readbytes_once (kern w) = ((ret, errno, bytes), k)"
      "recv_result max_readbytes_once ret bytes"
  shows "\<exists>b w2. w2 = put_conn c (cn\<lparr>cn_read_cache := b\<rparr>) (w\<lparr>kern := k\<rparr>) \<and>
     conn_loop c (cn\<lparr>cn_read_cache := b\<rparr>) chn i w2 \<and> contents b = contents (cn_read_cache cn) @ bytes \<and>
     handle_read K U c w =
       (if ret = 0 then
          rbind (post_conn_cb K U c w2) (\<lambda>w3. rbind (get_conn c w3) (\<lambda>cn3.
            run_task K (cn_service cn3) (THandleClose c) (handle_close K U c) w3))
        else post_read_cb K U c
          (if ret > 0 then no_error (sys_strerror K) else sys_error_new (sys_strerror K) errno) w2)"
proof -
  obtain b1 where "make_space (cn_read_cache cn) max_readbytes_once = Inr b1" "buf_inv b1"
      "contents b1 = contents (cn_read_cache cn)" "m_wt_index b1 + max_readbytes_once \<le> storage b1"
    using make_space_ok [OF conn_loopD(8) [OF loop] room] by blast
  from handle_read_space [OF loop this recv] show ?thesis .
qed

lemma handle_close_form:
  assumes loop: "conn_loop c cn chn i w"
  shows "\<exists>l w3. let cn3 = cn\<lparr>cn_conn_status := kDisconnect\<rparr>;
        chn3 = chn\<lparr>ch_last_evt_status := 0, ch_progress_in_write := False\<rparr>;
        k1 = snd (sys_epoll_ctl K (ep_fd (m_poller i)) EPOLL_CTL_MOD (cn_socket cn)
               (Some (ch_last_evt_status chn AND (EPOLLIN OR EPOLLHUP OR EPOLLPRI), cn_channle cn)) (kern w));
        k2 = snd (sys_epoll_ctl K (ep_fd (m_poller i)) EPOLL_CTL_MOD (cn_socket cn) (Some (0, cn_channle cn)) k1)
     in w3 = w\<lparr>kern := k2, log_out := l, chans := (chans w)(cn_channle cn \<mapsto> chn3), conns := (conns w)(c \<mapsto> cn3)\<rparr> \<and>
        conn_loop c cn3 chn3 i w3 \<and>
        handle_close K U c w = rbind (post_conn_cb K U c w3) (post_close_cb K U c)"
proof -
  note D = conn_loopD [OF loop]
  let ?cn = "cn\<lparr>cn_conn_status := kDisconnect\<rparr>"
  let ?w1 = "put_conn c ?cn (log_line ll_info ''handle_close '' [] w)"
  let ?c1 = "chn\<lparr>ch_last_evt_status := ch_last_evt_status chn AND (EPOLLIN OR EPOLLHUP OR EPOLLPRI)\<rparr>"
  have fd: "ch_fd chn = cn_socket cn" "cn_channle ?cn = cn_channle cn"
    using loop by (simp_all add: conn_loop_def)
  have "in_loop (cn_channle cn) chn i ?w1"
    using D(2) by (simp add: in_loop_def)
  from enable_read_form [OF this refl, of K False] obtain l1 where
    1: "enable_read K (cn_channle cn) False ?w1 = Inr (?w1\<lparr>kern := snd (sys_epoll_ctl K (ep_fd (m_poller i))
      EPOLL_CTL_MOD (ch_fd chn) (Some (ch_last_evt_status ?c1, cn_channle cn)) (kern w)), log_out := l1,
      chans := (chans w)(cn_channle cn \<mapsto> ?c1)\<rparr>)" (is "_ = Inr ?w2") by auto
  have "in_loop (cn_channle cn) ?c1 i ?w2"
    using D(2) by (simp add: in_loop_def)
  from enable_write_form [OF this _ refl, of False K] obtain l2 where
    2: "enable_write K (cn_channle cn) False ?w2 = Inr (?w2\<lparr>kern := snd (sys_epoll_ctl K (ep_fd (m_poller i))
      EPOLL_CTL_MOD (ch_fd ?c1) (Some (0, cn_channle cn)) (kern ?w2)), log_out := l2,
      chans := (chans ?w2)(cn_channle cn \<mapsto> chn\<lparr>ch_last_evt_status := 0, ch_progress_in_write := False\<rparr>)\<rparr>)"
    (is "_ = Inr ?w3") by (auto simp: mask_bits)
  have "conn_loop c ?cn (chn\<lparr>ch_last_evt_status := 0, ch_progress_in_write := False\<rparr>) i ?w3"
    using loop by (auto simp: conn_loop_def in_loop_def)
  moreover have "handle_close K U c w = rbind (post_conn_cb K U c ?w3) (post_close_cb K U c)"
    using D(1) 1 2 by (simp add: handle_close_def set_conn_status_def get_conn_def)
  ultimately show ?thesis
    using fd by (intro exI [of _ l2] exI [of _ ?w3]) (simp add: Let_def put_conn_def log_line_def)
qed

lemma handle_read_data:
  assumes loop: "conn_loop c cn chn i w" and room: "max_readbytes_once \<le> room (cn_read_cache cn)"
    and recv: "sys_recv K (cn_socket cn) max_readbytes_once (kern w) = ((ret, errno, bytes), k)"
      "recv_result max_readbytes_once ret bytes" "ret \<noteq> 0"
  shows "\<exists>b. buf_inv b \<and> contents b = contents (cn_read_cache cn) @ bytes \<and>
     handle_read K U c w =
       rbind (call_read_cb U (cn_read_cb cn) c
          (if ret > 0 then no_error (sys_strerror K) else sys_error_new (sys_strerror K) errno)
          (acquire c (put_conn c (cn\<lparr>cn_read_cache := b\<rparr>) (w\<lparr>kern := k\<rparr>))))
         (release (connection_dtor K) c)"
proof -
  from handle_read_form [OF loop room recv(1,2), of U] obtain b where
    b: "contents b = contents (cn_read_cache cn) @ bytes"
    and loop2: "conn_loop c (cn\<lparr>cn_read_cache := b\<rparr>) chn i (put_conn c (cn\<lparr>cn_read_cache := b\<rparr>) (w\<lparr>kern := k\<rparr>))"
    and form: "handle_read K U c w = post_read_cb K U c
          (if ret > 0 then no_error (sys_strerror K) else sys_error_new (sys_strerror K) errno)
          (put_conn c (cn\<lparr>cn_read_cache := b\<rparr>) (w\<lparr>kern := k\<rparr>))"
    using recv(3) by auto
  have "buf_inv b" using conn_loopD(8) [OF loop2] by simp
  with b form post_read_cb_form [OF loop2] show ?thesis by auto
qed

text \<open>
  C15. On a readable descriptor \<open>handle_read\<close> makes one \<open>recv\<close> of at most 32768 bytes. What it
  received is behind the bytes already in the read buffer when the read callback is called
  with no error; when \<open>recv\<close> fails, the buffer is unchanged and the read callback gets the
  error. The connection is kept alive during the callback, and nothing else of it changes.
\<close>

theorem handle_read_spec:
  assumes loop: "conn_loop c cn chn i w" and room: "max_readbytes_once \<le> room (cn_read_cache cn)"
    and recv: "sys_recv K (cn_socket cn) max_readbytes_once (kern w) = ((ret, errno, bytes), k)"
      "recv_result max_readbytes_once ret bytes" "ret \<noteq> 0"
  shows "\<exists>b. buf_inv b \<and> contents b = contents (cn_read_cache cn) @ bytes \<and>
     handle_read K U c w =
       rbind (call_read_cb U (cn_read_cb cn) c
          (if ret > 0 then no_error (sys_strerror K) else sys_error_new (sys_strerror K) errno)
          (acquire c (put_conn c (cn\<lparr>cn_read_cache := b\<rparr>) (w\<lparr>kern := k\<rparr>))))
         (release (connection_dtor K) c)"
  using assms by (rule handle_read_data)

theorem handle_read_spec_witness:
  "\<exists>b. contents b = [65, 66] \<and>
     handle_read ref_kernel log_code 20 (sample_conn_state (0, 0) [65, 66] []) =
       rbind (call_read_cb log_code (Some 2) 20 (no_error (sys_strerror ref_kernel))
          (acquire 20 (put_conn 20 ((sample_conn [])\<lparr>cn_read_cache := b\<rparr>)
             ((sample_conn_state (0, 0) [65, 66] [])\<lparr>kern := (kern (sample_conn_state (0, 0) [65, 66] []))\<lparr>rs_inbox := []\<rparr>\<rparr>))))
         (release (connection_dtor ref_kernel) 20)"
proof -
  let ?w = "sample_conn_state (0, 0) [65, 66] []"
  have loop: "conn_loop 20 (sample_conn []) sample_conn_chan sample_conn_ios ?w"
    by (rule sample_conn_loop) simp
  have r: "sys_recv ref_kernel (cn_socket (sample_conn [])) max_readbytes_once (kern ?w) =
      ((2, 0, [65, 66]), (kern ?w)\<lparr>rs_inbox := []\<rparr>)"
    by (simp add: sample_conn_simps max_readbytes_once_def)
  have room: "max_readbytes_once \<le> room (cn_read_cache (sample_conn []))"
    "recv_result max_readbytes_once 2 [65, 66]"
    by (simp_all add: max_readbytes_once_def recv_result_def sample_conn_def)
  have "contents (cn_read_cache (sample_conn [])) = []" "cn_read_cb (sample_conn []) = Some 2"
    by (simp_all add: sample_conn_def)
  with handle_read_spec [OF loop room(1) r room(2), of log_code] show ?thesis by auto
qed

text \<open>
  \<open>handle_close\<close>, on a reliable system: before any code of the user runs, the connection is
  disconnected and its channel is subscribed to nothing, in its mask and in the system; then
  the connection callback is called and after it the close callback, each with the
  connection kept alive.
\<close>

theorem handle_close_spec:
  assumes rel: "epoll_reliable K interest" and loop: "conn_loop c cn chn i w"
    and reg: "interest (kern w) (ep_fd (m_poller i)) (cn_socket cn) \<noteq> None"
  shows "\<exists>w3 cn3 chn3. conn_loop c cn3 chn3 i w3 \<and> \<not> connected cn3 \<and> evt_status chn3 = 0 \<and>
     interest (kern w3) (ep_fd (m_poller i)) (cn_socket cn) = Some (0, cn_channle cn) \<and>
     cn_close_cb cn3 = cn_close_cb cn \<and>
     handle_close K U c w =
       rbind (rbind (call_conn_cb U (cn_conn_cb cn) c (acquire c w3)) (release (connection_dtor K) c))
         (post_close_cb K U c)"
proof -
  let ?cn = "cn\<lparr>cn_conn_status := kDisconnect\<rparr>" and ?chn = "chn\<lparr>ch_last_evt_status := 0, ch_progress_in_write := False\<rparr>"
  from handle_close_form [OF loop, of K U] obtain w3 where
    loop3: "conn_loop c ?cn ?chn i w3" and form: "handle_close K U c w = rbind (post_conn_cb K U c w3) (post_close_cb K U c)"
    and k: "kern w3 = snd (sys_epoll_ctl K (ep_fd (m_poller i)) EPOLL_CTL_MOD (cn_socket cn) (Some (0, cn_channle cn))
      (snd (sys_epoll_ctl K (ep_fd (m_poller i)) EPOLL_CTL_MOD (cn_socket cn)
        (Some (ch_last_evt_status chn AND (EPOLLIN OR EPOLLHUP OR EPOLLPRI), cn_channle cn)) (kern w))))"
    by (auto simp: Let_def)
  have "interest (kern w3) (ep_fd (m_poller i)) (cn_socket cn) = Some (0, cn_channle cn)"
    using reg by (simp add: k epoll_reliableD(1) [OF rel])
  with loop3 form show ?thesis
    by (intro exI [of _ w3] exI [of _ ?cn] exI [of _ ?chn])
      (simp add: post_conn_cb_form [OF loop3] connected_def evt_status_def)
qed

theorem handle_close_spec_witness:
  "\<exists>w3 cn3 chn3. conn_loop 20 cn3 chn3 sample_conn_ios w3 \<and> \<not> connected cn3 \<and>
     rs_interest (kern w3) 3 7 = Some (0, 10) \<and>
     handle_close ref_kernel log_code 20 (sample_conn_state (0, 0) [] []) =
       rbind (rbind (call_conn_cb log_code (Some 1) 20 (acquire 20 w3)) (release (connection_dtor ref_kernel) 20))
         (post_close_cb ref_kernel log_code 20)"
proof -
  let ?w = "sample_conn_state (0, 0) [] []"
  have loop: "conn_loop 20 (sample_conn []) sample_conn_chan sample_conn_ios ?w"
    by (rule sample_conn_loop) simp
  have eq: "ep_fd (m_poller sample_conn_ios) = 3" "cn_socket (sample_conn []) = 7"
    "cn_channle (sample_conn []) = 10" "cn_conn_cb (sample_conn []) = Some 1"
    by (simp_all add: sample_conn_simps)
  have "rs_interest (kern ?w) (ep_fd (m_poller sample_conn_ios)) (cn_socket (sample_conn [])) \<noteq> None"
    by (simp add: sample_conn_simps)
  from handle_close_spec [OF ref_epoll_reliable loop this, of log_code] show ?thesis
    unfolding eq by blast
qed

text \<open>
  The mask of a channel is overwritten with the events of each round. After a round in which
  the descriptor of a connection was only writeable, any wish to write (more data while the
  socket is full) subscribes the channel to writing alone: the subscription to reading that
  the connection made at its start is gone from the system, and with it the notification of
  incoming data and of the end of the stream.
\<close>

theorem write_event_drops_read:
  assumes rel: "epoll_reliable K interest" and loop: "conn_loop c cn chn i w"
    and reg: "interest (kern w) (ep_fd (m_poller i)) (cn_socket cn) = Some (sub, cn_channle cn)"
    and evt: "evt_status chn = EPOLLOUT" "\<not> ch_progress_in_write chn"
    and data: "length data \<le> room (cn_write_cache cn)"
  shows "\<exists>w'. rbind (write_cache_append c data w) (enable_write K (cn_channle cn) True) = Inr w' \<and>
     unsent c w' = unsent c w @ data \<and>
     interest (kern w') (ep_fd (m_poller i)) (cn_socket cn) = Some (EPOLLOUT, cn_channle cn)"
proof -
  from cache_and_enable [OF loop data, of K] evt obtain w' where
    w': "rbind (write_cache_append c data w) (enable_write K (cn_channle cn) True) = Inr w'"
      "unsent c w' = unsent c w @ data"
    and k: "kern w' = snd (sys_epoll_ctl K (ep_fd (m_poller i)) EPOLL_CTL_MOD (cn_socket cn)
      (Some (EPOLLOUT, cn_channle cn)) (kern w))"
    by (auto simp: evt_status_def)
  have "interest (kern w') (ep_fd (m_poller i)) (cn_socket cn) = Some (EPOLLOUT, cn_channle cn)"
    using reg by (simp add: k epoll_reliableD(1) [OF rel])
  with w' show ?thesis by blast
qed

theorem write_event_drops_read_witness:
  "let w = (sample_conn_state (0, 0) [] [9])\<lparr>chans := [10 \<mapsto> save_evt_status EPOLLOUT sample_conn_chan]\<rparr> in
   rs_interest (kern w) 3 7 = Some (EPOLLIN OR EPOLLHUP OR EPOLLPRI, 10) \<and>
   (\<exists>w'. rbind (write_cache_append 20 [1, 2] w) (enable_write ref_kernel 10 True) = Inr w' \<and>
      rs_interest (kern w') 3 7 = Some (EPOLLOUT, 10))"
proof -
  let ?w = "(sample_conn_state (0, 0) [] [9])\<lparr>chans := [10 \<mapsto> save_evt_status EPOLLOUT sample_conn_chan]\<rparr>"
  have loop: "conn_loop 20 (sample_conn [9]) (save_evt_status EPOLLOUT sample_conn_chan) sample_conn_ios ?w"
    using sample_conn_loop [of "[9]" "(0, 0)" "[]"]
    by (simp add: conn_loop_def in_loop_def save_evt_status_def) (simp add: sample_conn_simps)
  have eq: "ep_fd (m_poller sample_conn_ios) = 3" "cn_socket (sample_conn [9]) = 7" "cn_channle (sample_conn [9]) = 10"
    "evt_status (save_evt_status EPOLLOUT sample_conn_chan) = EPOLLOUT"
    "\<not> ch_progress_in_write (save_evt_status EPOLLOUT sample_conn_chan)"
    by (simp_all add: sample_conn_simps save_evt_status_def evt_status_def sample_chan_def)
  have reg: "rs_interest (kern ?w) 3 7 = Some (EPOLLIN OR EPOLLHUP OR EPOLLPRI, 10)"
    by (simp add: sample_conn_simps)
  have "length [1, 2 :: byte] \<le> room (cn_write_cache (sample_conn [9]))"
    using sample_out(3) [of "[9]"] by simp
  from write_event_drops_read [OF ref_epoll_reliable loop, unfolded eq, OF reg _ _ this] eq reg show ?thesis
    by (auto simp: Let_def)
qed

end
