(* ===== verification/Acceptor.thy ===== *)
theory Acceptor
  imports Connection
begin

unbundle bit_operations_syntax

text \<open>
  \<^verbatim>\<open>src/muradin/net/acceptor.h\<close> and \<^verbatim>\<open>acceptor.cpp\<close>: the listening socket and its
  channel. The accept callback is bound to a server and named by its address; \<open>C\<close> is what it
  does (\<open>tcp_server::on_new_conn\<close> in \<open>Tcp_Server\<close>). Property: how the descriptor gets into the
  interest set of the loop.
\<close>

record acceptor =
  ac_service :: ptr
  ac_socket :: fd
  ac_accept_cb :: "ptr option"
  ac_addr :: endpoint_v4
  ac_channel :: ptr

record 'k acc_state = "'k conn_state" +
  acceptors :: "ptr \<rightharpoonup> acceptor"

definition get_acc :: "ptr \<Rightarrow> ('k, 'm) acc_state_scheme \<Rightarrow> acceptor res" where
  "get_acc a w = (case acceptors w a of Some ac \<Rightarrow> Inr ac | None \<Rightarrow> Inl Dangling)"

definition put_acc :: "ptr \<Rightarrow> acceptor \<Rightarrow> ('k, 'm) acc_state_scheme \<Rightarrow> ('k, 'm) acc_state_scheme" where
  "put_acc a ac w = w\<lparr>acceptors := (acceptors w)(a \<mapsto> ac)\<rparr>"

definition EMFILE :: int where "EMFILE = 24"

text \<open>The acceptor and the channel that is a member of it take two new addresses.\<close>

definition acceptor_new ::
  "'k kernel \<Rightarrow> endpoint_v4 \<Rightarrow> ptr \<Rightarrow> ('k, 'm) acc_state_scheme \<Rightarrow> (ptr \<times> ('k, 'm) acc_state_scheme) res" where
  "acceptor_new K local_addr ios w =
     (let a = next_addr w; ch = next_addr w + 1; w0 = w\<lparr>next_addr := next_addr w + 2\<rparr>;
          ((f, _), w1) = socket_create K w0;
          ac = \<lparr>ac_service = ios, ac_socket = f, ac_accept_cb = None, ac_addr = local_addr, ac_channel = ch\<rparr>;
          w2 = put_acc a ac (put_chan ch (evt_channel_new f ios ''acceptor-chnl'') w1)
      in rbind (c_assert (f > 0)) (\<lambda>_.
         let w3 = snd (socket_bind K f local_addr w2);
             w4 = snd (set_tcp_nodelay K f True w3);
             w5 = snd (set_reuse_addr K f True w4);
             w6 = snd (set_recv_buff_size K f (16 * 1024) w5)
         in rbind (get_chan ch w6) (\<lambda>c.
            rbind (join_to_service K ch (put_chan ch (set_read_callback (AcceptorOnRead a) c) w6)) (\<lambda>w7.
            Inr (a, w7)))))"

definition set_accept_cb ::
  "ptr \<Rightarrow> ptr \<Rightarrow> ('k, 'm) acc_state_scheme \<Rightarrow> ('k, 'm) acc_state_scheme res" where
  "set_accept_cb a srv w = rbind (get_acc a w) (\<lambda>ac. Inr (put_acc a (ac\<lparr>ac_accept_cb := Some srv\<rparr>) w))"

definition acceptor_start ::
  "'k kernel \<Rightarrow> ptr \<Rightarrow> ('k, 'm) acc_state_scheme \<Rightarrow> ('k, 'm) acc_state_scheme res" where
  "acceptor_start K a w =
     rbind (get_acc a w) (\<lambda>ac.
     enable_read K (ac_channel ac) True (snd (socket_listen K (ac_socket ac) 256 w)))"

definition acceptor_stop ::
  "'k kernel \<Rightarrow> ptr \<Rightarrow> ('k, 'm) acc_state_scheme \<Rightarrow> ('k, 'm) acc_state_scheme res" where
  "acceptor_stop K a w =
     rbind (get_acc a w) (\<lambda>ac.
     rbind (enable_read K (ac_channel ac) False w) (remove_from_service K (ac_channel ac)))"

text \<open>Calling the accept callback: an empty one throws.\<close>

fun call_accept_cb ::
  "(ptr \<Rightarrow> fd \<Rightarrow> endpoint_v4 \<Rightarrow> 'w \<Rightarrow> 'w res) \<Rightarrow> ptr option \<Rightarrow> fd \<Rightarrow> endpoint_v4 \<Rightarrow> 'w \<Rightarrow> 'w res" where
  "call_accept_cb C None f addr w = Inl BadFunctionCall"
| "call_accept_cb C (Some srv) f addr w = C srv f addr w"

definition acceptor_on_read ::
  "byteorder_t \<Rightarrow> 'k kernel \<Rightarrow>
   (ptr \<Rightarrow> fd \<Rightarrow> endpoint_v4 \<Rightarrow> ('k, 'm) acc_state_scheme \<Rightarrow> ('k, 'm) acc_state_scheme res) \<Rightarrow> ptr \<Rightarrow>
     ('k, 'm) acc_state_scheme \<Rightarrow> ('k, 'm) acc_state_scheme res" where
  "acceptor_on_read h K C a w =
     rbind (get_acc a w) (\<lambda>ac.
     let ((f, errno, addr), w1) = socket_accept K (ac_socket ac) (endpoint_default h) w
     in if f < 0 then
          let w2 = log_line ll_error ''accept fail,errno:'' [errno] w1
          in Inr (if errno = EMFILE then log_line ll_error ''accept ,got EMFILE error'' [] w2 else w2)
        else call_accept_cb C (ac_accept_cb ac) f addr w1)"

section \<open>Listening\<close>

text \<open>What the manual says of the calls on sockets: they do not touch the interest set of any epoll descriptor.\<close>

definition sockets_documented :: "'k kernel \<Rightarrow> ('k \<Rightarrow> fd \<Rightarrow> fd \<rightharpoonup> epoll_event) \<Rightarrow> bool" where
  "sockets_documented K interest \<longleftrightarrow>
     (\<forall>k. interest (snd (sys_socket K k)) = interest k) \<and>
     (\<forall>f a k. interest (snd (sys_bind K f a k)) = interest k) \<and>
     (\<forall>f n k. interest (snd (sys_listen K f n k)) = interest k) \<and>
     (\<forall>f l n x k. interest (snd (sys_setsockopt K f l n x k)) = interest k)"

text \<open>The system after the calls of the constructor on the new descriptor.\<close>

definition bound_socket :: "'k kernel \<Rightarrow> fd \<Rightarrow> endpoint_v4 \<Rightarrow> 'k \<Rightarrow> 'k" where
  "bound_socket K f addr k =
     (let k1 = snd (sys_bind K f addr k);
          k2 = snd (sys_setsockopt K f IPPROTO_TCP TCP_NODELAY 1 k1);
          k3 = snd (sys_setsockopt K f SOL_SOCKET SO_REUSEADDR 1 k2)
      in snd (sys_setsockopt K f SOL_SOCKET SO_RCVBUF (16 * 1024) k3))"

lemma bound_socket_interest: "sockets_documented K interest \<Longrightarrow> interest (bound_socket K f addr k) = interest k"
  by (simp add: sockets_documented_def bound_socket_def Let_def)

lemma acceptor_new_form:
  assumes rel: "epoll_reliable K interest" and sock: "sockets_documented K interest"
    and s: "services w s = Some i" "m_owner_tid i = this_tid w"
    and f: "sys_socket K (kern w) = ((f, e), k1)" "f > 0" and new: "interest (kern w) (ep_fd (m_poller i)) f = None"
    and ch: "ch = next_addr w + 1"
    and c: "c = set_read_callback (AcceptorOnRead (next_addr w)) (evt_channel_new f s ''acceptor-chnl'')"
    and p: "p = m_poller i\<lparr>channel_map := (channel_map (m_poller i))(f \<mapsto> ch)\<rparr>"
  shows "\<exists>k l. acceptor_new K addr s w = Inr (next_addr w, w\<lparr>next_addr := next_addr w + 2,
      acceptors := (acceptors w)(next_addr w \<mapsto>
        \<lparr>ac_service = s, ac_socket = f, ac_accept_cb = None, ac_addr = addr, ac_channel = ch\<rparr>),
      chans := (chans w)(ch \<mapsto> c), kern := k, log_out := l, services := (services w)(s \<mapsto> i\<lparr>m_poller := p\<rparr>)\<rparr>) \<and>
    k = snd (sys_epoll_ctl K (ep_fd (m_poller i)) EPOLL_CTL_ADD f (Some (0, ch)) (bound_socket K f addr k1)) \<and>
    interest k = (interest (kern w))(ep_fd (m_poller i) := (interest (kern w) (ep_fd (m_poller i)))(f \<mapsto> (0, ch)))"
proof -
  let ?k = "bound_socket K f addr k1"
  let ?ac = "\<lparr>ac_service = s, ac_socket = f, ac_accept_cb = None, ac_addr = addr, ac_channel = ch\<rparr>"
  let ?w = "w\<lparr>next_addr := next_addr w + 2, acceptors := (acceptors w)(next_addr w \<mapsto> ?ac), kern := ?k,
    chans := (chans w)(ch \<mapsto> c)\<rparr>"
  have k: "interest ?k = interest (kern w)"
    using bound_socket_interest [OF sock] sock f(1) unfolding sockets_documented_def by (metis snd_conv)
  have c': "ch_fd c = f" "ch_service c = s" "ch_last_evt_status c = 0"
    by (simp_all add: c set_read_callback_def evt_channel_new_def)
  have loop: "in_loop ch c i ?w"
    using s c' by (simp add: in_loop_def)
  obtain e' k' where add: "sys_epoll_ctl K (ep_fd (m_poller i)) EPOLL_CTL_ADD f (Some (0, ch)) ?k = ((0, e'), k')"
    "interest k' = (interest (kern w))(ep_fd (m_poller i) := (interest (kern w) (ep_fd (m_poller i)))(f \<mapsto> (0, ch)))"
    using epoll_reliableD(2) [OF rel, of ?k "ep_fd (m_poller i)" f "(0, ch)"] new k by (metis prod.collapse)
  from join_form [OF loop, of K 0 e' k'] add(1) c' obtain l where
    "join_to_service K ch ?w = Inr (?w\<lparr>kern := k', log_out := l, services := (services w)(s \<mapsto> i\<lparr>m_poller := p\<rparr>)\<rparr>)"
    by (auto simp: p)
  then have "acceptor_new K addr s w = Inr (next_addr w, ?w\<lparr>kern := k', log_out := l, services := (services w)(s \<mapsto> i\<lparr>m_poller := p\<rparr>)\<rparr>)"
    using f by (simp add: acceptor_new_def socket_create_def socket_bind_def set_tcp_nodelay_def set_reuse_addr_def
        set_recv_buff_size_def kcall_unfold Let_def put_acc_def put_chan_def get_chan_def bound_socket_def c ch)
  with add show ?thesis by (intro exI [of _ k'] exI [of _ l]) simp
qed

lemma acceptor_start_form:
  assumes a: "acceptors w a = Some ac" and loop: "in_loop (ac_channel ac) c i w"
    and c: "ch_fd c = ac_socket ac" "ch_last_evt_status c = 0" and m: "m = EPOLLIN OR EPOLLHUP OR EPOLLPRI"
  shows "\<exists>l. acceptor_start K a w = Inr (w\<lparr>kern := snd (sys_epoll_ctl K (ep_fd (m_poller i)) EPOLL_CTL_MOD (ac_socket ac)
      (Some (m, ac_channel ac)) (snd (sys_listen K (ac_socket ac) 256 (kern w)))), log_out := l,
      chans := (chans w)(ac_channel ac \<mapsto> c\<lparr>ch_last_evt_status := m\<rparr>)\<rparr>)"
proof -
  let ?w = "w\<lparr>kern := snd (sys_listen K (ac_socket ac) 256 (kern w))\<rparr>"
  have "in_loop (ac_channel ac) c i ?w"
    using loop by (simp add: in_loop_def)
  from enable_read_form [OF this refl, of K True] c show ?thesis
    by (simp add: acceptor_start_def get_acc_def a m socket_listen_def kcall_unfold)
qed

text \<open>
  The listening socket of a server, made and started in the thread of its loop on a reliable
  system: after the constructor its descriptor is in the map of the poller and in the interest
  set with no event, so that no connection is accepted before \<open>start\<close>; \<open>start\<close> subscribes it to
  incoming connections. Its channel reports them to this acceptor, which hands them to the
  server that set the callback. Nothing else of the program's state changes.
\<close>

theorem acceptor_listens:
  assumes rel: "epoll_reliable K interest" and sock: "sockets_documented K interest"
    and s: "services w s = Some i" "m_owner_tid i = this_tid w"
    and f: "sys_socket K (kern w) = ((f, e), k1)" "f > 0" and new: "interest (kern w) (ep_fd (m_poller i)) f = None"
  shows "\<exists>w1 w2 w3 c. let a = next_addr w; ch = next_addr w + 1; ep = ep_fd (m_poller i) in
    acceptor_new K addr s w = Inr (a, w1) \<and> set_accept_cb a v w1 = Inr w2 \<and> acceptor_start K a w2 = Inr w3 \<and>
    interest (kern w1) = (interest (kern w))(ep := (interest (kern w) ep)(f \<mapsto> (0, ch))) \<and>
    interest (kern w3) = (interest (kern w))(ep := (interest (kern w) ep)(f \<mapsto> (EPOLLIN OR EPOLLHUP OR EPOLLPRI, ch))) \<and>
    services w3 = (services w)(s \<mapsto> i\<lparr>m_poller := m_poller i\<lparr>channel_map := (channel_map (m_poller i))(f \<mapsto> ch)\<rparr>\<rparr>) \<and>
    acceptors w3 = (acceptors w)(a \<mapsto> \<lparr>ac_service = s, ac_socket = f, ac_accept_cb = Some v, ac_addr = addr, ac_channel = ch\<rparr>) \<and>
    chans w3 = (chans w)(ch \<mapsto> c) \<and> ch_fd c = f \<and> ch_service c = s \<and> ch_read_callback c = Some (AcceptorOnRead a) \<and>
    refs w3 = refs w \<and> conns w3 = conns w \<and> this_tid w3 = this_tid w"
proof -
  let ?a = "next_addr w" and ?ch = "next_addr w + 1" and ?ep = "ep_fd (m_poller i)"
  let ?c = "set_read_callback (AcceptorOnRead ?a) (evt_channel_new f s ''acceptor-chnl'')"
  let ?i = "i\<lparr>m_poller := m_poller i\<lparr>channel_map := (channel_map (m_poller i))(f \<mapsto> ?ch)\<rparr>\<rparr>"
  obtain k l where 1: "acceptor_new K addr s w = Inr (?a, w\<lparr>next_addr := next_addr w + 2,
      acceptors := (acceptors w)(?a \<mapsto>
        \<lparr>ac_service = s, ac_socket = f, ac_accept_cb = None, ac_addr = addr, ac_channel = ?ch\<rparr>),
      chans := (chans w)(?ch \<mapsto> ?c), kern := k, log_out := l, services := (services w)(s \<mapsto> ?i)\<rparr>)" (is "_ = Inr (_, ?w1)")
    and k: "interest k = (interest (kern w))(?ep := (interest (kern w) ?ep)(f \<mapsto> (0, ?ch)))"
    using acceptor_new_form [OF rel sock s f new refl refl refl] by blast
  let ?ac = "\<lparr>ac_service = s, ac_socket = f, ac_accept_cb = Some v, ac_addr = addr, ac_channel = ?ch\<rparr>"
  let ?w2 = "?w1\<lparr>acceptors := (acceptors w)(?a \<mapsto> ?ac)\<rparr>"
  have 2: "set_accept_cb ?a v ?w1 = Inr ?w2"
    by (simp add: set_accept_cb_def get_acc_def put_acc_def)
  have c: "ch_fd ?c = f" "ch_service ?c = s" "ch_last_evt_status ?c = 0" "ch_read_callback ?c = Some (AcceptorOnRead ?a)"
    by (simp_all add: set_read_callback_def evt_channel_new_def)
  have "acceptors ?w2 ?a = Some ?ac" "in_loop ?ch ?c ?i ?w2"
    using s c by (simp_all add: in_loop_def)
  from acceptor_start_form [OF this(1) _ _ _ refl, of ?c ?i K] this(2) c obtain l3 where
    start: "acceptor_start K ?a ?w2 = Inr (?w2\<lparr>kern := snd (sys_epoll_ctl K ?ep EPOLL_CTL_MOD f
      (Some (EPOLLIN OR EPOLLHUP OR EPOLLPRI, ?ch)) (snd (sys_listen K f 256 k))), log_out := l3,
      chans := (chans w)(?ch \<mapsto> ?c\<lparr>ch_last_evt_status := EPOLLIN OR EPOLLHUP OR EPOLLPRI\<rparr>)\<rparr>)"
    (is "_ = Inr ?w3") by auto
  have "interest (snd (sys_listen K f 256 k)) = interest k" using sock by (simp add: sockets_documented_def)
  then have "interest (kern ?w3) = (interest (kern w))(?ep := (interest (kern w) ?ep)(f \<mapsto> (EPOLLIN OR EPOLLHUP OR EPOLLPRI, ?ch)))"
    using k by (simp add: epoll_reliableD(1) [OF rel])
  with 1 2 start k c show ?thesis
    by (intro exI [of _ ?w1] exI [of _ ?w2] exI [of _ ?w3]
        exI [of _ "?c\<lparr>ch_last_evt_status := EPOLLIN OR EPOLLHUP OR EPOLLPRI\<rparr>"]) (simp add: Let_def)
qed

definition sample_acc_state :: "ref_sys acc_state" where
  "sample_acc_state = \<lparr>kern = ref_init\<lparr>rs_next_fd := 5\<rparr>, this_tid = 1, next_addr = 100, log_out = [], chans = Map.empty,
     services = [1 \<mapsto> sample_ios], refs = (\<lambda>_. 0), conns = Map.empty, user_mem = (\<lambda>_. []), acceptors = Map.empty\<rparr>"

lemma ref_sockets_documented: "sockets_documented ref_kernel rs_interest"
  by (simp add: sockets_documented_def ref_kernel_def)

theorem acceptor_listens_witness:
  "\<exists>w1 w2 w3. acceptor_new ref_kernel \<lparr>sin_family = 2, sin_port = 4001, s_addr = 0\<rparr> 1 sample_acc_state = Inr (100, w1) \<and>
     set_accept_cb 100 30 w1 = Inr w2 \<and> acceptor_start ref_kernel 100 w2 = Inr w3 \<and>
     rs_interest (kern w1) (ep_fd (m_poller sample_ios)) 5 = Some (0, 101) \<and>
     rs_interest (kern w3) (ep_fd (m_poller sample_ios)) 5 = Some (EPOLLIN OR EPOLLHUP OR EPOLLPRI, 101)"
proof -
  have "services sample_acc_state 1 = Some sample_ios" "m_owner_tid sample_ios = this_tid sample_acc_state"
    "sys_socket ref_kernel (kern sample_acc_state) = ((5, 0), ref_init\<lparr>rs_next_fd := 6\<rparr>)" "(5 :: fd) > 0"
    "rs_interest (kern sample_acc_state) (ep_fd (m_poller sample_ios)) 5 = None"
    by (simp_all add: sample_acc_state_def sample_ios_def ref_kernel_def ref_init_def)
  from acceptor_listens [OF ref_epoll_reliable ref_sockets_documented this, of "\<lparr>sin_family = 2, sin_port = 4001, s_addr = 0\<rparr>" 30]
  show ?thesis by (fastforce simp: Let_def sample_acc_state_def)
qed

end
