(* ===== verification/Service_Pool.thy ===== *)
theory Service_Pool
  imports Evt_Channel
begin

text \<open>
  \<^verbatim>\<open>src/muradin/net/io_service_pool.h\<close>, \<^verbatim>\<open>io_service_pool.cpp\<close> and the sequential view of
  \<^verbatim>\<open>service_thread.cpp\<close>: a fixed number of threads with one loop each, handed out in turn.
  A new thread runs \<open>thread_func\<close>: it constructs an \<open>io_service\<close>, which thereby belongs to that
  thread, and publishes its address, which is what \<open>service_thread::run\<close> waits for; the
  handshake itself, with its mutex and condition variable, is in \<open>Service_Thread\<close>.
\<close>

text \<open>A thread is its number and the loop it has published in \<open>m_service\<close>.\<close>

type_synonym service_thread = "nat \<times> ptr"

record io_service_pool =
  sp_services :: "ptr list"
  sp_threads :: "service_thread list"
  sp_size :: size_t
  sp_service_index :: size_t

definition io_service_pool_new :: "size_t \<Rightarrow> io_service_pool" where
  "io_service_pool_new n = \<lparr>sp_services = [], sp_threads = [], sp_size = n, sp_service_index = 0\<rparr>"

definition next_service :: "io_service_pool \<Rightarrow> (ptr \<times> io_service_pool) res" where
  "next_service p =
     (let idx = (if sp_service_index p \<ge> sp_size p then 0 else sp_service_index p)
      in if idx < length (sp_services p)
         then Inr (sp_services p ! idx, p\<lparr>sp_service_index := sz_add idx 1\<rparr>)
         else Inl OutOfRange)"

definition pool_size :: "io_service_pool \<Rightarrow> size_t" where
  "pool_size p = sp_size p"

text \<open>
  \<open>new service_thread()\<close>, with the number \<open>tid\<close> of the new thread, up to the point where
  \<open>thread_func\<close> has published its loop; the thread that constructs it goes on unchanged.
\<close>

definition service_thread_new ::
  "'k kernel \<Rightarrow> nat \<Rightarrow> ('k, 'm) ios_state_scheme \<Rightarrow> (ptr \<times> ('k, 'm) ios_state_scheme) res" where
  "service_thread_new K tid w =
     rbind (io_service_new K (w\<lparr>this_tid := tid\<rparr>)) (\<lambda>(s, w'). Inr (s, w'\<lparr>this_tid := this_tid w\<rparr>))"

definition service_thread_run :: "service_thread \<Rightarrow> ptr" where
  "service_thread_run t = snd t"

text \<open>The two loops of \<open>run\<close>: construct the threads, then collect the loops of the first ones.\<close>

fun start_threads ::
  "'k kernel \<Rightarrow> nat list \<Rightarrow> ('k, 'm) ios_state_scheme \<Rightarrow>
     (service_thread list \<times> ('k, 'm) ios_state_scheme) res" where
  "start_threads K [] w = Inr ([], w)"
| "start_threads K (tid # tids) w =
     rbind (service_thread_new K tid w) (\<lambda>(s, w1).
     rbind (start_threads K tids w1) (\<lambda>(ts, w2). Inr ((tid, s) # ts, w2)))"

definition pool_run ::
  "'k kernel \<Rightarrow> nat list \<Rightarrow> io_service_pool \<Rightarrow> ('k, 'm) ios_state_scheme \<Rightarrow>
     (io_service_pool \<times> ('k, 'm) ios_state_scheme) res" where
  "pool_run K tids p w =
     rbind (start_threads K (take (sp_size p) tids) w) (\<lambda>(ts, w').
     let threads = sp_threads p @ ts
     in Inr (p\<lparr>sp_threads := threads,
               sp_services := sp_services p @ map service_thread_run (take (sp_size p) threads)\<rparr>, w'))"

text \<open>\<open>quit\<close> tells every loop to end and then joins the threads; the joins change nothing here.\<close>

definition pool_quit ::
  "'k kernel \<Rightarrow> io_service_pool \<Rightarrow> ('k, 'm) ios_state_scheme \<Rightarrow> ('k, 'm) ios_state_scheme res" where
  "pool_quit K p w =
     (if sp_size p \<le> length (sp_services p)
      then run_all (quit K) (take (sp_size p) (sp_services p)) w else Inl OutOfRange)"

section \<open>Taking turns\<close>

text \<open>The loops that a sequence of calls of \<open>next_service\<close> returns.\<close>

fun next_services :: "nat \<Rightarrow> io_service_pool \<Rightarrow> (ptr list \<times> io_service_pool) res" where
  "next_services 0 p = Inr ([], p)"
| "next_services (Suc n) p =
     rbind (next_service p) (\<lambda>(s, p1). rbind (next_services n p1) (\<lambda>(ss, p2). Inr (s # ss, p2)))"

definition pool_ready :: "io_service_pool \<Rightarrow> bool" where
  "pool_ready p \<longleftrightarrow> 0 < sp_size p \<and> sp_size p = length (sp_services p) \<and> sp_size p < size_mod \<and>
     sp_service_index p \<le> sp_size p"

lemma next_service_ready:
  assumes "pool_ready p"
  shows "\<exists>p'. next_service p = Inr (sp_services p ! (sp_service_index p mod sp_size p), p') \<and> pool_ready p' \<and>
     sp_services p' = sp_services p \<and> sp_size p' = sp_size p \<and>
     sp_service_index p' mod sp_size p = (sp_service_index p + 1) mod sp_size p"
proof (cases "sp_service_index p = sp_size p")
  case True
  then show ?thesis
    using assms by (auto simp: next_service_def pool_ready_def sz_add_def Let_def mod_Suc)
next
  case False
  then have "sp_service_index p < sp_size p"
    using assms by (simp add: pool_ready_def)
  then show ?thesis
    using assms by (auto simp: next_service_def pool_ready_def sz_add_def Let_def)
qed

lemma next_services_ready:
  assumes "pool_ready p"
  shows "\<exists>p'. next_services n p = Inr (map (\<lambda>k. sp_services p ! ((sp_service_index p + k) mod sp_size p)) [0..<n], p') \<and>
     pool_ready p' \<and> sp_services p' = sp_services p"
  using assms
proof (induction n arbitrary: p)
  case (Suc n)
  from next_service_ready [OF Suc.prems] obtain p1 where
    p1: "next_service p = Inr (sp_services p ! (sp_service_index p mod sp_size p), p1)" "pool_ready p1"
      "sp_services p1 = sp_services p" "sp_size p1 = sp_size p"
      "sp_service_index p1 mod sp_size p = (sp_service_index p + 1) mod sp_size p" by blast
  from Suc.IH [OF p1(2)] obtain p2 where
    p2: "next_services n p1 = Inr (map (\<lambda>k. sp_services p ! ((sp_service_index p1 + k) mod sp_size p)) [0..<n], p2)"
      "pool_ready p2" "sp_services p2 = sp_services p"
    using p1 by auto
  have "(sp_service_index p1 + k) mod sp_size p = (sp_service_index p + Suc k) mod sp_size p" for k
    using p1(5) by (metis add.commute add_Suc_right mod_add_left_eq plus_1_eq_Suc)
  then have "map (\<lambda>k. sp_services p ! ((sp_service_index p1 + k) mod sp_size p)) [0..<n] =
      map (\<lambda>k. sp_services p ! ((sp_service_index p + k) mod sp_size p)) [Suc 0..<Suc n]"
    by (simp add: map_Suc_upt [symmetric] del: upt_Suc)
  with p1(1) p2 show ?case
    by (simp add: upt_conv_Cons del: upt_Suc)
qed simp

section \<open>The loops of the pool\<close>

text \<open>What a successful construction of a loop leaves, on any system.\<close>

lemma io_service_new_effect:
  assumes "io_service_new K w = Inr (s, w')"
  shows "s = next_addr w \<and> next_addr w' = next_addr w + 2 \<and> this_tid w' = this_tid w \<and>
     (\<exists>i. services w' = (services w)(s \<mapsto> i) \<and> m_owner_tid i = this_tid w \<and> m_pending_tasks i = [] \<and> \<not> m_quit i)"
proof -
  let ?s = "next_addr w" and ?ch = "next_addr w + 1"
  from assms obtain p w1 f w2 w4 where
    1: "poller_new K (w\<lparr>next_addr := next_addr w + 2\<rparr>) = Inr (p, w1)" and 2: "create_evt_fd K w1 = Inr (f, w2)"
    and c: "s = ?s" and f: "f > 0"
    and 4: "join_to_service K ?ch (put_chan ?ch (set_read_callback (IoServiceOnRead ?s) (evt_channel_new f ?s ''io_service-chnl''))
      (put_chan ?ch (evt_channel_new f ?s ''io_service-chnl'') (put_ios ?s \<lparr>m_owner_tid = this_tid w, m_poller = p,
       m_wakeup_fd = f, m_self_channel = ?ch, m_running_pending_tasks = False, m_quit = False, m_pending_tasks = []\<rparr> w2))) = Inr w4"
      (is "join_to_service K ?ch (put_chan ?ch ?c ?w3) = Inr w4")
    and 5: "enable_read K ?ch True w4 = Inr w'"
    by (auto simp: io_service_new_def Let_def res_simps put_chan_def)
  have w2: "this_tid w2 = this_tid w" "next_addr w2 = next_addr w + 2" "services w2 = services w"
    using 1 2 by (auto simp: poller_new_def create_evt_fd_def kcall_unfold Let_def split_beta res_simps split: if_splits)
  let ?i = "\<lparr>m_owner_tid = this_tid w, m_poller = p, m_wakeup_fd = f, m_self_channel = ?ch,
    m_running_pending_tasks = False, m_quit = False, m_pending_tasks = []\<rparr>"
  have cs: "ch_service ?c = ?s"
    by (simp add: set_read_callback_def evt_channel_new_def)
  have loop: "in_loop ?ch ?c ?i (put_chan ?ch ?c ?w3)"
    using w2 cs by (simp add: in_loop_def put_chan_def put_ios_def)
  obtain r e k where ctl: "sys_epoll_ctl K (ep_fd (m_poller ?i)) EPOLL_CTL_ADD (ch_fd ?c)
      (Some (ch_last_evt_status ?c, ?ch)) (kern (put_chan ?ch ?c ?w3)) = ((r, e), k)"
    by (metis surj_pair)
  from join_form [OF loop ctl] 4 cs obtain l j where
    j: "w4 = (put_chan ?ch ?c ?w3)\<lparr>kern := k, log_out := l, services := (services w)(?s \<mapsto> j)\<rparr>"
    "m_owner_tid j = this_tid w" "m_pending_tasks j = []" "\<not> m_quit j"
    using w2 by (auto simp: put_chan_def put_ios_def)
  have "in_loop ?ch ?c j w4"
    using j w2 cs by (simp add: in_loop_def put_chan_def put_ios_def)
  from enable_read_form [OF this refl, of K True] 5 obtain l' k' c' where
    "w' = w4\<lparr>kern := k', log_out := l', chans := (chans w4)(?ch \<mapsto> c')\<rparr>" by auto
  with j c w2 show ?thesis
    by (auto simp: put_chan_def put_ios_def)
qed

lemma start_threads_effect:
  assumes "start_threads K tids w = Inr (ts, w')"
  shows "map fst ts = tids \<and> this_tid w' = this_tid w \<and> next_addr w \<le> next_addr w' \<and>
     (\<forall>s. s < next_addr w \<longrightarrow> services w' s = services w s) \<and> distinct (map snd ts) \<and>
     (\<forall>(tid, s) \<in> set ts. next_addr w \<le> s \<and> s < next_addr w' \<and>
        (\<exists>i. services w' s = Some i \<and> m_owner_tid i = tid \<and> m_pending_tasks i = [] \<and> \<not> m_quit i))"
  using assms
proof (induction tids arbitrary: w ts)
  case (Cons tid tids)
  then obtain s v ts' where new: "io_service_new K (w\<lparr>this_tid := tid\<rparr>) = Inr (s, v)"
    and rec: "start_threads K tids (v\<lparr>this_tid := this_tid w\<rparr>) = Inr (ts', w')" and ts: "ts = (tid, s) # ts'"
    by (auto simp: service_thread_new_def res_simps)
  note IH = Cons.IH [OF rec]
  from io_service_new_effect [OF new] obtain i where
    i: "s = next_addr w" "next_addr v = next_addr w + 2" "services v = (services w)(s \<mapsto> i)"
    "m_owner_tid i = tid" "m_pending_tasks i = []" "\<not> m_quit i" by auto
  have "services w' s = Some i"
    using IH i by simp
  moreover have "s \<notin> set (map snd ts')"
    using IH i by force
  ultimately show ?case
    using IH i ts by (auto simp: case_prod_beta)
qed simp

section \<open>Properties\<close>

text \<open>
  After \<open>run\<close> of a new pool of at least one thread has returned, the pool has as many loops as
  its size, all different, each belonging to its own thread, with no task and not told to
  quit; and any number of calls of \<open>next_service\<close> returns these loops in turn, starting with
  the first and starting over after the last.
\<close>

theorem pool_run_spec:
  assumes size: "0 < n" "n < size_mod" "length tids = n"
    and run: "pool_run K tids (io_service_pool_new n) w = Inr (p, w')"
  shows "length (sp_services p) = n \<and> distinct (sp_services p) \<and>
    (\<forall>j < n. \<exists>i. services w' (sp_services p ! j) = Some i \<and> m_owner_tid i = tids ! j \<and>
       m_pending_tasks i = [] \<and> \<not> m_quit i) \<and>
    (\<forall>m. \<exists>p'. next_services m p = Inr (map (\<lambda>k. sp_services p ! (k mod n)) [0..<m], p'))"
proof -
  from run size obtain ts where ts: "start_threads K tids w = Inr (ts, w')"
    and p: "p = (io_service_pool_new n)\<lparr>sp_threads := ts, sp_services := map snd (take n ts)\<rparr>"
    by (auto simp: pool_run_def io_service_pool_new_def res_simps Let_def service_thread_run_def cong: map_cong)
  note eff = start_threads_effect [OF ts]
  have len: "length ts = n"
    using eff size by (metis length_map)
  then have p': "sp_services p = map snd ts" "sp_size p = n" "sp_service_index p = 0"
    by (simp_all add: p io_service_pool_new_def)
  have "\<exists>i. services w' (sp_services p ! j) = Some i \<and> m_owner_tid i = tids ! j \<and> m_pending_tasks i = [] \<and> \<not> m_quit i"
    if "j < n" for j
  proof -
    have "(fst (ts ! j), snd (ts ! j)) \<in> set ts" using that len by simp
    moreover have "tids ! j = fst (ts ! j)" using eff that len by (metis nth_map)
    ultimately show ?thesis using eff that len p' by fastforce
  qed
  moreover have "pool_ready p"
    using p' len size by (simp add: pool_ready_def)
  then have "\<exists>p'. next_services m p = Inr (map (\<lambda>k. sp_services p ! (k mod n)) [0..<m], p')" for m
    using next_services_ready [of p m] p' by auto
  ultimately show ?thesis
    using p' len eff by simp
qed

theorem pool_run_spec_witness:
  "\<exists>p w' p'. pool_run ref_kernel [7, 8] (io_service_pool_new 2) (sample_ios_state 1) = Inr (p, w') \<and>
     next_services 3 p = Inr ([100, 102, 100], p') \<and> map_option m_owner_tid (services w' 102) = Some 8"
proof -
  obtain p w' where run: "pool_run ref_kernel [7, 8] (io_service_pool_new 2) (sample_ios_state 1) = Inr (p, w')"
    and p: "sp_services p = [100, 102]"
    by (simp add: pool_run_def io_service_pool_new_def service_thread_new_def service_thread_run_def io_service_new_def
        poller_new_def create_evt_fd_def kcall_unfold sample_ios_simps ref_kernel_def get_chan_def put_chan_def put_ios_def
        get_ios_def join_to_service_def add_channel_def add_channel_in_loop_def poller_add_channel_def
        must_run_in_loop_def check_this_loop_def assert_channel_def find_channel_def rs_epoll_ctl_def epoll_ops
        evt_channel_new_def set_read_callback_def enable_read_def update_channel_def update_channel_in_loop_def
        update_evt_code_def Let_def)
  have three: "map (\<lambda>k. [100, 102] ! (k mod 2)) [0..<3] = [100, 102, 100 :: ptr]"
    by (simp add: upt_rec)
  have "(\<forall>j < 2. \<exists>i. services w' (sp_services p ! j) = Some i \<and> m_owner_tid i = [7, 8] ! j) \<and>
      (\<forall>m. \<exists>p'. next_services m p = Inr (map (\<lambda>k. sp_services p ! (k mod 2)) [0..<m], p'))"
    using pool_run_spec [OF _ _ _ run] by (auto simp: size_mod_def)
  then have "\<exists>i. services w' (sp_services p ! 1) = Some i \<and> m_owner_tid i = [7, 8] ! 1"
    "\<exists>p'. next_services 3 p = Inr (map (\<lambda>k. sp_services p ! (k mod 2)) [0..<3], p')"
    using one_less_numeral_iff [of num.One] by (auto dest: spec [of _ 1])
  with run p three show ?thesis by auto
qed

end
