(* ===== verification/Tcp_Server.thy ===== *)
theory Tcp_Server
  imports Acceptor Service_Pool
begin

unbundle bit_operations_syntax

text \<open>
  \<^verbatim>\<open>src/muradin/net/tcp_server.h\<close> and \<^verbatim>\<open>tcp_server.cpp\<close>: the server, which hands every
  accepted descriptor to a loop of its pool, owns the connections in its map and removes
  them when they are closed. With it every task and every callback of the library has its
  meaning (\<open>server_code\<close>, \<open>server_task\<close>, \<open>server_work\<close>). Lemmas: what becomes of an accepted
  descriptor, and the end of a connection from the event to the closed descriptor.
\<close>

section \<open>State\<close>

record tcp_server =
  ts_io_service :: ptr
  ts_acceptor :: ptr
  ts_conn_map :: "fd \<rightharpoonup> ptr"
  ts_conn_cb :: "nat option"
  ts_read_cb :: "nat option"
  ts_write_cb :: "nat option"
  ts_err_cb :: "nat option"
  ts_service_pool :: io_service_pool

record 'k srv_state = "'k acc_state" +
  servers :: "ptr \<rightharpoonup> tcp_server"

definition get_srv :: "ptr \<Rightarrow> ('k, 'm) srv_state_scheme \<Rightarrow> tcp_server res" where
  "get_srv v w = (case servers w v of Some sv \<Rightarrow> Inr sv | None \<Rightarrow> Inl Dangling)"

definition put_srv :: "ptr \<Rightarrow> tcp_server \<Rightarrow> ('k, 'm) srv_state_scheme \<Rightarrow> ('k, 'm) srv_state_scheme" where
  "put_srv v sv w = w\<lparr>servers := (servers w)(v \<mapsto> sv)\<rparr>"

section \<open>class tcp\_server\<close>

definition tcp_server_new ::
  "byteorder_t \<Rightarrow> (string \<Rightarrow> 32 word option) \<Rightarrow> 32 word \<Rightarrow> 'k kernel \<Rightarrow> string \<Rightarrow> 16 word \<Rightarrow> ptr \<Rightarrow> size_t \<Rightarrow>
     ('k, 'm) srv_state_scheme \<Rightarrow> (ptr \<times> ('k, 'm) srv_state_scheme) res" where
  "tcp_server_new h inet_pton junk K local_ip losten_port ios thread_number w =
     (let v = next_addr w; w0 = w\<lparr>next_addr := next_addr w + 1\<rparr> in
      rbind (acceptor_new K (endpoint_ip_port h inet_pton junk local_ip losten_port) ios w0) (\<lambda>(a, w1).
      let sv = \<lparr>ts_io_service = ios, ts_acceptor = a, ts_conn_map = Map.empty, ts_conn_cb = None,
                ts_read_cb = None, ts_write_cb = None, ts_err_cb = None,
                ts_service_pool = io_service_pool_new thread_number\<rparr>
      in rbind (set_accept_cb a v (put_srv v sv w1)) (\<lambda>w2. Inr (v, w2))))"

definition srv_set_conn_callback :: "nat \<Rightarrow> tcp_server \<Rightarrow> tcp_server" where
  "srv_set_conn_callback func sv = sv\<lparr>ts_conn_cb := Some func\<rparr>"

definition srv_set_read_callback :: "nat \<Rightarrow> tcp_server \<Rightarrow> tcp_server" where
  "srv_set_read_callback func sv = sv\<lparr>ts_read_cb := Some func\<rparr>"

definition srv_set_write_callback :: "nat \<Rightarrow> tcp_server \<Rightarrow> tcp_server" where
  "srv_set_write_callback func sv = sv\<lparr>ts_write_cb := Some func\<rparr>"

definition srv_set_error_callback :: "nat \<Rightarrow> tcp_server \<Rightarrow> tcp_server" where
  "srv_set_error_callback func sv = sv\<lparr>ts_err_cb := Some func\<rparr>"

text \<open>\<open>tids\<close> are the numbers of the threads that the pool starts.\<close>

definition server_ready ::
  "'k kernel \<Rightarrow> nat list \<Rightarrow> ptr \<Rightarrow> ('k, 'm) srv_state_scheme \<Rightarrow> ('k, 'm) srv_state_scheme res" where
  "server_ready K tids v w =
     rbind (get_srv v w) (\<lambda>sv.
     rbind (pool_run K tids (ts_service_pool sv) w) (\<lambda>(p, w1).
     acceptor_start K (ts_acceptor sv) (put_srv v (sv\<lparr>ts_service_pool := p\<rparr>) w1)))"

definition server_stop ::
  "'k kernel \<Rightarrow> ptr \<Rightarrow> ('k, 'm) srv_state_scheme \<Rightarrow> ('k, 'm) srv_state_scheme res" where
  "server_stop K v w = rbind (get_srv v w) (\<lambda>sv. acceptor_stop K (ts_acceptor sv) w)"

text \<open>
  \<open>m_conn_map[fd] = new_conn\<close> copies the pointer into the map and destroys the one that was
  there before, if any.
\<close>

definition conn_map_put ::
  "'k kernel \<Rightarrow> ptr \<Rightarrow> fd \<Rightarrow> ptr \<Rightarrow> ('k, 'm) srv_state_scheme \<Rightarrow> ('k, 'm) srv_state_scheme res" where
  "conn_map_put K v f c w =
     rbind (get_srv v w) (\<lambda>sv.
     let w1 = acquire c (put_srv v (sv\<lparr>ts_conn_map := (ts_conn_map sv)(f \<mapsto> c)\<rparr>) w)
     in case ts_conn_map sv f of
          None \<Rightarrow> Inr w1
        | Some old \<Rightarrow> release (connection_dtor K) old w1)"

text \<open>\<open>m_conn_map.erase(fd)\<close>\<close>

definition conn_map_erase ::
  "'k kernel \<Rightarrow> ptr \<Rightarrow> fd \<Rightarrow> ('k, 'm) srv_state_scheme \<Rightarrow> ('k, 'm) srv_state_scheme res" where
  "conn_map_erase K v f w =
     rbind (get_srv v w) (\<lambda>sv.
     case ts_conn_map sv f of
       None \<Rightarrow> Inr w
     | Some c \<Rightarrow> release (connection_dtor K) c
         (put_srv v (sv\<lparr>ts_conn_map := (ts_conn_map sv)(f := None)\<rparr>) w))"

definition on_new_conn ::
  "'k kernel \<Rightarrow> ('k, 'm) srv_state_scheme user_code \<Rightarrow> ptr \<Rightarrow> fd \<Rightarrow> endpoint_v4 \<Rightarrow>
     ('k, 'm) srv_state_scheme \<Rightarrow> ('k, 'm) srv_state_scheme res" where
  "on_new_conn K U v f addr w =
     rbind (get_srv v w) (\<lambda>sv.
     rbind (next_service (ts_service_pool sv)) (\<lambda>(s, p).
     rbind (connection_new K s f addr (put_srv v (sv\<lparr>ts_service_pool := p\<rparr>) w)) (\<lambda>(c, w1).
     rbind (get_conn c w1) (\<lambda>cn.
     let w2 = acquire c (put_conn c (conn_set_error_callback (ts_err_cb sv)
                (conn_set_conn_callback (ts_conn_cb sv) (conn_set_write_callback (ts_write_cb sv)
                (conn_set_read_callback (ts_read_cb sv) (conn_set_close_callback v cn))))) w1)
     in rbind (conn_map_put K v f c w2) (\<lambda>w3.
        rbind (conn_start K U c w3) (release (connection_dtor K) c))))))"

text \<open>The parameter of \<open>on_remove_conn\<close> is a copy of the pointer, destroyed on return.\<close>

definition on_remove_conn ::
  "'k kernel \<Rightarrow> ptr \<Rightarrow> ptr \<Rightarrow> ('k, 'm) srv_state_scheme \<Rightarrow> ('k, 'm) srv_state_scheme res" where
  "on_remove_conn K v c w =
     rbind (get_conn c (acquire c w)) (\<lambda>cn.
     rbind (conn_map_erase K v (conn_fd cn) (acquire c w)) (\<lambda>w1.
     rbind (final_destory K c w1) (release (connection_dtor K) c)))"

section \<open>The library as a whole\<close>

text \<open>
  The code of the user with the close callback that the server installs; what the loop of
  service \<open>s\<close> does for a task and for an active channel.
\<close>

definition server_code ::
  "'k kernel \<Rightarrow> ('k, 'm) srv_state_scheme user_code \<Rightarrow> ('k, 'm) srv_state_scheme user_code" where
  "server_code K U = U\<lparr>uc_close := on_remove_conn K\<rparr>"

definition server_task ::
  "'k kernel \<Rightarrow> ('k, 'm) srv_state_scheme user_code \<Rightarrow> ptr \<Rightarrow> task \<Rightarrow>
     ('k, 'm) srv_state_scheme \<Rightarrow> ('k, 'm) srv_state_scheme res" where
  "server_task K U s = exec_task K (server_code K U) s"

definition server_functor ::
  "byteorder_t \<Rightarrow> 'k kernel \<Rightarrow> ('k, 'm) srv_state_scheme user_code \<Rightarrow> evt_functor \<Rightarrow>
     ('k, 'm) srv_state_scheme \<Rightarrow> ('k, 'm) srv_state_scheme res" where
  "server_functor h K U =
     exec_functor K (server_code K U) (acceptor_on_read h K (on_new_conn K (server_code K U)))"

definition server_work ::
  "byteorder_t \<Rightarrow> 'k kernel \<Rightarrow> ('k, 'm) srv_state_scheme user_code \<Rightarrow> ptr \<Rightarrow>
     ('k, 'm) srv_state_scheme \<Rightarrow> ('k, 'm) srv_state_scheme res" where
  "server_work h K U = process_work (connection_dtor K) (server_functor h K U)"

definition server_run ::
  "nat \<Rightarrow> byteorder_t \<Rightarrow> 'k kernel \<Rightarrow> ('k, 'm) srv_state_scheme user_code \<Rightarrow> ptr \<Rightarrow>
     ('k, 'm) srv_state_scheme \<Rightarrow> ('k, 'm) srv_state_scheme res option" where
  "server_run n h K U s = run n K (connection_dtor K) (server_task K U s) (server_work h K U) s"

section \<open>The end of a connection\<close>

lemma get_srv_eq [simp]: "get_srv v w = Inr sv \<longleftrightarrow> servers w v = Some sv"
  by (simp add: get_srv_def split: option.splits)

lemma get_srv_Some: "servers w v = Some sv \<Longrightarrow> get_srv v w = Inr sv"
  by simp

text \<open>A connection that is in the map of its server under its descriptor and whose channel is registered.\<close>

definition served ::
  "('k \<Rightarrow> fd \<Rightarrow> fd \<rightharpoonup> epoll_event) \<Rightarrow> ptr \<Rightarrow> tcp_server \<Rightarrow> ptr \<Rightarrow> connection \<Rightarrow> evt_channel \<Rightarrow> io_service \<Rightarrow>
     ('k, 'm) srv_state_scheme \<Rightarrow> bool" where
  "served interest v sv c cn chn i w \<longleftrightarrow>
     conn_loop c cn chn i w \<and> servers w v = Some sv \<and> ts_conn_map sv (cn_socket cn) = Some c \<and>
     cn_close_cb cn = Some v \<and> interest (kern w) (ep_fd (m_poller i)) (cn_socket cn) \<noteq> None"

text \<open>The service and the server after the connection has been taken out.\<close>

definition unregister :: "fd \<Rightarrow> io_service \<Rightarrow> io_service" where
  "unregister f i = i\<lparr>m_poller := m_poller i\<lparr>channel_map := (channel_map (m_poller i))(f := None)\<rparr>\<rparr>"

definition forget :: "fd \<Rightarrow> tcp_server \<Rightarrow> tcp_server" where
  "forget f sv = sv\<lparr>ts_conn_map := (ts_conn_map sv)(f := None)\<rparr>"

lemma on_remove_conn_form:
  assumes rel: "epoll_reliable K interest" and served: "served interest v sv c cn chn i w"
    and down: "cn_conn_status cn = kDisconnect" and refs: "2 \<le> refs w c"
  shows "\<exists>k l. on_remove_conn K v c w = Inr (w\<lparr>kern := k, log_out := l,
       services := (services w)(cn_service cn \<mapsto> unregister (cn_socket cn) i),
       refs := (refs w)(c := refs w c - 1), servers := (servers w)(v \<mapsto> forget (cn_socket cn) sv)\<rparr>) \<and>
     k = snd (sys_epoll_ctl K (ep_fd (m_poller i)) EPOLL_CTL_DEL (cn_socket cn) None (kern w)) \<and>
     interest k = (interest (kern w))(ep_fd (m_poller i) := (interest (kern w) (ep_fd (m_poller i)))(cn_socket cn := None))"
proof -
  have loop: "conn_loop c cn chn i w" and sv: "servers w v = Some sv" and map: "ts_conn_map sv (cn_socket cn) = Some c"
    and reg: "interest (kern w) (ep_fd (m_poller i)) (cn_socket cn) \<noteq> None"
    using served by (auto simp: served_def)
  note D = conn_loopD [OF loop]
  have fd: "ch_fd chn = cn_socket cn" "ch_service chn = cn_service cn"
    using loop by (simp_all add: conn_loop_def)
  obtain e k where ctl: "sys_epoll_ctl K (ep_fd (m_poller i)) EPOLL_CTL_DEL (cn_socket cn) None (kern w) = ((0, e), k)"
    and k: "interest k = (interest (kern w))(ep_fd (m_poller i) := (interest (kern w) (ep_fd (m_poller i)))(cn_socket cn := None))"
    using epoll_reliableD(3) [OF rel reg] by (metis prod.collapse)
  let ?w1 = "w\<lparr>servers := (servers w)(v \<mapsto> forget (cn_socket cn) sv)\<rparr>"
  have erase: "conn_map_erase K v (cn_socket cn) (acquire c w) = Inr ?w1"
    using sv map refs release_many [of "put_srv v (forget (cn_socket cn) sv) (acquire c w)" c "connection_dtor K"]
    by (simp add: conn_map_erase_def get_srv_Some acquire_def put_srv_def forget_def fun_upd_idem)
  have "in_loop (cn_channle cn) chn i ?w1"
    using D(2) by (simp add: in_loop_def)
  from remove_form [OF this, of K 0 e k] ctl fd obtain l where
    rm: "remove_from_service K (cn_channle cn) ?w1 = Inr (?w1\<lparr>kern := k, log_out := l,
      services := (services w)(cn_service cn \<mapsto> unregister (cn_socket cn) i)\<rparr>)"
    by (auto simp: unregister_def)
  have "on_remove_conn K v c w = Inr (w\<lparr>kern := k, log_out := l,
       services := (services w)(cn_service cn \<mapsto> unregister (cn_socket cn) i),
       refs := (refs w)(c := refs w c - 1), servers := (servers w)(v \<mapsto> forget (cn_socket cn) sv)\<rparr>)"
    using erase rm D(1) down refs
      release_many [of "?w1\<lparr>kern := k, log_out := l,
        services := (services w)(cn_service cn \<mapsto> unregister (cn_socket cn) i)\<rparr>" c "connection_dtor K"]
    by (simp add: on_remove_conn_def final_destory_def get_conn_Some)
  moreover have "k = snd (sys_epoll_ctl K (ep_fd (m_poller i)) EPOLL_CTL_DEL (cn_socket cn) None (kern w))"
    using ctl by simp
  ultimately show ?thesis using k by blast
qed

text \<open>A callback of the user that, on a living connection, does nothing but write to the log.\<close>

definition only_logs :: "ptr \<Rightarrow> (('k, 'm) conn_state_scheme \<Rightarrow> ('k, 'm) conn_state_scheme res) \<Rightarrow> bool" where
  "only_logs c f \<longleftrightarrow> (\<forall>w. conns w c \<noteq> None \<longrightarrow> (\<exists>l. f w = Inr (w\<lparr>log_out := l\<rparr>)))"

lemma only_logsE:
  assumes "only_logs c f" and "conns w c \<noteq> None"
  obtains l where "f w = Inr (w\<lparr>log_out := l\<rparr>)"
  using assms unfolding only_logs_def by blast

lemma only_logs_server_code: "only_logs c (call_conn_cb (server_code K U) cb c) = only_logs c (call_conn_cb U cb c)"
  by (cases cb) (simp_all add: only_logs_def server_code_def)

lemma post_conn_cb_logs:
  assumes loop: "conn_loop c cn chn i w" and cb: "only_logs c (call_conn_cb U (cn_conn_cb cn) c)"
  shows "\<exists>l. post_conn_cb K U c w = Inr (w\<lparr>log_out := l\<rparr>)"
proof -
  obtain l where "call_conn_cb U (cn_conn_cb cn) c (acquire c w) = Inr ((acquire c w)\<lparr>log_out := l\<rparr>)"
    by (rule only_logsE [OF cb, of "acquire c w"]) (use conn_loopD(1) [OF loop] in auto)
  moreover have "release (connection_dtor K) c ((acquire c w)\<lparr>log_out := l\<rparr>) = Inr (w\<lparr>log_out := l\<rparr>)"
    using conn_loopD(6) [OF loop] release_many [of "(acquire c w)\<lparr>log_out := l\<rparr>" c "connection_dtor K"]
    by (simp add: log_line_def acquire_def fun_upd_idem)
  ultimately show ?thesis
    by (auto simp: post_conn_cb_form [OF loop])
qed

text \<open>The system after the calls by which \<open>handle_close\<close> takes a descriptor out of a poller.\<close>

definition unwatch :: "'k kernel \<Rightarrow> fd \<Rightarrow> fd \<Rightarrow> 32 word \<Rightarrow> ptr \<Rightarrow> 'k \<Rightarrow> 'k" where
  "unwatch K ep f m ch k =
     (let k1 = snd (sys_epoll_ctl K ep EPOLL_CTL_MOD f (Some (m AND (EPOLLIN OR EPOLLHUP OR EPOLLPRI), ch)) k);
          k2 = snd (sys_epoll_ctl K ep EPOLL_CTL_MOD f (Some (0, ch)) k1)
      in snd (sys_epoll_ctl K ep EPOLL_CTL_DEL f None k2))"

text \<open>\<open>handle_close\<close> of a connection that at least one more pointer keeps alive.\<close>

lemma handle_close_removes:
  assumes rel: "epoll_reliable K interest" and served: "served interest v sv c cn chn i w"
    and cb: "only_logs c (call_conn_cb U (cn_conn_cb cn) c)" and refs: "2 \<le> refs w c"
  shows "\<exists>k l. handle_close K (server_code K U) c w = Inr (w\<lparr>kern := k, log_out := l,
       chans := (chans w)(cn_channle cn \<mapsto> chn\<lparr>ch_last_evt_status := 0, ch_progress_in_write := False\<rparr>),
       services := (services w)(cn_service cn \<mapsto> unregister (cn_socket cn) i),
       refs := (refs w)(c := refs w c - 1), conns := (conns w)(c \<mapsto> cn\<lparr>cn_conn_status := kDisconnect\<rparr>),
       servers := (servers w)(v \<mapsto> forget (cn_socket cn) sv)\<rparr>) \<and>
     k = unwatch K (ep_fd (m_poller i)) (cn_socket cn) (ch_last_evt_status chn) (cn_channle cn) (kern w) \<and>
     interest k = (interest (kern w))(ep_fd (m_poller i) := (interest (kern w) (ep_fd (m_poller i)))(cn_socket cn := None))"
proof -
  let ?cn = "cn\<lparr>cn_conn_status := kDisconnect\<rparr>" and ?chn = "chn\<lparr>ch_last_evt_status := 0, ch_progress_in_write := False\<rparr>"
  let ?U = "server_code K U"
  have loop: "conn_loop c cn chn i w" and sv: "servers w v = Some sv" and close: "cn_close_cb cn = Some v"
    and reg: "interest (kern w) (ep_fd (m_poller i)) (cn_socket cn) \<noteq> None"
    using served by (auto simp: served_def)
  let ?k0 = "snd (sys_epoll_ctl K (ep_fd (m_poller i)) EPOLL_CTL_MOD (cn_socket cn)
    (Some (ch_last_evt_status chn AND (EPOLLIN OR EPOLLHUP OR EPOLLPRI), cn_channle cn)) (kern w))"
  define k1 where "k1 = snd (sys_epoll_ctl K (ep_fd (m_poller i)) EPOLL_CTL_MOD (cn_socket cn) (Some (0, cn_channle cn)) ?k0)"
  have k1: "interest k1 = (interest (kern w))(ep_fd (m_poller i) :=
      (interest (kern w) (ep_fd (m_poller i)))(cn_socket cn \<mapsto> (0, cn_channle cn)))"
    using reg by (simp add: k1_def epoll_reliableD(1) [OF rel])
  from handle_close_form [OF loop, of K ?U] obtain l1 w3 where
    w3: "w3 = w\<lparr>kern := k1, log_out := l1, chans := (chans w)(cn_channle cn \<mapsto> ?chn), conns := (conns w)(c \<mapsto> ?cn)\<rparr>"
    and loop3: "conn_loop c ?cn ?chn i w3"
    and form: "handle_close K ?U c w = rbind (post_conn_cb K ?U c w3) (post_close_cb K ?U c)"
    unfolding Let_def k1_def by blast
  have cb': "only_logs c (call_conn_cb ?U (cn_conn_cb ?cn) c)"
    using cb by (simp add: only_logs_server_code)
  from post_conn_cb_logs [OF loop3 cb', of K] obtain l4 where
    p1: "post_conn_cb K ?U c w3 = Inr (w3\<lparr>log_out := l4\<rparr>)" by blast
  let ?w4 = "w3\<lparr>log_out := l4\<rparr>"
  have loop4: "conn_loop c ?cn ?chn i ?w4"
    using loop3 by (auto simp: conn_loop_def in_loop_def)
  have "served interest v sv c ?cn ?chn i (acquire c ?w4)"
    using served loop4 w3 k1 by (auto simp: served_def conn_loop_def in_loop_def log_line_def acquire_def)
  moreover have "2 \<le> refs (acquire c ?w4) c"
    using refs w3 by (simp add: log_line_def)
  ultimately obtain k l where rm: "on_remove_conn K v c (acquire c ?w4) = Inr ((acquire c ?w4)\<lparr>kern := k, log_out := l,
       services := (services w)(cn_service cn \<mapsto> unregister (cn_socket cn) i),
       refs := (refs w)(c := refs w c), servers := (servers w)(v \<mapsto> forget (cn_socket cn) sv)\<rparr>)" (is "_ = Inr ?w5")
    and k: "interest k = (interest k1)(ep_fd (m_poller i) := (interest k1 (ep_fd (m_poller i)))(cn_socket cn := None))"
      "k = snd (sys_epoll_ctl K (ep_fd (m_poller i)) EPOLL_CTL_DEL (cn_socket cn) None k1)"
    using on_remove_conn_form [OF rel, of v sv c ?cn ?chn i "acquire c ?w4"] w3
    by (auto simp: log_line_def acquire_def)
  have "post_close_cb K ?U c ?w4 = release (connection_dtor K) c ?w5"
    using rm close by (simp add: post_close_cb_form [OF loop4] server_code_def)
  also have "\<dots> = Inr (?w5\<lparr>refs := (refs w)(c := refs w c - 1)\<rparr>)"
    using release_many [of ?w5 c] refs by simp
  finally have "handle_close K ?U c w = Inr (?w5\<lparr>refs := (refs w)(c := refs w c - 1)\<rparr>)"
    using form p1 by simp
  moreover have "k = unwatch K (ep_fd (m_poller i)) (cn_socket cn) (ch_last_evt_status chn) (cn_channle cn) (kern w)"
    using k(2) by (simp add: unwatch_def k1_def)
  ultimately show ?thesis
    using w3 k(1) k1 by (intro exI [of _ k] exI [of _ l]) (simp add: log_line_def acquire_def)
qed

text \<open>The channel of a connection as its constructor and \<open>start\<close> leave it.\<close>

definition conn_channel :: "ptr \<Rightarrow> evt_channel \<Rightarrow> bool" where
  "conn_channel c chn \<longleftrightarrow> ch_tied chn \<and> ch_owner_ob chn = Some c \<and>
     ch_close_callback chn = Some (ConnHandleClose c) \<and> ch_error_callback chn = Some (ConnHandleError c) \<and>
     ch_read_callback chn = Some (ConnHandleRead c) \<and> ch_write_callback chn = Some (ConnHandleWrite c)"

text \<open>
  The state after the connection \<open>c\<close> is gone: destroyed with its channel, in no map, its
  descriptor out of the interest set and then closed.
\<close>

definition conn_ended ::
  "'k kernel \<Rightarrow> ('k \<Rightarrow> fd \<Rightarrow> fd \<rightharpoonup> epoll_event) \<Rightarrow> ptr \<Rightarrow> tcp_server \<Rightarrow> ptr \<Rightarrow> connection \<Rightarrow> io_service \<Rightarrow>
     ('k, 'm) srv_state_scheme \<Rightarrow> ('k, 'm) srv_state_scheme \<Rightarrow> bool" where
  "conn_ended K interest v sv c cn i w w' \<longleftrightarrow>
     conns w' = (conns w)(c := None) \<and> chans w' = (chans w)(cn_channle cn := None) \<and> refs w' = (refs w)(c := 0) \<and>
     servers w' = (servers w)(v \<mapsto> forget (cn_socket cn) sv) \<and>
     services w' = (services w)(cn_service cn \<mapsto> unregister (cn_socket cn) i) \<and>
     (\<exists>k. interest k = (interest (kern w))(ep_fd (m_poller i) := (interest (kern w) (ep_fd (m_poller i)))(cn_socket cn := None)) \<and>
        kern w' = snd (sys_close K (cn_socket cn) k))"

text \<open>The last pointer goes: the one that the channel took for the duration of its work.\<close>

lemma last_release:
  assumes "conns w c = Some cn" and "refs w c = 1"
  shows "release (connection_dtor K) c w = Inr (w\<lparr>refs := (refs w)(c := 0), chans := (chans w)(cn_channle cn := None),
     kern := snd (sys_close K (cn_socket cn) (kern w)), conns := (conns w)(c := None)\<rparr>)"
  using assms
  by (simp add: release_def connection_dtor_def get_conn_def socket_close_def kcall_unfold Let_def)

lemma idle_status:
  "chans w ch = Some c \<Longrightarrow> ch_last_evt_status c = 0 \<Longrightarrow> do_process_work F ch w = Inr w"
  by (simp add: do_process_work_def get_chan_Some)


text \<open>A server at address 30 with one connection, for the instances; its user code logs.\<close>

definition sample_srv :: tcp_server where
  "sample_srv = \<lparr>ts_io_service = 1, ts_acceptor = 40, ts_conn_map = [7 \<mapsto> 20], ts_conn_cb = Some 1,
     ts_read_cb = Some 2, ts_write_cb = Some 3, ts_err_cb = Some 4,
     ts_service_pool = \<lparr>sp_services = [1], sp_threads = [(1, 1)], sp_size = 1, sp_service_index = 0\<rparr>\<rparr>"

definition sample_srv_state :: "32 word \<Rightarrow> byte list \<Rightarrow> ref_sys srv_state" where
  "sample_srv_state evt inbox =
     \<lparr>kern = kern (sample_conn_state (0, 0) inbox []), this_tid = 1, next_addr = 100, log_out = [],
      chans = [10 \<mapsto> save_evt_status evt sample_conn_chan], services = [1 \<mapsto> sample_conn_ios],
      refs = (\<lambda>_. 0)(20 := 1), conns = [20 \<mapsto> sample_conn []], user_mem = (\<lambda>_. [1, 2, 3]),
      acceptors = Map.empty, servers = [30 \<mapsto> sample_srv]\<rparr>"

definition sample_user :: "ref_sys srv_state user_code" where
  "sample_user = \<lparr>uc_conn = (\<lambda>f c w. Inr (log_line ll_info ''conn'' [int c] w)),
     uc_read = (\<lambda>f c e w. Inr (log_line ll_info ''read'' [int c] w)),
     uc_write = (\<lambda>f c e n w. Inr (log_line ll_info ''write'' [int c, int n] w)),
     uc_err = (\<lambda>f c e w. Inr w), uc_close = (\<lambda>v c w. Inr w), uc_task = (\<lambda>n w. Inr w)\<rparr>"

lemma sample_served:
  "served rs_interest 30 sample_srv 20 (sample_conn []) (save_evt_status evt sample_conn_chan) sample_conn_ios
     (sample_srv_state evt inbox)"
proof -
  have "buf_inv (cn_write_cache (sample_conn []))" by (rule sample_out(1)) simp
  then show ?thesis
    by (simp add: served_def conn_loop_def in_loop_def) (simp add: sample_srv_state_def sample_srv_def sample_conn_simps
        sample_ios_simps save_evt_status_def)
qed

lemma sample_conn_channel: "conn_channel 20 (save_evt_status evt sample_conn_chan)"
  by (simp add: conn_channel_def save_evt_status_def sample_conn_simps)

lemma sample_only_logs: "only_logs 20 (call_conn_cb sample_user (cn_conn_cb (sample_conn [])) 20)"
  by (auto simp: only_logs_def sample_user_def sample_conn_def log_line_def)


lemma readable_mask: "(e AND (EPOLLIN OR EPOLLPRI OR EPOLLRDHUP)) AND EPOLLIN = e AND EPOLLIN"
  by (simp add: and.assoc epoll_consts)

lemma peer_close_ends:
  assumes rel: "epoll_reliable K interest" and served: "served interest v sv c cn chn i w"
    and chn: "conn_channel c chn" and own: "refs w c = 1"
    and cb: "only_logs c (call_conn_cb U (cn_conn_cb cn) c)"
    and evt: "evt_status chn AND EPOLLIN \<noteq> 0" "evt_status chn AND EPOLLERR = 0"
    and room: "max_readbytes_once \<le> room (cn_read_cache cn)"
    and recv: "sys_recv K (cn_socket cn) max_readbytes_once (kern w) = ((0, errno, []), k0)"
      "interest k0 = interest (kern w)"
  shows "\<exists>w'. server_work h K U (cn_channle cn) w = Inr w' \<and> conn_ended K interest v sv c cn i w w'"
proof -
  let ?ch = "cn_channle cn" and ?U = "server_code K U" and ?w0 = "acquire c w"
  have ch: "chans w ?ch = Some chn" and loop0: "conn_loop c cn chn i ?w0"
    using served conn_loopD(3) by (auto simp: served_def conn_loop_def in_loop_def)
  have "recv_result max_readbytes_once 0 []" by (simp add: recv_result_def)
  from handle_read_form [OF loop0 room, of K 0 errno "[]" k0, OF _ this, of ?U] recv(1) obtain b w1 where
    w1: "w1 = put_conn c (cn\<lparr>cn_read_cache := b\<rparr>) (?w0\<lparr>kern := k0\<rparr>)"
    and loop1: "conn_loop c (cn\<lparr>cn_read_cache := b\<rparr>) chn i w1"
    and read: "handle_read K ?U c ?w0 = rbind (post_conn_cb K ?U c w1) (\<lambda>w3. rbind (get_conn c w3) (\<lambda>cn3.
        run_task K (cn_service cn3) (THandleClose c) (handle_close K ?U c) w3))" by auto
  let ?cn = "cn\<lparr>cn_read_cache := b\<rparr>"
  have cb1: "only_logs c (call_conn_cb U (cn_conn_cb ?cn) c)" using cb by simp
  then have "only_logs c (call_conn_cb ?U (cn_conn_cb ?cn) c)"
    by (simp add: only_logs_server_code)
  from post_conn_cb_logs [OF loop1 this, of K] obtain l2 where
    p1: "post_conn_cb K ?U c w1 = Inr (w1\<lparr>log_out := l2\<rparr>)" by blast
  let ?w2 = "w1\<lparr>log_out := l2\<rparr>"
  have served2: "served interest v sv c ?cn chn i ?w2" and own2: "refs ?w2 c = 2"
    using served loop1 recv(2) own w1 by (auto simp: served_def conn_loop_def in_loop_def put_conn_def log_line_def acquire_def)
  have "handle_read K ?U c ?w0 = handle_close K ?U c ?w2"
    using read p1 conn_loopD [OF loop1]
    by (simp add: get_conn_def run_task_def get_ios_def check_this_loop_def)
  moreover from handle_close_removes [OF rel served2 cb1] own2 obtain k l where
    close: "handle_close K ?U c ?w2 = Inr (?w2\<lparr>kern := k, log_out := l,
       chans := (chans w)(?ch \<mapsto> chn\<lparr>ch_last_evt_status := 0, ch_progress_in_write := False\<rparr>),
       services := (services w)(cn_service cn \<mapsto> unregister (cn_socket cn) i),
       refs := refs w, conns := (conns w)(c \<mapsto> ?cn\<lparr>cn_conn_status := kDisconnect\<rparr>),
       servers := (servers w)(v \<mapsto> forget (cn_socket cn) sv)\<rparr>)" (is "_ = Inr ?w3")
    and k: "interest k = (interest (kern w))(ep_fd (m_poller i) := (interest (kern w) (ep_fd (m_poller i)))(cn_socket cn := None))"
    using own recv(2) w1 by (auto simp: acquire_def fun_upd_idem put_conn_def log_line_def)
  moreover have "(evt_status chn) AND (EPOLLIN OR EPOLLPRI OR EPOLLRDHUP) \<noteq> 0"
    using evt(1) readable_mask [of "evt_status chn"] by auto
  ultimately have "do_process_work (server_functor h K U) ?ch ?w0 = Inr ?w3"
    using ch chn evt by (simp add: do_process_work_def get_chan_def conn_channel_def evt_status_def server_functor_def)
  moreover have "release (connection_dtor K) c ?w3 = Inr (?w3\<lparr>refs := (refs w)(c := 0), chans := (chans w)(?ch := None),
      kern := snd (sys_close K (cn_socket cn) k), conns := (conns w)(c := None)\<rparr>)" (is "_ = Inr ?w4")
    using last_release [of ?w3 c "?cn\<lparr>cn_conn_status := kDisconnect\<rparr>" K] own by simp
  ultimately have "server_work h K U ?ch w = Inr ?w4"
    using ch chn own by (simp add: server_work_def process_work_def get_chan_Some conn_channel_def)
  with k show ?thesis
    by (intro exI [of _ ?w4]) (auto simp: conn_ended_def)
qed



section \<open>The beginning of a connection\<close>

text \<open>
  \<open>start\<close> in another thread than that of the loop, on an observer \<open>counter\<close> of the wake-up
  descriptors: the channel is tied and given its mask at once, and three tasks are queued.
\<close>

lemma conn_start_queues:
  assumes evt: "eventfd_documented K counter"
    and cn: "conns w c = Some cn" "0 < refs w c"
    and chn: "chans w (cn_channle cn) = Some chn" "ch_service chn = cn_service cn" "\<not> ch_tied chn"
      "ch_last_evt_status chn = 0"
    and i: "services w (cn_service cn) = Some i" "this_tid w \<noteq> m_owner_tid i"
      "counter (kern w) (m_wakeup_fd i) < 2 ^ 64 - 1"
  shows "conn_start K U c w = Inr (w\<lparr>kern := ((\<lambda>k. snd (sys_write64 K (m_wakeup_fd i) 0 k)) ^^ 3) (kern w),
      chans := (chans w)(cn_channle cn \<mapsto> chn\<lparr>ch_owner_ob := Some c, ch_tied := True,
        ch_last_evt_status := EPOLLIN OR EPOLLHUP OR EPOLLPRI\<rparr>),
      services := (services w)(cn_service cn \<mapsto> i\<lparr>m_pending_tasks := m_pending_tasks i @
        [TAddChannel (cn_channle cn), TUpdateChannel (cn_channle cn), TConnCb (cn_conn_cb cn) c]\<rparr>),
      refs := (refs w)(c := refs w c + 1), conns := (conns w)(c \<mapsto> cn\<lparr>cn_conn_status := kConnected\<rparr>)\<rparr>)"
proof -
  let ?s = "cn_service cn" and ?ch = "cn_channle cn"
  let ?c1 = "chn\<lparr>ch_owner_ob := Some c, ch_tied := True\<rparr>"
  let ?w1 = "put_chan ?ch ?c1 w"
  let ?i = "\<lambda>ts. i\<lparr>m_pending_tasks := m_pending_tasks i @ ts\<rparr>"
  have tie: "rbind (shared_from_this c w) (\<lambda>w1. rbind (tie ?ch c w1) (release (connection_dtor K) c)) = Inr ?w1"
    using cn chn release_many [of "put_chan ?ch ?c1 (acquire c w)" c "connection_dtor K"]
    by (simp add: shared_from_this_def tie_def get_chan_def put_chan_def acquire_def fun_upd_idem)
  from queue_task_form [OF evt, of ?w1 ?s i "TAddChannel ?ch"] i obtain k1 where
    q1: "queue_task K ?s (TAddChannel ?ch) ?w1 = Inr (?w1\<lparr>kern := k1, services := (services w)(?s \<mapsto> ?i [TAddChannel ?ch])\<rparr>)"
      (is "_ = Inr ?w2") and k1: "counter k1 = counter (kern w)" "k1 = snd (sys_write64 K (m_wakeup_fd i) 0 (kern w))"
    by (auto simp: put_chan_def)
  let ?c3 = "?c1\<lparr>ch_last_evt_status := EPOLLIN OR EPOLLHUP OR EPOLLPRI\<rparr>"
  let ?w3 = "put_chan ?ch ?c3 ?w2"
  from queue_task_form [OF evt, of ?w3 ?s "?i [TAddChannel ?ch]" "TUpdateChannel ?ch"] i k1(1) obtain k2 where
    q2: "queue_task K ?s (TUpdateChannel ?ch) ?w3 = Inr (?w3\<lparr>kern := k2,
        services := (services w)(?s \<mapsto> ?i [TAddChannel ?ch, TUpdateChannel ?ch])\<rparr>)" (is "_ = Inr ?w4")
    and k2: "counter k2 = counter (kern w)" "k2 = snd (sys_write64 K (m_wakeup_fd i) 0 k1)"
    by (auto simp: put_chan_def)
  let ?w5 = "acquire c (put_conn c (cn\<lparr>cn_conn_status := kConnected\<rparr>) ?w4)"
  from queue_task_form [OF evt, of ?w5 ?s "?i [TAddChannel ?ch, TUpdateChannel ?ch]" "TConnCb (cn_conn_cb cn) c"] i k2(1)
  obtain k3 where
    q3: "queue_task K ?s (TConnCb (cn_conn_cb cn) c) ?w5 = Inr ((acquire c ?w5)\<lparr>kern := k3,
        services := (services w)(?s \<mapsto> ?i [TAddChannel ?ch, TUpdateChannel ?ch, TConnCb (cn_conn_cb cn) c])\<rparr>)" (is "_ = Inr ?w6")
    and k3: "k3 = snd (sys_write64 K (m_wakeup_fd i) 0 k2)"
    by (auto simp: put_chan_def put_conn_def acquire_def)
  have "join_to_service K ?ch ?w1 = Inr ?w2"
    using q1 chn i by (simp add: join_to_service_def get_chan_def add_channel_def get_ios_def check_this_loop_def put_chan_def)
  moreover have "enable_read K ?ch True ?w2 = Inr ?w4"
    using q2 chn i by (simp add: enable_read_def get_chan_def update_channel_def get_ios_def check_this_loop_def put_chan_def Let_def)
  moreover have "post_conn_cb K U c (put_conn c (cn\<lparr>cn_conn_status := kConnected\<rparr>) ?w4) =
      Inr (?w6\<lparr>refs := (refs w)(c := refs w c + 1)\<rparr>)"
    using q3 cn i release_many [of ?w6 c "connection_dtor K"]
    by (simp add: post_conn_cb_def get_conn_def post_def shared_from_this_def run_task_def get_ios_def
        check_this_loop_def put_conn_def put_chan_def acquire_def)
  moreover have "set_conn_status c kConnected ?w4 = Inr (put_conn c (cn\<lparr>cn_conn_status := kConnected\<rparr>) ?w4)"
    using cn by (simp add: set_conn_status_def get_conn_def put_chan_def)
  moreover have "conn_start K U c w =
      rbind (rbind (shared_from_this c w) (\<lambda>w1. rbind (tie ?ch c w1) (release (connection_dtor K) c))) (\<lambda>w3.
      rbind (join_to_service K ?ch w3) (\<lambda>w4. rbind (enable_read K ?ch True w4) (\<lambda>w5.
      rbind (set_conn_status c kConnected w5) (post_conn_cb K U c))))"
    using cn by (simp add: conn_start_def get_conn_def rbind_assoc)
  ultimately have "conn_start K U c w = Inr (?w6\<lparr>refs := (refs w)(c := refs w c + 1)\<rparr>)"
    by (simp only: tie rbind_Inr)
  then show ?thesis
    using k1(2) k2(2) k3 by (simp add: put_conn_def put_chan_def acquire_def numeral_3_eq_3)
qed

lemma connection_new_form:
  "\<exists>cn chn k. connection_new K s f addr w = Inr (next_addr w,
      w\<lparr>next_addr := next_addr w + 2, kern := k, chans := (chans w)(next_addr w + 1 \<mapsto> chn),
        conns := (conns w)(next_addr w \<mapsto> cn)\<rparr>) \<and>
     k = snd (sys_setsockopt K f SOL_SOCKET SO_KEEPALIVE 1 (snd (sys_setsockopt K f IPPROTO_TCP TCP_NODELAY 1 (kern w)))) \<and>
     cn_socket cn = f \<and> cn_service cn = s \<and> cn_channle cn = next_addr w + 1 \<and> cn_peer_address cn = addr \<and>
     buf_inv (cn_write_cache cn) \<and> contents (cn_write_cache cn) = [] \<and> room (cn_write_cache cn) = vec_max_size - m_resver_index \<and>
     buf_inv (cn_read_cache cn) \<and> contents (cn_read_cache cn) = [] \<and> room (cn_read_cache cn) = vec_max_size - m_resver_index \<and>
     ch_fd chn = f \<and> ch_service chn = s \<and> \<not> ch_tied chn \<and> ch_last_evt_status chn = 0 \<and> \<not> ch_progress_in_write chn \<and>
     conn_channel (next_addr w) (chn\<lparr>ch_owner_ob := Some (next_addr w), ch_tied := True\<rparr>)"
proof -
  obtain b where "bytebuffer_new lite_endian 2048 = Inr b" "buf_inv b" "contents b = []" "room b = vec_max_size - m_resver_index"
    using bytebuffer_new_ok [of 2048 lite_endian] by (auto simp: vec_max_size_def m_resver_index_def)
  then show ?thesis
    by (intro exI [of _ "the (conns (snd (projr (connection_new K s f addr w))) (next_addr w))"]
        exI [of _ "the (chans (snd (projr (connection_new K s f addr w))) (next_addr w + 1))"]
        exI [of _ "kern (snd (projr (connection_new K s f addr w)))"])
      (simp add: connection_new_def Let_def set_tcp_nodelay_def set_keepalive_def kcall_unfold put_conn_def put_chan_def
        conn_channel_def set_error_callback_def set_close_callback_def set_read_callback_def set_write_callback_def
        evt_channel_new_def)
qed

lemma on_new_conn_queues:
  assumes evt: "eventfd_documented K counter"
    and opt: "\<And>fd l opt val k. counter (snd (sys_setsockopt K fd l opt val k)) = counter k"
    and sv: "servers w v = Some sv" "pool_ready (ts_service_pool sv)" "ts_conn_map sv f = None"
    and s: "s = sp_services (ts_service_pool sv) ! (sp_service_index (ts_service_pool sv) mod sp_size (ts_service_pool sv))"
    and i: "services w s = Some i" "this_tid w \<noteq> m_owner_tid i" "counter (kern w) (m_wakeup_fd i) < 2 ^ 64 - 1"
    and new: "c = next_addr w" "refs w c = 0"
  shows "\<exists>cn chn p. on_new_conn K U v f addr w = Inr (w\<lparr>next_addr := next_addr w + 2,
       kern := ((\<lambda>k. snd (sys_write64 K (m_wakeup_fd i) 0 k)) ^^ 3) (snd (sys_setsockopt K f SOL_SOCKET SO_KEEPALIVE 1
          (snd (sys_setsockopt K f IPPROTO_TCP TCP_NODELAY 1 (kern w))))),
       chans := (chans w)(c + 1 \<mapsto> chn), services := (services w)(s \<mapsto> i\<lparr>m_pending_tasks := m_pending_tasks i @
        [TAddChannel (c + 1), TUpdateChannel (c + 1), TConnCb (ts_conn_cb sv) c]\<rparr>),
       refs := (refs w)(c := 2), conns := (conns w)(c \<mapsto> cn),
       servers := (servers w)(v \<mapsto> sv\<lparr>ts_service_pool := p, ts_conn_map := (ts_conn_map sv)(f \<mapsto> c)\<rparr>)\<rparr>) \<and>
     next_service (ts_service_pool sv) = Inr (s, p) \<and> pool_ready p \<and>
     connected cn \<and> cn_socket cn = f \<and> cn_service cn = s \<and> cn_channle cn = c + 1 \<and> cn_close_cb cn = Some v \<and>
     cn_conn_cb cn = ts_conn_cb sv \<and> cn_read_cb cn = ts_read_cb sv \<and> cn_write_cb cn = ts_write_cb sv \<and> cn_err_cb cn = ts_err_cb sv \<and>
     buf_inv (cn_write_cache cn) \<and> contents (cn_write_cache cn) = [] \<and> room (cn_write_cache cn) = vec_max_size - m_resver_index \<and>
     buf_inv (cn_read_cache cn) \<and> contents (cn_read_cache cn) = [] \<and> room (cn_read_cache cn) = vec_max_size - m_resver_index \<and>
     conn_channel c chn \<and> ch_fd chn = f \<and> ch_service chn = s \<and> evt_status chn = EPOLLIN OR EPOLLHUP OR EPOLLPRI"
proof -
  from next_service_ready [OF sv(2)] s obtain p where
    p: "next_service (ts_service_pool sv) = Inr (s, p)" "pool_ready p" by blast
  let ?w0 = "put_srv v (sv\<lparr>ts_service_pool := p\<rparr>) w"
  from connection_new_form [of K s f addr ?w0] new(1) obtain cn chn k where
    cn: "connection_new K s f addr ?w0 = Inr (c, ?w0\<lparr>next_addr := next_addr w + 2, kern := k, chans := (chans w)(c + 1 \<mapsto> chn),
        conns := (conns w)(c \<mapsto> cn)\<rparr>)" (is "_ = Inr (c, ?w1)")
    and k: "k = snd (sys_setsockopt K f SOL_SOCKET SO_KEEPALIVE 1 (snd (sys_setsockopt K f IPPROTO_TCP TCP_NODELAY 1 (kern w))))"
    and cn': "cn_socket cn = f" "cn_service cn = s" "cn_channle cn = c + 1" "contents (cn_write_cache cn) = []"
      "contents (cn_read_cache cn) = []" "buf_inv (cn_write_cache cn)" "buf_inv (cn_read_cache cn)"
      "room (cn_write_cache cn) = vec_max_size - m_resver_index" "room (cn_read_cache cn) = vec_max_size - m_resver_index"
    and chn: "ch_fd chn = f" "ch_service chn = s" "\<not> ch_tied chn" "ch_last_evt_status chn = 0"
      "conn_channel c (chn\<lparr>ch_owner_ob := Some c, ch_tied := True\<rparr>)"
    by (auto simp: put_srv_def)
  let ?cn = "cn\<lparr>cn_close_cb := Some v, cn_read_cb := ts_read_cb sv, cn_write_cb := ts_write_cb sv,
    cn_conn_cb := ts_conn_cb sv, cn_err_cb := ts_err_cb sv\<rparr>"
  let ?sv = "sv\<lparr>ts_service_pool := p, ts_conn_map := (ts_conn_map sv)(f \<mapsto> c)\<rparr>"
  have put: "conn_map_put K v f c (acquire c (put_conn c ?cn ?w1)) =
      Inr (?w1\<lparr>conns := (conns w)(c \<mapsto> ?cn), refs := (refs w)(c := 2), servers := (servers w)(v \<mapsto> ?sv)\<rparr>)" (is "_ = Inr ?w3")
    using sv new by (simp add: conn_map_put_def get_srv_def acquire_def put_conn_def put_srv_def Let_def numeral_2_eq_2)
  have "counter (kern ?w3) = counter (kern w)"
    using opt k by simp
  with conn_start_queues [OF evt, of ?w3 c ?cn chn i U] cn' chn i
  have start: "conn_start K U c ?w3 = Inr (?w3\<lparr>kern := ((\<lambda>k. snd (sys_write64 K (m_wakeup_fd i) 0 k)) ^^ 3) k, chans := (chans w)(c + 1 \<mapsto> chn\<lparr>ch_owner_ob := Some c, ch_tied := True,
        ch_last_evt_status := EPOLLIN OR EPOLLHUP OR EPOLLPRI\<rparr>),
      services := (services w)(s \<mapsto> i\<lparr>m_pending_tasks := m_pending_tasks i @
        [TAddChannel (c + 1), TUpdateChannel (c + 1), TConnCb (ts_conn_cb sv) c]\<rparr>),
      refs := (refs w)(c := 3), conns := (conns w)(c \<mapsto> ?cn\<lparr>cn_conn_status := kConnected\<rparr>)\<rparr>)" (is "_ = Inr ?w4")
    by (auto simp: put_srv_def numeral_3_eq_3 numeral_2_eq_2)
  have "on_new_conn K U v f addr w = Inr (?w4\<lparr>refs := (refs w)(c := 2)\<rparr>)"
    using sv p cn put start release_many [of ?w4 c "connection_dtor K"]
    by (simp add: on_new_conn_def get_srv_Some get_conn_def Let_def)
  moreover have "connected (?cn\<lparr>cn_conn_status := kConnected\<rparr>)" "conn_channel c (chn\<lparr>ch_owner_ob := Some c, ch_tied := True,
      ch_last_evt_status := EPOLLIN OR EPOLLHUP OR EPOLLPRI\<rparr>)"
    using chn(5) by (simp_all add: connected_def conn_channel_def)
  ultimately show ?thesis
    using p cn' chn(1,2) k
    by (intro exI [of _ "?cn\<lparr>cn_conn_status := kConnected\<rparr>"] exI [of _ p]
        exI [of _ "chn\<lparr>ch_owner_ob := Some c, ch_tied := True, ch_last_evt_status := EPOLLIN OR EPOLLHUP OR EPOLLPRI\<rparr>"])
      (simp add: evt_status_def put_srv_def)
qed

text \<open>
  C5. A descriptor accepted in a thread other than that of the loop whose turn it is: the server
  makes a new connection on it with its own callbacks, empty buffers and a channel that is
  tied to it and subscribed to reading; the connection is owned by the map of the server,
  under the descriptor, and by one queued callback; and that loop has exactly three new tasks,
  in the order that registers the channel, sets its mask and then reports the connection.
\<close>

theorem new_conn_spec:
  assumes evt: "eventfd_documented K counter"
    and opt: "\<And>fd l opt val k. counter (snd (sys_setsockopt K fd l opt val k)) = counter k"
    and sv: "servers w v = Some sv" "pool_ready (ts_service_pool sv)" "ts_conn_map sv f = None"
    and s: "s = sp_services (ts_service_pool sv) ! (sp_service_index (ts_service_pool sv) mod sp_size (ts_service_pool sv))"
    and i: "services w s = Some i" "this_tid w \<noteq> m_owner_tid i" "counter (kern w) (m_wakeup_fd i) < 2 ^ 64 - 1"
    and new: "c = next_addr w" "refs w c = 0"
  shows "\<exists>w' cn chn p. on_new_conn K U v f addr w = Inr w' \<and>
     servers w' = (servers w)(v \<mapsto> sv\<lparr>ts_service_pool := p, ts_conn_map := (ts_conn_map sv)(f \<mapsto> c)\<rparr>) \<and> pool_ready p \<and>
     conns w' = (conns w)(c \<mapsto> cn) \<and> connected cn \<and> cn_socket cn = f \<and> cn_service cn = s \<and> cn_close_cb cn = Some v \<and>
     cn_conn_cb cn = ts_conn_cb sv \<and> cn_read_cb cn = ts_read_cb sv \<and> cn_write_cb cn = ts_write_cb sv \<and>
     cn_err_cb cn = ts_err_cb sv \<and> contents (cn_write_cache cn) = [] \<and> contents (cn_read_cache cn) = [] \<and>
     chans w' = (chans w)(c + 1 \<mapsto> chn) \<and> conn_channel c chn \<and> ch_fd chn = f \<and> ch_service chn = s \<and>
     evt_status chn = EPOLLIN OR EPOLLHUP OR EPOLLPRI \<and> refs w' = (refs w)(c := 2) \<and>
     services w' = (services w)(s \<mapsto> i\<lparr>m_pending_tasks := m_pending_tasks i @
        [TAddChannel (c + 1), TUpdateChannel (c + 1), TConnCb (ts_conn_cb sv) c]\<rparr>)"
  using on_new_conn_queues [OF evt opt sv s i new, of U addr] by fastforce

lemma in_loop_tasks:
  assumes "in_loop ch c i w"
  shows "add_channel_in_loop K (ch_service c) ch w = join_to_service K ch w"
    and "update_channel_in_loop K (ch_service c) ch w = update_channel K (ch_service c) ch w"
  using assms
  by (simp_all add: in_loop_def join_to_service_def get_chan_Some add_channel_def update_channel_def get_ios_Some
      check_this_loop_def)

lemma queued_tasks_register:
  assumes rel: "epoll_reliable K interest" and loop: "conn_loop c cn chn i w" and chn: "evt_status chn = EPOLLIN OR EPOLLHUP OR EPOLLPRI"
    and sv: "servers w v = Some sv" "ts_conn_map sv (cn_socket cn) = Some c" "cn_close_cb cn = Some v" "refs w c = 2"
    and tasks: "m_pending_tasks i = [TAddChannel (cn_channle cn), TUpdateChannel (cn_channle cn), TConnCb (cn_conn_cb cn) c]"
    and new: "interest (kern w) (ep_fd (m_poller i)) (cn_socket cn) = None"
    and cb: "only_logs c (call_conn_cb U (cn_conn_cb cn) c)"
  shows "\<exists>k l i'. run_pending_task (connection_dtor K) (server_task K U (cn_service cn)) (cn_service cn) w =
       Inr (w\<lparr>kern := k, log_out := l, services := (services w)(cn_service cn \<mapsto> i'), refs := (refs w)(c := 1)\<rparr>) \<and>
     i' = i\<lparr>m_running_pending_tasks := False, m_pending_tasks := [],
       m_poller := m_poller i\<lparr>channel_map := (channel_map (m_poller i))(cn_socket cn \<mapsto> cn_channle cn)\<rparr>\<rparr> \<and>
     k = snd (sys_epoll_ctl K (ep_fd (m_poller i)) EPOLL_CTL_MOD (cn_socket cn) (Some (EPOLLIN OR EPOLLHUP OR EPOLLPRI, cn_channle cn))
       (snd (sys_epoll_ctl K (ep_fd (m_poller i)) EPOLL_CTL_ADD (cn_socket cn) (Some (EPOLLIN OR EPOLLHUP OR EPOLLPRI, cn_channle cn)) (kern w)))) \<and>
     interest k = (interest (kern w))(ep_fd (m_poller i) := (interest (kern w) (ep_fd (m_poller i)))
       (cn_socket cn \<mapsto> (EPOLLIN OR EPOLLHUP OR EPOLLPRI, cn_channle cn)))"
proof -
  let ?s = "cn_service cn" and ?ch = "cn_channle cn" and ?f = "cn_socket cn" and ?ep = "ep_fd (m_poller i)"
  let ?m = "EPOLLIN OR EPOLLHUP OR EPOLLPRI"
  let ?i0 = "i\<lparr>m_running_pending_tasks := True, m_pending_tasks := []\<rparr>"
  let ?i1 = "?i0\<lparr>m_poller := m_poller i\<lparr>channel_map := (channel_map (m_poller i))(?f \<mapsto> ?ch)\<rparr>\<rparr>"
  let ?w0 = "put_ios ?s ?i0 w"
  note D = conn_loopD [OF loop]
  have c: "ch_fd chn = ?f" "ch_service chn = ?s" "ch_last_evt_status chn = ?m"
    using loop chn by (simp_all add: conn_loop_def evt_status_def)
  have loop0: "in_loop ?ch chn ?i0 ?w0"
    using D c by (simp add: in_loop_def)
  obtain e k1 where add: "sys_epoll_ctl K ?ep EPOLL_CTL_ADD ?f (Some (?m, ?ch)) (kern w) = ((0, e), k1)"
    and k1: "interest k1 = (interest (kern w))(?ep := (interest (kern w) ?ep)(?f \<mapsto> (?m, ?ch)))"
    using epoll_reliableD(2) [OF rel new] by (metis prod.collapse)
  from join_form [OF loop0, of K 0 e k1] add c obtain l1 where
    t1: "add_channel_in_loop K ?s ?ch ?w0 = Inr (?w0\<lparr>kern := k1, log_out := l1, services := (services w)(?s \<mapsto> ?i1)\<rparr>)"
      (is "_ = Inr ?w1") using in_loop_tasks(1) [OF loop0] by (auto simp: put_ios_def)
  have loop1: "in_loop ?ch chn ?i1 ?w1"
    using D c by (simp add: in_loop_def)
  from update_channel_form [OF loop1, of K] c obtain l2 k2 where
    t2: "update_channel_in_loop K ?s ?ch ?w1 = Inr (?w1\<lparr>kern := k2, log_out := l2\<rparr>)" (is "_ = Inr ?w2")
    and k2: "interest k2 = interest k1" "k2 = snd (sys_epoll_ctl K ?ep EPOLL_CTL_MOD ?f (Some (?m, ?ch)) k1)"
    using in_loop_tasks(2) [OF loop1] k1 by (auto simp: epoll_reliableD(1) [OF rel])
  obtain l3 where t3: "call_conn_cb (server_code K U) (cn_conn_cb cn) c ?w2 = Inr (?w2\<lparr>log_out := l3\<rparr>)" (is "_ = Inr ?w3")
    by (rule only_logsE [of c "call_conn_cb (server_code K U) (cn_conn_cb cn) c" ?w2])
      (use cb D(1) in \<open>auto simp: only_logs_server_code put_ios_def\<close>)
  let ?i2 = "?i1\<lparr>m_running_pending_tasks := False\<rparr>"
  have "run_pending_task (connection_dtor K) (server_task K U ?s) ?s w = Inr ((put_ios ?s ?i2 ?w3)\<lparr>refs := (refs w)(c := 1)\<rparr>)"
    using t1 t2 t3 sv(4) release_many [of "put_ios ?s ?i2 ?w3" c "connection_dtor K"]
    by (simp add: run_pending_task_unfold [OF D(4)] tasks server_task_def exec_task_def get_ios_def log_line_def put_ios_def)
  with k1 k2 add show ?thesis
    by (intro exI [of _ k2] exI [of _ "log_out ?w3"] exI [of _ ?i2]) (simp add: log_line_def put_ios_def)
qed


theorem new_conn_spec_witness:
  "\<exists>w' cn. on_new_conn ref_kernel sample_user 30 9 (endpoint_port lite_endian 50000) ((sample_srv_state 0 [])\<lparr>this_tid := 2\<rparr>) = Inr w' \<and>
     conns w' 100 = Some cn \<and> connected cn \<and> cn_socket cn = 9 \<and> refs w' 100 = 2 \<and>
     map_option (\<lambda>sv. ts_conn_map sv 9) (servers w' 30) = Some (Some 100) \<and>
     map_option m_pending_tasks (services w' 1) = Some [TAddChannel 101, TUpdateChannel 101, TConnCb (Some 1) 100]"
proof -
  let ?w = "(sample_srv_state 0 [])\<lparr>this_tid := 2\<rparr>"
  have "servers ?w 30 = Some sample_srv" "pool_ready (ts_service_pool sample_srv)" "ts_conn_map sample_srv 9 = None"
    "ts_conn_cb sample_srv = Some 1" "m_pending_tasks sample_conn_ios = []"
    "1 = sp_services (ts_service_pool sample_srv) ! (sp_service_index (ts_service_pool sample_srv) mod sp_size (ts_service_pool sample_srv))"
    "services ?w 1 = Some sample_conn_ios" "this_tid ?w \<noteq> m_owner_tid sample_conn_ios"
    "rs_counter (kern ?w) (m_wakeup_fd sample_conn_ios) < 2 ^ 64 - 1" "100 = next_addr ?w" "refs ?w 100 = 0"
    by (simp_all add: sample_srv_state_def sample_srv_def pool_ready_def size_mod_def sample_conn_simps sample_ios_simps)
  moreover have "rs_counter (snd (sys_setsockopt ref_kernel fd l opt val k)) = rs_counter k" for fd l opt val k
    by simp
  ultimately show ?thesis
    using new_conn_spec [OF ref_eventfd, of ?w 30 sample_srv 9 1 sample_conn_ios 100 sample_user "endpoint_port lite_endian 50000"] by auto
qed


end
