(* ===== verification/Echo.thy ===== *)
theory Echo
  imports Tcp_Server
begin

unbundle bit_operations_syntax

text \<open>
  \<^verbatim>\<open>example/echo.cpp\<close> and \<^verbatim>\<open>example/echo_mt.cpp\<close>: the callbacks of the two echo servers as code of
  the user, and how they set the server up. Properties: what a client sends comes back
  unchanged, and what the echo server logs at the end of a connection.
\<close>

section \<open>echo.cpp\<close>

definition echo_on_conn ::
  "ptr \<Rightarrow> ('k, 'm) conn_state_scheme \<Rightarrow> ('k, 'm) conn_state_scheme res" where
  "echo_on_conn c w =
     rbind (get_conn c w) (\<lambda>cn.
     Inr (log_line ll_info '' ***************** on_conn : connected = '' [if connected cn then 1 else 0] w))"

definition echo_on_msg_complete ::
  "ptr \<Rightarrow> sys_error \<Rightarrow> size_t \<Rightarrow> ('k, 'm) conn_state_scheme \<Rightarrow> ('k, 'm) conn_state_scheme res" where
  "echo_on_msg_complete c e bytes w =
     Inr (log_line ll_info '' ***************** on_msg_complete,bytes='' [int bytes] w)"

definition echo_on_err ::
  "ptr \<Rightarrow> sys_error \<Rightarrow> ('k, 'm) conn_state_scheme \<Rightarrow> ('k, 'm) conn_state_scheme res" where
  "echo_on_err c e w = Inr w"

text \<open>The callbacks other than the read callback, which calls \<open>write\<close> and thereby the write callback.\<close>

definition echo_base :: "('k, 'm) conn_state_scheme user_code" where
  "echo_base = \<lparr>uc_conn = (\<lambda>f. echo_on_conn), uc_read = (\<lambda>f c e w. Inl BadFunctionCall),
     uc_write = (\<lambda>f. echo_on_msg_complete), uc_err = (\<lambda>f. echo_on_err),
     uc_close = (\<lambda>v c w. Inl BadFunctionCall), uc_task = (\<lambda>n w. Inl BadFunctionCall)\<rparr>"

definition echo_back ::
  "'k kernel \<Rightarrow> ('k, 'm) conn_state_scheme user_code \<Rightarrow> ptr \<Rightarrow>
     ('k, 'm) conn_state_scheme \<Rightarrow> ('k, 'm) conn_state_scheme res" where
  "echo_back K U c w =
     rbind (get_conn c w) (\<lambda>cn.
     rbind (readable_bytes (read_buffer cn)) (\<lambda>n.
     rbind (conn_write K U c \<lparr>nb_ptr = ReadCache c (rd_ptr (read_buffer cn)), nb_size = n\<rparr> w) (\<lambda>w1.
     rbind (get_conn c w1) (\<lambda>cn1.
     Inr (put_conn c (cn1\<lparr>cn_read_cache := discard_all (read_buffer cn1)\<rparr>) w1)))))"

definition echo_on_msg ::
  "'k kernel \<Rightarrow> ptr \<Rightarrow> sys_error \<Rightarrow> ('k, 'm) conn_state_scheme \<Rightarrow> ('k, 'm) conn_state_scheme res" where
  "echo_on_msg K c e w = echo_back K echo_base c (log_line ll_info '' ***************** on_msg'' [] w)"

definition echo_code :: "'k kernel \<Rightarrow> ('k, 'm) conn_state_scheme user_code" where
  "echo_code K = echo_base\<lparr>uc_read := (\<lambda>f. echo_on_msg K)\<rparr>"

text \<open>\<open>main\<close> up to \<open>ios.run()\<close>; the callbacks have the numbers 1 to 4, the pool one thread.\<close>

definition echo_set_callbacks :: "tcp_server \<Rightarrow> tcp_server" where
  "echo_set_callbacks sv =
     srv_set_error_callback 4 (srv_set_write_callback 3 (srv_set_read_callback 2 (srv_set_conn_callback 1 sv)))"

definition echo_main ::
  "byteorder_t \<Rightarrow> (string \<Rightarrow> 32 word option) \<Rightarrow> 32 word \<Rightarrow> 'k kernel \<Rightarrow> nat list \<Rightarrow> 'k srv_state \<Rightarrow>
     (ptr \<times> ptr \<times> 'k srv_state) res" where
  "echo_main h inet_pton junk K tids w =
     rbind (io_service_new K w) (\<lambda>(ios, w1).
     rbind (tcp_server_new h inet_pton junk K '''' 4001 ios 1 w1) (\<lambda>(serv, w2).
     let w3 = log_line ll_info '' : '' [4001] (log_line ll_info '' runing '' [] w2)
     in rbind (get_srv serv w3) (\<lambda>sv.
        rbind (server_ready K tids serv (put_srv serv (echo_set_callbacks sv) w3)) (\<lambda>w4. Inr (ios, serv, w4)))))"

section \<open>echo\_mt.cpp\<close>

definition mt_on_conn ::
  "ptr \<Rightarrow> ('k, 'm) conn_state_scheme \<Rightarrow> ('k, 'm) conn_state_scheme res" where
  "mt_on_conn c w = Inr w"

definition mt_on_msg_complete ::
  "'k kernel \<Rightarrow> ptr \<Rightarrow> sys_error \<Rightarrow> size_t \<Rightarrow> ('k, 'm) conn_state_scheme \<Rightarrow> ('k, 'm) conn_state_scheme res" where
  "mt_on_msg_complete K c err bytes w = (if sys_error_bool err then conn_shutdown K c w else Inr w)"

definition mt_on_err ::
  "'k kernel \<Rightarrow> ptr \<Rightarrow> sys_error \<Rightarrow> ('k, 'm) conn_state_scheme \<Rightarrow> ('k, 'm) conn_state_scheme res" where
  "mt_on_err K c err w = conn_shutdown K c w"

definition mt_base :: "'k kernel \<Rightarrow> ('k, 'm) conn_state_scheme user_code" where
  "mt_base K = \<lparr>uc_conn = (\<lambda>f. mt_on_conn), uc_read = (\<lambda>f c e w. Inl BadFunctionCall),
     uc_write = (\<lambda>f. mt_on_msg_complete K), uc_err = (\<lambda>f. mt_on_err K),
     uc_close = (\<lambda>v c w. Inl BadFunctionCall), uc_task = (\<lambda>n w. Inl BadFunctionCall)\<rparr>"

definition mt_on_msg ::
  "'k kernel \<Rightarrow> ptr \<Rightarrow> sys_error \<Rightarrow> ('k, 'm) conn_state_scheme \<Rightarrow> ('k, 'm) conn_state_scheme res" where
  "mt_on_msg K c err w =
     (if sys_error_bool err then
        rbind (conn_shutdown K c w) (\<lambda>w1.
        rbind (err_what err) (\<lambda>msg.
        Inr (log_line ll_info ('' get sys_error on read : err-code ='' @ '',err msg = '' @ msg) [err_code err] w1)))
      else echo_back K (mt_base K) c w)"

definition mt_code :: "'k kernel \<Rightarrow> ('k, 'm) conn_state_scheme user_code" where
  "mt_code K = (mt_base K)\<lparr>uc_read := (\<lambda>f. mt_on_msg K)\<rparr>"

text \<open>
  \<open>run_srv\<close> runs in a thread of its own, here up to its wait for \<open>g_counter\<close>, which nobody
  decrements. \<open>main\<close> up to the loop, when the new thread \<open>r\<close> gets to its wait before \<open>main\<close> goes on.
\<close>

definition mt_run_srv ::
  "byteorder_t \<Rightarrow> (string \<Rightarrow> 32 word option) \<Rightarrow> 32 word \<Rightarrow> 'k kernel \<Rightarrow> nat list \<Rightarrow> string \<Rightarrow> 16 word \<Rightarrow> ptr \<Rightarrow>
     'k srv_state \<Rightarrow> (ptr \<times> 'k srv_state) res" where
  "mt_run_srv h inet_pton junk K tids ip port ios w =
     rbind (tcp_server_new h inet_pton junk K ip port ios 2 w) (\<lambda>(serv, w1).
     rbind (get_srv serv w1) (\<lambda>sv.
     rbind (server_ready K tids serv (put_srv serv (echo_set_callbacks sv) w1)) (\<lambda>w2.
     Inr (serv, log_line ll_info ''####################### thread wait for exit ####################### '' [] w2))))"

definition mt_main ::
  "byteorder_t \<Rightarrow> (string \<Rightarrow> 32 word option) \<Rightarrow> 32 word \<Rightarrow> 'k kernel \<Rightarrow> nat \<Rightarrow> nat list \<Rightarrow> 'k srv_state \<Rightarrow>
     (ptr \<times> ptr \<times> 'k srv_state) res" where
  "mt_main h inet_pton junk K r tids w =
     rbind (io_service_new K w) (\<lambda>(ios, w1).
     let w2 = log_line ll_info '' : '' [4001] (log_line ll_info '' going to run '' [] w1)
     in rbind (mt_run_srv h inet_pton junk K tids '''' 4001 ios (w2\<lparr>this_tid := r\<rparr>)) (\<lambda>(serv, w3).
        Inr (ios, serv, log_line ll_info '' running '' [] (w3\<lparr>this_tid := this_tid w\<rparr>))))"

section \<open>Echoing\<close>

text \<open>The write callback of both servers on success leaves everything but the log.\<close>

lemma read_own_cache:
  assumes "conns w c = Some cn" and "buf_inv (cn_read_cache cn)"
  shows "read_mem (ReadCache c (rd_ptr (cn_read_cache cn))) (length (contents (cn_read_cache cn))) w =
    Inr (contents (cn_read_cache cn))"
  using assms read_range_contents [OF assms(2)] length_contents [OF assms(2)]
  by (auto simp: get_conn_Some rd_ptr_def elim!: buf_invE)

text \<open>A write that the socket takes completely, with a write callback that only logs or does nothing.\<close>

lemma write_all_quiet:
  assumes loop: "conn_loop c cn chn i w" and data: "read_mem m len w = Inr data" "length data = len" "0 < len" "len < 2 ^ 31"
    and idle: "unsent c w = []" and room: "len \<le> room (cn_write_cache cn)"
    and send: "sys_send K (cn_socket cn) data (kern w) = ((int len, errno), k)"
    and cb: "\<And>v. \<exists>l. call_write_cb U (cn_write_cb cn) c (no_error (sys_strerror K)) len v = Inr (v\<lparr>log_out := l\<rparr>)"
  shows "\<exists>l. write_in_loop K U c m len w = Inr (w\<lparr>kern := k, log_out := l\<rparr>)"
proof -
  from cb [of "acquire c (w\<lparr>kern := k\<rparr>)"] obtain l where
    l: "call_write_cb U (cn_write_cb cn) c (no_error (sys_strerror K)) len (acquire c (w\<lparr>kern := k\<rparr>)) =
      Inr ((acquire c (w\<lparr>kern := k\<rparr>))\<lparr>log_out := l\<rparr>)" by blast
  have "write_in_loop K U c m len w = post_write_cb K U c (no_error (sys_strerror K)) len (w\<lparr>kern := k\<rparr>)"
    using socket_send_form [OF send] data idle by (simp add: write_in_loop_start [OF loop data(1)])
  also have "\<dots> = Inr (w\<lparr>kern := k, log_out := l\<rparr>)"
    using l conn_loopD(6) [OF loop] release_many [of "(acquire c (w\<lparr>kern := k\<rparr>))\<lparr>log_out := l\<rparr>" c "connection_dtor K"]
    by (simp add: post_write_cb_form [OF conn_loop_kern [OF loop]] acquire_def fun_upd_idem)
  finally show ?thesis by blast
qed

lemma echo_back_all:
  assumes loop: "conn_loop c cn chn i w" and n: "contents (cn_read_cache cn) = data" "data \<noteq> []" "length data < 2 ^ 31"
    and idle: "unsent c w = []" and room: "length data \<le> room (cn_write_cache cn)"
    and send: "sys_send K (cn_socket cn) data (kern w) = ((int (length data), errno), k)"
    and cb: "\<And>v. \<exists>l. call_write_cb U (cn_write_cb cn) c (no_error (sys_strerror K)) (length data) v = Inr (v\<lparr>log_out := l\<rparr>)"
  shows "\<exists>l. echo_back K U c w = Inr (w\<lparr>kern := k, log_out := l,
     conns := (conns w)(c \<mapsto> cn\<lparr>cn_read_cache := discard_all (cn_read_cache cn)\<rparr>)\<rparr>)"
proof -
  note D = conn_loopD [OF loop]
  from write_all_quiet [OF loop read_own_cache [OF D(1,8)], of K errno k U] n idle room send cb obtain l where
    l: "write_in_loop K U c (ReadCache c (rd_ptr (cn_read_cache cn))) (length data) w = Inr (w\<lparr>kern := k, log_out := l\<rparr>)"
    by auto
  then have "conn_write K U c \<lparr>nb_ptr = ReadCache c (rd_ptr (cn_read_cache cn)), nb_size = length data\<rparr> w =
      Inr (w\<lparr>kern := k, log_out := l\<rparr>)"
    using D by (simp add: conn_write_def get_conn_Some get_ios_Some check_this_loop_def)
  with D n show ?thesis
    by (intro exI [of _ l]) (simp add: echo_back_def get_conn_def read_buffer_def buf_simps put_conn_def)
qed

text \<open>The connection callbacks of both servers.\<close>

lemma echo_only_logs:
  assumes "U = echo_code K \<or> U = mt_code K"
  shows "only_logs c (call_conn_cb U (Some r) c)"
proof -
  have "\<exists>l. w = w\<lparr>log_out := l\<rparr>" for w :: "('k, 'm) conn_state_scheme"
    by (rule exI [of _ "log_out w"]) simp
  with assms show ?thesis
    by (auto simp: only_logs_def echo_code_def echo_base_def echo_on_conn_def get_conn_def log_line_def mt_code_def mt_base_def mt_on_conn_def)
qed

text \<open>The read callbacks of both servers on received bytes that the socket takes completely.\<close>

lemma read_cb_echoes:
  fixes w :: "('k, 'm) srv_state_scheme"
  assumes loop: "conn_loop c cn chn i w" and cb: "cn_write_cb cn = Some s"
    and data: "contents (cn_read_cache cn) = bytes" "bytes \<noteq> []" "length bytes < 2 ^ 31"
    and idle: "unsent c w = []" "length bytes \<le> room (cn_write_cache cn)"
    and send: "sys_send K (cn_socket cn) bytes (kern w) = ((int (length bytes), e), k)"
    and U: "U = echo_code K \<or> U = mt_code K"
  shows "\<exists>l. uc_read (server_code K U) r c (no_error (sys_strerror K)) w = Inr (w\<lparr>kern := k, log_out := l,
     conns := (conns w)(c \<mapsto> cn\<lparr>cn_read_cache := discard_all (cn_read_cache cn)\<rparr>)\<rparr>)"
proof (cases "U = echo_code K")
  case True
  let ?w = "log_line ll_info '' ***************** on_msg'' [] w"
  have "conn_loop c cn chn i ?w" "unsent c ?w = []" "kern ?w = kern w"
    using loop idle by (auto simp: conn_loop_def in_loop_def unsent_def)
  moreover have "\<exists>l. call_write_cb echo_base (cn_write_cb cn) c (no_error (sys_strerror K)) (length bytes) v = Inr (v\<lparr>log_out := l\<rparr>)"
    for v :: "('k, 'm) srv_state_scheme"
    using cb by (auto simp: echo_base_def echo_on_msg_complete_def log_line_def)
  ultimately have "\<exists>l. echo_back K echo_base c ?w = Inr (?w\<lparr>kern := k, log_out := l,
      conns := (conns ?w)(c \<mapsto> cn\<lparr>cn_read_cache := discard_all (cn_read_cache cn)\<rparr>)\<rparr>)"
    using data idle(2) send by (intro echo_back_all) simp_all
  with True show ?thesis
    by (simp add: server_code_def echo_code_def echo_on_msg_def log_line_def)
next
  case False
  have ok: "\<not> sys_error_bool (no_error (sys_strerror K))"
    by (simp add: sys_error_bool_def no_error_def sys_error_new_def)
  have "\<exists>l. call_write_cb (mt_base K) (cn_write_cb cn) c (no_error (sys_strerror K)) (length bytes) v = Inr (v\<lparr>log_out := l\<rparr>)"
    for v :: "('k, 'm) srv_state_scheme"
    using ok cb by (intro exI [of _ "log_out v"]) (simp add: mt_base_def mt_on_msg_complete_def)
  with loop data idle send have "\<exists>l. echo_back K (mt_base K) c w = Inr (w\<lparr>kern := k, log_out := l,
      conns := (conns w)(c \<mapsto> cn\<lparr>cn_read_cache := discard_all (cn_read_cache cn)\<rparr>)\<rparr>)"
    by (intro echo_back_all) simp_all
  with U False ok show ?thesis
    by (simp add: server_code_def mt_code_def mt_on_msg_def)
qed

lemma handle_read_echoes:
  fixes w :: "('k, 'm) srv_state_scheme"
  assumes loop: "conn_loop c cn chn i w" and cbs: "cn_read_cb cn = Some r" "cn_write_cb cn = Some s"
    and empty: "contents (cn_read_cache cn) = []" "unsent c w = []"
    and room: "max_readbytes_once \<le> room (cn_read_cache cn)" "max_readbytes_once \<le> room (cn_write_cache cn)"
    and recv: "sys_recv K (cn_socket cn) max_readbytes_once (kern w) = ((int (length bytes), e1, bytes), k1)"
      "bytes \<noteq> []" "length bytes \<le> max_readbytes_once"
    and send: "sys_send K (cn_socket cn) bytes k1 = ((int (length bytes), e2), k2)"
    and U: "U = echo_code K \<or> U = mt_code K"
  shows "\<exists>l b. handle_read K (server_code K U) c w =
     Inr (w\<lparr>kern := k2, log_out := l, conns := (conns w)(c \<mapsto> cn\<lparr>cn_read_cache := b\<rparr>)\<rparr>) \<and>
     buf_inv b \<and> contents b = [] \<and> room b = vec_max_size - m_resver_index"
proof -
  let ?U = "server_code K U"
  have "recv_result max_readbytes_once (int (length bytes)) bytes" "int (length bytes) \<noteq> 0" "0 < int (length bytes)"
    using recv by (simp_all add: recv_result_def)
  from handle_read_data [OF loop room(1) recv(1) this(1,2), of ?U] this(3) cbs obtain b where
    b: "buf_inv b" "contents b = bytes"
    and read: "handle_read K ?U c w = rbind (uc_read ?U r c (no_error (sys_strerror K))
          (acquire c (put_conn c (cn\<lparr>cn_read_cache := b\<rparr>) (w\<lparr>kern := k1\<rparr>)))) (release (connection_dtor K) c)"
    using empty by auto
  let ?cn = "cn\<lparr>cn_read_cache := b\<rparr>"
  let ?w1 = "acquire c (put_conn c ?cn (w\<lparr>kern := k1\<rparr>))"
  have "conn_loop c ?cn chn i ?w1" "unsent c ?w1 = []" "kern ?w1 = k1" "length bytes < 2 ^ 31"
    using loop b empty(2) recv(3)
    by (auto simp: conn_loop_def in_loop_def unsent_def put_conn_def acquire_def max_readbytes_once_def)
  from read_cb_echoes [OF this(1), of s bytes K e2 k2 U r] this(2-) b recv(2,3) room(2) send cbs U obtain l where
    l: "uc_read ?U r c (no_error (sys_strerror K)) ?w1 = Inr (?w1\<lparr>kern := k2, log_out := l,
       conns := (conns w)(c \<mapsto> cn\<lparr>cn_read_cache := discard_all b\<rparr>)\<rparr>)" (is "_ = Inr ?w2") by auto
  have "release (connection_dtor K) c ?w2 =
      Inr (w\<lparr>kern := k2, log_out := l, conns := (conns w)(c \<mapsto> cn\<lparr>cn_read_cache := discard_all b\<rparr>)\<rparr>)"
    using release_many [of ?w2 c "connection_dtor K"] conn_loopD(6) [OF loop]
    by (simp add: acquire_def put_conn_def fun_upd_idem)
  with read l show ?thesis
    using discard_all_ok [OF b(1)] by (intro exI [of _ l] exI [of _ "discard_all b"]) (simp add: discard_all_def room_def)
qed

text \<open>
  C17. Both echo servers, on a connection with empty buffers: when bytes arrive and the socket takes
  as many, exactly these bytes are sent back in one \<open>send\<close> after the \<open>recv\<close>, and both buffers
  are empty again; nothing but the read buffer, the log and the system changes.
\<close>

theorem echo_returns_bytes:
  fixes w :: "('k, 'm) srv_state_scheme"
  assumes loop: "conn_loop c cn chn i w" and cbs: "cn_read_cb cn = Some r" "cn_write_cb cn = Some s"
    and empty: "contents (cn_read_cache cn) = []" "unsent c w = []"
    and room: "max_readbytes_once \<le> room (cn_read_cache cn)" "max_readbytes_once \<le> room (cn_write_cache cn)"
    and recv: "sys_recv K (cn_socket cn) max_readbytes_once (kern w) = ((int (length bytes), e1, bytes), k1)"
      "bytes \<noteq> []" "length bytes \<le> max_readbytes_once"
    and send: "sys_send K (cn_socket cn) bytes k1 = ((int (length bytes), e2), k2)"
    and U: "U = echo_code K \<or> U = mt_code K"
  shows "\<exists>l b. handle_read K (server_code K U) c w =
     Inr (w\<lparr>kern := k2, log_out := l, conns := (conns w)(c \<mapsto> cn\<lparr>cn_read_cache := b\<rparr>)\<rparr>) \<and>
     buf_inv b \<and> contents b = []"
  using handle_read_echoes [OF assms] by blast

theorem echo_returns_bytes_witness:
  "let w = (sample_srv_state EPOLLIN [])\<lparr>kern := (kern (sample_srv_state EPOLLIN []))\<lparr>rs_inbox := [72, 105], rs_send_result := (2, 0)\<rparr>\<rparr> in
   \<exists>w'. handle_read ref_kernel (server_code ref_kernel (echo_code ref_kernel)) 20 w = Inr w' \<and>
     rs_sent (kern w') = [(7, [72, 105])] \<and> rs_inbox (kern w') = []"
proof -
  let ?k = "(kern (sample_srv_state EPOLLIN []))\<lparr>rs_inbox := [72, 105], rs_send_result := (2, 0)\<rparr>"
  let ?w = "(sample_srv_state EPOLLIN [])\<lparr>kern := ?k\<rparr>"
  have loop: "conn_loop 20 (sample_conn []) (save_evt_status EPOLLIN sample_conn_chan) sample_conn_ios ?w"
    using sample_served [of EPOLLIN "[]"] by (simp add: served_def conn_loop_kern)
  have "cn_read_cb (sample_conn []) = Some 2" "cn_write_cb (sample_conn []) = Some 3"
    "contents (cn_read_cache (sample_conn [])) = []" "max_readbytes_once \<le> room (cn_read_cache (sample_conn []))"
    by (simp_all add: sample_conn_def max_readbytes_once_def)
  moreover have "unsent 20 ?w = []" "max_readbytes_once \<le> room (cn_write_cache (sample_conn []))"
    by (simp_all add: sample_srv_state_def sample_conn_def unsent_def contents_def room_def vec_max_size_def
        max_readbytes_once_def seg_def)
  moreover have "sys_recv ref_kernel (cn_socket (sample_conn [])) max_readbytes_once (kern ?w) =
      ((int (length [72, 105 :: byte]), 0, [72, 105]), ?k\<lparr>rs_inbox := []\<rparr>)"
    by (simp add: max_readbytes_once_def)
  moreover have "sys_send ref_kernel (cn_socket (sample_conn [])) [72, 105] (?k\<lparr>rs_inbox := []\<rparr>) =
      ((int (length [72, 105 :: byte]), 0), ?k\<lparr>rs_inbox := [], rs_sent := [(7, [72, 105])]\<rparr>)"
    by (simp add: sample_conn_simps sample_srv_state_def ref_init_def)
  moreover have "length [72, 105 :: byte] \<le> max_readbytes_once"
    by (simp add: max_readbytes_once_def)
  ultimately show ?thesis
    using echo_returns_bytes [OF loop, of 2 3 ref_kernel "[72, 105]" 0 _ 0 _ "echo_code ref_kernel"]
    unfolding Let_def by fastforce
qed

text \<open>
  When the peer of an echo connection closes its side, the connection callback is called
  twice: first as if the connection were established, then as disconnected. (The end of
  the connection is otherwise the same.) The lines are those that \<open>on_conn\<close> of
  \<^verbatim>\<open>echo.cpp\<close> and \<open>handle_close\<close> log.
\<close>

theorem peer_close_reported_twice:
  "\<exists>w'. handle_read ref_kernel (server_code ref_kernel (echo_code ref_kernel)) 20
      (acquire 20 (sample_srv_state EPOLLIN [])) = Inr w' \<and>
    log_out w' = [(ll_info, '' ***************** on_conn : connected = '', [1]), (ll_info, ''handle_close '', []),
      (ll_info, '' ***************** on_conn : connected = '', [0])]"
proof -
  let ?U = "server_code ref_kernel (echo_code ref_kernel)"
  let ?w = "acquire 20 (sample_srv_state EPOLLIN [])"
  have loop: "conn_loop 20 (sample_conn []) (save_evt_status EPOLLIN sample_conn_chan) sample_conn_ios ?w"
    using sample_served [of EPOLLIN "[]"] by (auto simp: served_def conn_loop_def in_loop_def)
  have room: "max_readbytes_once \<le> room (cn_read_cache (sample_conn []))"
    and r: "recv_result max_readbytes_once 0 []"
    and recv: "sys_recv ref_kernel (cn_socket (sample_conn [])) max_readbytes_once (kern ?w) = ((0, 0, []), kern ?w)"
    by (simp_all add: sample_conn_simps max_readbytes_once_def recv_result_def sample_srv_state_def)
  from handle_read_form [OF loop room recv r, of ?U] obtain b where
    b: "handle_read ref_kernel ?U 20 ?w = rbind (post_conn_cb ref_kernel ?U 20
       (put_conn 20 ((sample_conn [])\<lparr>cn_read_cache := b\<rparr>) (?w\<lparr>kern := kern ?w\<rparr>)))
       (\<lambda>w3. rbind (get_conn 20 w3) (\<lambda>cn3. run_task ref_kernel (cn_service cn3) (THandleClose 20) (handle_close ref_kernel ?U 20) w3))"
    by auto
  show ?thesis
    unfolding b
    by (simp add: post_conn_cb_def post_close_cb_def post_def get_conn_def put_conn_def sample_srv_state_def sample_srv_def sample_conn_def
        sample_conn_state_def sample_conn_chan_def sample_conn_ios_def sample_ios_simps save_evt_status_def shared_from_this_def
        acquire_def run_task_def get_ios_def put_ios_def check_this_loop_def server_code_def echo_code_def echo_base_def echo_on_conn_def
        connected_def release_def log_line_def handle_close_def set_conn_status_def enable_read_def enable_write_def get_chan_def put_chan_def
        update_channel_def update_channel_in_loop_def update_evt_code_def must_run_in_loop_def assert_channel_def find_channel_def
        kcall_unfold rs_epoll_ctl_def epoll_ops on_remove_conn_def conn_map_erase_def get_srv_def put_srv_def final_destory_def
        remove_from_service_def del_channel_def del_channel_in_loop_def poller_del_channel_def Let_def)
qed

end
