(* ===== verification/Loop_Safety.thy ===== *)
theory Loop_Safety
  imports Echo
begin

unbundle bit_operations_syntax

text \<open>
  What the event loop of a server keeps, whatever the system does: the handlers of the whole
  library leave every loop with its thread, its descriptors and its flag \<open>m_quit\<close>, and run in
  the thread they were called in. This is the contract \<open>loop_handlers\<close> of \<open>Io_Service\<close> for
  the functions of \<open>Tcp_Server\<close> and \<open>Echo\<close>.
\<close>

section \<open>The view\<close>

definition ios_ident :: "io_service \<Rightarrow> nat \<times> fd \<times> ptr \<times> bool" where
  "ios_ident i = (m_owner_tid i, m_wakeup_fd i, m_self_channel i, m_quit i)"

definition view :: "('k, 'm) ios_state_scheme \<Rightarrow> (ptr \<rightharpoonup> nat \<times> fd \<times> ptr \<times> bool) \<times> nat" where
  "view w = ((\<lambda>s. map_option ios_ident (services w s)), this_tid w)"

lemma view_same: "services w' = services w \<Longrightarrow> this_tid w' = this_tid w \<Longrightarrow> view w' = view w"
  by (simp add: view_def)

lemma view_upd:
  "services w s = Some i \<Longrightarrow> services w' = (services w)(s \<mapsto> j) \<Longrightarrow> this_tid w' = this_tid w \<Longrightarrow>
   ios_ident j = ios_ident i \<Longrightarrow> view w' = view w"
  by (auto simp: view_def)

lemma view_frame [simp]:
  "view (log_line l m a w) = view w" "view (acquire c w) = view w" "view (put_chan ch x1 w) = view w"
  "view (w\<lparr>kern := k\<rparr>) = view w" "view (w\<lparr>next_addr := n\<rparr>) = view w" "view (w\<lparr>chans := cs\<rparr>) = view w"
  "view (w\<lparr>refs := r\<rparr>) = view w" "view (must_run_in_loop i w) = view w" "view (assert_channel p x1 b w) = view w"
  by (simp_all add: view_def log_line_def acquire_def put_chan_def must_run_in_loop_def assert_channel_def Let_def)

lemma view_conn_frame [simp]:
  "view (put_conn c cn v) = view v" "view (v\<lparr>conns := cs\<rparr>) = view v"
  by (simp_all add: view_def put_conn_def)

lemma view_srv_frame [simp]:
  "view (put_srv s sv v) = view v" "view (put_acc a ac u) = view u"
  by (simp_all add: view_def put_srv_def put_acc_def)

section \<open>Channels and tasks\<close>

lemma poller_ops_view:
  "poller_add_channel K p ch w = Inr (p', w') \<Longrightarrow> view w' = view w"
  "poller_del_channel K p ch w = Inr (p', w') \<Longrightarrow> view w' = view w"
  "update_evt_code K p ch w = Inr (p', w') \<Longrightarrow> view w' = view w"
  by (auto simp: poller_add_channel_def poller_del_channel_def update_evt_code_def kcall_unfold res_simps
      Let_def split_beta split: if_splits)

lemma put_ios_view: "services w s = Some i \<Longrightarrow> ios_ident j = ios_ident i \<Longrightarrow> view (put_ios s j w) = view w"
  by (auto simp: view_def)

lemma put_poller_view:
  "services w s = Some i \<Longrightarrow> services w1 = services w \<and> refs w1 = refs w \<Longrightarrow> view w1 = view w \<Longrightarrow>
   view (put_ios s (i\<lparr>m_poller := p\<rparr>) w1) = view w"
  by (simp add: put_ios_view ios_ident_def)

lemma channel_in_loop_view:
  "add_channel_in_loop K s ch w = Inr w' \<Longrightarrow> view w' = view w"
  "del_channel_in_loop K s ch w = Inr w' \<Longrightarrow> view w' = view w"
  "update_channel_in_loop K s ch w = Inr w' \<Longrightarrow> view w' = view w"
proof -
  show "add_channel_in_loop K s ch w = Inr w' \<Longrightarrow> view w' = view w"
    using poller_ops_services(1) poller_ops_view(1)
    by (fastforce simp: add_channel_in_loop_def res_simps intro: put_poller_view)
  show "del_channel_in_loop K s ch w = Inr w' \<Longrightarrow> view w' = view w"
    using poller_ops_services(2) poller_ops_view(2)
    by (fastforce simp: del_channel_in_loop_def res_simps intro: put_poller_view)
  show "update_channel_in_loop K s ch w = Inr w' \<Longrightarrow> view w' = view w"
    using poller_ops_services(3) poller_ops_view(3)
    by (fastforce simp: update_channel_in_loop_def res_simps intro: put_poller_view)
qed

lemma queue_task_view: "queue_task K s t w = Inr w' \<Longrightarrow> view w' = view w"
  by (auto dest!: queue_task_effect intro!: view_upd simp: ios_ident_def)

lemma channel_ops_view:
  "add_channel K s ch w = Inr w' \<Longrightarrow> view w' = view w"
  "del_channel K s ch w = Inr w' \<Longrightarrow> view w' = view w"
  "update_channel K s ch w = Inr w' \<Longrightarrow> view w' = view w"
  by (auto simp: add_channel_def del_channel_def update_channel_def res_simps split: if_splits
      dest!: channel_in_loop_view queue_task_view)

lemma evt_channel_view:
  "join_to_service K ch w = Inr w' \<Longrightarrow> view w' = view w"
  "remove_from_service K ch w = Inr w' \<Longrightarrow> view w' = view w"
  "enable_read K ch b w = Inr w' \<Longrightarrow> view w' = view w"
  "enable_write K ch b w = Inr w' \<Longrightarrow> view w' = view w"
  "tie ch ob w = Inr w' \<Longrightarrow> view w' = view w"
  by (auto simp: join_to_service_def remove_from_service_def enable_read_def enable_write_def tie_def res_simps Let_def
      split: if_splits dest!: channel_ops_view)

lemma run_task_view:
  "run_task K s t f w = Inr w' \<Longrightarrow> (\<And>v v'. f v = Inr v' \<Longrightarrow> view v' = view v) \<Longrightarrow> view w' = view w"
  by (auto simp: run_task_def res_simps split: if_splits dest: queue_task_view)

section \<open>Connections\<close>

lemma socket_view:
  "socket_send K f data w = (r, w') \<Longrightarrow> view w' = view w"
  "socket_recv K f n w = (r', w') \<Longrightarrow> view w' = view w"
  "socket_retrieve_err K f w = (e, w') \<Longrightarrow> view w' = view w"
  "view (socket_close K f w) = view w" "view (snd (socket_shutdown K f h w)) = view w"
  "view (snd (set_tcp_nodelay K f on w)) = view w" "view (snd (set_keepalive K f w)) = view w"
  by (auto simp: socket_send_def socket_recv_def socket_retrieve_err_def socket_close_def socket_shutdown_def
      set_tcp_nodelay_def set_keepalive_def kcall_unfold split_beta Let_def split: if_splits)

lemma connection_dtor_view: "connection_dtor K c w = Inr w' \<Longrightarrow> view w' = view w"
  by (auto simp: connection_dtor_def res_simps Let_def socket_view)

lemma release_view: "release (connection_dtor K) c w = Inr w' \<Longrightarrow> view w' = view w"
  by (auto simp: release_def Let_def split: nat.splits if_splits dest!: connection_dtor_view)

lemma post_view:
  "post K s c t f w = Inr w' \<Longrightarrow> (\<And>v v'. f v = Inr v' \<Longrightarrow> view v' = view v) \<Longrightarrow> view w' = view w"
  by (auto simp: post_def shared_from_this_def res_simps split: if_splits dest!: release_view run_task_view)

text \<open>Code of the user that keeps the view.\<close>

definition user_keeps :: "('k, 'm) conn_state_scheme user_code \<Rightarrow> bool" where
  "user_keeps U \<longleftrightarrow>
     (\<forall>f c w w'. uc_conn U f c w = Inr w' \<longrightarrow> view w' = view w) \<and>
     (\<forall>f c e w w'. uc_read U f c e w = Inr w' \<longrightarrow> view w' = view w) \<and>
     (\<forall>f c e n w w'. uc_write U f c e n w = Inr w' \<longrightarrow> view w' = view w) \<and>
     (\<forall>f c e w w'. uc_err U f c e w = Inr w' \<longrightarrow> view w' = view w) \<and>
     (\<forall>v c w w'. uc_close U v c w = Inr w' \<longrightarrow> view w' = view w) \<and>
     (\<forall>n w w'. uc_task U n w = Inr w' \<longrightarrow> view w' = view w)"

lemma call_cb_view:
  assumes "user_keeps U"
  shows "call_conn_cb U f c w = Inr w' \<Longrightarrow> view w' = view w" "call_read_cb U f c e w = Inr w' \<Longrightarrow> view w' = view w"
    "call_write_cb U f c e n w = Inr w' \<Longrightarrow> view w' = view w" "call_err_cb U f c e w = Inr w' \<Longrightarrow> view w' = view w"
    "call_close_cb U g c w = Inr w' \<Longrightarrow> view w' = view w"
  using assms by (cases f; cases g; auto simp: user_keeps_def)+

lemma post_cb_view:
  assumes "user_keeps U"
  shows "post_conn_cb K U c w = Inr w' \<Longrightarrow> view w' = view w" "post_close_cb K U c w = Inr w' \<Longrightarrow> view w' = view w"
    "post_read_cb K U c e w = Inr w' \<Longrightarrow> view w' = view w" "post_write_cb K U c e n w = Inr w' \<Longrightarrow> view w' = view w"
  using call_cb_view [OF assms]
  by (auto simp: post_conn_cb_def post_close_cb_def post_read_cb_def post_write_cb_def res_simps elim!: post_view)

lemma cache_view:
  "write_cache_append c data w = Inr w' \<Longrightarrow> view w' = view w"
  "write_cache_discard c n w = Inr w' \<Longrightarrow> view w' = view w"
  "set_conn_status c st w = Inr w' \<Longrightarrow> view w' = view w"
  by (auto simp: write_cache_append_def write_cache_discard_def set_conn_status_def res_simps)

lemma write_in_loop_view:
  assumes "user_keeps U" and "write_in_loop K U c m len w = Inr w'"
  shows "view w' = view w"
  using assms(2)
  by (auto simp: write_in_loop_def res_simps Let_def split: if_splits prod.splits
      dest!: post_cb_view(4) [OF assms(1)] cache_view(1) evt_channel_view(4) socket_view(1))

lemma shutdown_view:
  "shutdown_in_loop K c w = Inr w' \<Longrightarrow> view w' = view w"
  "conn_shutdown K c w = Inr w' \<Longrightarrow> view w' = view w"
proof -
  show in_loop: "shutdown_in_loop K c w = Inr w' \<Longrightarrow> view w' = view w" for w w'
    by (auto simp: shutdown_in_loop_def res_simps socket_view)
  show "conn_shutdown K c w = Inr w' \<Longrightarrow> view w' = view w"
    by (auto simp: conn_shutdown_def res_simps split: if_splits dest!: cache_view(3) in_loop run_task_view)
qed

lemma conn_write_view:
  assumes "user_keeps U" and "conn_write K U c d w = Inr w'"
  shows "view w' = view w"
  using assms(2) write_in_loop_view [OF assms(1)]
  by (auto simp: conn_write_def res_simps split: if_splits dest: run_task_view)

lemma handle_close_view:
  assumes "user_keeps U" and "handle_close K U c w = Inr w'"
  shows "view w' = view w"
  using assms(2)
  by (auto simp: handle_close_def res_simps dest!: post_cb_view(1,2) [OF assms(1)] evt_channel_view(3,4) cache_view(3))

lemma handle_read_view:
  assumes U: "user_keeps U" and run: "handle_read K U c w = Inr w'"
  shows "view w' = view w"
proof -
  obtain cn where cn: "conns w c = Some cn"
    using run by (auto simp: handle_read_def res_simps)
  obtain ret errno bytes w1 where recv: "socket_recv K (cn_socket cn) max_readbytes_once w = ((ret, errno, bytes), w1)"
    by (metis surj_pair)
  show ?thesis
    using run cn recv handle_close_view [OF U] socket_view(2) [OF recv]
    by (auto simp: handle_read_def get_conn_Some res_simps Let_def split: if_splits
        dest!: post_cb_view(1,3) [OF U] run_task_view)
qed

lemma handle_write_view:
  assumes U: "user_keeps U" and run: "handle_write K U c w = Inr w'"
  shows "view w' = view w"
proof -
  obtain cn n data where pre: "get_conn c w = Inr cn" "readable_bytes (cn_write_cache cn) = Inr n"
    "read_range (cn_write_cache cn) (rd_ptr (cn_write_cache cn)) (rd_ptr (cn_write_cache cn) + n) = Inr data"
    using run by (auto simp: handle_write_def res_simps)
  obtain ret errno w1 where send: "socket_send K (cn_socket cn) data w = ((ret, errno), w1)"
    by (metis surj_pair)
  show ?thesis
    using run pre send socket_view(1) [OF send]
    by (auto simp: handle_write_def res_simps Let_def split: if_splits
        dest!: post_cb_view(4) [OF U] cache_view(2) evt_channel_view(4))
qed

lemma handle_error_view:
  assumes U: "user_keeps U" and run: "handle_error K U c w = Inr w'"
  shows "view w' = view w"
proof -
  obtain cn where cn: "conns w c = Some cn"
    using run by (auto simp: handle_error_def res_simps)
  obtain code w1 where err: "socket_retrieve_err K (cn_socket cn) w = (code, w1)"
    by (metis surj_pair)
  show ?thesis
    using run cn err socket_view(3) [OF err] U
    by (cases "cn_err_cb cn")
      (auto simp: handle_error_def get_conn_Some res_simps Let_def user_keeps_def dest!: post_view)
qed

lemma conn_start_view:
  assumes "user_keeps U" and "conn_start K U c w = Inr w'"
  shows "view w' = view w"
  using assms(2)
  by (auto simp: conn_start_def res_simps shared_from_this_def split: if_splits
      dest!: post_cb_view(1) [OF assms(1)] evt_channel_view release_view cache_view(3))

section \<open>The server\<close>

lemma server_ops_view:
  "conn_map_put K v f c w = Inr w' \<Longrightarrow> view w' = view w"
  "conn_map_erase K v f w = Inr w' \<Longrightarrow> view w' = view w"
  "final_destory K c w1 = Inr w1' \<Longrightarrow> view w1' = view w1"
  by (auto simp: conn_map_put_def conn_map_erase_def final_destory_def res_simps Let_def split: option.splits
      dest!: release_view evt_channel_view(2))

lemma on_remove_conn_view: "on_remove_conn K v c w = Inr w' \<Longrightarrow> view w' = view w"
  by (auto simp: on_remove_conn_def res_simps dest!: server_ops_view release_view)

lemma connection_new_view: "connection_new K s f addr w = Inr (c, w') \<Longrightarrow> view w' = view w"
  by (auto simp: connection_new_def res_simps Let_def socket_view)

lemma on_new_conn_view:
  assumes "user_keeps U" and "on_new_conn K U v f addr w = Inr w'"
  shows "view w' = view w"
  using assms(2)
  by (auto simp: on_new_conn_def res_simps Let_def
      dest!: conn_start_view [OF assms(1)] connection_new_view server_ops_view release_view)

lemma acceptor_on_read_view:
  assumes "\<And>s f a v v'. C s f a v = Inr v' \<Longrightarrow> view v' = view v" and "acceptor_on_read h K C a w = Inr w'"
  shows "view w' = view w"
  using assms(2)
  by (cases "ac_accept_cb (projr (get_acc a w))")
    (auto simp: acceptor_on_read_def res_simps Let_def socket_accept_def kcall_unfold split_beta split: if_splits dest!: assms(1))

lemma server_code_keeps: "user_keeps U \<Longrightarrow> user_keeps (server_code K U)"
  by (auto simp: user_keeps_def server_code_def dest: on_remove_conn_view)

lemma server_task_view:
  assumes "user_keeps U" and "server_task K U s t w = Inr w'"
  shows "view w' = view w"
proof -
  have U: "user_keeps (server_code K U)" by (rule server_code_keeps [OF assms(1)])
  then show ?thesis
    using assms(2)
    by (cases t) (auto simp: server_task_def exec_task_def user_keeps_def
        dest: channel_in_loop_view handle_close_view [OF U] write_in_loop_view [OF U] shutdown_view call_cb_view [OF U])
qed

lemma server_functor_view:
  assumes "user_keeps U" and "server_functor h K U f w = Inr w'"
  shows "view w' = view w"
proof -
  have U: "user_keeps (server_code K U)" by (rule server_code_keeps [OF assms(1)])
  have "on_read K s w = Inr w' \<Longrightarrow> view w' = view w" for s
    by (auto simp: on_read_def res_simps kcall_unfold split_beta)
  moreover have "acceptor_on_read h K (on_new_conn K (server_code K U)) a w = Inr w' \<Longrightarrow> view w' = view w" for a
    by (rule acceptor_on_read_view [OF on_new_conn_view [OF U]])
  ultimately show ?thesis
    using assms(2)
    by (cases f) (auto simp: server_functor_def dest: handle_close_view [OF U] handle_read_view [OF U]
        handle_write_view [OF U] handle_error_view [OF U])
qed

lemma call_if_set_view:
  assumes "\<And>f v v'. F f v = Inr v' \<Longrightarrow> view v' = view v"
    and "(if b then call_if_set F cb w else Inr w) = Inr w'"
  shows "view w' = view w"
  using assms by (cases cb) (auto split: if_splits)

lemma do_process_work_view:
  assumes F: "\<And>f v v'. F f v = Inr v' \<Longrightarrow> view v' = view v" and run: "do_process_work F ch w = Inr w'"
  shows "view w' = view w"
proof -
  let ?e = "ch_last_evt_status :: evt_channel \<Rightarrow> 32 word"
  from run obtain c w1 c1 w2 c2 w3 c3 where
    1: "(if ?e c AND EPOLLHUP \<noteq> 0 \<and> ?e c AND EPOLLIN = 0 then call_if_set F (ch_close_callback c) w else Inr w) = Inr w1"
    and 2: "(if ?e c1 AND EPOLLERR \<noteq> 0 then call_if_set F (ch_error_callback c1) w1 else Inr w1) = Inr w2"
    and 3: "(if ?e c2 AND (EPOLLIN OR EPOLLPRI OR EPOLLRDHUP) \<noteq> 0 then call_if_set F (ch_read_callback c2) w2 else Inr w2) = Inr w3"
    and 4: "(if ?e c3 AND EPOLLOUT \<noteq> 0 then call_if_set F (ch_write_callback c3) (put_chan ch (c3\<lparr>ch_progress_in_write := False\<rparr>) w3)
       else Inr w3) = Inr w'"
    unfolding do_process_work_def rbind_eq_Inr by blast
  have "view w' = view w3"
    using 4 F by (cases "ch_write_callback c3") (auto split: if_splits)
  with call_if_set_view [OF F 1] call_if_set_view [OF F 2] call_if_set_view [OF F 3] show ?thesis by simp
qed

lemma server_work_view:
  assumes "user_keeps U" and "server_work h K U ch w = Inr w'"
  shows "view w' = view w"
  using assms(2) do_process_work_view [OF server_functor_view [OF assms(1)]]
  by (auto simp: server_work_def process_work_def res_simps split: if_splits option.splits dest!: release_view)

lemma wait_channel_view:
  assumes "wait_channel K s t w = Inr (act, w')"
  shows "view w' = view w"
proof -
  have c: "collect_events p n evts active v = Inr (act, v') \<Longrightarrow> view v' = view v" for p n evts active and v v' :: "('a, 'b) ios_state_scheme"
    by (induction p n evts active v rule: collect_events.induct) (auto simp: res_simps Let_def)
  show ?thesis
    using assms
    by (auto simp: wait_channel_def wait_for_evt_def res_simps kcall_unfold split_beta Let_def split: if_splits dest!: c)
qed

section \<open>The echo servers\<close>

lemma echo_base_keeps: "user_keeps echo_base"
  by (auto simp: user_keeps_def echo_base_def echo_on_conn_def echo_on_msg_complete_def echo_on_err_def res_simps)

lemma mt_base_keeps: "user_keeps (mt_base K)"
  by (auto simp: user_keeps_def mt_base_def mt_on_conn_def mt_on_msg_complete_def mt_on_err_def
      split: if_splits dest: shutdown_view)

lemma echo_back_view:
  assumes "user_keeps U" and "echo_back K U c w = Inr w'"
  shows "view w' = view w"
  using assms(2) by (auto simp: echo_back_def res_simps dest!: conn_write_view [OF assms(1)])

lemma user_keeps_read:
  "user_keeps U \<Longrightarrow> (\<And>f c e w w'. g f c e w = Inr w' \<Longrightarrow> view w' = view w) \<Longrightarrow> user_keeps (U\<lparr>uc_read := g\<rparr>)"
  by (simp add: user_keeps_def)

lemma echo_keeps: "user_keeps (echo_code K)" "user_keeps (mt_code K)"
  unfolding echo_code_def mt_code_def
  by (rule user_keeps_read [OF echo_base_keeps] user_keeps_read [OF mt_base_keeps];
      auto simp: echo_on_msg_def mt_on_msg_def res_simps split: if_splits
        dest!: echo_back_view [OF echo_base_keeps] echo_back_view [OF mt_base_keeps] shutdown_view)+

lemma queue_view: "services w s = Some i \<Longrightarrow> view (put_ios s (i\<lparr>m_running_pending_tasks := b, m_pending_tasks := ts\<rparr>) w) = view w"
  by (simp add: put_ios_view ios_ident_def)

interpretation echo_loop: loop_handlers "\<lambda>w. view w = V" K "connection_dtor K" "server_task K (echo_code K) s"
  "server_work h K (echo_code K)" s for V K h s
  by unfold_locales (auto simp: queue_view dest: wait_channel_view server_work_view [OF echo_keeps(1)]
      server_task_view [OF echo_keeps(1)] release_view)

interpretation mt_loop: loop_handlers "\<lambda>w. view w = V" K "connection_dtor K" "server_task K (mt_code K) s"
  "server_work h K (mt_code K)" s for V K h s
  by unfold_locales (auto simp: queue_view dest: wait_channel_view server_work_view [OF echo_keeps(2)]
      server_task_view [OF echo_keeps(2)] release_view)

lemma loop_never_returns:
  assumes U: "U = echo_code K \<or> U = mt_code K" and i: "services w s = Some i" "\<not> m_quit i"
  shows "server_run n h K U s w = None \<or> (\<exists>e. server_run n h K U s w = Some (Inl e))"
proof (rule ccontr)
  assume "\<not> ?thesis"
  then obtain w' where "server_run n h K U s w = Some (Inr w')" by (metis not_None_eq old.sum.exhaust)
  then have w': "run n K (connection_dtor K) (server_task K U s) (server_work h K U) s w = Some (Inr w')"
    by (simp add: server_run_def)
  then have "view w' = view w"
    using U echo_loop.run_keeps [of w "view w"] mt_loop.run_keeps [of w "view w"] by blast
  then have "map_option ios_ident (services w' s) = map_option ios_ident (services w s)"
    unfolding view_def by (metis fst_conv)
  with run_result_quit [OF w'] i show False
    by (auto simp: ios_ident_def)
qed

text \<open>
  C23. The loop of either echo server, on any system and for any connections, events and tasks:
  through any number of rounds every loop of the program keeps its thread, its wake-up
  descriptor, its own channel and its flag, and the code runs in the thread of the loop; so
  a loop that has not been told to quit does not return, unless by a failure.
\<close>

theorem echo_loop_runs_on:
  assumes U: "U = echo_code K \<or> U = mt_code K" and i: "services w s = Some i" "\<not> m_quit i"
  shows "(\<forall>m w'. rounds m K (connection_dtor K) (server_task K U s) (server_work h K U) s w = Inr w' \<longrightarrow>
      view w' = view w) \<and>
    (server_run n h K U s w = None \<or> (\<exists>e. server_run n h K U s w = Some (Inl e)))"
proof -
  have keep: "view w' = view w" if "rounds m K (connection_dtor K) (server_task K U s) (server_work h K U) s w = Inr w'" for m w'
    using U that echo_loop.rounds_keep [of w "view w"] mt_loop.rounds_keep [of w "view w"] by blast
  then show ?thesis
    using keep loop_never_returns [OF assms, of n h] by blast
qed

theorem echo_loop_runs_on_witness:
  "server_run 1 lite_endian ref_kernel (echo_code ref_kernel) 1 (sample_srv_state EPOLLHUP []) = None \<or>
   (\<exists>e. server_run 1 lite_endian ref_kernel (echo_code ref_kernel) 1 (sample_srv_state EPOLLHUP []) = Some (Inl e))"
proof -
  have "services (sample_srv_state EPOLLHUP []) 1 = Some sample_conn_ios" "\<not> m_quit sample_conn_ios"
    by (simp_all add: sample_srv_state_def sample_conn_ios_def sample_ios_def)
  with echo_loop_runs_on [of "echo_code ref_kernel" ref_kernel "sample_srv_state EPOLLHUP []" 1 sample_conn_ios lite_endian 1]
  show ?thesis by blast
qed

end
