(* ===== verification/Server_Start.thy ===== *)
theory Server_Start
  imports Loop_Safety
begin

unbundle bit_operations_syntax

text \<open>
  The start of the echo servers: \<open>main\<close> of \<^verbatim>\<open>echo.cpp\<close> with the constructor of \<open>tcp_server\<close> and
  \<open>ready\<close>, composed from the construction of the loops (\<open>Evt_Channel\<close>), the acceptor
  (\<open>Acceptor\<close>) and the pool (\<open>Service_Pool\<close>), on an operating system that hands out descriptors
  as the manual says. Properties: when \<open>main\<close> reaches the loop, the listening descriptor is
  subscribed in it, the loops of the pool belong to their threads, and nothing disturbs them.
\<close>

section \<open>Descriptors\<close>

text \<open>
  The manual on descriptors, for a process below its limits: \<open>used\<close> are the descriptors in use, a
  new one is none of them, and making one does not touch an interest set. The other calls open
  and close nothing.
\<close>

definition descriptors_documented :: "'k kernel \<Rightarrow> ('k \<Rightarrow> fd \<Rightarrow> fd \<rightharpoonup> epoll_event) \<Rightarrow> ('k \<Rightarrow> fd set) \<Rightarrow> bool" where
  "descriptors_documented K interest used \<longleftrightarrow>
     (\<forall>k. \<forall>call \<in> {sys_epoll_create K, sys_eventfd K, sys_socket K}. 0 \<in> used k \<longrightarrow>
        (let ((f, _), k') = call k
         in 0 \<le> f \<and> f \<notin> used k \<and> used k' = insert f (used k) \<and> interest k' = interest k)) \<and>
     (\<forall>ep oper f x k. used (snd (sys_epoll_ctl K ep oper f x k)) = used k) \<and>
     (\<forall>f a k. used (snd (sys_bind K f a k)) = used k) \<and>
     (\<forall>f n k. used (snd (sys_listen K f n k)) = used k) \<and>
     (\<forall>f l n x k. used (snd (sys_setsockopt K f l n x k)) = used k) \<and>
     (\<forall>f x k. used (snd (sys_write64 K f x k)) = used k \<and> interest (snd (sys_write64 K f x k)) = interest k)"

text \<open>The standard input is open, and only descriptors in use are in interest sets.\<close>

definition fds_ok :: "('k \<Rightarrow> fd \<Rightarrow> fd \<rightharpoonup> epoll_event) \<Rightarrow> ('k \<Rightarrow> fd set) \<Rightarrow> 'k \<Rightarrow> bool" where
  "fds_ok interest used k \<longleftrightarrow> 0 \<in> used k \<and> (\<forall>ep f. interest k ep f \<noteq> None \<longrightarrow> ep \<in> used k \<and> f \<in> used k)"

lemma fds_ok_fresh:
  assumes "fds_ok interest used k"
  shows "f \<notin> used k \<Longrightarrow> interest k f = Map.empty" and "f \<notin> used k \<Longrightarrow> interest k ep f = None"
proof -
  have *: "f \<notin> used k \<Longrightarrow> interest k f g = None" for g
    using assms unfolding fds_ok_def by blast
  show "f \<notin> used k \<Longrightarrow> interest k f = Map.empty"
    using * by (intro ext) simp
  show "f \<notin> used k \<Longrightarrow> interest k ep f = None"
    using assms unfolding fds_ok_def by blast
qed

lemma new_descriptor:
  assumes doc: "descriptors_documented K interest used" and ok: "fds_ok interest used k"
    and call: "call \<in> {sys_epoll_create K, sys_eventfd K, sys_socket K}"
  obtains f e k' where "call k = ((f, e), k')" "0 < f" "f \<notin> used k" "used k' = insert f (used k)"
    "interest k' = interest k" "fds_ok interest used k'"
proof -
  obtain f e k' where k': "call k = ((f, e), k')" by (metis surj_pair)
  with doc call ok have f: "0 \<le> f" "f \<notin> used k" "used k' = insert f (used k)" "interest k' = interest k"
    unfolding descriptors_documented_def fds_ok_def by fastforce+
  moreover have "f \<noteq> 0" using f(2) ok by (auto simp: fds_ok_def)
  moreover have "fds_ok interest used k'" using f ok by (auto simp: fds_ok_def)
  ultimately show thesis using that k' by force
qed

lemma fds_ok_register:
  assumes "fds_ok interest used k" and "used k' = used k" and "ep \<in> used k" and "f \<in> used k"
    and "interest k' = (interest k)(ep := (interest k ep)(f := x))"
  shows "fds_ok interest used k'"
  using assms by (auto simp: fds_ok_def split: if_splits)

section \<open>A new loop\<close>

definition read_mask :: "32 word" where
  "read_mask = EPOLLIN OR EPOLLHUP OR EPOLLPRI"

text \<open>A loop as its constructor leaves it: owned by the thread, with its wake-up descriptor subscribed and nothing else.\<close>

definition loop_started ::
  "('k \<Rightarrow> fd \<Rightarrow> fd \<rightharpoonup> epoll_event) \<Rightarrow> nat \<Rightarrow> ptr \<Rightarrow> ('k, 'm) ios_state_scheme \<Rightarrow> bool" where
  "loop_started interest tid s w \<longleftrightarrow> (\<exists>ep f. services w s = Some (new_loop tid ep f (s + 1)) \<and>
     chans w (s + 1) = Some (loop_channel f s) \<and> interest (kern w) ep = [f \<mapsto> (read_mask, s + 1)])"

text \<open>What happened since: new objects and descriptors only.\<close>

definition grown ::
  "('k \<Rightarrow> fd \<Rightarrow> fd \<rightharpoonup> epoll_event) \<Rightarrow> ('k \<Rightarrow> fd set) \<Rightarrow> ('k, 'm) ios_state_scheme \<Rightarrow> ('k, 'm) ios_state_scheme \<Rightarrow> bool" where
  "grown interest used w w' \<longleftrightarrow> next_addr w \<le> next_addr w' \<and> this_tid w' = this_tid w \<and> refs w' = refs w \<and>
     ios_state.more w' = ios_state.more w \<and>
     (\<forall>a < next_addr w. services w' a = services w a \<and> chans w' a = chans w a) \<and>
     (\<forall>a \<ge> next_addr w'. chans w' a = chans w a) \<and>
     used (kern w) \<subseteq> used (kern w') \<and> (\<forall>ep \<in> used (kern w). interest (kern w') ep = interest (kern w) ep) \<and>
     fds_ok interest used (kern w')"

lemma grown_refl: "fds_ok interest used (kern w) \<Longrightarrow> grown interest used w w"
  by (simp add: grown_def)

lemma grown_trans: "grown interest used w w1 \<Longrightarrow> grown interest used w1 w2 \<Longrightarrow> grown interest used w w2"
  unfolding grown_def by (auto simp: subset_iff)

lemma grown_ok: "grown interest used w w' \<Longrightarrow> fds_ok interest used (kern w')"
  by (simp add: grown_def)

text \<open>No pointer to an object of the heap was copied, and no channel is at an address that is still free.\<close>

definition only_new :: "('k, 'm) ios_state_scheme \<Rightarrow> ('k, 'm) ios_state_scheme \<Rightarrow> bool" where
  "only_new w w' \<longleftrightarrow> next_addr w \<le> next_addr w' \<and> refs w' = refs w \<and> (\<forall>a \<ge> next_addr w'. chans w' a = chans w a)"

lemma only_new_trans: "only_new w w1 \<Longrightarrow> only_new w1 w2 \<Longrightarrow> only_new w w2"
  by (auto simp: only_new_def)

lemma grown_only_new: "grown interest used w w' \<Longrightarrow> only_new w w'"
  by (simp add: grown_def only_new_def)

lemma loop_started_grown:
  assumes "loop_started interest tid s w" and "fds_ok interest used (kern w)" and "grown interest used w w'" and "s + 1 < next_addr w"
  shows "loop_started interest tid s w'"
proof -
  from assms(1) obtain ep f where l: "services w s = Some (new_loop tid ep f (s + 1))"
    "chans w (s + 1) = Some (loop_channel f s)" "interest (kern w) ep = [f \<mapsto> (read_mask, s + 1)]"
    by (auto simp: loop_started_def)
  then have "interest (kern w) ep f \<noteq> None" by simp
  then have "ep \<in> used (kern w)" using assms(2) unfolding fds_ok_def by blast
  with l assms(3,4) show ?thesis
    unfolding loop_started_def grown_def by (intro exI [of _ ep] exI [of _ f]) auto
qed

lemma io_service_new_ok:
  assumes rel: "epoll_reliable K interest" and doc: "descriptors_documented K interest used"
    and ok: "fds_ok interest used (kern w)" and s: "s = next_addr w"
  shows "\<exists>ep f k l. io_service_new K w = Inr (s, w\<lparr>next_addr := s + 2, kern := k, log_out := l,
       services := (services w)(s \<mapsto> new_loop (this_tid w) ep f (s + 1)), chans := (chans w)(s + 1 \<mapsto> loop_channel f s)\<rparr>) \<and>
     ep \<notin> used (kern w) \<and> f \<notin> used (kern w) \<and> ep \<noteq> f \<and> used k = {ep, f} \<union> used (kern w) \<and>
     interest k = (interest (kern w))(ep := [f \<mapsto> (read_mask, s + 1)]) \<and> fds_ok interest used k"
proof -
  obtain ep e1 k1 where 1: "sys_epoll_create K (kern w) = ((ep, e1), k1)" "0 < ep" "ep \<notin> used (kern w)"
    "used k1 = insert ep (used (kern w))" "interest k1 = interest (kern w)" "fds_ok interest used k1"
    using new_descriptor [OF doc ok, of "sys_epoll_create K"] by blast
  obtain f e2 k2 where 2: "sys_eventfd K k1 = ((f, e2), k2)" "0 < f" "f \<notin> used k1"
    "used k2 = insert f (used k1)" "interest k2 = interest k1" "fds_ok interest used k2"
    using new_descriptor [OF doc 1(6), of "sys_eventfd K"] by blast
  have free: "interest k2 ep = Map.empty"
    using fds_ok_fresh(1) [OF ok 1(3)] 1(5) 2(5) by simp
  then have "interest k2 ep f = None" by simp
  moreover have "ep \<noteq> -1" using 1(2) by simp
  ultimately obtain k l where
    new: "io_service_new K w = Inr (s, w\<lparr>next_addr := s + 2, kern := k, log_out := l,
       services := (services w)(s \<mapsto> new_loop (this_tid w) ep f (s + 1)), chans := (chans w)(s + 1 \<mapsto> loop_channel f s)\<rparr>)"
    and k: "k = snd (sys_epoll_ctl K ep EPOLL_CTL_MOD f (Some (EPOLLIN OR EPOLLHUP OR EPOLLPRI, s + 1))
      (snd (sys_epoll_ctl K ep EPOLL_CTL_ADD f (Some (0, s + 1)) k2)))"
      "interest k = (interest k2)(ep := (interest k2 ep)(f \<mapsto> (read_mask, s + 1)))"
    using io_service_new_form [OF rel 1(1) _ 2(1,2) _ s refl refl] s unfolding read_mask_def by auto
  have u: "used k = used k2"
    using doc k(1) by (simp add: descriptors_documented_def)
  have "fds_ok interest used k"
    by (rule fds_ok_register [OF 2(6) u _ _ k(2)]) (use 1(4) 2(4) in auto)
  moreover have "interest k = (interest (kern w))(ep := [f \<mapsto> (read_mask, s + 1)])"
    using k(2) free 1(5) 2(5) by simp
  moreover have "used k = {ep, f} \<union> used (kern w)" "f \<notin> used (kern w)" "ep \<noteq> f"
    using u 1(4) 2(3,4) by auto
  ultimately show ?thesis
    using new 1(3) by blast
qed

section \<open>The pool\<close>

lemma service_thread_new_ok:
  assumes rel: "epoll_reliable K interest" and doc: "descriptors_documented K interest used"
    and ok: "fds_ok interest used (kern w)"
  shows "\<exists>w'. service_thread_new K tid w = Inr (next_addr w, w') \<and> grown interest used w w' \<and>
     next_addr w' = next_addr w + 2 \<and> loop_started interest tid (next_addr w) w'"
proof -
  let ?w = "w\<lparr>this_tid := tid\<rparr>"
  have "fds_ok interest used (kern ?w)" using ok by simp
  from io_service_new_ok [OF rel doc this refl] obtain ep f k l where
    new: "io_service_new K ?w = Inr (next_addr w, ?w\<lparr>next_addr := next_addr w + 2, kern := k, log_out := l,
       services := (services w)(next_addr w \<mapsto> new_loop tid ep f (next_addr w + 1)),
       chans := (chans w)(next_addr w + 1 \<mapsto> loop_channel f (next_addr w))\<rparr>)" (is "_ = Inr (_, ?v)")
    and fds: "ep \<notin> used (kern w)" "used k = {ep, f} \<union> used (kern w)"
      "interest k = (interest (kern w))(ep := [f \<mapsto> (read_mask, next_addr w + 1)])" "fds_ok interest used k"
    by auto
  have "grown interest used w (?v\<lparr>this_tid := this_tid w\<rparr>)"
    using fds by (auto simp: grown_def)
  moreover have "loop_started interest tid (next_addr w) (?v\<lparr>this_tid := this_tid w\<rparr>)"
    using fds(3) by (auto simp: loop_started_def)
  ultimately show ?thesis
    using new by (intro exI [of _ "?v\<lparr>this_tid := this_tid w\<rparr>"]) (simp add: service_thread_new_def)
qed

lemma start_threads_ok:
  assumes rel: "epoll_reliable K interest" and doc: "descriptors_documented K interest used"
    and ok: "fds_ok interest used (kern w)"
  shows "\<exists>ts w'. start_threads K tids w = Inr (ts, w') \<and> grown interest used w w' \<and> map fst ts = tids \<and>
     (\<forall>(tid, s) \<in> set ts. s + 1 < next_addr w' \<and> loop_started interest tid s w')"
  using ok
proof (induction tids arbitrary: w)
  case Nil
  then show ?case by (simp add: grown_refl)
next
  case (Cons tid tids)
  from service_thread_new_ok [OF rel doc Cons.prems] obtain w1 where
    1: "service_thread_new K tid w = Inr (next_addr w, w1)" "grown interest used w w1" "next_addr w1 = next_addr w + 2"
      "loop_started interest tid (next_addr w) w1" by blast
  note ok1 = grown_ok [OF 1(2)]
  from Cons.IH [OF ok1] obtain ts w' where
    2: "start_threads K tids w1 = Inr (ts, w')" "grown interest used w1 w'" "map fst ts = tids"
      "\<forall>(tid, s) \<in> set ts. s + 1 < next_addr w' \<and> loop_started interest tid s w'" by blast
  have "loop_started interest tid (next_addr w) w'"
    by (rule loop_started_grown [OF 1(4) ok1 2(2)]) (simp add: 1(3))
  moreover have "next_addr w + 1 < next_addr w'"
    using 1(3) 2(2) by (simp add: grown_def)
  ultimately show ?case
    using 1(1) 2 grown_trans [OF 1(2) 2(2)] by (intro exI [of _ "(tid, next_addr w) # ts"] exI [of _ w']) simp
qed

definition pool_started ::
  "('k \<Rightarrow> fd \<Rightarrow> fd \<rightharpoonup> epoll_event) \<Rightarrow> nat list \<Rightarrow> io_service_pool \<Rightarrow> ('k, 'm) ios_state_scheme \<Rightarrow> bool" where
  "pool_started interest tids p w \<longleftrightarrow> pool_ready p \<and> sp_size p = length tids \<and> sp_service_index p = 0 \<and>
     distinct (sp_services p) \<and> (\<forall>j < length tids. loop_started interest (tids ! j) (sp_services p ! j) w)"

lemma pool_started_mono:
  assumes "pool_started interest tids p w"
    and "\<And>tid t. t \<in> set (sp_services p) \<Longrightarrow> loop_started interest tid t w \<Longrightarrow> loop_started interest tid t w'"
  shows "pool_started interest tids p w'"
  using assms unfolding pool_started_def pool_ready_def by (metis nth_mem)

lemma pool_run_ok:
  assumes rel: "epoll_reliable K interest" and doc: "descriptors_documented K interest used"
    and ok: "fds_ok interest used (kern w)" and n: "tids \<noteq> []" "length tids < size_mod"
  shows "\<exists>p w'. pool_run K tids (io_service_pool_new (length tids)) w = Inr (p, w') \<and> grown interest used w w' \<and>
     pool_started interest tids p w' \<and> (\<forall>s \<in> set (sp_services p). next_addr w \<le> s \<and> s + 1 < next_addr w')"
proof -
  from start_threads_ok [OF rel doc ok, of tids] obtain ts w' where
    ts: "start_threads K tids w = Inr (ts, w')" "grown interest used w w'" "map fst ts = tids"
      "\<forall>(tid, s) \<in> set ts. s + 1 < next_addr w' \<and> loop_started interest tid s w'" by blast
  note eff = start_threads_effect [OF ts(1)]
  have len: "length ts = length tids" using ts(3) by (metis length_map)
  let ?p = "(io_service_pool_new (length tids))\<lparr>sp_threads := ts, sp_services := map snd ts\<rparr>"
  have "pool_run K tids (io_service_pool_new (length tids)) w = Inr (?p, w')"
    using ts(1) len by (simp add: pool_run_def io_service_pool_new_def service_thread_run_def [abs_def])
  moreover have "loop_started interest (tids ! j) (sp_services ?p ! j) w'" if "j < length tids" for j
  proof -
    have "ts ! j \<in> set ts" using that len by simp
    moreover have "tids ! j = fst (ts ! j)" using that len ts(3) by (metis nth_map)
    ultimately show ?thesis using ts(4) that len by (auto simp: case_prod_beta)
  qed
  then have "pool_started interest tids ?p w'"
    using n len eff by (simp add: pool_started_def pool_ready_def io_service_pool_new_def)
  moreover have "\<forall>s \<in> set (sp_services ?p). next_addr w \<le> s \<and> s + 1 < next_addr w'"
    using eff ts(4) by (auto simp: case_prod_beta)
  ultimately show ?thesis using ts(2) by blast
qed

lemma grown_more:
  fixes w :: "('k, 'm) srv_state_scheme"
  assumes "grown interest used w w'"
  shows "conns w' = conns w" "acceptors w' = acceptors w" "servers w' = servers w"
  using assms by (cases w; cases w'; simp add: grown_def)+

section \<open>The server\<close>

text \<open>
  The loop \<open>s\<close> of thread \<open>tid\<close> with the acceptor \<open>a\<close> of the server \<open>v\<close>: besides the wake-up descriptor
  exactly the listening one is registered, in the poller and in the system, with the mask \<open>m\<close>,
  and a connection that comes in there is reported to \<open>v\<close>.
\<close>

definition bare_channel :: "evt_channel \<Rightarrow> bool" where
  "bare_channel c \<longleftrightarrow> \<not> ch_tied c \<and> ch_close_callback c = None \<and> ch_error_callback c = None \<and> ch_write_callback c = None"

lemma bare_channel_simps [simp]:
  "bare_channel (c\<lparr>ch_last_evt_status := m\<rparr>) = bare_channel c" "bare_channel (set_read_callback g (evt_channel_new f s n))"
  by (simp_all add: bare_channel_def set_read_callback_def evt_channel_new_def)

definition listening ::
  "('k \<Rightarrow> fd \<Rightarrow> fd \<rightharpoonup> epoll_event) \<Rightarrow> 32 word \<Rightarrow> nat \<Rightarrow> ptr \<Rightarrow> ptr \<Rightarrow> ptr \<Rightarrow> ('k, 'm) acc_state_scheme \<Rightarrow> bool" where
  "listening interest m tid s v a w \<longleftrightarrow> (\<exists>ep f ac c.
     let g = ac_socket ac; ch = ac_channel ac in f \<noteq> g \<and> ch \<noteq> s + 1 \<and>
     services w s = Some ((new_loop tid ep f (s + 1))\<lparr>m_poller := \<lparr>ep_fd = ep, channel_map = [f \<mapsto> s + 1, g \<mapsto> ch]\<rparr>\<rparr>) \<and>
     chans w (s + 1) = Some (loop_channel f s) \<and>
     acceptors w a = Some ac \<and> ac_service ac = s \<and> ac_accept_cb ac = Some v \<and>
     chans w ch = Some c \<and> ch_fd c = g \<and> ch_service c = s \<and> ch_read_callback c = Some (AcceptorOnRead a) \<and> bare_channel c \<and>
     evt_status c = m \<and> interest (kern w) ep = [f \<mapsto> (read_mask, s + 1), g \<mapsto> (m, ch)])"

lemma listening_frame [simp]:
  "listening interest m tid s v a (w\<lparr>log_out := l\<rparr>) = listening interest m tid s v a w"
  "listening interest m tid s v a (u\<lparr>servers := x\<rparr>) = listening interest m tid s v a u"
  by (simp_all add: listening_def)

lemma bound_socket_used: "descriptors_documented K interest used \<Longrightarrow> used (bound_socket K f addr k) = used k"
  by (simp add: descriptors_documented_def bound_socket_def Let_def)

text \<open>The constructor of the server in the thread of a loop that has just been made.\<close>

lemma tcp_server_new_ok:
  fixes w :: "('k, 'm) srv_state_scheme"
  assumes rel: "epoll_reliable K interest" and sock: "sockets_documented K interest" and doc: "descriptors_documented K interest used"
    and ok: "fds_ok interest used (kern w)" and s: "loop_started interest (this_tid w) s w" "s + 1 < next_addr w"
    and v: "v = next_addr w"
  shows "\<exists>w'. tcp_server_new h inet_pton junk K ip port s n w = Inr (v, w') \<and> listening interest 0 (this_tid w) s v (v + 1) w' \<and>
     map_option ac_addr (acceptors w' (v + 1)) = Some (endpoint_ip_port h inet_pton junk ip port) \<and>
     map_option ac_channel (acceptors w' (v + 1)) = Some (v + 2) \<and>
     next_addr w' = v + 3 \<and> this_tid w' = this_tid w \<and> conns w' = conns w \<and> fds_ok interest used (kern w') \<and>
     servers w' = (servers w)(v \<mapsto> \<lparr>ts_io_service = s, ts_acceptor = v + 1, ts_conn_map = Map.empty, ts_conn_cb = None,
       ts_read_cb = None, ts_write_cb = None, ts_err_cb = None, ts_service_pool = io_service_pool_new n\<rparr>) \<and> only_new w w'"
proof -
  let ?addr = "endpoint_ip_port h inet_pton junk ip port" and ?w = "w\<lparr>next_addr := next_addr w + 1\<rparr>"
  let ?c = "\<lambda>g. set_read_callback (AcceptorOnRead (v + 1)) (evt_channel_new g s ''acceptor-chnl'')"
  from s(1) obtain ep f where i: "services w s = Some (new_loop (this_tid w) ep f (s + 1))"
    "chans w (s + 1) = Some (loop_channel f s)" "interest (kern w) ep = [f \<mapsto> (read_mask, s + 1)]"
    by (auto simp: loop_started_def)
  then have "interest (kern w) ep f \<noteq> None" by simp
  then have used: "ep \<in> used (kern w)" "f \<in> used (kern w)" using ok unfolding fds_ok_def by blast+
  obtain g e k1 where g: "sys_socket K (kern w) = ((g, e), k1)" "0 < g" "g \<notin> used (kern w)"
    "used k1 = insert g (used (kern w))" "interest k1 = interest (kern w)" "fds_ok interest used k1"
    using new_descriptor [OF doc ok, of "sys_socket K"] by blast
  have fg: "f \<noteq> g" using used(2) g(3) by blast
  let ?i = "new_loop (this_tid w) ep f (s + 1)"
  have w: "services ?w s = Some ?i" "m_owner_tid ?i = this_tid ?w" "sys_socket K (kern ?w) = ((g, e), k1)"
    "interest (kern ?w) (ep_fd (m_poller ?i)) g = None"
    using i g(1) fg by (simp_all add: new_loop_def)
  from acceptor_new_form [OF rel sock w(1-3) g(2) w(4) refl refl refl, of ?addr] obtain k l where
    new: "acceptor_new K ?addr s ?w = Inr (v + 1, ?w\<lparr>next_addr := v + 3,
      acceptors := (acceptors w)(v + 1 \<mapsto> \<lparr>ac_service = s, ac_socket = g, ac_accept_cb = None, ac_addr = ?addr, ac_channel = v + 2\<rparr>),
      chans := (chans w)(v + 2 \<mapsto> ?c g), kern := k, log_out := l,
      services := (services w)(s \<mapsto> ?i\<lparr>m_poller := \<lparr>ep_fd = ep, channel_map = [f \<mapsto> s + 1, g \<mapsto> v + 2]\<rparr>\<rparr>)\<rparr>)"
      (is "_ = Inr (_, ?w1)")
    and k: "k = snd (sys_epoll_ctl K ep EPOLL_CTL_ADD g (Some (0, v + 2)) (bound_socket K g ?addr k1))"
      "interest k = (interest (kern w))(ep := (interest (kern w) ep)(g \<mapsto> (0, v + 2)))"
    by (auto simp: v numeral_2_eq_2 numeral_3_eq_3 new_loop_def)
  have "used k = used k1"
    using doc bound_socket_used [OF doc] k(1) by (simp add: descriptors_documented_def)
  then have ok': "fds_ok interest used k"
    using fds_ok_register [OF g(6), of k ep g "Some (0, v + 2)"] used g(4,5) k(2) by simp
  let ?ac = "\<lparr>ac_service = s, ac_socket = g, ac_accept_cb = Some v, ac_addr = ?addr, ac_channel = v + 2\<rparr>"
  let ?w2 = "?w1\<lparr>acceptors := (acceptors w)(v + 1 \<mapsto> ?ac),
    servers := (servers w)(v \<mapsto> \<lparr>ts_io_service = s, ts_acceptor = v + 1, ts_conn_map = Map.empty, ts_conn_cb = None,
       ts_read_cb = None, ts_write_cb = None, ts_err_cb = None, ts_service_pool = io_service_pool_new n\<rparr>)\<rparr>"
  have "tcp_server_new h inet_pton junk K ip port s n w = Inr (v, ?w2)"
    using new by (simp add: tcp_server_new_def Let_def v set_accept_cb_def get_acc_def put_acc_def put_srv_def)
  moreover have "listening interest 0 (this_tid w) s v (v + 1) ?w2"
    unfolding listening_def Let_def using i k(2) s(2) fg
    by (intro exI [of _ ep] exI [of _ f] exI [of _ ?ac] exI [of _ "?c g"])
      (simp add: v, simp add: set_read_callback_def evt_channel_new_def evt_status_def)
  moreover have "only_new w ?w2" by (simp add: only_new_def v)
  ultimately show ?thesis
    using ok' by (intro exI [of _ ?w2]) simp
qed

text \<open>\<open>ready\<close> in the thread of the loop: the pool runs, then the acceptor is started.\<close>

lemma server_ready_ok:
  fixes w :: "('k, 'm) srv_state_scheme"
  assumes rel: "epoll_reliable K interest" and sock: "sockets_documented K interest" and doc: "descriptors_documented K interest used"
    and ok: "fds_ok interest used (kern w)" and n: "tids \<noteq> []" "length tids < size_mod"
    and sv: "servers w v = Some sv" "ts_service_pool sv = io_service_pool_new (length tids)"
    and lst: "listening interest 0 (this_tid w) s v (ts_acceptor sv) w"
    and old: "s + 1 < next_addr w" "map_option ac_channel (acceptors w (ts_acceptor sv)) = Some ch" "ch < next_addr w"
  shows "\<exists>p w'. server_ready K tids v w = Inr w' \<and> servers w' = (servers w)(v \<mapsto> sv\<lparr>ts_service_pool := p\<rparr>) \<and>
     pool_started interest tids p w' \<and> (\<forall>t \<in> set (sp_services p). next_addr w \<le> t) \<and>
     listening interest read_mask (this_tid w) s v (ts_acceptor sv) w' \<and>
     acceptors w' = acceptors w \<and> conns w' = conns w \<and> this_tid w' = this_tid w \<and> only_new w w' \<and> fds_ok interest used (kern w')"
proof -
  from lst obtain ep f ac c where ac: "f \<noteq> ac_socket ac" "ac_channel ac \<noteq> s + 1"
    "services w s = Some ((new_loop (this_tid w) ep f (s + 1))\<lparr>m_poller :=
       \<lparr>ep_fd = ep, channel_map = [f \<mapsto> s + 1, ac_socket ac \<mapsto> ac_channel ac]\<rparr>\<rparr>)"
    "chans w (s + 1) = Some (loop_channel f s)"
    "acceptors w (ts_acceptor sv) = Some ac" "ac_service ac = s" "ac_accept_cb ac = Some v"
    "chans w (ac_channel ac) = Some c" "ch_fd c = ac_socket ac" "ch_service c = s"
    "ch_read_callback c = Some (AcceptorOnRead (ts_acceptor sv))" "ch_last_evt_status c = 0"
    "interest (kern w) ep = [f \<mapsto> (read_mask, s + 1), ac_socket ac \<mapsto> (0, ac_channel ac)]" "bare_channel c"
    unfolding listening_def Let_def evt_status_def by blast
  have ch: "ac_channel ac = ch" using old(2) ac(5) by simp
  note ac = ac [unfolded ch]
  let ?i = "(new_loop (this_tid w) ep f (s + 1))\<lparr>m_poller := \<lparr>ep_fd = ep, channel_map = [f \<mapsto> s + 1, ac_socket ac \<mapsto> ch]\<rparr>\<rparr>"
  let ?g = "ac_socket ac"
  from pool_run_ok [OF rel doc ok n] obtain p w1 where
    run: "pool_run K tids (io_service_pool_new (length tids)) w = Inr (p, w1)" and g: "grown interest used w w1"
    and p: "pool_started interest tids p w1" "\<forall>s \<in> set (sp_services p). next_addr w \<le> s \<and> s + 1 < next_addr w1" by blast
  let ?w2 = "put_srv v (sv\<lparr>ts_service_pool := p\<rparr>) w1"
  note more = grown_more [OF g]
  have reg: "interest (kern w) ep ?g = Some (0, ch)" using ac(1,13) by simp
  then have ep: "ep \<in> used (kern w)" using ok unfolding fds_ok_def by (metis option.distinct(1))
  have "acceptors ?w2 (ts_acceptor sv) = Some ac" "in_loop ch c ?i ?w2"
    using ac old(1,3) sv g more by (auto simp: in_loop_def put_srv_def grown_def new_loop_def)
  from acceptor_start_form [OF this(1) this(2) [folded ch] ac(9,12) read_mask_def] obtain l where
    start: "acceptor_start K (ts_acceptor sv) ?w2 = Inr (?w2\<lparr>kern := snd (sys_epoll_ctl K ep EPOLL_CTL_MOD ?g (Some (read_mask, ch))
      (snd (sys_listen K ?g 256 (kern ?w2)))), log_out := l, chans := (chans ?w2)(ch \<mapsto> c\<lparr>ch_last_evt_status := read_mask\<rparr>)\<rparr>)"
    (is "_ = Inr ?w3") by (auto simp: ch)
  have kept: "interest (snd (sys_listen K ?g 256 (kern ?w2))) = interest (kern w1)" "interest (kern w1) ep = interest (kern w) ep"
    using sock g ep by (simp_all add: sockets_documented_def put_srv_def grown_def)
  then have int: "interest (kern ?w3) = (interest (kern w1))(ep := (interest (kern w) ep)(?g \<mapsto> (read_mask, ch)))"
    using reg by (simp add: epoll_reliableD(1) [OF rel])
  have "loop_started interest tid t ?w3" if t: "loop_started interest tid t w1" "next_addr w \<le> t" for tid t
  proof -
    from t obtain e f' where l: "services w1 t = Some (new_loop tid e f' (t + 1))" "chans w1 (t + 1) = Some (loop_channel f' t)"
      "interest (kern w1) e = [f' \<mapsto> (read_mask, t + 1)]" by (auto simp: loop_started_def)
    then have "e \<noteq> ep"
      using t(2) old(3) reg kept(2) by (auto split: if_splits)
    with l t old show ?thesis
      using int by (auto simp: loop_started_def put_srv_def)
  qed
  with p(2) have "pool_started interest tids p ?w3"
    by (intro pool_started_mono [OF p(1)]) blast
  moreover have "server_ready K tids v w = Inr ?w3"
    using sv run start by (simp add: server_ready_def get_srv_Some)
  moreover have "listening interest read_mask (this_tid w) s v (ts_acceptor sv) ?w3"
    unfolding listening_def Let_def using ac int old(1,3) g more ch
    by (intro exI [of _ ep] exI [of _ f] exI [of _ ac] exI [of _ "c\<lparr>ch_last_evt_status := read_mask\<rparr>"])
      (simp add: put_srv_def grown_def evt_status_def)
  moreover have "only_new w ?w3" using grown_only_new [OF g] old(3) by (auto simp: only_new_def put_srv_def)
  moreover have "fds_ok interest used (kern ?w3)"
  proof (rule fds_ok_register [OF grown_ok [OF g]])
    show "used (kern ?w3) = used (kern w1)" using doc by (simp add: descriptors_documented_def put_srv_def)
    have "?g \<in> used (kern w)" using ok reg unfolding fds_ok_def by (metis option.distinct(1))
    with ep g show "ep \<in> used (kern w1)" "?g \<in> used (kern w1)" unfolding grown_def by blast+
    show "interest (kern ?w3) = (interest (kern w1))(ep := (interest (kern w1) ep)(?g \<mapsto> (read_mask, ch)))"
      using int kept(2) by simp
  qed
  ultimately show ?thesis
    using more g p(2) by (intro exI [of _ p] exI [of _ ?w3]) (simp add: put_srv_def grown_def)
qed

section \<open>Properties\<close>

lemma echo_main_ok:
  assumes rel: "epoll_reliable K interest" and sock: "sockets_documented K interest" and doc: "descriptors_documented K interest used"
    and ok: "fds_ok interest used (kern w)"
  shows "\<exists>s v sv w'. echo_main h inet_pton junk K [tid] w = Inr (s, v, w') \<and> this_tid w' = this_tid w \<and> conns w' = conns w \<and>
    servers w' = (servers w)(v \<mapsto> sv) \<and> ts_io_service sv = s \<and> ts_conn_map sv = Map.empty \<and>
    ts_conn_cb sv = Some 1 \<and> ts_read_cb sv = Some 2 \<and> ts_write_cb sv = Some 3 \<and> ts_err_cb sv = Some 4 \<and>
    listening interest (EPOLLIN OR EPOLLHUP OR EPOLLPRI) (this_tid w) s v (ts_acceptor sv) w' \<and>
    map_option ac_addr (acceptors w' (ts_acceptor sv)) = Some (endpoint_ip_port h inet_pton junk '''' 4001) \<and>
    pool_started interest [tid] (ts_service_pool sv) w' \<and> s \<notin> set (sp_services (ts_service_pool sv)) \<and>
    only_new w w' \<and> fds_ok interest used (kern w')"
proof -
  let ?s = "next_addr w" and ?v = "next_addr w + 2"
  from io_service_new_ok [OF rel doc ok refl] obtain ep f k l where
    1: "io_service_new K w = Inr (?s, w\<lparr>next_addr := ?s + 2, kern := k, log_out := l,
       services := (services w)(?s \<mapsto> new_loop (this_tid w) ep f (?s + 1)), chans := (chans w)(?s + 1 \<mapsto> loop_channel f ?s)\<rparr>)"
      (is "_ = Inr (_, ?w1)")
    and k: "interest k = (interest (kern w))(ep := [f \<mapsto> (read_mask, ?s + 1)])" "fds_ok interest used k" by blast
  have w1: "fds_ok interest used (kern ?w1)" "loop_started interest (this_tid ?w1) ?s ?w1" "?s + 1 < next_addr ?w1"
    "?v = next_addr ?w1"
    using k by (auto simp: loop_started_def)
  from tcp_server_new_ok [OF rel sock doc w1, of h inet_pton junk "''''" 4001 1] obtain w2 where
    2: "tcp_server_new h inet_pton junk K '''' 4001 ?s 1 ?w1 = Inr (?v, w2)" "listening interest 0 (this_tid w) ?s ?v (?v + 1) w2"
      "map_option ac_addr (acceptors w2 (?v + 1)) = Some (endpoint_ip_port h inet_pton junk '''' 4001)"
      "map_option ac_channel (acceptors w2 (?v + 1)) = Some (?v + 2)"
      "next_addr w2 = ?v + 3" "this_tid w2 = this_tid w" "conns w2 = conns w" "fds_ok interest used (kern w2)"
      "servers w2 = (servers w)(?v \<mapsto> \<lparr>ts_io_service = ?s, ts_acceptor = ?v + 1, ts_conn_map = Map.empty, ts_conn_cb = None,
       ts_read_cb = None, ts_write_cb = None, ts_err_cb = None, ts_service_pool = io_service_pool_new 1\<rparr>)" "only_new ?w1 w2"
    by auto
  let ?sv = "\<lparr>ts_io_service = ?s, ts_acceptor = ?v + 1, ts_conn_map = Map.empty, ts_conn_cb = Some 1,
                ts_read_cb = Some 2, ts_write_cb = Some 3, ts_err_cb = Some 4, ts_service_pool = io_service_pool_new 1\<rparr>"
  let ?w3 = "put_srv ?v ?sv (log_line ll_info '' : '' [4001] (log_line ll_info '' runing '' [] w2))"
  have w3: "fds_ok interest used (kern ?w3)" "servers ?w3 ?v = Some ?sv" "listening interest 0 (this_tid ?w3) ?s ?v (ts_acceptor ?sv) ?w3"
    "map_option ac_channel (acceptors ?w3 (ts_acceptor ?sv)) = Some (?v + 2)" "next_addr ?w3 = ?v + 3"
    using 2 by (simp_all add: put_srv_def log_line_def)
  have "[tid] \<noteq> []" "length [tid] < size_mod" "ts_service_pool ?sv = io_service_pool_new (length [tid])"
    "?s + 1 < next_addr ?w3" "?v + 2 < next_addr ?w3"
    using w3(5) by (simp_all add: size_mod_def)
  from server_ready_ok [OF rel sock doc w3(1) this(1,2) w3(2) this(3) w3(3) this(4) w3(4) this(5)] obtain p w' where
    3: "server_ready K [tid] ?v ?w3 = Inr w'" "servers w' = (servers ?w3)(?v \<mapsto> ?sv\<lparr>ts_service_pool := p\<rparr>)"
      "pool_started interest [tid] p w'" "\<forall>t \<in> set (sp_services p). next_addr ?w3 \<le> t"
      "listening interest read_mask (this_tid w) ?s ?v (?v + 1) w'" "acceptors w' = acceptors ?w3" "conns w' = conns ?w3"
      "this_tid w' = this_tid ?w3" "only_new ?w3 w'" "fds_ok interest used (kern w')"
    using 2(6) by (auto simp: put_srv_def log_line_def)
  have "only_new w w'"
    using 2(10) 3(9) by (auto simp: only_new_def put_srv_def log_line_def)
  moreover have "echo_main h inet_pton junk K [tid] w = Inr (?s, ?v, w')"
    using 1 2(1,9) 3(1) by (simp add: echo_main_def get_srv_def log_line_def echo_set_callbacks_def srv_set_conn_callback_def
        srv_set_read_callback_def srv_set_write_callback_def srv_set_error_callback_def)
  moreover have "?s \<notin> set (sp_services p)" using 3(4) w3(5) by fastforce
  ultimately show ?thesis
    using 2(3,6,7,9) 3(2,3,5-8,10)
    by (intro exI [of _ ?s] exI [of _ ?v] exI [of _ "?sv\<lparr>ts_service_pool := p\<rparr>"] exI [of _ w'])
      (simp add: put_srv_def log_line_def read_mask_def)
qed


text \<open>The system of \<open>Ref_System\<close> hands out its descriptors in ascending order.\<close>

definition rs_used :: "ref_sys \<Rightarrow> fd set" where
  "rs_used k = {f. f < rs_next_fd k}"

lemma ref_descriptors: "descriptors_documented ref_kernel rs_interest rs_used"
  by (auto simp: descriptors_documented_def ref_kernel_def rs_used_def rs_epoll_ctl_def Let_def)

lemma ref_init_fds_ok: "fds_ok rs_interest rs_used ref_init"
  by (simp add: fds_ok_def ref_init_def rs_used_def)

definition start_state :: "ref_sys srv_state" where
  "start_state = \<lparr>kern = ref_init, this_tid = 1, next_addr = 100, log_out = [], chans = Map.empty,
     services = Map.empty, refs = (\<lambda>_. 0), conns = Map.empty, user_mem = (\<lambda>_. []), acceptors = Map.empty, servers = Map.empty\<rparr>"


section \<open>The server of another thread\<close>

text \<open>
  In \<^verbatim>\<open>echo_mt.cpp\<close> the server is made by another thread than that of the loop. The acceptor then
  is not registered at once: \<open>ts\<close> is what waits in the queue of the loop.
\<close>

definition acceptor_queued ::
  "('k \<Rightarrow> fd \<Rightarrow> fd \<rightharpoonup> epoll_event) \<Rightarrow> (ptr \<Rightarrow> task list) \<Rightarrow> 32 word \<Rightarrow> nat \<Rightarrow> ptr \<Rightarrow> ptr \<Rightarrow> ptr \<Rightarrow> ('k, 'm) acc_state_scheme \<Rightarrow> bool" where
  "acceptor_queued interest ts m tid s v a w \<longleftrightarrow> (\<exists>ep f ac c.
     let g = ac_socket ac; ch = ac_channel ac in f \<noteq> g \<and> ch \<noteq> s + 1 \<and>
     services w s = Some ((new_loop tid ep f (s + 1))\<lparr>m_pending_tasks := ts ch\<rparr>) \<and>
     chans w (s + 1) = Some (loop_channel f s) \<and>
     acceptors w a = Some ac \<and> ac_service ac = s \<and> ac_accept_cb ac = Some v \<and>
     chans w ch = Some c \<and> ch_fd c = g \<and> ch_service c = s \<and> ch_read_callback c = Some (AcceptorOnRead a) \<and> bare_channel c \<and>
     evt_status c = m \<and> interest (kern w) ep = [f \<mapsto> (read_mask, s + 1)])"

lemma queued_frame [simp]:
  "acceptor_queued interest ts m tid s v a (w\<lparr>log_out := l\<rparr>) = acceptor_queued interest ts m tid s v a w"
  "acceptor_queued interest ts m tid s v a (w\<lparr>this_tid := t\<rparr>) = acceptor_queued interest ts m tid s v a w"
  "acceptor_queued interest ts m tid s v a (u\<lparr>servers := x\<rparr>) = acceptor_queued interest ts m tid s v a u"
  by (simp_all add: acceptor_queued_def)

text \<open>
  The calls on the loop, for an observer \<open>counter\<close> of the wake-up descriptors, which never exceed
  the maximum of an \<open>eventfd\<close>.
\<close>

lemma join_queued:
  assumes evt: "eventfd_documented K counter" "\<And>f k. counter k f < 2 ^ 64 - 1"
    and c: "chans w ch = Some c" "services w (ch_service c) = Some i" "this_tid w \<noteq> m_owner_tid i"
  shows "join_to_service K ch w = Inr (w\<lparr>kern := snd (sys_write64 K (m_wakeup_fd i) 0 (kern w)),
      services := (services w)(ch_service c \<mapsto> i\<lparr>m_pending_tasks := m_pending_tasks i @ [TAddChannel ch]\<rparr>)\<rparr>)"
  using queue_task_eq [OF evt(1) c(2) evt(2) c(3), of "TAddChannel ch"] c
  by (simp add: join_to_service_def get_chan_Some add_channel_def get_ios_Some check_this_loop_def)

lemma enable_read_queued:
  assumes evt: "eventfd_documented K counter" "\<And>f k. counter k f < 2 ^ 64 - 1"
    and c: "chans w ch = Some c" "services w (ch_service c) = Some i" "this_tid w \<noteq> m_owner_tid i" "ch_last_evt_status c = 0"
  shows "enable_read K ch True w = Inr (w\<lparr>kern := snd (sys_write64 K (m_wakeup_fd i) 0 (kern w)),
      chans := (chans w)(ch \<mapsto> c\<lparr>ch_last_evt_status := read_mask\<rparr>),
      services := (services w)(ch_service c \<mapsto> i\<lparr>m_pending_tasks := m_pending_tasks i @ [TUpdateChannel ch]\<rparr>)\<rparr>)"
proof -
  let ?w = "put_chan ch (c\<lparr>ch_last_evt_status := read_mask\<rparr>) w"
  have "services ?w (ch_service c) = Some i" "this_tid ?w \<noteq> m_owner_tid i" using c by (simp_all add: put_chan_def)
  from queue_task_eq [OF evt(1) this(1) evt(2) this(2), of "TUpdateChannel ch"] c show ?thesis
    by (simp add: enable_read_def get_chan_def update_channel_def get_ios_def check_this_loop_def put_chan_def Let_def read_mask_def)
qed

lemma tcp_server_new_queued:
  fixes w :: "('k, 'm) srv_state_scheme"
  assumes evt: "eventfd_documented K counter" "\<And>f k. counter k f < 2 ^ 64 - 1"
    and sock: "sockets_documented K interest" and doc: "descriptors_documented K interest used"
    and ok: "fds_ok interest used (kern w)" and s: "loop_started interest tid s w" "s + 1 < next_addr w" "this_tid w \<noteq> tid"
    and v: "v = next_addr w"
  shows "\<exists>w'. tcp_server_new h inet_pton junk K ip port s n w = Inr (v, w') \<and>
     acceptor_queued interest (\<lambda>ch. [TAddChannel ch]) 0 tid s v (v + 1) w' \<and>
     map_option ac_addr (acceptors w' (v + 1)) = Some (endpoint_ip_port h inet_pton junk ip port) \<and>
     map_option ac_channel (acceptors w' (v + 1)) = Some (v + 2) \<and>
     next_addr w' = v + 3 \<and> this_tid w' = this_tid w \<and> conns w' = conns w \<and> fds_ok interest used (kern w') \<and>
     servers w' = (servers w)(v \<mapsto> \<lparr>ts_io_service = s, ts_acceptor = v + 1, ts_conn_map = Map.empty, ts_conn_cb = None,
       ts_read_cb = None, ts_write_cb = None, ts_err_cb = None, ts_service_pool = io_service_pool_new n\<rparr>) \<and> only_new w w'"
proof -
  let ?addr = "endpoint_ip_port h inet_pton junk ip port"
  let ?c = "\<lambda>g. set_read_callback (AcceptorOnRead (v + 1)) (evt_channel_new g s ''acceptor-chnl'')"
  from s(1) obtain ep f where i: "services w s = Some (new_loop tid ep f (s + 1))"
    "chans w (s + 1) = Some (loop_channel f s)" "interest (kern w) ep = [f \<mapsto> (read_mask, s + 1)]"
    by (auto simp: loop_started_def)
  then have "interest (kern w) ep f \<noteq> None" by simp
  then have used: "f \<in> used (kern w)" using ok unfolding fds_ok_def by blast
  obtain g e k1 where g: "sys_socket K (kern w) = ((g, e), k1)" "0 < g" "g \<notin> used (kern w)"
    "interest k1 = interest (kern w)" "fds_ok interest used k1"
    by (rule new_descriptor [OF doc ok, of "sys_socket K"]) blast+
  let ?k2 = "bound_socket K g ?addr k1"
  let ?k3 = "snd (sys_write64 K f 0 ?k2)"
  have k3: "interest ?k3 = interest (kern w)" "used ?k3 = used k1"
    using doc g(4) bound_socket_interest [OF sock] bound_socket_used [OF doc] by (simp_all add: descriptors_documented_def)
  let ?ac = "\<lambda>cb. \<lparr>ac_service = s, ac_socket = g, ac_accept_cb = cb, ac_addr = ?addr, ac_channel = v + 2\<rparr>"
  let ?w1 = "w\<lparr>next_addr := v + 3, acceptors := (acceptors w)(v + 1 \<mapsto> ?ac None), kern := ?k2,
    chans := (chans w)(v + 2 \<mapsto> ?c g)\<rparr>"
  let ?w2 = "?w1\<lparr>kern := ?k3, services := (services w)(s \<mapsto> (new_loop tid ep f (s + 1))\<lparr>m_pending_tasks := [TAddChannel (v + 2)]\<rparr>)\<rparr>"
  have c: "ch_service (?c g) = s" "ch_fd (?c g) = g" "ch_last_evt_status (?c g) = 0" "ch_read_callback (?c g) = Some (AcceptorOnRead (v + 1))"
    "bare_channel (?c g)"
    by (simp_all add: bare_channel_def set_read_callback_def evt_channel_new_def)
  have "join_to_service K (v + 2) ?w1 = Inr ?w2"
    using join_queued [OF evt, of ?w1 "v + 2" "?c g" "new_loop tid ep f (s + 1)"] i c(1) s(3) by (simp add: new_loop_def)
  then have new: "acceptor_new K ?addr s (w\<lparr>next_addr := next_addr w + 1\<rparr>) = Inr (v + 1, ?w2)"
    using g by (simp add: acceptor_new_def socket_create_def socket_bind_def set_tcp_nodelay_def set_reuse_addr_def
        set_recv_buff_size_def kcall_unfold Let_def put_acc_def put_chan_def get_chan_def bound_socket_def v numeral_2_eq_2 numeral_3_eq_3)
  let ?w3 = "?w2\<lparr>acceptors := (acceptors w)(v + 1 \<mapsto> ?ac (Some v)),
    servers := (servers w)(v \<mapsto> \<lparr>ts_io_service = s, ts_acceptor = v + 1, ts_conn_map = Map.empty, ts_conn_cb = None,
       ts_read_cb = None, ts_write_cb = None, ts_err_cb = None, ts_service_pool = io_service_pool_new n\<rparr>)\<rparr>"
  have "tcp_server_new h inet_pton junk K ip port s n w = Inr (v, ?w3)"
    using new by (simp add: tcp_server_new_def Let_def v set_accept_cb_def get_acc_def put_acc_def put_srv_def)
  moreover have "acceptor_queued interest (\<lambda>ch. [TAddChannel ch]) 0 tid s v (v + 1) ?w3"
    unfolding acceptor_queued_def Let_def using i k3(1) s(2) c used g(3)
    by (intro exI [of _ ep] exI [of _ f] exI [of _ "?ac (Some v)"] exI [of _ "?c g"]) (auto simp: v evt_status_def)
  moreover have "fds_ok interest used ?k3" using g(4,5) k3 by (simp add: fds_ok_def)
  moreover have "only_new w ?w3" by (simp add: only_new_def v)
  ultimately show ?thesis by (intro exI [of _ ?w3]) simp
qed

lemma server_ready_queued:
  fixes w :: "('k, 'm) srv_state_scheme"
  assumes evt: "eventfd_documented K counter" "\<And>f k. counter k f < 2 ^ 64 - 1"
    and rel: "epoll_reliable K interest" and sock: "sockets_documented K interest" and doc: "descriptors_documented K interest used"
    and ok: "fds_ok interest used (kern w)" and n: "tids \<noteq> []" "length tids < size_mod"
    and sv: "servers w v = Some sv" "ts_service_pool sv = io_service_pool_new (length tids)"
    and que: "acceptor_queued interest (\<lambda>ch. [TAddChannel ch]) 0 tid s v (ts_acceptor sv) w" "this_tid w \<noteq> tid"
    and old: "s + 1 < next_addr w" "map_option ac_channel (acceptors w (ts_acceptor sv)) = Some ch" "ch < next_addr w"
  shows "\<exists>p w'. server_ready K tids v w = Inr w' \<and> servers w' = (servers w)(v \<mapsto> sv\<lparr>ts_service_pool := p\<rparr>) \<and>
     pool_started interest tids p w' \<and> (\<forall>t \<in> set (sp_services p). next_addr w \<le> t) \<and>
     acceptor_queued interest (\<lambda>ch. [TAddChannel ch, TUpdateChannel ch]) read_mask tid s v (ts_acceptor sv) w' \<and>
     acceptors w' = acceptors w \<and> conns w' = conns w \<and> this_tid w' = this_tid w \<and> only_new w w' \<and> fds_ok interest used (kern w')"
proof -
  from que(1) obtain ep f ac c where ac: "f \<noteq> ac_socket ac" "ac_channel ac \<noteq> s + 1"
    "services w s = Some ((new_loop tid ep f (s + 1))\<lparr>m_pending_tasks := [TAddChannel (ac_channel ac)]\<rparr>)"
    "chans w (s + 1) = Some (loop_channel f s)"
    "acceptors w (ts_acceptor sv) = Some ac" "ac_service ac = s" "ac_accept_cb ac = Some v"
    "chans w (ac_channel ac) = Some c" "ch_fd c = ac_socket ac" "ch_service c = s"
    "ch_read_callback c = Some (AcceptorOnRead (ts_acceptor sv))" "ch_last_evt_status c = 0"
    "interest (kern w) ep = [f \<mapsto> (read_mask, s + 1)]" "bare_channel c"
    unfolding acceptor_queued_def Let_def evt_status_def by blast
  have ch: "ac_channel ac = ch" using old(2) ac(5) by simp
  note ac = ac [unfolded ch]
  let ?i = "(new_loop tid ep f (s + 1))\<lparr>m_pending_tasks := [TAddChannel ch]\<rparr>" and ?g = "ac_socket ac"
  from pool_run_ok [OF rel doc ok n] obtain p w1 where
    run: "pool_run K tids (io_service_pool_new (length tids)) w = Inr (p, w1)" and g: "grown interest used w w1"
    and p: "pool_started interest tids p w1" "\<forall>s \<in> set (sp_services p). next_addr w \<le> s \<and> s + 1 < next_addr w1" by blast
  let ?w2 = "(put_srv v (sv\<lparr>ts_service_pool := p\<rparr>) w1)\<lparr>kern := snd (sys_listen K ?g 256 (kern w1))\<rparr>"
  note more = grown_more [OF g]
  have "interest (kern w) ep f \<noteq> None" using ac(13) by simp
  then have ep: "ep \<in> used (kern w)" using ok unfolding fds_ok_def by blast
  have w2: "chans ?w2 ch = Some c" "services ?w2 (ch_service c) = Some ?i" "this_tid ?w2 \<noteq> m_owner_tid ?i"
    using ac que(2) old(1,3) g by (simp_all add: put_srv_def grown_def new_loop_def)
  let ?k = "snd (sys_write64 K f 0 (kern ?w2))"
  let ?w3 = "?w2\<lparr>kern := ?k, chans := (chans w1)(ch \<mapsto> c\<lparr>ch_last_evt_status := read_mask\<rparr>),
      services := (services w1)(s \<mapsto> ?i\<lparr>m_pending_tasks := [TAddChannel ch, TUpdateChannel ch]\<rparr>)\<rparr>"
  have "enable_read K ch True ?w2 = Inr ?w3"
    using enable_read_queued [OF evt w2 ac(12)] ac(10) by (simp add: put_srv_def new_loop_def)
  then have start: "acceptor_start K (ts_acceptor sv) (put_srv v (sv\<lparr>ts_service_pool := p\<rparr>) w1) = Inr ?w3"
    using ac(5) ch more by (simp add: acceptor_start_def get_acc_def socket_listen_def kcall_unfold put_srv_def)
  have int: "interest ?k = interest (kern w1)" "interest (kern w1) ep = interest (kern w) ep"
    using sock doc g ep by (simp_all add: sockets_documented_def descriptors_documented_def put_srv_def grown_def)
  have "loop_started interest tid' t ?w3" if "loop_started interest tid' t w1" "next_addr w \<le> t" for tid' t
    using that old int(1) by (auto simp: loop_started_def put_srv_def)
  with p(2) have "pool_started interest tids p ?w3"
    by (intro pool_started_mono [OF p(1)]) blast
  moreover have "server_ready K tids v w = Inr ?w3"
    using sv run start by (simp add: server_ready_def get_srv_Some)
  moreover have "acceptor_queued interest (\<lambda>ch. [TAddChannel ch, TUpdateChannel ch]) read_mask tid s v (ts_acceptor sv) ?w3"
    unfolding acceptor_queued_def Let_def using ac int old(1,3) g more ch
    by (intro exI [of _ ep] exI [of _ f] exI [of _ ac] exI [of _ "c\<lparr>ch_last_evt_status := read_mask\<rparr>"])
      (simp add: put_srv_def grown_def evt_status_def)
  moreover have "only_new w ?w3" using grown_only_new [OF g] old(3) by (auto simp: only_new_def put_srv_def)
  moreover have "fds_ok interest used (kern ?w3)"
    using grown_ok [OF g] int(1) doc by (simp add: fds_ok_def descriptors_documented_def put_srv_def)
  ultimately show ?thesis
    using more g p(2) by (intro exI [of _ p] exI [of _ ?w3]) (simp add: put_srv_def grown_def)
qed

text \<open>The two tasks, run by the loop, register the acceptor.\<close>

lemma queued_listens:
  fixes w :: "('k, 'm) srv_state_scheme"
  assumes rel: "epoll_reliable K interest"
    and que: "acceptor_queued interest (\<lambda>ch. [TAddChannel ch, TUpdateChannel ch]) read_mask tid s v a w" "this_tid w = tid"
  shows "\<exists>w'. run_pending_task (connection_dtor K) (server_task K U s) s w = Inr w' \<and> listening interest read_mask tid s v a w' \<and>
     servers w' = servers w \<and> acceptors w' = acceptors w \<and>
     (\<forall>tid' t. t \<noteq> s \<longrightarrow> loop_started interest tid' t w \<longrightarrow> loop_started interest tid' t w')"
proof -
  from que(1) obtain ep f ac c where ac: "f \<noteq> ac_socket ac" "ac_channel ac \<noteq> s + 1"
    "services w s = Some ((new_loop tid ep f (s + 1))\<lparr>m_pending_tasks := [TAddChannel (ac_channel ac), TUpdateChannel (ac_channel ac)]\<rparr>)"
    "chans w (s + 1) = Some (loop_channel f s)"
    "acceptors w a = Some ac" "ac_service ac = s" "ac_accept_cb ac = Some v"
    "chans w (ac_channel ac) = Some c" "ch_fd c = ac_socket ac" "ch_service c = s"
    "ch_read_callback c = Some (AcceptorOnRead a)" "ch_last_evt_status c = read_mask"
    "interest (kern w) ep = [f \<mapsto> (read_mask, s + 1)]" "bare_channel c"
    unfolding acceptor_queued_def Let_def evt_status_def by blast
  let ?ch = "ac_channel ac" and ?g = "ac_socket ac"
  obtain i where i: "new_loop tid ep f (s + 1) = i" by simp
  have i': "m_owner_tid i = tid" "m_poller i = \<lparr>ep_fd = ep, channel_map = [f \<mapsto> s + 1]\<rparr>"
    "i\<lparr>m_running_pending_tasks := True, m_pending_tasks := []\<rparr> = i\<lparr>m_running_pending_tasks := True\<rparr>"
    "i\<lparr>m_poller := q, m_running_pending_tasks := False\<rparr> = i\<lparr>m_poller := q\<rparr>"
    "i\<lparr>m_running_pending_tasks := False, m_poller := q\<rparr> = i\<lparr>m_poller := q\<rparr>" for q
    by (simp_all add: new_loop_def flip: i)
  note ac = ac [unfolded i]
  let ?i0 = "i\<lparr>m_running_pending_tasks := True\<rparr>"
  let ?w0 = "put_ios s ?i0 w"
  have loop0: "in_loop ?ch c ?i0 ?w0"
    using ac que(2) i' by (simp add: in_loop_def)
  have "interest (kern w) ep ?g = None" using ac(1,13) by simp
  then obtain e k1 where add: "sys_epoll_ctl K ep EPOLL_CTL_ADD ?g (Some (read_mask, ?ch)) (kern w) = ((0, e), k1)"
    and k1: "interest k1 = (interest (kern w))(ep := (interest (kern w) ep)(?g \<mapsto> (read_mask, ?ch)))"
    using epoll_reliableD(2) [OF rel] by (metis prod.collapse)
  let ?p = "\<lparr>ep_fd = ep, channel_map = [f \<mapsto> s + 1, ?g \<mapsto> ?ch]\<rparr>"
  from join_form [OF loop0, of K 0 e k1] add ac(9,10,12) i' obtain l1 where
    t1: "add_channel_in_loop K s ?ch ?w0 = Inr (?w0\<lparr>kern := k1, log_out := l1, services := (services w)(s \<mapsto> ?i0\<lparr>m_poller := ?p\<rparr>)\<rparr>)"
      (is "_ = Inr ?w1") using in_loop_tasks(1) [OF loop0, of K] by (auto simp: put_ios_def i')
  have loop1: "in_loop ?ch c (?i0\<lparr>m_poller := ?p\<rparr>) ?w1"
    using ac que(2) i' by (simp add: in_loop_def put_ios_def)
  from update_channel_form [OF loop1, of K] ac(9,10,12) obtain l2 k2 where
    t2: "update_channel_in_loop K s ?ch ?w1 = Inr (?w1\<lparr>kern := k2, log_out := l2\<rparr>)"
    and k2: "interest k2 = interest k1"
    using in_loop_tasks(2) [OF loop1, of K] k1 by (auto simp: epoll_reliableD(1) [OF rel])
  let ?w2 = "w\<lparr>kern := k2, log_out := l2, services := (services w)(s \<mapsto> i\<lparr>m_poller := ?p\<rparr>)\<rparr>"
  have "run_pending_task (connection_dtor K) (server_task K U s) s w = Inr ?w2"
    using t1 t2 by (simp add: run_pending_task_unfold [OF ac(3)] i' server_task_def exec_task_def get_ios_def put_ios_def)
  moreover have "listening interest read_mask tid s v a ?w2"
    unfolding listening_def Let_def using ac k1 k2 i
    by (intro exI [of _ ep] exI [of _ f] exI [of _ ac] exI [of _ c]) (simp add: evt_status_def)
  moreover have "loop_started interest tid' t ?w2" if t: "t \<noteq> s" "loop_started interest tid' t w" for tid' t
  proof -
    from t(2) obtain e f' where l: "services w t = Some (new_loop tid' e f' (t + 1))" "chans w (t + 1) = Some (loop_channel f' t)"
      "interest (kern w) e = [f' \<mapsto> (read_mask, t + 1)]" by (auto simp: loop_started_def)
    have "e \<noteq> ep"
    proof
      assume "e = ep"
      then have "[f \<mapsto> (read_mask, s + 1)] f' = Some (read_mask, t + 1)" using l(3) ac(13) by (metis fun_upd_same)
      then show False using t(1) by (simp split: if_splits)
    qed
    with l t(1) k1 k2 show ?thesis by (auto simp: loop_started_def)
  qed
  ultimately show ?thesis by (intro exI [of _ ?w2]) simp
qed

lemma mt_main_ok:
  assumes rel: "epoll_reliable K interest" and sock: "sockets_documented K interest" and doc: "descriptors_documented K interest used"
    and evt: "eventfd_documented K counter" "\<And>f k. counter k f < 2 ^ 64 - 1"
    and ok: "fds_ok interest used (kern w)" and r: "r \<noteq> this_tid w"
  shows "\<exists>s v sv w' w''. mt_main h inet_pton junk K r [t1, t2] w = Inr (s, v, w') \<and> this_tid w' = this_tid w \<and> conns w' = conns w \<and>
    servers w' = (servers w)(v \<mapsto> sv) \<and> ts_io_service sv = s \<and> ts_conn_map sv = Map.empty \<and>
    ts_conn_cb sv = Some 1 \<and> ts_read_cb sv = Some 2 \<and> ts_write_cb sv = Some 3 \<and> ts_err_cb sv = Some 4 \<and>
    acceptor_queued interest (\<lambda>ch. [TAddChannel ch, TUpdateChannel ch]) (EPOLLIN OR EPOLLHUP OR EPOLLPRI) (this_tid w) s v (ts_acceptor sv) w' \<and>
    pool_started interest [t1, t2] (ts_service_pool sv) w' \<and> s \<notin> set (sp_services (ts_service_pool sv)) \<and>
    run_pending_task (connection_dtor K) (server_task K (mt_code K) s) s w' = Inr w'' \<and>
    listening interest (EPOLLIN OR EPOLLHUP OR EPOLLPRI) (this_tid w) s v (ts_acceptor sv) w'' \<and>
    map_option ac_addr (acceptors w'' (ts_acceptor sv)) = Some (endpoint_ip_port h inet_pton junk '''' 4001) \<and>
    servers w'' = servers w' \<and> pool_started interest [t1, t2] (ts_service_pool sv) w'' \<and>
    only_new w w' \<and> fds_ok interest used (kern w')"
proof -
  let ?s = "next_addr w" and ?v = "next_addr w + 2"
  from io_service_new_ok [OF rel doc ok refl] obtain ep f k l where
    1: "io_service_new K w = Inr (?s, w\<lparr>next_addr := ?s + 2, kern := k, log_out := l,
       services := (services w)(?s \<mapsto> new_loop (this_tid w) ep f (?s + 1)), chans := (chans w)(?s + 1 \<mapsto> loop_channel f ?s)\<rparr>)"
      (is "_ = Inr (_, ?w0)")
    and k: "interest k = (interest (kern w))(ep := [f \<mapsto> (read_mask, ?s + 1)])" "fds_ok interest used k" by blast
  let ?w1 = "(log_line ll_info '' : '' [4001] (log_line ll_info '' going to run '' [] ?w0))\<lparr>this_tid := r\<rparr>"
  have w1: "fds_ok interest used (kern ?w1)" "loop_started interest (this_tid w) ?s ?w1" "?s + 1 < next_addr ?w1"
    "this_tid ?w1 \<noteq> this_tid w" "?v = next_addr ?w1"
    using k r by (auto simp: loop_started_def log_line_def)
  from tcp_server_new_queued [OF evt sock doc w1, of h inet_pton junk "''''" 4001 2] obtain w2 where
    2: "tcp_server_new h inet_pton junk K '''' 4001 ?s 2 ?w1 = Inr (?v, w2)"
      "acceptor_queued interest (\<lambda>ch. [TAddChannel ch]) 0 (this_tid w) ?s ?v (?v + 1) w2"
      "map_option ac_addr (acceptors w2 (?v + 1)) = Some (endpoint_ip_port h inet_pton junk '''' 4001)"
      "map_option ac_channel (acceptors w2 (?v + 1)) = Some (?v + 2)"
      "next_addr w2 = ?v + 3" "this_tid w2 = r" "conns w2 = conns w" "fds_ok interest used (kern w2)"
      "servers w2 = (servers w)(?v \<mapsto> \<lparr>ts_io_service = ?s, ts_acceptor = ?v + 1, ts_conn_map = Map.empty, ts_conn_cb = None,
       ts_read_cb = None, ts_write_cb = None, ts_err_cb = None, ts_service_pool = io_service_pool_new 2\<rparr>)" "only_new ?w1 w2"
    by (auto simp: log_line_def)
  let ?sv = "\<lparr>ts_io_service = ?s, ts_acceptor = ?v + 1, ts_conn_map = Map.empty, ts_conn_cb = Some 1,
                ts_read_cb = Some 2, ts_write_cb = Some 3, ts_err_cb = Some 4, ts_service_pool = io_service_pool_new 2\<rparr>"
  let ?w3 = "put_srv ?v ?sv w2"
  have two: "length [t1, t2] = 2" by simp
  have w3: "fds_ok interest used (kern ?w3)" "[t1, t2] \<noteq> []" "length [t1, t2] < size_mod" "servers ?w3 ?v = Some ?sv"
    "ts_service_pool ?sv = io_service_pool_new (length [t1, t2])"
    "acceptor_queued interest (\<lambda>ch. [TAddChannel ch]) 0 (this_tid w) ?s ?v (ts_acceptor ?sv) ?w3" "this_tid ?w3 \<noteq> this_tid w"
    "?s + 1 < next_addr ?w3" "map_option ac_channel (acceptors ?w3 (ts_acceptor ?sv)) = Some (?v + 2)" "?v + 2 < next_addr ?w3"
    using 2 r unfolding two by (simp_all add: put_srv_def size_mod_def)
  from server_ready_queued [OF evt rel sock doc w3] obtain p w4 where
    3: "server_ready K [t1, t2] ?v ?w3 = Inr w4" "servers w4 = (servers ?w3)(?v \<mapsto> ?sv\<lparr>ts_service_pool := p\<rparr>)"
      "pool_started interest [t1, t2] p w4" "\<forall>t \<in> set (sp_services p). next_addr ?w3 \<le> t"
      "acceptor_queued interest (\<lambda>ch. [TAddChannel ch, TUpdateChannel ch]) read_mask (this_tid w) ?s ?v (?v + 1) w4"
      "acceptors w4 = acceptors ?w3" "conns w4 = conns ?w3" "this_tid w4 = r" "only_new ?w3 w4" "fds_ok interest used (kern w4)"
    using 2(6) by (auto simp: put_srv_def)
  let ?w5 = "log_line ll_info '' running '' []
    ((log_line ll_info ''####################### thread wait for exit ####################### '' [] w4)\<lparr>this_tid := this_tid w\<rparr>)"
  have main: "mt_main h inet_pton junk K r [t1, t2] w = Inr (?s, ?v, ?w5)"
    using 1 2(1,9) 3(1) by (simp add: mt_main_def mt_run_srv_def get_srv_def echo_set_callbacks_def srv_set_conn_callback_def
        srv_set_read_callback_def srv_set_write_callback_def srv_set_error_callback_def)
  have pool: "pool_started interest [t1, t2] p ?w5"
    using 3(3) by (simp add: pool_started_def loop_started_def log_line_def)
  have w5: "acceptor_queued interest (\<lambda>ch. [TAddChannel ch, TUpdateChannel ch]) read_mask (this_tid w) ?s ?v (?v + 1) ?w5"
    "this_tid ?w5 = this_tid w" using 3(5) by (simp_all add: log_line_def)
  from queued_listens [OF rel w5] obtain w' where
    4: "run_pending_task (connection_dtor K) (server_task K (mt_code K) ?s) ?s ?w5 = Inr w'"
      "listening interest read_mask (this_tid w) ?s ?v (?v + 1) w'" "servers w' = servers ?w5" "acceptors w' = acceptors ?w5"
      "\<And>tid t. t \<noteq> ?s \<Longrightarrow> loop_started interest tid t ?w5 \<Longrightarrow> loop_started interest tid t w'" by blast
  have s: "?s \<notin> set (sp_services p)" using 3(4) 2(5) by (fastforce simp: put_srv_def)
  have "pool_started interest [t1, t2] p w'"
    by (rule pool_started_mono [OF pool], rule 4(5)) (use s in auto)
  moreover have "only_new w ?w5"
    using 2(10) 3(9) by (auto simp: only_new_def put_srv_def log_line_def)
  ultimately show ?thesis
    using main pool w5 4 s 2(3,7,9) 3(2,6,7,10)
    by (intro exI [of _ ?s] exI [of _ ?v] exI [of _ "?sv\<lparr>ts_service_pool := p\<rparr>"] exI [of _ ?w5] exI [of _ w'])
      (simp add: put_srv_def log_line_def read_mask_def)
qed


text \<open>The counters of \<open>Ref_System\<close>, which have no maximum, seen up to the maximum of an \<open>eventfd\<close>.\<close>

definition rs_bounded_counter :: "ref_sys \<Rightarrow> fd \<Rightarrow> nat" where
  "rs_bounded_counter k f = min (rs_counter k f) (2 ^ 64 - 2)"

lemma ref_bounded_eventfd: "eventfd_documented ref_kernel rs_bounded_counter"
proof -
  have "rs_bounded_counter (snd (sys_write64 ref_kernel f x k)) = (rs_bounded_counter k)(f := rs_bounded_counter k f + unat x)"
    if "rs_bounded_counter k f + unat x < 2 ^ 64 - 1" for f x k
    using that by (auto simp: rs_bounded_counter_def min_def fun_eq_iff split: if_splits)
  moreover have "rs_bounded_counter (snd (sys_read64 ref_kernel f k)) = (rs_bounded_counter k)(f := 0)" if "rs_counter k f \<noteq> 0" for f k
    using that by (auto simp: rs_bounded_counter_def fun_eq_iff)
  moreover have "rs_bounded_counter k f = 0 \<longleftrightarrow> rs_counter k f = 0" for k f
    by (auto simp: rs_bounded_counter_def min_def)
  ultimately show ?thesis by (auto simp: eventfd_documented_def)
qed


section \<open>The programs\<close>

text \<open>
  \<open>main\<close> with its loop, for at most \<open>n\<close> rounds. The loop is the last statement of \<^verbatim>\<open>echo.cpp\<close>; in \<^verbatim>\<open>echo_mt.cpp\<close> the
  main thread then joins the other one, which changes nothing here, and writes a line.
\<close>

definition echo_program ::
  "nat \<Rightarrow> byteorder_t \<Rightarrow> (string \<Rightarrow> 32 word option) \<Rightarrow> 32 word \<Rightarrow> 'k kernel \<Rightarrow> nat list \<Rightarrow> 'k srv_state \<Rightarrow> 'k srv_state res option" where
  "echo_program n h inet_pton junk K tids w =
     (case echo_main h inet_pton junk K tids w of
        Inl e \<Rightarrow> Some (Inl e)
      | Inr (ios, serv, w1) \<Rightarrow> server_run n h K (echo_code K) ios w1)"

definition mt_program ::
  "nat \<Rightarrow> byteorder_t \<Rightarrow> (string \<Rightarrow> 32 word option) \<Rightarrow> 32 word \<Rightarrow> 'k kernel \<Rightarrow> nat \<Rightarrow> nat list \<Rightarrow> 'k srv_state \<Rightarrow> 'k srv_state res option" where
  "mt_program n h inet_pton junk K r tids w =
     (case mt_main h inet_pton junk K r tids w of
        Inl e \<Rightarrow> Some (Inl e)
      | Inr (ios, serv, w1) \<Rightarrow>
          map_option (\<lambda>res. rbind res (\<lambda>w2. Inr (log_line ll_info '' exit '' [] w2))) (server_run n h K (mt_code K) ios w1))"

text \<open>On any system: what the constructors leave of a loop that exists already.\<close>

lemma join_next_addr: "join_to_service K ch w = Inr w' \<Longrightarrow> next_addr w' = next_addr w"
  by (auto simp: join_to_service_def add_channel_def add_channel_in_loop_def poller_add_channel_def queue_task_def wake_me_up_def
      must_run_in_loop_def assert_channel_def log_line_def put_ios_def kcall_unfold res_simps Let_def split_beta
      split: if_splits)

lemma next_addr_frame [simp]:
  "next_addr (put_srv v sv w) = next_addr w" "next_addr (put_acc a ac u) = next_addr u" "next_addr (put_chan ch c x) = next_addr x"
  by (simp_all add: put_srv_def put_acc_def put_chan_def)

lemma acceptor_new_view:
  fixes w :: "('k, 'm) acc_state_scheme"
  assumes "acceptor_new K addr s w = Inr (a, w')"
  shows "view w' = view w \<and> next_addr w \<le> next_addr w'"
proof -
  from assms obtain ch c w1 where "join_to_service K ch (put_chan ch c w1) = Inr w'" "view w1 = view w" "next_addr w1 = next_addr w + 2"
    by (auto simp: acceptor_new_def Let_def split_beta res_simps socket_create_def socket_bind_def set_tcp_nodelay_def set_reuse_addr_def
        set_recv_buff_size_def kcall_unfold)
  then show ?thesis
    using evt_channel_view(1) join_next_addr by fastforce
qed

lemma tcp_server_new_view:
  fixes w :: "('k, 'm) srv_state_scheme"
  assumes "tcp_server_new h inet_pton junk K ip port s n w = Inr (v, w')"
  shows "view w' = view w \<and> next_addr w \<le> next_addr w'"
  using assms
  by (auto simp: tcp_server_new_def Let_def res_simps set_accept_cb_def dest!: acceptor_new_view)

lemma server_ready_view:
  fixes w :: "('k, 'm) srv_state_scheme"
  assumes "server_ready K tids v w = Inr w'" and "s < next_addr w"
  shows "map_option ios_ident (services w' s) = map_option ios_ident (services w s)"
proof -
  from assms(1) obtain sv p w1 where run: "pool_run K tids (ts_service_pool sv) w = Inr (p, w1)"
    and start: "acceptor_start K (ts_acceptor sv) (put_srv v (sv\<lparr>ts_service_pool := p\<rparr>) w1) = Inr w'"
    by (auto simp: server_ready_def res_simps)
  from run have "services w1 s = services w s"
    using assms(2) by (auto simp: pool_run_def res_simps Let_def dest!: start_threads_effect)
  moreover have "view w' = view w1"
    using start by (auto simp: acceptor_start_def res_simps socket_listen_def kcall_unfold dest!: evt_channel_view(3))
  then have "map_option ios_ident (services w' s) = map_option ios_ident (services w1 s)"
    unfolding view_def by (metis fst_conv)
  ultimately show ?thesis by simp
qed

text \<open>A server made on a new loop, in any thread, leaves the loop running.\<close>

lemma server_on_new_loop:
  fixes w :: "('k, 'm) srv_state_scheme"
  assumes new: "io_service_new K w = Inr (s, w1)" and same: "services w2 = services w1" "next_addr w2 = next_addr w1"
    and srv: "tcp_server_new h inet_pton junk K ip port s n w2 = Inr (v, w3)"
    and keep: "services w4 = services w3" "next_addr w4 = next_addr w3" and ready: "server_ready K tids v w4 = Inr w'"
  shows "\<exists>i. services w' s = Some i \<and> \<not> m_quit i"
proof -
  from io_service_new_effect [OF new] obtain i where i: "s < next_addr w1" "services w1 s = Some i" "\<not> m_quit i" by auto
  note 3 = tcp_server_new_view [OF srv]
  then have "map_option ios_ident (services w3 s) = map_option ios_ident (services w2 s)"
    unfolding view_def by (metis fst_conv)
  with server_ready_view [OF ready, of s] 3 i same keep
  have "map_option ios_ident (services w' s) = Some (ios_ident i)" by simp
  with i(3) show ?thesis by (auto simp: ios_ident_def)
qed

lemma echo_main_loop:
  assumes "echo_main h inet_pton junk K tids w = Inr (s, v, w')"
  shows "\<exists>i. services w' s = Some i \<and> \<not> m_quit i"
proof -
  from assms obtain w1 w2 sv where "io_service_new K w = Inr (s, w1)" "tcp_server_new h inet_pton junk K '''' 4001 s 1 w1 = Inr (v, w2)"
    "server_ready K tids v (put_srv v (echo_set_callbacks sv) (log_line ll_info '' : '' [4001] (log_line ll_info '' runing '' [] w2))) = Inr w'"
    by (auto simp: echo_main_def res_simps Let_def)
  from server_on_new_loop [OF this(1) refl refl this(2) _ _ this(3)] show ?thesis
    by (simp add: put_srv_def log_line_def)
qed

lemma mt_main_loop:
  assumes "mt_main h inet_pton junk K r tids w = Inr (s, v, w')"
  shows "\<exists>i. services w' s = Some i \<and> \<not> m_quit i"
proof -
  from assms obtain w1 w3 w4 sv where "io_service_new K w = Inr (s, w1)"
    "tcp_server_new h inet_pton junk K '''' 4001 s 2
       ((log_line ll_info '' : '' [4001] (log_line ll_info '' going to run '' [] w1))\<lparr>this_tid := r\<rparr>) = Inr (v, w3)"
    "server_ready K tids v (put_srv v (echo_set_callbacks sv) w3) = Inr w4" "services w' = services w4"
    by (auto simp: mt_main_def mt_run_srv_def res_simps Let_def)
  from server_on_new_loop [OF this(1) _ _ this(2) _ _ this(3)] this(4) show ?thesis
    by (simp add: put_srv_def log_line_def)
qed

text \<open>
  Neither program ever returns from \<open>main\<close>, on any system and however many rounds its loop makes, unless by a
  failure: nothing tells its loop to quit.
\<close>

theorem echo_programs_run_on:
  "(echo_program n h inet_pton junk K tids w = None \<or> (\<exists>e. echo_program n h inet_pton junk K tids w = Some (Inl e))) \<and>
   (mt_program n h inet_pton junk K r tids w = None \<or> (\<exists>e. mt_program n h inet_pton junk K r tids w = Some (Inl e)))"
proof
  show "echo_program n h inet_pton junk K tids w = None \<or> (\<exists>e. echo_program n h inet_pton junk K tids w = Some (Inl e))"
    using loop_never_returns [of "echo_code K" K _ _ _ n h]
    by (force simp: echo_program_def split: sum.splits dest!: echo_main_loop)
  show "mt_program n h inet_pton junk K r tids w = None \<or> (\<exists>e. mt_program n h inet_pton junk K r tids w = Some (Inl e))"
    using loop_never_returns [of "mt_code K" K _ _ _ n h]
    by (force simp: mt_program_def split: sum.splits dest!: mt_main_loop)
qed

end
