(* ===== verification/Server_Stop.thy ===== *)
theory Server_Stop
  imports Server_Start
begin

unbundle bit_operations_syntax

text \<open>
  The destructors of the classes around \<open>tcp_server\<close> (\<^verbatim>\<open>socket.cpp\<close>, \<^verbatim>\<open>acceptor.cpp\<close>,
  \<^verbatim>\<open>service_thread.cpp\<close>, \<^verbatim>\<open>io_service_pool.cpp\<close>, \<^verbatim>\<open>tcp_server.cpp\<close>), whose bodies are empty: what happens
  is the destruction of the members, in the reverse of the order of their declarations; and the
  end of \<open>thread_func\<close>, where a loop is destroyed. Properties: a server that was stopped leaves its
  loop as it was before the server was made; one that was not stopped, or that has connections,
  leaves pointers to destroyed channels in the pollers.
\<close>

section \<open>Destructors\<close>

definition socket_dtor :: "'k kernel \<Rightarrow> fd \<Rightarrow> ('k, 'm) base_state_scheme \<Rightarrow> ('k, 'm) base_state_scheme" where
  "socket_dtor K m_fd w = socket_close K m_fd w"

text \<open>The channel is destroyed first, the socket later; neither tells the service.\<close>

definition acceptor_dtor ::
  "'k kernel \<Rightarrow> ptr \<Rightarrow> ('k, 'm) acc_state_scheme \<Rightarrow> ('k, 'm) acc_state_scheme res" where
  "acceptor_dtor K a w =
     rbind (get_acc a w) (\<lambda>ac.
     let w1 = w\<lparr>chans := (chans w)(ac_channel ac := None)\<rparr>;
         w2 = socket_dtor K (ac_socket ac) w1
     in Inr (w2\<lparr>acceptors := (acceptors w2)(a := None)\<rparr>))"

text \<open>
  \<open>m_thread\<close> deletes its \<open>boost::thread\<close>; \<open>TD\<close> is what the destructor of that class does, which depends on
  the version of boost: it detaches the thread, or it ends the program.
\<close>

definition service_thread_dtor ::
  "(nat \<Rightarrow> ('k, 'm) ios_state_scheme \<Rightarrow> ('k, 'm) ios_state_scheme res) \<Rightarrow> service_thread \<Rightarrow>
     ('k, 'm) ios_state_scheme \<Rightarrow> ('k, 'm) ios_state_scheme res" where
  "service_thread_dtor TD t w = TD (fst t) w"

text \<open>\<open>m_threads\<close> deletes its elements; \<open>m_services\<close> does not own the loops it points to.\<close>

definition pool_dtor ::
  "(nat \<Rightarrow> ('k, 'm) ios_state_scheme \<Rightarrow> ('k, 'm) ios_state_scheme res) \<Rightarrow> io_service_pool \<Rightarrow>
     ('k, 'm) ios_state_scheme \<Rightarrow> ('k, 'm) ios_state_scheme res" where
  "pool_dtor TD p w = run_all (service_thread_dtor TD) (sp_threads p) w"

text \<open>The destructor of \<open>m_conn_map\<close> destroys its pointers in an order that is not specified: \<open>fds\<close>.\<close>

definition conn_map_dtor ::
  "'k kernel \<Rightarrow> fd list \<Rightarrow> (fd \<rightharpoonup> ptr) \<Rightarrow> ('k, 'm) conn_state_scheme \<Rightarrow> ('k, 'm) conn_state_scheme res" where
  "conn_map_dtor K fds cm w =
     run_all (\<lambda>f u. case cm f of None \<Rightarrow> Inr u | Some c \<Rightarrow> release (connection_dtor K) c u) fds w"

definition tcp_server_dtor ::
  "(nat \<Rightarrow> ('k, 'm) srv_state_scheme \<Rightarrow> ('k, 'm) srv_state_scheme res) \<Rightarrow> 'k kernel \<Rightarrow> fd list \<Rightarrow> ptr \<Rightarrow>
     ('k, 'm) srv_state_scheme \<Rightarrow> ('k, 'm) srv_state_scheme res" where
  "tcp_server_dtor TD K fds v w =
     rbind (get_srv v w) (\<lambda>sv.
     rbind (pool_dtor TD (ts_service_pool sv) w) (\<lambda>w1.
     rbind (conn_map_dtor K fds (ts_conn_map sv) w1) (\<lambda>w2.
     rbind (acceptor_dtor K (ts_acceptor sv) w2) (\<lambda>w3.
     Inr (w3\<lparr>servers := (servers w3)(v := None)\<rparr>)))))"

text \<open>
  The rest of \<open>thread_func\<close> of thread \<open>t\<close>, which \<open>join\<close> waits for: the loop, from its wait for events or from the test
  of \<open>m_quit\<close>, for at most \<open>n\<close> further rounds, and the destruction of the loop. The joining thread then goes on.
\<close>

definition service_thread_join ::
  "nat \<Rightarrow> 'k kernel \<Rightarrow> (ptr \<Rightarrow> ('k, 'm) ios_state_scheme \<Rightarrow> ('k, 'm) ios_state_scheme res) \<Rightarrow>
   (task \<Rightarrow> ('k, 'm) ios_state_scheme \<Rightarrow> ('k, 'm) ios_state_scheme res) \<Rightarrow>
   (ptr \<Rightarrow> ('k, 'm) ios_state_scheme \<Rightarrow> ('k, 'm) ios_state_scheme res) \<Rightarrow> bool \<Rightarrow> service_thread \<Rightarrow>
     ('k, 'm) ios_state_scheme \<Rightarrow> ('k, 'm) ios_state_scheme res option" where
  "service_thread_join n K D X P waiting t w =
     (let (tid, s) = t; w0 = w\<lparr>this_tid := tid\<rparr>
      in case (if waiting then run_round K D X P s w0 else Inr w0) of
           Inl e \<Rightarrow> Some (Inl e)
         | Inr w1 \<Rightarrow> map_option (\<lambda>r. rbind r (\<lambda>w2. rbind (io_service_dtor K s w2) (\<lambda>w3. Inr (w3\<lparr>this_tid := this_tid w\<rparr>))))
             (run n K D X P s w1))"

section \<open>A server that was stopped\<close>

text \<open>The manual on \<open>close\<close>: in other interest sets than its own, nothing but the entry of the descriptor can go.\<close>

definition close_documented :: "'k kernel \<Rightarrow> ('k \<Rightarrow> fd \<Rightarrow> fd \<rightharpoonup> epoll_event) \<Rightarrow> bool" where
  "close_documented K interest \<longleftrightarrow>
     (\<forall>f ep k. ep \<noteq> f \<longrightarrow> interest (snd (sys_close K f k)) ep \<in> {interest k ep, (interest k ep)(f := None)})"

lemma close_unregistered:
  assumes "close_documented K interest" and "ep \<noteq> f" and "interest k ep f = None"
  shows "interest (snd (sys_close K f k)) ep = interest k ep"
proof -
  have "(interest k ep)(f := None) = interest k ep" using assms(3) by (simp add: fun_upd_idem)
  moreover have "interest (snd (sys_close K f k)) ep \<in> {interest k ep, (interest k ep)(f := None)}"
    using assms(1,2) unfolding close_documented_def by blast
  ultimately show ?thesis by simp
qed

text \<open>\<open>stop\<close> in the thread of the loop.\<close>

lemma acceptor_stop_form:
  assumes rel: "epoll_reliable K interest" and a: "acceptors w a = Some ac" and loop: "in_loop (ac_channel ac) c i w"
    and c: "ch_fd c = ac_socket ac" and reg: "interest (kern w) (ep_fd (m_poller i)) (ac_socket ac) \<noteq> None"
  shows "\<exists>k l c'. acceptor_stop K a w = Inr (w\<lparr>kern := k, log_out := l, chans := (chans w)(ac_channel ac \<mapsto> c'),
      services := (services w)(ch_service c \<mapsto> unregister (ac_socket ac) i)\<rparr>) \<and>
    interest k = (interest (kern w))(ep_fd (m_poller i) := (interest (kern w) (ep_fd (m_poller i)))(ac_socket ac := None))"
proof -
  let ?ch = "ac_channel ac" and ?g = "ac_socket ac" and ?ep = "ep_fd (m_poller i)"
  let ?c = "c\<lparr>ch_last_evt_status := ch_last_evt_status c AND (EPOLLIN OR EPOLLHUP OR EPOLLPRI)\<rparr>"
  let ?k = "snd (sys_epoll_ctl K ?ep EPOLL_CTL_MOD ?g (Some (ch_last_evt_status ?c, ?ch)) (kern w))"
  obtain l1 where 1: "enable_read K ?ch False w = Inr (w\<lparr>kern := ?k, log_out := l1, chans := (chans w)(?ch \<mapsto> ?c)\<rparr>)"
      (is "_ = Inr ?w1")
    using enable_read_form [OF loop, of ?c False K] c by auto
  have k: "interest ?k = (interest (kern w))(?ep := (interest (kern w) ?ep)(?g \<mapsto> (ch_last_evt_status ?c, ?ch)))"
    by (rule epoll_reliableD(1) [OF rel reg])
  then have "interest ?k ?ep ?g \<noteq> None" by simp
  from epoll_reliableD(3) [OF rel this] k obtain e k' where
    del: "sys_epoll_ctl K ?ep EPOLL_CTL_DEL ?g None ?k = ((0, e), k')"
    and k': "interest k' = (interest (kern w))(?ep := (interest (kern w) ?ep)(?g := None))"
    by (metis (no_types, lifting) fun_upd_same fun_upd_upd prod.collapse)
  have "in_loop ?ch ?c i ?w1" using loop by (simp add: in_loop_def)
  from remove_form [OF this, of K 0 e k'] del c obtain l where
    "remove_from_service K ?ch ?w1 = Inr (?w1\<lparr>kern := k', log_out := l, services := (services w)(ch_service c \<mapsto> unregister ?g i)\<rparr>)"
    by (auto simp: unregister_def)
  with 1 k' show ?thesis
    by (intro exI [of _ k'] exI [of _ l] exI [of _ ?c]) (simp add: acceptor_stop_def get_acc_def a)
qed

text \<open>The destructor of a server without connections.\<close>

lemma tcp_server_dtor_empty:
  assumes "servers w v = Some sv" and "ts_conn_map sv = Map.empty" and "acceptors w (ts_acceptor sv) = Some ac"
    and detach: "\<And>t u. TD t u = Inr u"
  shows "tcp_server_dtor TD K [] v w = Inr (w\<lparr>chans := (chans w)(ac_channel ac := None),
     kern := snd (sys_close K (ac_socket ac) (kern w)), acceptors := (acceptors w)(ts_acceptor sv := None),
     servers := (servers w)(v := None)\<rparr>)"
proof -
  have "run_all (service_thread_dtor TD) ts w = Inr w" for ts
    by (induction ts) (simp_all add: service_thread_dtor_def detach)
  with assms(1-3) show ?thesis
    by (simp add: tcp_server_dtor_def get_srv_def pool_dtor_def conn_map_dtor_def acceptor_dtor_def get_acc_def socket_dtor_def
        socket_close_def kcall_unfold Let_def)
qed

text \<open>
  C20. A server without connections, listening in the loop of the calling thread, is stopped and then
  destroyed: the loop is as it was before the server was made, with its wake-up descriptor
  registered and nothing else; the server, the acceptor and its channel are gone, and the
  listening descriptor is closed, after it was taken out of the interest set. The loops of the
  pool are not touched: nothing tells them to quit.
\<close>

theorem server_stop_destroy:
  assumes rel: "epoll_reliable K interest" and close: "close_documented K interest" and self: "\<And>ep. interest (kern w) ep ep = None"
    and lst: "listening interest m (this_tid w) s v a w"
    and sv: "servers w v = Some sv" "ts_acceptor sv = a" "ts_conn_map sv = Map.empty"
    and detach: "\<And>t u. TD t u = Inr u"
  shows "\<exists>ac w1 w' k. acceptors w a = Some ac \<and> server_stop K v w = Inr w1 \<and> tcp_server_dtor TD K [] v w1 = Inr w' \<and>
     loop_started interest (this_tid w) s w' \<and> servers w' = (servers w)(v := None) \<and> acceptors w' = (acceptors w)(a := None) \<and>
     chans w' = (chans w)(ac_channel ac := None) \<and> conns w' = conns w \<and> (\<forall>t. t \<noteq> s \<longrightarrow> services w' t = services w t) \<and>
     kern w' = snd (sys_close K (ac_socket ac) k) \<and> (\<forall>ep. interest (kern w) ep (ac_socket ac) = None \<longrightarrow> interest k ep = interest (kern w) ep)"
proof -
  from lst obtain ep f ac c where ac: "f \<noteq> ac_socket ac" "ac_channel ac \<noteq> s + 1"
    "services w s = Some ((new_loop (this_tid w) ep f (s + 1))\<lparr>m_poller :=
       \<lparr>ep_fd = ep, channel_map = [f \<mapsto> s + 1, ac_socket ac \<mapsto> ac_channel ac]\<rparr>\<rparr>)" (is "_ = Some ?i")
    "chans w (s + 1) = Some (loop_channel f s)" "acceptors w a = Some ac"
    "chans w (ac_channel ac) = Some c" "ch_fd c = ac_socket ac" "ch_service c = s"
    "interest (kern w) ep = [f \<mapsto> (read_mask, s + 1), ac_socket ac \<mapsto> (m, ac_channel ac)]"
    unfolding listening_def Let_def by blast
  let ?g = "ac_socket ac" and ?ch = "ac_channel ac"
  have ep: "ep \<noteq> ?g" using self [of ep] ac(9) by auto
  have "in_loop ?ch c ?i w" using ac by (simp add: in_loop_def new_loop_def)
  from acceptor_stop_form [OF rel ac(5) this ac(7)] ac(8,9) obtain k l c' where
    stop: "acceptor_stop K a w = Inr (w\<lparr>kern := k, log_out := l, chans := (chans w)(?ch \<mapsto> c'),
      services := (services w)(s \<mapsto> unregister ?g ?i)\<rparr>)" (is "_ = Inr ?w1")
    and k: "interest k = (interest (kern w))(ep := (interest (kern w) ep)(?g := None))" by auto
  have w1: "servers ?w1 v = Some sv" "acceptors ?w1 (ts_acceptor sv) = Some ac" using sv ac(5) by simp_all
  let ?w2 = "?w1\<lparr>chans := (chans w)(?ch := None), kern := snd (sys_close K ?g k), acceptors := (acceptors w)(a := None),
    servers := (servers w)(v := None)\<rparr>"
  have dtor: "tcp_server_dtor TD K [] v ?w1 = Inr ?w2"
    using tcp_server_dtor_empty [OF w1(1) sv(3) w1(2), of TD K] detach sv(2) by simp
  have g: "interest k ep = [f \<mapsto> (read_mask, s + 1)]"
    using ac(1,9) k by (simp add: fun_upd_twist)
  have "interest (snd (sys_close K ?g k)) ep = interest k ep"
    by (rule close_unregistered [OF close ep]) (use ac(1) g in simp)
  moreover have "unregister ?g ?i = new_loop (this_tid w) ep f (s + 1)"
    using ac(1) by (simp add: unregister_def new_loop_def fun_upd_twist)
  ultimately have "loop_started interest (this_tid w) s ?w2"
    unfolding loop_started_def using ac(2,4) g by (intro exI [of _ ep] exI [of _ f]) simp
  moreover have "interest k x = interest (kern w) x" if "interest (kern w) x ?g = None" for x
    using that k by (auto simp: fun_upd_idem)
  ultimately show ?thesis
    using dtor stop ac(5) sv
    by (intro exI [of _ ac] exI [of _ ?w1] exI [of _ ?w2] exI [of _ k]) (simp add: server_stop_def get_srv_Some)
qed

text \<open>A server at address 30 whose acceptor, at 40, listens on descriptor 7 in the loop at address 1.\<close>

definition stop_state :: "ref_sys srv_state" where
  "stop_state = start_state\<lparr>
     kern := ref_init\<lparr>rs_interest := (\<lambda>_. Map.empty)(3 := [4 \<mapsto> (read_mask, 2), 7 \<mapsto> (read_mask, 41)])\<rparr>,
     chans := [2 \<mapsto> loop_channel 4 1, 41 \<mapsto> (set_read_callback (AcceptorOnRead 40) (evt_channel_new 7 1 ''acceptor-chnl''))
       \<lparr>ch_last_evt_status := read_mask\<rparr>],
     services := [1 \<mapsto> (new_loop 1 3 4 2)\<lparr>m_poller := \<lparr>ep_fd = 3, channel_map = [4 \<mapsto> 2, 7 \<mapsto> 41]\<rparr>\<rparr>],
     acceptors := [40 \<mapsto> \<lparr>ac_service = 1, ac_socket = 7, ac_accept_cb = Some 30, ac_addr = endpoint_port lite_endian 4001, ac_channel = 41\<rparr>],
     servers := [30 \<mapsto> sample_srv\<lparr>ts_conn_map := Map.empty\<rparr>]\<rparr>"

lemma ref_close_documented: "close_documented ref_kernel rs_interest"
  by (simp add: close_documented_def)

lemma stop_state_listening: "listening rs_interest read_mask 1 1 30 40 stop_state"
  unfolding listening_def Let_def
  by (rule exI [of _ 3], rule exI [of _ 4],
      rule exI [of _ "\<lparr>ac_service = 1, ac_socket = 7, ac_accept_cb = Some 30, ac_addr = endpoint_port lite_endian 4001, ac_channel = 41\<rparr>"],
      rule exI [of _ "(set_read_callback (AcceptorOnRead 40) (evt_channel_new 7 1 ''acceptor-chnl''))\<lparr>ch_last_evt_status := read_mask\<rparr>"])
    (simp add: stop_state_def bare_channel_def set_read_callback_def evt_channel_new_def evt_status_def numeral_2_eq_2)

theorem server_stop_destroy_witness:
  "\<exists>w1 w'. server_stop ref_kernel 30 stop_state = Inr w1 \<and> tcp_server_dtor (\<lambda>_. Inr) ref_kernel [] 30 w1 = Inr w' \<and>
     loop_started rs_interest 1 1 w' \<and> chans w' 41 = None"
proof -
  have "rs_interest (kern stop_state) ep ep = None" for ep
    by (simp add: stop_state_def)
  moreover have "listening rs_interest read_mask (this_tid stop_state) 1 30 40 stop_state" "this_tid stop_state = 1"
    "servers stop_state 30 = Some (sample_srv\<lparr>ts_conn_map := Map.empty\<rparr>)" "ts_acceptor (sample_srv\<lparr>ts_conn_map := Map.empty\<rparr>) = 40"
    "map_option ac_channel (acceptors stop_state 40) = Some 41"
    using stop_state_listening by (simp_all add: stop_state_def start_state_def sample_srv_def)
  ultimately show ?thesis
    using server_stop_destroy [OF ref_epoll_reliable ref_close_documented, of stop_state read_mask 1 30 40
        "sample_srv\<lparr>ts_conn_map := Map.empty\<rparr>" "\<lambda>_. Inr"] by fastforce
qed

section \<open>A server that was not stopped\<close>

text \<open>
  A server is destroyed that was not stopped and has a connection. Its loop and the loop of the
  connection still have the descriptors in the maps of their pollers, with pointers to channels
  that are destroyed; the descriptors are closed, so that the system may hand out the same
  numbers again.
\<close>

theorem server_dtor_dangles:
  assumes sv: "servers w v = Some sv" "ts_conn_map sv = [cn_socket cn \<mapsto> c]" and ac: "acceptors w (ts_acceptor sv) = Some ac"
    and conn: "conns w c = Some cn" "refs w c = 1" and detach: "\<And>t u. TD t u = Inr u"
  shows "\<exists>w'. tcp_server_dtor TD K [cn_socket cn] v w = Inr w' \<and> services w' = services w \<and> conns w' = (conns w)(c := None) \<and>
     chans w' = (chans w)(cn_channle cn := None, ac_channel ac := None) \<and> servers w' = (servers w)(v := None) \<and>
     kern w' = snd (sys_close K (ac_socket ac) (snd (sys_close K (cn_socket cn) (kern w))))"
proof -
  have "run_all (service_thread_dtor TD) ts w = Inr w" for ts
    by (induction ts) (simp_all add: service_thread_dtor_def detach)
  with assms(1-5) show ?thesis
    by (simp add: tcp_server_dtor_def get_srv_def pool_dtor_def conn_map_dtor_def acceptor_dtor_def get_acc_def socket_dtor_def
        socket_close_def kcall_unfold Let_def last_release)
qed

text \<open>
  The destroyed server is still the receiver of the close callback of a connection that something
  else keeps alive, such as a queued callback: when that connection ends, \<open>on_remove_conn\<close> is called
  on it.
\<close>

theorem close_after_dtor_dangles:
  assumes "conns w c = Some cn" and "servers w v = None"
  shows "on_remove_conn K v c w = Inl Dangling"
  using assms by (simp add: on_remove_conn_def get_conn_def conn_map_erase_def get_srv_def acquire_def)

section \<open>The end of a thread\<close>

lemma io_service_dtor_form:
  assumes rel: "epoll_reliable K interest"
    and s: "services w s = Some ((new_loop (this_tid w) ep f (s + 1))\<lparr>m_quit := True\<rparr>)" and c: "chans w (s + 1) = Some (loop_channel f s)"
    and reg: "interest (kern w) ep = [f \<mapsto> (read_mask, s + 1)]"
  shows "\<exists>k l. io_service_dtor K s w = Inr (w\<lparr>kern := snd (sys_close K ep k), log_out := l, chans := (chans w)(s + 1 := None),
      services := (services w)(s := None)\<rparr>) \<and> interest k = (interest (kern w))(ep := Map.empty)"
proof -
  let ?i = "(new_loop (this_tid w) ep f (s + 1))\<lparr>m_quit := True\<rparr>"
  have "interest (kern w) ep f \<noteq> None" using reg by simp
  from epoll_reliableD(3) [OF rel this] reg obtain e k where
    del: "sys_epoll_ctl K ep EPOLL_CTL_DEL f None (kern w) = ((0, e), k)" and k: "interest k = (interest (kern w))(ep := Map.empty)"
    by (metis fun_upd_idem fun_upd_upd prod.collapse)
  have loop: "in_loop (s + 1) (loop_channel f s) ?i w"
    using s c by (simp add: in_loop_def new_loop_def)
  from remove_form [OF loop, of K 0 e k] del obtain l where
    "remove_from_service K (s + 1) w = Inr (w\<lparr>kern := k, log_out := l,
       services := (services w)(s \<mapsto> ?i\<lparr>m_poller := \<lparr>ep_fd = ep, channel_map = Map.empty\<rparr>\<rparr>)\<rparr>)"
    by (auto simp: new_loop_def)
  with s k show ?thesis
    by (intro exI [of _ k] exI [of _ l]) (simp add: io_service_dtor_def get_ios_def poller_dtor_def kcall_unfold Let_def new_loop_def)
qed


text \<open>A loop of thread 5 at address 1, waiting for events.\<close>

definition quit_state :: "ref_sys srv_state" where
  "quit_state = start_state\<lparr>kern := ref_init\<lparr>rs_interest := (\<lambda>_. Map.empty)(3 := [4 \<mapsto> (read_mask, 2)])\<rparr>,
     chans := [2 \<mapsto> loop_channel 4 1], services := [1 \<mapsto> new_loop 5 3 4 2]\<rparr>"


end
