(* ===== verification/Client_Life.thy ===== *)
theory Client_Life
  imports Server_Stop
begin

unbundle bit_operations_syntax

text \<open>
  The life of a client of the echo servers, over the rounds of two loops: the loop of the acceptor
  accepts the descriptor, the loop of the pool whose turn it is registers it, returns what it
  receives in any number of rounds, and ends the connection when the peer closes its side. The
  theorems compose those on the single handlers.
\<close>

section \<open>Rounds\<close>

text \<open>The manual: waiting, accepting, receiving and sending touch no interest set.\<close>

definition transfer_documented :: "'k kernel \<Rightarrow> ('k \<Rightarrow> fd \<Rightarrow> fd \<rightharpoonup> epoll_event) \<Rightarrow> bool" where
  "transfer_documented K interest \<longleftrightarrow>
     (\<forall>ep n t k. interest (snd (sys_epoll_wait K ep n t k)) = interest k) \<and>
     (\<forall>f a k. interest (snd (sys_accept4 K f a k)) = interest k) \<and>
     (\<forall>f n k. interest (snd (sys_recv K f n k)) = interest k) \<and>
     (\<forall>f x k. interest (snd (sys_send K f x k)) = interest k)"

definition idle :: "io_service \<Rightarrow> bool" where
  "idle i \<longleftrightarrow> m_pending_tasks i = [] \<and> \<not> m_running_pending_tasks i"

lemma pending_none: "services w s = Some i \<Longrightarrow> idle i \<Longrightarrow> run_pending_task D X s w = Inr w"
  by (simp add: run_pending_task_unfold idle_def get_ios_def put_ios_def fun_upd_idem)

lemma assert_channel_logs: "\<exists>l. assert_channel p c b w = w\<lparr>log_out := l\<rparr>"
  by (cases "find_channel p (ch_fd c)"; cases b)
    (auto simp: assert_channel_def Let_def log_line_def intro: exI [of _ "log_out w"])

text \<open>A round with one event or none.\<close>

lemma round_one:
  assumes i: "services w s = Some i" and c: "chans w ch = Some c"
    and wait: "sys_epoll_wait K (ep_fd (m_poller i)) kMaxPollEvt poll_timout_ms (kern w) = ((1, e, [(ev, ch)]), k)"
  shows "\<exists>l. run_round K D X P s w =
     rbind (P ch (w\<lparr>kern := k, log_out := l, chans := (chans w)(ch \<mapsto> save_evt_status ev c)\<rparr>)) (run_pending_task D X s)"
proof -
  obtain l where "assert_channel (m_poller i) c True (w\<lparr>kern := k\<rparr>) = w\<lparr>kern := k, log_out := l\<rparr>"
    using assert_channel_logs [of "m_poller i" c True "w\<lparr>kern := k\<rparr>"] by auto
  then show ?thesis
    using assms by (intro exI [of _ l]) (simp add: run_round_def wait_channel_def wait_for_evt_def get_ios_def kcall_unfold
        get_chan_def put_chan_def rbind_assoc)
qed

lemma round_none:
  assumes "services w s = Some i" and "sys_epoll_wait K (ep_fd (m_poller i)) kMaxPollEvt poll_timout_ms (kern w) = ((0, e, evts), k)"
  shows "run_round K D X P s w = run_pending_task D X s (w\<lparr>kern := k\<rparr>)"
  using assms by (simp add: run_round_def wait_channel_def wait_for_evt_def get_ios_def kcall_unfold)

text \<open>An event that only calls for reading.\<close>

definition readable :: "32 word \<Rightarrow> bool" where
  "readable ev \<longleftrightarrow> ev AND EPOLLIN \<noteq> 0 \<and> ev AND EPOLLERR = 0 \<and> ev AND EPOLLOUT = 0"

lemma readable_work:
  assumes "chans w ch = Some c" and "readable (ch_last_evt_status c)" and "ch_read_callback c = Some g"
    and "F g w = Inr w'" and "chans w' ch = Some c'" and "ch_last_evt_status c' = ch_last_evt_status c"
  shows "do_process_work F ch w = Inr w'"
proof -
  have "ch_last_evt_status c AND (EPOLLIN OR EPOLLPRI OR EPOLLRDHUP) \<noteq> 0"
    using assms(2) readable_mask [of "ch_last_evt_status c"] by (auto simp: readable_def)
  with assms show ?thesis
    by (simp add: do_process_work_def get_chan_def readable_def)
qed

section \<open>Blocks that go back\<close>

text \<open>
  A connection of an echo server between two rounds: served, owned by the map of its server, with empty
  buffers.
\<close>

definition echo_ready ::
  "('k \<Rightarrow> fd \<Rightarrow> fd \<rightharpoonup> epoll_event) \<Rightarrow> ptr \<Rightarrow> tcp_server \<Rightarrow> ptr \<Rightarrow> connection \<Rightarrow> evt_channel \<Rightarrow> io_service \<Rightarrow>
     ('k, 'm) srv_state_scheme \<Rightarrow> bool" where
  "echo_ready interest v sv c cn chn i w \<longleftrightarrow> served interest v sv c cn chn i w \<and> conn_channel c chn \<and> refs w c = 1 \<and> idle i \<and>
     cn_conn_cb cn \<noteq> None \<and> cn_read_cb cn \<noteq> None \<and> cn_write_cb cn \<noteq> None \<and>
     contents (cn_write_cache cn) = [] \<and> room (cn_write_cache cn) = vec_max_size - m_resver_index \<and>
     contents (cn_read_cache cn) = [] \<and> room (cn_read_cache cn) = vec_max_size - m_resver_index"

text \<open>
  The calls of the rounds in which the client's blocks arrive: the descriptor is reported as
  readable, \<open>recv\<close> gives the block and \<open>send\<close> is called with the same bytes and takes them.
\<close>

fun echo_calls :: "'k kernel \<Rightarrow> fd \<Rightarrow> ptr \<Rightarrow> fd \<Rightarrow> byte list list \<Rightarrow> 'k \<Rightarrow> 'k option" where
  "echo_calls K ep ch f [] k = Some k"
| "echo_calls K ep ch f (bytes # blocks) k =
     (let ((r, _, evts), k1) = sys_epoll_wait K ep kMaxPollEvt poll_timout_ms k;
          ((n, _, data), k2) = sys_recv K f max_readbytes_once k1;
          ((m, _), k3) = sys_send K f bytes k2
      in if r = 1 \<and> length evts = 1 \<and> readable (fst (hd evts)) \<and> snd (hd evts) = ch \<and>
            n = int (length bytes) \<and> data = bytes \<and> bytes \<noteq> [] \<and> length bytes \<le> max_readbytes_once \<and> m = int (length bytes)
         then echo_calls K ep ch f blocks k3 else None)"

text \<open>The calls that tell the server that the client is gone: readable, and nothing to receive.\<close>

definition close_calls :: "'k kernel \<Rightarrow> fd \<Rightarrow> ptr \<Rightarrow> fd \<Rightarrow> 'k \<Rightarrow> bool" where
  "close_calls K ep ch f k \<longleftrightarrow>
     (let ((r, _, evts), k1) = sys_epoll_wait K ep kMaxPollEvt poll_timout_ms k;
          ((n, _, data), k2) = sys_recv K f max_readbytes_once k1
      in r = 1 \<and> length evts = 1 \<and> readable (fst (hd evts)) \<and> snd (hd evts) = ch \<and> n = 0 \<and> data = [])"

lemma echo_calls_Cons:
  assumes "echo_calls K ep ch f (bytes # blocks) k = Some k'"
  obtains e1 e2 e3 ev k1 k2 k3 where "sys_epoll_wait K ep kMaxPollEvt poll_timout_ms k = ((1, e1, [(ev, ch)]), k1)" "readable ev"
    "sys_recv K f max_readbytes_once k1 = ((int (length bytes), e2, bytes), k2)" "bytes \<noteq> []" "length bytes \<le> max_readbytes_once"
    "sys_send K f bytes k2 = ((int (length bytes), e3), k3)" "echo_calls K ep ch f blocks k3 = Some k'"
  using assms by (auto simp: Let_def length_Suc_conv split: prod.splits if_splits)

lemma close_callsE:
  assumes "close_calls K ep ch f k"
  obtains e1 e2 ev k1 k2 where "sys_epoll_wait K ep kMaxPollEvt poll_timout_ms k = ((1, e1, [(ev, ch)]), k1)" "readable ev"
    "sys_recv K f max_readbytes_once k1 = ((0, e2, []), k2)"
  using assms by (auto simp: close_calls_def Let_def length_Suc_conv split: prod.splits)

text \<open>The rounds of the loop of a connection.\<close>

abbreviation echo_round ::
  "byteorder_t \<Rightarrow> 'k kernel \<Rightarrow> ('k, 'm) srv_state_scheme user_code \<Rightarrow> ptr \<Rightarrow>
     ('k, 'm) srv_state_scheme \<Rightarrow> ('k, 'm) srv_state_scheme res" where
  "echo_round h K U s \<equiv> run_round K (connection_dtor K) (server_task K U s) (server_work h K U) s"

lemma big_room: "max_readbytes_once \<le> vec_max_size - m_resver_index"
  by (simp add: max_readbytes_once_def vec_max_size_def m_resver_index_def)

lemma save_evt_status_simps [simp]:
  "ch_fd (save_evt_status ev c) = ch_fd c" "ch_service (save_evt_status ev c) = ch_service c"
  "ch_tied (save_evt_status ev c) = ch_tied c" "ch_owner_ob (save_evt_status ev c) = ch_owner_ob c"
  "ch_read_callback (save_evt_status ev c) = ch_read_callback c" "ch_last_evt_status (save_evt_status ev c) = ev"
  "conn_channel ob (save_evt_status ev c) = conn_channel ob c"
  by (simp_all add: save_evt_status_def conn_channel_def)

text \<open>The state after some blocks: only the log, the system, the read buffer and the reported events are new.\<close>

definition echoed ::
  "ptr \<Rightarrow> connection \<Rightarrow> 'k \<Rightarrow> (loging_level \<times> string \<times> int list) list \<Rightarrow> bytebuffer \<Rightarrow> evt_channel \<Rightarrow>
     ('k, 'm) srv_state_scheme \<Rightarrow> ('k, 'm) srv_state_scheme" where
  "echoed c cn k l b chn w = w\<lparr>kern := k, log_out := l, chans := (chans w)(cn_channle cn \<mapsto> chn),
     conns := (conns w)(c \<mapsto> cn\<lparr>cn_read_cache := b\<rparr>)\<rparr>"

lemma echoed_again: "echoed c (cn\<lparr>cn_read_cache := b\<rparr>) k' l' b' chn' (echoed c cn k l b chn w) = echoed c cn k' l' b' chn' w"
  by (simp add: echoed_def)

lemma block_round:
  assumes td: "transfer_documented K interest" and ready: "echo_ready interest v sv c cn chn i w"
    and U: "U = echo_code K \<or> U = mt_code K"
    and calls: "echo_calls K (ep_fd (m_poller i)) (cn_channle cn) (cn_socket cn) [bytes] (kern w) = Some k"
  shows "\<exists>l b chn'. echo_round h K U (cn_service cn) w = Inr (echoed c cn k l b chn' w) \<and> interest k = interest (kern w) \<and>
     echo_ready interest v sv c (cn\<lparr>cn_read_cache := b\<rparr>) chn' i (echoed c cn k l b chn' w)"
proof -
  let ?ch = "cn_channle cn" and ?f = "cn_socket cn" and ?t = "cn_service cn" and ?U = "server_code K U"
  obtain e1 e2 e3 ev k1 k2 where
    wait: "sys_epoll_wait K (ep_fd (m_poller i)) kMaxPollEvt poll_timout_ms (kern w) = ((1, e1, [(ev, ?ch)]), k1)" and ev: "readable ev"
    and recv: "sys_recv K ?f max_readbytes_once k1 = ((int (length bytes), e2, bytes), k2)" "bytes \<noteq> []" "length bytes \<le> max_readbytes_once"
    and send: "sys_send K ?f bytes k2 = ((int (length bytes), e3), k)"
    by (rule echo_calls_Cons [OF calls]) (use that in simp)
  have k: "interest k = interest (kern w)"
    using td wait recv(1) send unfolding transfer_documented_def by (metis snd_conv)
  note R = ready [unfolded echo_ready_def served_def]
  have loop: "conn_loop c cn chn i w" and tied: "ch_tied chn" "ch_owner_ob chn = Some c" "ch_read_callback chn = Some (ConnHandleRead c)"
    using R by (auto simp: conn_channel_def)
  note D = conn_loopD [OF loop]
  obtain r x where cbs: "cn_read_cb cn = Some r" "cn_write_cb cn = Some x" using R by auto
  let ?chn = "save_evt_status ev chn"
  from round_one [OF D(4,3) wait] obtain l1 where
    round: "echo_round h K U ?t w = rbind (server_work h K U ?ch (w\<lparr>kern := k1, log_out := l1, chans := (chans w)(?ch \<mapsto> ?chn)\<rparr>))
      (run_pending_task (connection_dtor K) (server_task K U ?t) ?t)" (is "_ = rbind (server_work _ _ _ _ ?w1) _") by blast
  have loop1: "conn_loop c cn ?chn i (acquire c ?w1)"
    using loop by (auto simp: conn_loop_def in_loop_def)
  have "unsent c (acquire c ?w1) = []" "kern (acquire c ?w1) = k1"
    using R D(1) by (simp_all add: unsent_def)
  with handle_read_echoes [OF loop1 cbs, of K bytes e2 k2 e3 k U] R big_room recv send U obtain l b where
    read: "handle_read K ?U c (acquire c ?w1) =
      Inr ((acquire c ?w1)\<lparr>kern := k, log_out := l, conns := (conns w)(c \<mapsto> cn\<lparr>cn_read_cache := b\<rparr>)\<rparr>)" (is "_ = Inr ?w2")
    and b: "buf_inv b" "contents b = []" "room b = vec_max_size - m_resver_index" by auto
  have "do_process_work (server_functor h K U) ?ch (acquire c ?w1) = Inr ?w2"
    by (rule readable_work [of _ _ ?chn "ConnHandleRead c" _ _ ?chn]) (use ev tied read in \<open>simp_all add: server_functor_def\<close>)
  then have "server_work h K U ?ch ?w1 = Inr (?w2\<lparr>refs := refs w\<rparr>)"
    using tied R release_many [of ?w2 c "connection_dtor K"]
    by (simp add: server_work_def process_work_def get_chan_def fun_upd_idem)
  moreover have "run_pending_task (connection_dtor K) (server_task K U ?t) ?t (?w2\<lparr>refs := refs w\<rparr>) = Inr (?w2\<lparr>refs := refs w\<rparr>)"
    by (rule pending_none [of _ _ i]) (use D(4) R in simp_all)
  moreover have "echo_ready interest v sv c (cn\<lparr>cn_read_cache := b\<rparr>) ?chn i (?w2\<lparr>refs := refs w\<rparr>)"
    using R b k by (auto simp: echo_ready_def served_def conn_loop_def in_loop_def acquire_def)
  moreover have "?w2\<lparr>refs := refs w\<rparr> = echoed c cn k l b ?chn w"
    by (simp add: acquire_def echoed_def)
  ultimately show ?thesis
    using round k by (intro exI [of _ l] exI [of _ b] exI [of _ ?chn]) simp
qed

text \<open>Any number of blocks.\<close>

lemma block_rounds:
  assumes td: "transfer_documented K interest" and "echo_ready interest v sv c cn chn i w"
    and U: "U = echo_code K \<or> U = mt_code K"
    and "echo_calls K (ep_fd (m_poller i)) (cn_channle cn) (cn_socket cn) blocks (kern w) = Some k"
  shows "\<exists>l b chn'. rounds (length blocks) K (connection_dtor K) (server_task K U (cn_service cn)) (server_work h K U) (cn_service cn) w =
       Inr (echoed c cn k l b chn' w) \<and> interest k = interest (kern w) \<and>
     echo_ready interest v sv c (cn\<lparr>cn_read_cache := b\<rparr>) chn' i (echoed c cn k l b chn' w)"
  using assms(2,4)
proof (induction blocks arbitrary: cn chn w)
  case Nil
  then have "conns w c = Some cn" "chans w (cn_channle cn) = Some chn"
    by (auto simp: echo_ready_def served_def dest: conn_loopD)
  then have "echoed c cn k (log_out w) (cn_read_cache cn) chn w = w"
    using Nil by (simp add: echoed_def fun_upd_idem)
  moreover have "cn\<lparr>cn_read_cache := cn_read_cache cn\<rparr> = cn" by simp
  ultimately show ?case
    using Nil by (intro exI [of _ "log_out w"] exI [of _ "cn_read_cache cn"] exI [of _ chn]) simp
next
  case (Cons bytes blocks)
  let ?calls = "\<lambda>bs. echo_calls K (ep_fd (m_poller i)) (cn_channle cn) (cn_socket cn) bs"
  obtain k1 where k1: "?calls [bytes] (kern w) = Some k1" "?calls blocks k1 = Some k"
    by (rule echo_calls_Cons [OF Cons.prems(2)]) (use that in simp)
  from block_round [OF td Cons.prems(1) U k1(1), of h] obtain l b chn1 where
    1: "echo_round h K U (cn_service cn) w = Inr (echoed c cn k1 l b chn1 w)" and ik: "interest k1 = interest (kern w)"
    and ready1: "echo_ready interest v sv c (cn\<lparr>cn_read_cache := b\<rparr>) chn1 i (echoed c cn k1 l b chn1 w)" by blast
  have "kern (echoed c cn k1 l b chn1 w) = k1" by (simp add: echoed_def)
  with Cons.IH [OF ready1] k1(2) ik 1 show ?case
    by (simp add: echoed_again)
qed

text \<open>The round in which the client is gone.\<close>

lemma close_round:
  assumes rel: "epoll_reliable K interest" and td: "transfer_documented K interest" and ready: "echo_ready interest v sv c cn chn i w"
    and U: "U = echo_code K \<or> U = mt_code K"
    and calls: "close_calls K (ep_fd (m_poller i)) (cn_channle cn) (cn_socket cn) (kern w)"
  shows "\<exists>w'. echo_round h K U (cn_service cn) w = Inr w' \<and> conn_ended K interest v sv c cn i w w'"
proof -
  let ?ch = "cn_channle cn" and ?f = "cn_socket cn" and ?t = "cn_service cn"
  obtain e1 e2 ev k1 k2 where
    wait: "sys_epoll_wait K (ep_fd (m_poller i)) kMaxPollEvt poll_timout_ms (kern w) = ((1, e1, [(ev, ?ch)]), k1)" and ev: "readable ev"
    and recv: "sys_recv K ?f max_readbytes_once k1 = ((0, e2, []), k2)"
    by (rule close_callsE [OF calls])
  have k: "interest k1 = interest (kern w)" "interest k2 = interest k1"
    using td wait recv unfolding transfer_documented_def by (metis snd_conv)+
  note R = ready [unfolded echo_ready_def served_def]
  have loop: "conn_loop c cn chn i w" using R by simp
  note D = conn_loopD [OF loop]
  let ?chn = "save_evt_status ev chn"
  from round_one [OF D(4,3) wait] obtain l1 where
    round: "echo_round h K U ?t w = rbind (server_work h K U ?ch (w\<lparr>kern := k1, log_out := l1, chans := (chans w)(?ch \<mapsto> ?chn)\<rparr>))
      (run_pending_task (connection_dtor K) (server_task K U ?t) ?t)" (is "_ = rbind (server_work _ _ _ _ ?w1) _") by blast
  have served1: "served interest v sv c cn ?chn i ?w1"
    using R k(1) by (auto simp: served_def conn_loop_def in_loop_def)
  have cb: "only_logs c (call_conn_cb U (cn_conn_cb cn) c)"
    using R echo_only_logs [OF U] by auto
  have recv1: "sys_recv K ?f max_readbytes_once (kern ?w1) = ((0, e2, []), k2)" using recv by simp
  have "\<exists>w'. server_work h K U ?ch ?w1 = Inr w' \<and> conn_ended K interest v sv c cn i ?w1 w'"
    by (rule peer_close_ends [OF rel served1 _ _ cb _ _ _ recv1])
      (use R ev recv big_room k in \<open>simp_all add: readable_def evt_status_def\<close>)
  then obtain w' where w': "server_work h K U ?ch ?w1 = Inr w'" "conn_ended K interest v sv c cn i ?w1 w'" by blast
  then have "services w' ?t = Some (unregister ?f i)" by (simp add: conn_ended_def)
  then have "run_pending_task (connection_dtor K) (server_task K U ?t) ?t w' = Inr w'"
    by (rule pending_none) (use R in \<open>simp add: idle_def unregister_def\<close>)
  with round w'(1) have "echo_round h K U ?t w = Inr w'" by simp
  moreover have "conn_ended K interest v sv c cn i w w'"
    using w'(2) k(1) by (simp add: conn_ended_def)
  ultimately show ?thesis by blast
qed

section \<open>The beginning\<close>

text \<open>The calls after \<open>accept\<close>: two options of the new socket \<open>f\<close>, and three times the wake-up of the loop of the connection.\<close>

definition accept_calls :: "'k kernel \<Rightarrow> fd \<Rightarrow> fd \<Rightarrow> 'k \<Rightarrow> 'k" where
  "accept_calls K wakeup f k = ((\<lambda>k. snd (sys_write64 K wakeup 0 k)) ^^ 3)
     (snd (sys_setsockopt K f SOL_SOCKET SO_KEEPALIVE 1 (snd (sys_setsockopt K f IPPROTO_TCP TCP_NODELAY 1 k))))"

text \<open>The calls that register the connection.\<close>

definition register_calls :: "'k kernel \<Rightarrow> fd \<Rightarrow> ptr \<Rightarrow> fd \<Rightarrow> 'k \<Rightarrow> 'k" where
  "register_calls K ep ch f k = snd (sys_epoll_ctl K ep EPOLL_CTL_MOD f (Some (read_mask, ch))
     (snd (sys_epoll_ctl K ep EPOLL_CTL_ADD f (Some (read_mask, ch)) k)))"

lemma accept_calls_interest:
  assumes "sockets_documented K interest" and "descriptors_documented K interest used"
  shows "interest (accept_calls K wakeup f k) = interest k"
  using assms by (simp add: accept_calls_def sockets_documented_def descriptors_documented_def numeral_3_eq_3)

text \<open>The connection in the state between the two rounds: in the map, with its three tasks in the queue of the loop \<open>t\<close>.\<close>

definition accepted_conn ::
  "ptr \<Rightarrow> tcp_server \<Rightarrow> ptr \<Rightarrow> ptr \<Rightarrow> fd \<Rightarrow> connection \<Rightarrow> evt_channel \<Rightarrow> bool" where
  "accepted_conn v sv c t f cn chn \<longleftrightarrow> cn_socket cn = f \<and> cn_service cn = t \<and> cn_channle cn = c + 1 \<and> cn_close_cb cn = Some v \<and>
     cn_conn_cb cn = ts_conn_cb sv \<and> cn_read_cb cn = ts_read_cb sv \<and> cn_write_cb cn = ts_write_cb sv \<and>
     buf_inv (cn_write_cache cn) \<and> contents (cn_write_cache cn) = [] \<and> room (cn_write_cache cn) = vec_max_size - m_resver_index \<and>
     buf_inv (cn_read_cache cn) \<and> contents (cn_read_cache cn) = [] \<and> room (cn_read_cache cn) = vec_max_size - m_resver_index \<and>
     conn_channel c chn \<and> ch_fd chn = f \<and> ch_service chn = t \<and> evt_status chn = read_mask"

lemma accept_round:
  fixes w :: "('k, 'm) srv_state_scheme"
  assumes evt: "eventfd_documented K counter" "\<And>k f. counter k f < 2 ^ 64 - 1"
      "\<And>fd l opt val k. counter (snd (sys_setsockopt K fd l opt val k)) = counter k"
    and s: "services w s = Some i" "idle i" and ac: "acceptors w a = Some ac" "ac_accept_cb ac = Some v"
    and ca: "chans w (ac_channel ac) = Some ca" "ch_read_callback ca = Some (AcceptorOnRead a)" "\<not> ch_tied ca"
    and sv: "servers w v = Some sv" "pool_ready (ts_service_pool sv)" "ts_conn_map sv f = None"
    and t: "t = sp_services (ts_service_pool sv) ! (sp_service_index (ts_service_pool sv) mod sp_size (ts_service_pool sv))"
      "services w t = Some j" "this_tid w \<noteq> m_owner_tid j" "idle j" "s \<noteq> t"
    and new: "c = next_addr w" "refs w c = 0" "ac_channel ac < c"
    and wait: "sys_epoll_wait K (ep_fd (m_poller i)) kMaxPollEvt poll_timout_ms (kern w) = ((1, e1, [(ev, ac_channel ac)]), k1)" "readable ev"
    and acc: "sys_accept4 K (ac_socket ac) (endpoint_default h) k1 = ((f, e2, addr), k2)" "0 \<le> f"
  shows "\<exists>l p cn chn ca'. echo_round h K U s w = Inr (w\<lparr>next_addr := c + 2, kern := accept_calls K (m_wakeup_fd j) f k2, log_out := l,
       chans := (chans w)(ac_channel ac \<mapsto> ca', c + 1 \<mapsto> chn),
       services := (services w)(t \<mapsto> j\<lparr>m_pending_tasks := [TAddChannel (c + 1), TUpdateChannel (c + 1), TConnCb (ts_conn_cb sv) c]\<rparr>),
       refs := (refs w)(c := 2), conns := (conns w)(c \<mapsto> cn),
       servers := (servers w)(v \<mapsto> sv\<lparr>ts_service_pool := p, ts_conn_map := (ts_conn_map sv)(f \<mapsto> c)\<rparr>)\<rparr>) \<and>
     next_service (ts_service_pool sv) = Inr (t, p) \<and> accepted_conn v sv c t f cn chn"
proof -
  let ?ch = "ac_channel ac" and ?ca = "save_evt_status ev ca"
  from round_one [OF s(1) ca(1) wait(1)] obtain l where
    round: "echo_round h K U s w = rbind (server_work h K U ?ch (w\<lparr>kern := k1, log_out := l, chans := (chans w)(?ch \<mapsto> ?ca)\<rparr>))
      (run_pending_task (connection_dtor K) (server_task K U s) s)" (is "_ = rbind (server_work _ _ _ _ ?w1) _") by blast
  let ?w2 = "?w1\<lparr>kern := k2\<rparr>" and ?U = "server_code K U"
  have "servers ?w2 v = Some sv" "services ?w2 t = Some j" "this_tid ?w2 \<noteq> m_owner_tid j" "counter (kern ?w2) (m_wakeup_fd j) < 2 ^ 64 - 1"
    "c = next_addr ?w2" "refs ?w2 c = 0"
    using sv t new evt(2) by simp_all
  from on_new_conn_queues [OF evt(1,3) this(1) sv(2,3) t(1) this(2-), of ?U addr] obtain cn chn p where
    conn: "on_new_conn K ?U v f addr ?w2 = Inr (?w2\<lparr>next_addr := c + 2, kern := accept_calls K (m_wakeup_fd j) f k2,
       chans := (chans w)(?ch \<mapsto> ?ca, c + 1 \<mapsto> chn), services := (services w)(t \<mapsto> j\<lparr>m_pending_tasks :=
        [TAddChannel (c + 1), TUpdateChannel (c + 1), TConnCb (ts_conn_cb sv) c]\<rparr>),
       refs := (refs w)(c := 2), conns := (conns w)(c \<mapsto> cn),
       servers := (servers w)(v \<mapsto> sv\<lparr>ts_service_pool := p, ts_conn_map := (ts_conn_map sv)(f \<mapsto> c)\<rparr>)\<rparr>)" (is "_ = Inr ?w3")
    and p: "next_service (ts_service_pool sv) = Inr (t, p)" and ok: "accepted_conn v sv c t f cn chn"
    using t(4) new(1) by (auto simp: accept_calls_def accepted_conn_def read_mask_def idle_def)
  have "acceptor_on_read h K (on_new_conn K ?U) a ?w1 = Inr ?w3"
    using conn acc ac by (simp add: acceptor_on_read_def get_acc_def socket_accept_def kcall_unfold Let_def)
  then have "do_process_work (server_functor h K U) ?ch ?w1 = Inr ?w3"
    by (intro readable_work [of _ _ ?ca "AcceptorOnRead a" _ _ ?ca]) (use wait(2) ca(2) new(3) in \<open>simp_all add: server_functor_def\<close>)
  then have "server_work h K U ?ch ?w1 = Inr ?w3"
    using ca(3) by (simp add: server_work_def process_work_def get_chan_def)
  moreover have "run_pending_task (connection_dtor K) (server_task K U s) s ?w3 = Inr ?w3"
    by (rule pending_none [of _ _ i]) (use s t(5) in simp_all)
  ultimately show ?thesis
    using round p ok by (intro exI [of _ l] exI [of _ p] exI [of _ cn] exI [of _ chn] exI [of _ ?ca]) simp
qed

lemma register_round:
  fixes w :: "('k, 'm) srv_state_scheme"
  assumes rel: "epoll_reliable K interest" and td: "transfer_documented K interest" and U: "U = echo_code K \<or> U = mt_code K"
    and cn: "conns w c = Some cn" "chans w (c + 1) = Some chn" "accepted_conn v sv0 c t f cn chn" "refs w c = 2"
      "ts_conn_cb sv0 \<noteq> None" "ts_read_cb sv0 \<noteq> None" "ts_write_cb sv0 \<noteq> None"
    and j: "services w t = Some (j\<lparr>m_pending_tasks := [TAddChannel (c + 1), TUpdateChannel (c + 1), TConnCb (ts_conn_cb sv0) c]\<rparr>)"
      "idle j" "this_tid w = m_owner_tid j"
    and sv: "servers w v = Some sv" "ts_conn_map sv f = Some c" and new: "interest (kern w) (ep_fd (m_poller j)) f = None"
    and wait: "sys_epoll_wait K (ep_fd (m_poller j)) kMaxPollEvt poll_timout_ms (kern w) = ((0, e, evts), k1)"
    and i: "i = j\<lparr>m_poller := m_poller j\<lparr>channel_map := (channel_map (m_poller j))(f \<mapsto> c + 1)\<rparr>\<rparr>"
    and k: "k = register_calls K (ep_fd (m_poller j)) (c + 1) f k1"
  shows "\<exists>l w'. w' = w\<lparr>kern := k, log_out := l, services := (services w)(t \<mapsto> i), refs := (refs w)(c := 1)\<rparr> \<and>
     echo_round h K U t w = Inr w' \<and> echo_ready interest v sv c cn chn i w' \<and>
     interest k = (interest (kern w))(ep_fd (m_poller j) := (interest (kern w) (ep_fd (m_poller j)))(f \<mapsto> (read_mask, c + 1)))"
proof -
  let ?j = "j\<lparr>m_pending_tasks := [TAddChannel (c + 1), TUpdateChannel (c + 1), TConnCb (ts_conn_cb sv0) c]\<rparr>"
  let ?w1 = "w\<lparr>kern := k1\<rparr>"
  note A = cn(3) [unfolded accepted_conn_def]
  have k1: "interest k1 = interest (kern w)"
    using td wait unfolding transfer_documented_def by (metis snd_conv)
  have round: "echo_round h K U t w = run_pending_task (connection_dtor K) (server_task K U t) t ?w1"
    by (rule round_none [OF j(1)]) (use wait in simp)
  have loop: "conn_loop c cn chn ?j ?w1"
    using A cn j by (simp add: conn_loop_def in_loop_def)
  have cb: "only_logs c (call_conn_cb U (cn_conn_cb cn) c)"
    using A cn(5) echo_only_logs [OF U] by auto
  have "\<exists>k l i'. run_pending_task (connection_dtor K) (server_task K U (cn_service cn)) (cn_service cn) ?w1 =
       Inr (?w1\<lparr>kern := k, log_out := l, services := (services ?w1)(cn_service cn \<mapsto> i'), refs := (refs ?w1)(c := 1)\<rparr>) \<and>
     i' = ?j\<lparr>m_running_pending_tasks := False, m_pending_tasks := [],
       m_poller := m_poller ?j\<lparr>channel_map := (channel_map (m_poller ?j))(cn_socket cn \<mapsto> cn_channle cn)\<rparr>\<rparr> \<and>
     k = snd (sys_epoll_ctl K (ep_fd (m_poller ?j)) EPOLL_CTL_MOD (cn_socket cn) (Some (EPOLLIN OR EPOLLHUP OR EPOLLPRI, cn_channle cn))
       (snd (sys_epoll_ctl K (ep_fd (m_poller ?j)) EPOLL_CTL_ADD (cn_socket cn) (Some (EPOLLIN OR EPOLLHUP OR EPOLLPRI, cn_channle cn)) (kern ?w1)))) \<and>
     interest k = (interest (kern ?w1))(ep_fd (m_poller ?j) := (interest (kern ?w1) (ep_fd (m_poller ?j)))
       (cn_socket cn \<mapsto> (EPOLLIN OR EPOLLHUP OR EPOLLPRI, cn_channle cn)))"
    by (rule queued_tasks_register [OF rel loop _ _ _ _ _ _ _ cb]) (use A cn sv new k1 in \<open>simp_all add: read_mask_def\<close>)
  moreover have "j\<lparr>m_running_pending_tasks := False, m_pending_tasks := [], m_poller := p\<rparr> = j\<lparr>m_poller := p\<rparr>" for p
    using j(2) by (cases j) (simp add: idle_def)
  ultimately obtain l where
    run: "run_pending_task (connection_dtor K) (server_task K U t) t ?w1 =
      Inr (w\<lparr>kern := k, log_out := l, services := (services w)(t \<mapsto> i), refs := (refs w)(c := 1)\<rparr>)" (is "_ = Inr ?w2")
    and ik: "interest k = (interest (kern w))(ep_fd (m_poller j) := (interest (kern w) (ep_fd (m_poller j)))(f \<mapsto> (read_mask, c + 1)))"
    using A k1 by (auto simp: i k register_calls_def read_mask_def)
  have "echo_ready interest v sv c cn chn i ?w2"
    using A cn j sv ik by (auto simp: echo_ready_def served_def conn_loop_def in_loop_def i idle_def)
  with round run ik show ?thesis by auto
qed

section \<open>The whole life\<close>


text \<open>
  The system of \<open>Ref_System\<close>, reporting the events of its list one at a time; an entry without a channel is a
  wait that times out. A client connects to the server of \<open>stop_state\<close>, sends two bytes and goes.
\<close>

definition life_kernel :: "ref_sys kernel" where
  "life_kernel = ref_kernel\<lparr>sys_epoll_wait := (\<lambda>ep n t k. case rs_ready k of [] \<Rightarrow> ((0, 0, []), k)
     | x # xs \<Rightarrow> (if snd x = 0 then (0, 0, []) else (1, 0, [x]), k\<lparr>rs_ready := xs\<rparr>))\<rparr>"

definition life_srv :: tcp_server where
  "life_srv = sample_srv\<lparr>ts_conn_map := Map.empty,
     ts_service_pool := \<lparr>sp_services = [50], sp_threads = [(5, 50)], sp_size = 1, sp_service_index = 0\<rparr>\<rparr>"

definition life_state :: "ref_sys srv_state" where
  "life_state = stop_state\<lparr>
     kern := (kern stop_state)\<lparr>rs_interest := (rs_interest (kern stop_state))(5 := [6 \<mapsto> (read_mask, 51)]), rs_next_fd := 8,
       rs_ready := [(EPOLLIN, 41), (0, 0), (EPOLLIN, 101), (EPOLLIN, 101)], rs_inbox := [72, 105], rs_send_result := (2, 0)\<rparr>,
     chans := (chans stop_state)(51 \<mapsto> loop_channel 6 50), services := (services stop_state)(50 \<mapsto> new_loop 5 5 6 51),
     servers := [30 \<mapsto> life_srv]\<rparr>"

lemma life_same:
  "sys_epoll_ctl life_kernel = sys_epoll_ctl ref_kernel" "sys_socket life_kernel = sys_socket ref_kernel"
  "sys_bind life_kernel = sys_bind ref_kernel" "sys_listen life_kernel = sys_listen ref_kernel"
  "sys_setsockopt life_kernel = sys_setsockopt ref_kernel" "sys_epoll_create life_kernel = sys_epoll_create ref_kernel"
  "sys_eventfd life_kernel = sys_eventfd ref_kernel" "sys_write64 life_kernel = sys_write64 ref_kernel"
  "sys_read64 life_kernel = sys_read64 ref_kernel" "sys_close life_kernel = sys_close ref_kernel"
  "sys_accept4 life_kernel = sys_accept4 ref_kernel" "sys_recv life_kernel = sys_recv ref_kernel"
  "sys_send life_kernel = sys_send ref_kernel"
  by (simp_all add: life_kernel_def)

lemma life_wait:
  "sys_epoll_wait life_kernel ep n t k = (case rs_ready k of [] \<Rightarrow> ((0, 0, []), k)
     | x # xs \<Rightarrow> (if snd x = 0 then (0, 0, []) else (1, 0, [x]), k\<lparr>rs_ready := xs\<rparr>))"
  by (simp add: life_kernel_def)

lemma life_documented:
  "epoll_reliable life_kernel rs_interest" "transfer_documented life_kernel rs_interest" "sockets_documented life_kernel rs_interest"
  "descriptors_documented life_kernel rs_interest rs_used" "close_documented life_kernel rs_interest"
  "eventfd_documented life_kernel rs_bounded_counter"
proof -
  show "epoll_reliable life_kernel rs_interest"
    using ref_epoll_reliable unfolding epoll_reliable_def epoll_documented_def life_same .
  show "sockets_documented life_kernel rs_interest"
    using ref_sockets_documented unfolding sockets_documented_def life_same .
  show "descriptors_documented life_kernel rs_interest rs_used"
    using ref_descriptors unfolding descriptors_documented_def life_same .
  show "close_documented life_kernel rs_interest"
    using ref_close_documented unfolding close_documented_def life_same .
  show "eventfd_documented life_kernel rs_bounded_counter"
    using ref_bounded_eventfd unfolding eventfd_documented_def life_same .
  show "transfer_documented life_kernel rs_interest"
    by (simp add: transfer_documented_def life_same life_wait split: list.splits)
qed

lemma life_listening: "listening rs_interest read_mask 1 1 30 40 life_state"
  unfolding listening_def Let_def
  by (rule exI [of _ 3], rule exI [of _ 4],
      rule exI [of _ "\<lparr>ac_service = 1, ac_socket = 7, ac_accept_cb = Some 30, ac_addr = endpoint_port lite_endian 4001, ac_channel = 41\<rparr>"],
      rule exI [of _ "(set_read_callback (AcceptorOnRead 40) (evt_channel_new 7 1 ''acceptor-chnl''))\<lparr>ch_last_evt_status := read_mask\<rparr>"])
    (simp add: life_state_def stop_state_def bare_channel_def set_read_callback_def evt_channel_new_def evt_status_def numeral_2_eq_2)


end
