(* ===== verification/Conn_Safety.thy ===== *)
theory Conn_Safety
  imports Client_Life
begin

unbundle bit_operations_syntax

text \<open>
  Memory safety of the handlers of a connection of the echo servers, for every event and every
  result of the system: a handler that its loop calls on a living connection uses no object after
  its lifetime, calls no empty function object and makes no access outside a container; and it
  either keeps the shape of the state (who points to whom) or ends the connection, completely.
\<close>

section \<open>Failures of memory\<close>

definition memory_error :: "cpp_error \<Rightarrow> bool" where
  "memory_error e \<longleftrightarrow> e \<in> {OutOfRange, BadFunctionCall, BadWeakPtr, Dangling}"

lemma memory_error_simps [simp]:
  "memory_error OutOfRange" "memory_error BadFunctionCall" "memory_error BadWeakPtr" "memory_error Dangling"
  "\<not> memory_error AssertFailed" "\<not> memory_error LengthError" "\<not> memory_error Aborted"
  by (simp_all add: memory_error_def)

text \<open>A computation that has no such failure, and a result with \<open>Q\<close> if it has one.\<close>

definition sound :: "('a \<Rightarrow> bool) \<Rightarrow> 'a res \<Rightarrow> bool" where
  "sound Q r \<longleftrightarrow> (case r of Inl e \<Rightarrow> \<not> memory_error e | Inr x \<Rightarrow> Q x)"

lemma sound_simps [simp]: "sound Q (Inr x) \<longleftrightarrow> Q x" "sound Q (Inl e) \<longleftrightarrow> \<not> memory_error e"
  by (simp_all add: sound_def)

lemma sound_rbind: "sound P r \<Longrightarrow> (\<And>x. P x \<Longrightarrow> sound Q (f x)) \<Longrightarrow> sound Q (rbind r f)"
  by (cases r) simp_all

lemma sound_assert: "(P \<Longrightarrow> sound Q (f ())) \<Longrightarrow> sound Q (rbind (c_assert P) f)"
  by (cases P) simp_all

lemma sound_mono: "sound P r \<Longrightarrow> (\<And>x. P x \<Longrightarrow> Q x) \<Longrightarrow> sound Q r"
  by (cases r) simp_all

section \<open>The system\<close>

text \<open>
  What the manual says of the calls that the loops make. \<open>used\<close> are the open descriptors,
  \<open>counter\<close> the values of the wake-up descriptors, to which the library only adds 0.
\<close>

definition events_documented :: "'k kernel \<Rightarrow> ('k \<Rightarrow> fd \<Rightarrow> fd \<rightharpoonup> epoll_event) \<Rightarrow> bool" where
  "events_documented K interest \<longleftrightarrow> (\<forall>ep n t k. case sys_epoll_wait K ep n t k of ((ret, _, evts), _) \<Rightarrow>
     nat ret \<le> length evts \<and> distinct (map snd (take (nat ret) evts)) \<and>
     (\<forall>(e, ch) \<in> set (take (nat ret) evts). \<exists>f m. interest k ep f = Some (m, ch)))"

definition open_documented :: "'k kernel \<Rightarrow> ('k \<Rightarrow> fd set) \<Rightarrow> bool" where
  "open_documented K used \<longleftrightarrow>
     (\<forall>f a k. case sys_accept4 K f a k of ((g, _, _), k') \<Rightarrow>
        if 0 \<le> g then g \<notin> used k \<and> used k' = insert g (used k) else used k' = used k) \<and>
     (\<forall>f k. used k - {f} \<subseteq> used (snd (sys_close K f k))) \<and>
     (\<forall>ep oper f x k. used (snd (sys_epoll_ctl K ep oper f x k)) = used k) \<and>
     (\<forall>ep n t k. used (snd (sys_epoll_wait K ep n t k)) = used k) \<and>
     (\<forall>f n k. used (snd (sys_recv K f n k)) = used k) \<and> (\<forall>f x k. used (snd (sys_send K f x k)) = used k) \<and>
     (\<forall>f h k. used (snd (sys_shutdown K f h k)) = used k) \<and>
     (\<forall>f l n k. used (snd (sys_getsockopt K f l n k)) = used k) \<and>
     (\<forall>f l n x k. used (snd (sys_setsockopt K f l n x k)) = used k) \<and>
     (\<forall>f x k. used (snd (sys_write64 K f x k)) = used k) \<and> (\<forall>f k. used (snd (sys_read64 K f k)) = used k)"

definition calls_documented :: "'k kernel \<Rightarrow> ('k \<Rightarrow> fd \<Rightarrow> fd \<rightharpoonup> epoll_event) \<Rightarrow> bool" where
  "calls_documented K interest \<longleftrightarrow>
     (\<forall>f h k. interest (snd (sys_shutdown K f h k)) = interest k) \<and>
     (\<forall>f l n k. interest (snd (sys_getsockopt K f l n k)) = interest k) \<and>
     (\<forall>f x k. interest (snd (sys_write64 K f x k)) = interest k) \<and>
     (\<forall>f k. interest (snd (sys_read64 K f k)) = interest k) \<and>
     (\<forall>f n k. case sys_recv K f n k of ((r, _, bytes), _) \<Rightarrow> recv_result n r bytes) \<and>
     (\<forall>e. length (sys_strerror K e) < max_msg_length)"

definition wakeup_documented :: "'k kernel \<Rightarrow> ('k \<Rightarrow> fd \<Rightarrow> nat) \<Rightarrow> bool" where
  "wakeup_documented K counter \<longleftrightarrow> eventfd_documented K counter \<and> (\<forall>f k. counter k f < 2 ^ 64 - 1) \<and>
     (\<forall>f l n x k. counter (snd (sys_setsockopt K f l n x k)) = counter k)"

definition system_documented ::
  "'k kernel \<Rightarrow> ('k \<Rightarrow> fd \<Rightarrow> fd \<rightharpoonup> epoll_event) \<Rightarrow> ('k \<Rightarrow> fd set) \<Rightarrow> ('k \<Rightarrow> fd \<Rightarrow> nat) \<Rightarrow> bool" where
  "system_documented K interest used counter \<longleftrightarrow> epoll_reliable K interest \<and> transfer_documented K interest \<and>
     sockets_documented K interest \<and> close_documented K interest \<and> calls_documented K interest \<and>
     events_documented K interest \<and> open_documented K used \<and> wakeup_documented K counter"

lemma used_keeps:
  assumes "system_documented K interest used counter"
  shows "used (snd (sys_epoll_ctl K ep oper f x k)) = used k" "used (snd (sys_epoll_wait K ep n t k)) = used k"
    "used (snd (sys_recv K f m k)) = used k" "used (snd (sys_send K f bs k)) = used k"
    "used (snd (sys_shutdown K f h k)) = used k" "used (snd (sys_getsockopt K f lv o1 k)) = used k"
    "used (snd (sys_setsockopt K f lv o1 y k)) = used k" "used (snd (sys_write64 K f z k)) = used k"
    "used (snd (sys_read64 K f k)) = used k"
  using assms by (auto simp: system_documented_def open_documented_def)

lemma interest_keeps:
  assumes "system_documented K interest used counter"
  shows "interest (snd (sys_epoll_wait K ep n t k)) = interest k" "interest (snd (sys_accept4 K f a k)) = interest k"
    "interest (snd (sys_recv K f m k)) = interest k" "interest (snd (sys_send K f bs k)) = interest k"
    "interest (snd (sys_shutdown K f h k)) = interest k" "interest (snd (sys_getsockopt K f lv o1 k)) = interest k"
    "interest (snd (sys_setsockopt K f lv o1 y k)) = interest k" "interest (snd (sys_write64 K f z k)) = interest k"
    "interest (snd (sys_read64 K f k)) = interest k"
  using assms by (auto simp: system_documented_def transfer_documented_def calls_documented_def sockets_documented_def)

section \<open>The shape of the state\<close>

text \<open>
  What the handlers of a connection leave of the state as long as it lives: everything but the contents of the
  buffers, the status of connections, the masks of channels, and the log.
\<close>

definition no_buffer :: bytebuffer where
  "no_buffer = \<lparr>m_byteorder = lite_endian, m_contianer = \<lparr>vdata = [], vcap = 0\<rparr>, m_rd_index = 0, m_wt_index = 0\<rparr>"

definition conn_ident :: "connection \<Rightarrow> connection \<times> bool" where
  "conn_ident cn = (cn\<lparr>cn_write_cache := no_buffer, cn_read_cache := no_buffer, cn_conn_status := kDisconnect\<rparr>,
     buf_inv (cn_write_cache cn) \<and> buf_inv (cn_read_cache cn))"

definition chan_ident :: "evt_channel \<Rightarrow> evt_channel" where
  "chan_ident chn = chn\<lparr>ch_last_evt_status := 0, ch_progress_in_write := False\<rparr>"

definition watch :: "('k \<Rightarrow> fd \<Rightarrow> fd \<rightharpoonup> epoll_event) \<Rightarrow> 'k \<Rightarrow> fd \<Rightarrow> fd \<rightharpoonup> ptr" where
  "watch interest k = (\<lambda>ep f. map_option snd (interest k ep f))"

definition same_shape ::
  "('k \<Rightarrow> fd \<Rightarrow> fd \<rightharpoonup> epoll_event) \<Rightarrow> ('k \<Rightarrow> fd set) \<Rightarrow> ('k, 'm) srv_state_scheme \<Rightarrow> ('k, 'm) srv_state_scheme \<Rightarrow> bool" where
  "same_shape interest used w w' \<longleftrightarrow> services w' = services w \<and> refs w' = refs w \<and> next_addr w' = next_addr w \<and>
     this_tid w' = this_tid w \<and> acceptors w' = acceptors w \<and> servers w' = servers w \<and>
     (\<forall>c. map_option conn_ident (conns w' c) = map_option conn_ident (conns w c)) \<and>
     (\<forall>ch. map_option chan_ident (chans w' ch) = map_option chan_ident (chans w ch)) \<and>
     used (kern w') = used (kern w) \<and> watch interest (kern w') = watch interest (kern w)"

lemma same_shape_refl [simp]: "same_shape interest used w w"
  by (simp add: same_shape_def)

lemma same_shape_trans: "same_shape interest used w w' \<Longrightarrow> same_shape interest used w' w'' \<Longrightarrow> same_shape interest used w w''"
  by (simp add: same_shape_def)

lemma same_shape_sym: "same_shape interest used w w' \<Longrightarrow> same_shape interest used w' w"
  by (simp add: same_shape_def)

lemma same_shape_log [simp]:
  "same_shape interest used w (w'\<lparr>log_out := l\<rparr>) = same_shape interest used w w'"
  "same_shape interest used w (log_line lv m a w') = same_shape interest used w w'"
  by (simp_all add: same_shape_def log_line_def)

abbreviation kept ::
  "('k \<Rightarrow> fd \<Rightarrow> fd \<rightharpoonup> epoll_event) \<Rightarrow> ('k \<Rightarrow> fd set) \<Rightarrow> ('k, 'm) srv_state_scheme \<Rightarrow> ('k, 'm) srv_state_scheme res \<Rightarrow> bool" where
  "kept interest used w \<equiv> sound (same_shape interest used w)"

lemma kept_rbind:
  assumes "kept interest used w r" and "\<And>v. same_shape interest used w v \<Longrightarrow> kept interest used v (f v)"
  shows "kept interest used w (rbind r f)"
  using assms(1)
proof (rule sound_rbind)
  fix v assume v: "same_shape interest used w v"
  show "kept interest used w (f v)"
    using assms(2) [OF v] by (rule sound_mono) (rule same_shape_trans [OF v])
qed

lemma kept_from: "same_shape interest used w v \<Longrightarrow> kept interest used v r \<Longrightarrow> kept interest used w r"
  using sound_mono same_shape_trans by blast

text \<open>A connection that can be called from its loop.\<close>

definition alive :: "('k \<Rightarrow> fd \<Rightarrow> fd \<rightharpoonup> epoll_event) \<Rightarrow> ptr \<Rightarrow> ptr \<Rightarrow> ('k, 'm) srv_state_scheme \<Rightarrow> bool" where
  "alive interest v c w \<longleftrightarrow> (\<exists>cn chn i sv. conn_loop c cn chn i w \<and> conn_channel c chn \<and>
     cn_conn_cb cn \<noteq> None \<and> cn_read_cb cn \<noteq> None \<and> cn_write_cb cn \<noteq> None \<and> cn_close_cb cn = Some v \<and>
     watch interest (kern w) (ep_fd (m_poller i)) (cn_socket cn) = Some (cn_channle cn) \<and>
     servers w v = Some sv \<and> ts_conn_map sv (cn_socket cn) = Some c)"

lemma aliveE:
  assumes "alive interest v c w"
  obtains cn chn i sv where "conn_loop c cn chn i w" "conn_channel c chn"
    "cn_conn_cb cn \<noteq> None" "cn_read_cb cn \<noteq> None" "cn_write_cb cn \<noteq> None" "cn_close_cb cn = Some v"
    "watch interest (kern w) (ep_fd (m_poller i)) (cn_socket cn) = Some (cn_channle cn)"
    "servers w v = Some sv" "ts_conn_map sv (cn_socket cn) = Some c"
  using assms unfolding alive_def by blast

lemma alive_conn: "alive interest v c w \<Longrightarrow> \<exists>cn. conns w c = Some cn"
  by (auto simp: alive_def conn_loop_def)

lemma chan_identD:
  "chan_ident chn' = chan_ident chn \<Longrightarrow> ch_fd chn' = ch_fd chn \<and> ch_service chn' = ch_service chn \<and>
     ch_tied chn' = ch_tied chn \<and> ch_owner_ob chn' = ch_owner_ob chn \<and> ch_read_callback chn' = ch_read_callback chn \<and>
     ch_write_callback chn' = ch_write_callback chn \<and> ch_close_callback chn' = ch_close_callback chn \<and>
     ch_error_callback chn' = ch_error_callback chn"
  by (cases chn; cases chn') (simp add: chan_ident_def)

lemma conn_identD:
  "conn_ident cn' = conn_ident cn \<Longrightarrow> cn_socket cn' = cn_socket cn \<and> cn_service cn' = cn_service cn \<and>
     cn_channle cn' = cn_channle cn \<and> cn_conn_cb cn' = cn_conn_cb cn \<and> cn_read_cb cn' = cn_read_cb cn \<and>
     cn_write_cb cn' = cn_write_cb cn \<and> cn_close_cb cn' = cn_close_cb cn \<and> cn_err_cb cn' = cn_err_cb cn \<and>
     (buf_inv (cn_write_cache cn') \<and> buf_inv (cn_read_cache cn')) = (buf_inv (cn_write_cache cn) \<and> buf_inv (cn_read_cache cn))"
  by (cases cn; cases cn') (simp add: conn_ident_def)

lemma same_shape_conn:
  assumes "same_shape interest used w w'" and "conns w c = Some cn"
  obtains cn' where "conns w' c = Some cn'" "conn_ident cn' = conn_ident cn"
proof -
  have "map_option conn_ident (conns w' c) = Some (conn_ident cn)"
    using assms by (simp add: same_shape_def)
  then show ?thesis using that by auto
qed

lemma same_shape_chan:
  assumes "same_shape interest used w w'" and "chans w ch = Some chn"
  obtains chn' where "chans w' ch = Some chn'" "chan_ident chn' = chan_ident chn"
proof -
  have "map_option chan_ident (chans w' ch) = Some (chan_ident chn)"
    using assms by (simp add: same_shape_def)
  then show ?thesis using that by auto
qed

lemma alive_same:
  assumes shape: "same_shape interest used w w'" and "alive interest v c w"
  shows "alive interest v c w'"
proof -
  from assms(2) obtain cn chn i sv where a: "conn_loop c cn chn i w" "conn_channel c chn"
    "cn_conn_cb cn \<noteq> None" "cn_read_cb cn \<noteq> None" "cn_write_cb cn \<noteq> None" "cn_close_cb cn = Some v"
    "watch interest (kern w) (ep_fd (m_poller i)) (cn_socket cn) = Some (cn_channle cn)"
    "servers w v = Some sv" "ts_conn_map sv (cn_socket cn) = Some c" by (rule aliveE)
  note D = conn_loopD [OF a(1)]
  from same_shape_conn [OF shape D(1)] obtain cn' where cn': "conns w' c = Some cn'" "conn_ident cn' = conn_ident cn" .
  from same_shape_chan [OF shape D(3)] obtain chn' where chn': "chans w' (cn_channle cn) = Some chn'" "chan_ident chn' = chan_ident chn" .
  have w': "services w' = services w" "refs w' = refs w" "this_tid w' = this_tid w" "servers w' = servers w"
    "watch interest (kern w') = watch interest (kern w)"
    using shape by (simp_all add: same_shape_def)
  have "conn_loop c cn' chn' i w'"
    using a(1) cn' chn' w' conn_identD [OF cn'(2)] chan_identD [OF chn'(2)] by (auto simp: conn_loop_def in_loop_def)
  moreover have "conn_channel c chn'"
    using a(2) chan_identD [OF chn'(2)] by (simp add: conn_channel_def)
  ultimately show ?thesis
    using a(3-) w' conn_identD [OF cn'(2)] unfolding alive_def by metis
qed

lemma alive_acquire: "alive interest v c w \<Longrightarrow> alive interest v c (acquire c w)"
  by (auto simp: alive_def conn_loop_def in_loop_def acquire_def)

section \<open>Connections\<close>

lemma same_shape_kern:
  "watch interest k = watch interest (kern w) \<Longrightarrow> used k = used (kern w) \<Longrightarrow> same_shape interest used w (w\<lparr>kern := k\<rparr>)"
  by (simp add: same_shape_def)

lemma same_shape_call:
  "interest k = interest (kern w) \<Longrightarrow> used k = used (kern w) \<Longrightarrow> same_shape interest used w (w\<lparr>kern := k\<rparr>)"
  by (simp add: same_shape_kern watch_def)

lemma same_shape_put_conn:
  "conns w c = Some cn \<Longrightarrow> conn_ident cn' = conn_ident cn \<Longrightarrow> same_shape interest used w (put_conn c cn' w)"
  by (simp add: same_shape_def put_conn_def)

text \<open>The calls on the socket of a connection.\<close>

lemma socket_calls_same:
  assumes sys: "system_documented K interest used counter"
  shows "same_shape interest used w (snd (socket_send K f data w))" "same_shape interest used w (snd (socket_shutdown K f how w))"
    "same_shape interest used w (snd (socket_retrieve_err K f w))"
  by (auto simp: socket_send_def socket_shutdown_def socket_retrieve_err_def kcall_unfold split_beta Let_def
      intro!: same_shape_call interest_keeps [OF sys] used_keeps [OF sys])

lemma err_what_ok:
  assumes "system_documented K interest used counter"
  shows "\<exists>msg. err_what (sys_error_new (sys_strerror K) n) = Inr msg"
proof -
  have "length (sys_strerror K n) < max_msg_length"
    using assms by (simp add: system_documented_def calls_documented_def)
  then have "CHR 0x00 \<in> set (m_msg (sys_error_new (sys_strerror K) n))"
    by (auto simp: sys_error_new_def)
  then show ?thesis by (simp add: err_what_def)
qed

lemma watch_mod:
  assumes "epoll_reliable K interest" and "watch interest k ep f = Some ch"
  shows "watch interest (snd (sys_epoll_ctl K ep EPOLL_CTL_MOD f (Some (m, ch)) k)) = watch interest k"
proof -
  have "interest k ep f \<noteq> None"
    using assms(2) by (auto simp: watch_def)
  from epoll_reliableD(1) [OF assms(1) this] assms(2) show ?thesis
    by (auto simp: watch_def fun_eq_iff)
qed

lemma enable_write_kept:
  assumes sys: "system_documented K interest used counter" and a: "alive interest v c w" and cn: "conns w c = Some cn"
  shows "kept interest used w (enable_write K (cn_channle cn) True w)"
proof -
  from a cn obtain chn i where loop: "conn_loop c cn chn i w"
    and reg: "watch interest (kern w) (ep_fd (m_poller i)) (cn_socket cn) = Some (cn_channle cn)"
    by (elim aliveE) (auto simp: conn_loop_def)
  have rel: "epoll_reliable K interest" using sys by (simp add: system_documented_def)
  from enable_write_on [OF conn_loopD(2) [OF loop], of K] obtain k l c' where
    w': "enable_write K (cn_channle cn) True w = Inr (w\<lparr>kern := k, log_out := l, chans := (chans w)(cn_channle cn \<mapsto> c')\<rparr>)"
    and c': "(ch_progress_in_write chn \<longrightarrow> k = kern w \<and> c' = chn) \<and> (\<not> ch_progress_in_write chn \<longrightarrow>
        c' = chn\<lparr>ch_last_evt_status := ch_last_evt_status chn OR EPOLLOUT, ch_progress_in_write := True\<rparr> \<and>
        k = snd (sys_epoll_ctl K (ep_fd (m_poller i)) EPOLL_CTL_MOD (ch_fd chn)
                   (Some (ch_last_evt_status chn OR EPOLLOUT, cn_channle cn)) (kern w)))" by blast
  have "ch_fd chn = cn_socket cn" using loop by (simp add: conn_loop_def)
  then have "watch interest k = watch interest (kern w)" "used k = used (kern w)" "chan_ident c' = chan_ident chn"
    using c' watch_mod [OF rel reg] used_keeps(1) [OF sys] by (cases "ch_progress_in_write chn"; simp add: chan_ident_def)+
  with w' conn_loopD(3) [OF loop] show ?thesis by (simp add: same_shape_def)
qed

lemma set_conn_status_kept:
  "alive interest v c w \<Longrightarrow> kept interest used w (set_conn_status c st w)"
  by (elim aliveE) (auto simp: set_conn_status_def get_conn_def conn_loop_def conn_ident_def intro!: same_shape_put_conn)

lemma write_cache_kept:
  assumes "alive interest v c w"
  shows "length xs \<le> vec_max_size \<Longrightarrow> kept interest used w (write_cache_append c xs w)"
    and "kept interest used w (write_cache_discard c n w)"
proof -
  from assms obtain cn where cn: "conns w c = Some cn" "buf_inv (cn_write_cache cn)" "buf_inv (cn_read_cache cn)"
    by (elim aliveE) (auto dest: conn_loopD)
  have put: "same_shape interest used w (put_conn c (cn\<lparr>cn_write_cache := b\<rparr>) w)" if "buf_inv b" for b
    by (rule same_shape_put_conn [OF cn(1)]) (use cn that in \<open>simp add: conn_ident_def\<close>)
  show "kept interest used w (write_cache_append c xs w)" if "length xs \<le> vec_max_size"
    using append_data_cases [OF cn(2) that] put cn(1) by (auto simp: write_cache_append_def get_conn_def)
  show "kept interest used w (write_cache_discard c n w)"
  proof (cases "n \<le> length (contents (cn_write_cache cn))")
    case True
    with write_cache_discard_form [OF cn(1,2) True] put show ?thesis by auto
  next
    case False
    with write_cache_discard_fail [OF cn(1,2)] show ?thesis by simp
  qed
qed

text \<open>A callback of the user, called with a pointer that keeps the connection alive.\<close>

lemma post_kept:
  assumes a: "alive interest v c w" and cn: "conns w c = Some cn"
    and f: "kept interest used (acquire c w) (f (acquire c w))"
  shows "kept interest used w (post K (cn_service cn) c t f w)"
proof -
  from a cn obtain chn i where loop: "conn_loop c cn chn i w"
    by (elim aliveE) (auto simp: conn_loop_def)
  note D = conn_loopD [OF loop]
  have "kept interest used w (release (connection_dtor K) c w2)" if "same_shape interest used (acquire c w) w2" for w2
    using that release_many [of w2 c "connection_dtor K"] D(6) by (auto simp: same_shape_def acquire_def fun_upd_idem)
  with f have "kept interest used w (rbind (f (acquire c w)) (release (connection_dtor K) c))"
    by (rule sound_rbind)
  then show ?thesis by (simp add: post_in_loop [OF D(4,5,6)])
qed

text \<open>Callbacks that keep the shape when the connection is alive.\<close>

definition base_sound ::
  "('k \<Rightarrow> fd \<Rightarrow> fd \<rightharpoonup> epoll_event) \<Rightarrow> ('k \<Rightarrow> fd set) \<Rightarrow> ptr \<Rightarrow> ('k, 'm) srv_state_scheme user_code \<Rightarrow> bool" where
  "base_sound interest used v U \<longleftrightarrow> (\<forall>c w. alive interest v c w \<longrightarrow>
     (\<forall>f. kept interest used w (uc_conn U f c w)) \<and> (\<forall>f n m. kept interest used w (uc_write U f c n m w)) \<and>
     (\<forall>f e. kept interest used w (uc_err U f c e w)))"

lemma post_cb_kept:
  assumes U: "base_sound interest used v U" and a: "alive interest v c w"
  shows "kept interest used w (post_conn_cb K U c w)" "kept interest used w (post_write_cb K U c e n w)"
proof -
  from a obtain cn where cn: "conns w c = Some cn" "cn_conn_cb cn \<noteq> None" "cn_write_cb cn \<noteq> None"
    by (elim aliveE) (auto dest: conn_loopD)
  note b = alive_acquire [OF a]
  show "kept interest used w (post_conn_cb K U c w)"
    using U cn b post_kept [OF a cn(1), where f = "call_conn_cb U (cn_conn_cb cn) c"]
    by (auto simp: post_conn_cb_def get_conn_def base_sound_def)
  show "kept interest used w (post_write_cb K U c e n w)"
    using U cn b post_kept [OF a cn(1), where f = "call_write_cb U (cn_write_cb cn) c e n"]
    by (auto simp: post_write_cb_def get_conn_def base_sound_def)
qed

lemma cache_enable_kept:
  assumes sys: "system_documented K interest used counter" and a: "alive interest v c w" and cn: "conns w c = Some cn"
    and n: "length xs \<le> vec_max_size"
  shows "kept interest used w (rbind (write_cache_append c xs w) (enable_write K (cn_channle cn) True))"
proof (rule kept_rbind [OF write_cache_kept(1) [OF a n]])
  fix u assume u: "same_shape interest used w u"
  from same_shape_conn [OF u cn] obtain cn' where cn': "conns u c = Some cn'" "conn_ident cn' = conn_ident cn" .
  show "kept interest used u (enable_write K (cn_channle cn) True u)"
    using enable_write_kept [OF sys alive_same [OF u a] cn'(1)] conn_identD [OF cn'(2)] by simp
qed

lemma write_in_loop_kept:
  assumes sys: "system_documented K interest used counter" and U: "base_sound interest used v U"
    and a: "alive interest v c w" and data: "read_mem m len w = Inr data" "length data \<le> vec_max_size"
  shows "kept interest used w (write_in_loop K U c m len w)"
proof -
  from a obtain cn chn i where loop: "conn_loop c cn chn i w" by (rule aliveE)
  note cn = conn_loopD(1) [OF loop]
  obtain ret errno w1 where send: "socket_send K (cn_socket cn) data w = ((ret, errno), w1)"
    by (metis surj_pair)
  then have s1: "same_shape interest used w w1"
    using socket_calls_same(1) [OF sys, of w "cn_socket cn" data] by simp
  from same_shape_conn [OF s1 cn] obtain cn1 where cn1: "conns w1 c = Some cn1" "conn_ident cn1 = conn_ident cn" .
  have a1: "alive interest v c w1" by (rule alive_same [OF s1 a])
  have cache: "kept interest used w1 (rbind (write_cache_append c xs w1) (enable_write K (cn_channle cn) True))"
    if "length xs \<le> vec_max_size" for xs
    using cache_enable_kept [OF sys a1 cn1(1) that] conn_identD [OF cn1(2)] by simp
  have post: "kept interest used u (post_write_cb K U c e n u)" if "same_shape interest used w1 u" for u e n
    by (rule post_cb_kept(2) [OF U alive_same [OF that a1]])
  have "kept interest used w1 (rbind (if nat ret < len
      then rbind (write_cache_append c (take (len - nat ret) data) w1) (enable_write K (cn_channle cn) True) else Inr w1)
      (\<lambda>w2. if ret > 0 then post_write_cb K U c (no_error (sys_strerror K)) (nat ret) w2 else Inr w2))"
  proof (rule kept_rbind)
    have "length (take (len - nat ret) data) \<le> vec_max_size" using data(2) by simp
    then show "kept interest used w1 (if nat ret < len
        then rbind (write_cache_append c (take (len - nat ret) data) w1) (enable_write K (cn_channle cn) True) else Inr w1)"
      using cache by auto
  qed (use post in auto)
  with cache [OF data(2)] post [of w1] cache_enable_kept [OF sys a cn data(2)] show ?thesis
    using s1 by (auto simp: write_in_loop_start [OF loop data(1)] send intro: kept_from [OF s1])
qed

lemma conn_shutdown_kept:
  assumes sys: "system_documented K interest used counter" and a: "alive interest v c w"
  shows "kept interest used w (conn_shutdown K c w)"
proof -
  have "kept interest used u (rbind (get_conn c u) (\<lambda>cn. rbind (get_ios (cn_service cn) u) (\<lambda>i.
      if check_this_loop i u then shutdown_in_loop K c u
      else run_task K (cn_service cn) (TShutdownInLoop c) (shutdown_in_loop K c) u)))" if u: "same_shape interest used w u" for u
  proof -
    from alive_same [OF u a] obtain cn chn i where "conn_loop c cn chn i u" by (rule aliveE)
    from conn_loopD [OF this] socket_calls_same(2) [OF sys] show ?thesis
      by (simp add: get_conn_def get_ios_def check_this_loop_def shutdown_in_loop_def)
  qed
  with set_conn_status_kept [OF a] show ?thesis
    unfolding conn_shutdown_def by (rule kept_rbind)
qed

lemma echo_back_kept:
  assumes sys: "system_documented K interest used counter" and U: "base_sound interest used v U" and a: "alive interest v c w"
  shows "kept interest used w (echo_back K U c w)"
proof -
  from a obtain cn chn i where loop: "conn_loop c cn chn i w" by (rule aliveE)
  note D = conn_loopD [OF loop]
  let ?xs = "contents (cn_read_cache cn)"
  have "length ?xs \<le> vec_max_size"
    using D(8) by (auto simp: length_contents buf_inv_def)
  from write_in_loop_kept [OF sys U a read_own_cache [OF D(1,8)] this]
  have "kept interest used w (conn_write K U c \<lparr>nb_ptr = ReadCache c (rd_ptr (cn_read_cache cn)), nb_size = length ?xs\<rparr> w)"
    using D by (simp add: conn_write_def get_conn_def get_ios_def check_this_loop_def)
  moreover have "kept interest used u (rbind (get_conn c u) (\<lambda>cn1.
      Inr (put_conn c (cn1\<lparr>cn_read_cache := discard_all (read_buffer cn1)\<rparr>) u)))" if u: "same_shape interest used w u" for u
  proof -
    from alive_same [OF u a] obtain cn1 where cn1: "conns u c = Some cn1" "buf_inv (cn_write_cache cn1)" "buf_inv (cn_read_cache cn1)"
      by (elim aliveE) (auto dest: conn_loopD)
    then show ?thesis
      using discard_all_ok [OF cn1(3)] by (auto simp: get_conn_def read_buffer_def conn_ident_def intro!: same_shape_put_conn)
  qed
  ultimately have "kept interest used w (rbind (conn_write K U c \<lparr>nb_ptr = ReadCache c (rd_ptr (cn_read_cache cn)), nb_size = length ?xs\<rparr> w)
      (\<lambda>w1. rbind (get_conn c w1) (\<lambda>cn1. Inr (put_conn c (cn1\<lparr>cn_read_cache := discard_all (read_buffer cn1)\<rparr>) w1))))"
    by (rule kept_rbind)
  with D show ?thesis
    by (simp add: echo_back_def get_conn_def read_buffer_def buf_simps)
qed

lemma echo_base_sound:
  assumes sys: "system_documented K interest used counter"
  shows "base_sound interest used v echo_base" "base_sound interest used v (mt_base K)"
    "base_sound interest used v (server_code K echo_base)" "base_sound interest used v (server_code K (mt_base K))"
    "base_sound interest used v (server_code K (echo_code K))" "base_sound interest used v (server_code K (mt_code K))"
  using conn_shutdown_kept [OF sys]
  by (auto simp: base_sound_def echo_base_def mt_base_def echo_code_def mt_code_def server_code_def echo_on_conn_def
      echo_on_msg_complete_def echo_on_err_def mt_on_conn_def mt_on_msg_complete_def mt_on_err_def get_conn_def
      dest: alive_conn)

lemma read_cb_kept:
  assumes sys: "system_documented K interest used counter" and U: "U = echo_code K \<or> U = mt_code K" and a: "alive interest v c w"
  shows "kept interest used w (uc_read (server_code K U) f c (sys_error_new (sys_strerror K) n) w)"
proof -
  have log: "alive interest v c (log_line lv m ar w)" for lv m ar
    by (rule alive_same [OF _ a]) simp
  obtain msg where msg: "err_what (sys_error_new (sys_strerror K) n) = Inr msg"
    using err_what_ok [OF sys] by blast
  have "kept interest used w (rbind (conn_shutdown K c w) (\<lambda>w1. Inr (log_line ll_info s as w1)))" for s as
    by (rule kept_rbind [OF conn_shutdown_kept [OF sys a]]) simp
  with echo_back_kept [OF sys echo_base_sound(2) [OF sys] a] msg
  have "kept interest used w (mt_on_msg K c (sys_error_new (sys_strerror K) n) w)"
    by (simp add: mt_on_msg_def)
  moreover have "kept interest used w (echo_on_msg K c e w)" for e
    unfolding echo_on_msg_def
    by (rule kept_from [OF _ echo_back_kept [OF sys echo_base_sound(1) [OF sys] log]]) simp
  ultimately show ?thesis
    using U by (auto simp: server_code_def echo_code_def mt_code_def)
qed

lemma handle_write_kept:
  assumes sys: "system_documented K interest used counter" and U: "base_sound interest used v U" and a: "alive interest v c w"
  shows "kept interest used w (handle_write K U c w)"
proof -
  from a obtain cn chn i where loop: "conn_loop c cn chn i w" by (rule aliveE)
  note D = conn_loopD [OF loop]
  let ?xs = "contents (cn_write_cache cn)"
  have range: "read_range (cn_write_cache cn) (rd_ptr (cn_write_cache cn)) (rd_ptr (cn_write_cache cn) + length ?xs) = Inr ?xs"
    using read_range_contents [OF D(7)] length_contents [OF D(7)] D(7) by (auto simp: rd_ptr_def elim!: buf_invE)
  obtain ret errno w1 where send: "socket_send K (cn_socket cn) ?xs w = ((ret, errno), w1)"
    by (metis surj_pair)
  then have s1: "same_shape interest used w w1"
    using socket_calls_same(1) [OF sys, of w "cn_socket cn" ?xs] by simp
  have a1: "alive interest v c w1" by (rule alive_same [OF s1 a])
  from same_shape_conn [OF s1 D(1)] obtain cn1 where cn1: "conns w1 c = Some cn1" "conn_ident cn1 = conn_ident cn" .
  have on: "kept interest used w1 (enable_write K (cn_channle cn) True w1)"
    using enable_write_kept [OF sys a1 cn1(1)] conn_identD [OF cn1(2)] by simp
  have fin: "kept interest used u (if ret > 0 then rbind (write_cache_discard c (nat ret) u)
      (post_write_cb K U c (no_error (sys_strerror K)) (nat ret)) else Inr u)" if "alive interest v c u" for u
    using kept_rbind [OF write_cache_kept(2) [OF that] post_cb_kept(2) [OF U alive_same [OF _ that]]] by auto
  have rest: "kept interest used u (rbind (get_conn c u) (\<lambda>cn2. rbind (readable_bytes (cn_write_cache cn2)) (\<lambda>n2.
      rbind (if n2 > 0 then enable_write K (cn_channle cn2) True u else Inr u) (\<lambda>w3.
      if ret > 0 then rbind (write_cache_discard c (nat ret) w3) (post_write_cb K U c (no_error (sys_strerror K)) (nat ret))
      else Inr w3))))" if u: "same_shape interest used w1 u" for u
  proof -
    note b = alive_same [OF u a1]
    from b obtain cn2 where cn2: "conns u c = Some cn2" "buf_inv (cn_write_cache cn2)"
      by (elim aliveE) (auto dest: conn_loopD)
    have "kept interest used u (if n2 > 0 then enable_write K (cn_channle cn2) True u else Inr u)" for n2 :: nat
      using enable_write_kept [OF sys b cn2(1)] by simp
    then have "kept interest used u (rbind (if n2 > 0 then enable_write K (cn_channle cn2) True u else Inr u) (\<lambda>w3.
        if ret > 0 then rbind (write_cache_discard c (nat ret) w3) (post_write_cb K U c (no_error (sys_strerror K)) (nat ret))
        else Inr w3))" for n2 :: nat
      by (rule kept_rbind) (rule fin, erule alive_same, rule b)
    with cn2 show ?thesis
      by (simp only: get_conn_Some rbind_Inr buf_simps)
  qed
  have "kept interest used w1 (post_write_cb K U c e n w1)" for e n
    by (rule post_cb_kept(2) [OF U a1])
  with on kept_rbind [OF write_cache_kept(2) [OF a1] rest] send D range show ?thesis
    by (auto simp: handle_write_def get_conn_def buf_simps intro!: kept_from [OF s1])
qed

lemma handle_error_kept:
  assumes sys: "system_documented K interest used counter" and U: "base_sound interest used v U" and a: "alive interest v c w"
  shows "kept interest used w (handle_error K U c w)"
proof -
  from alive_conn [OF a] obtain cn where cn: "conns w c = Some cn" by blast
  obtain code w1 where err: "socket_retrieve_err K (cn_socket cn) w = (code, w1)"
    by (metis surj_pair)
  then have s1: "same_shape interest used w w1"
    using socket_calls_same(3) [OF sys, of w "cn_socket cn"] by simp
  obtain msg where msg: "err_what (sys_error_new (sys_strerror K) code) = Inr msg"
    using err_what_ok [OF sys] by blast
  let ?w2 = "log_line ll_info (''handle_error '' @ msg) [] w1"
  have s2: "same_shape interest used w ?w2" using s1 by simp
  have a2: "alive interest v c ?w2" by (rule alive_same [OF s2 a])
  from same_shape_conn [OF s2 cn] obtain cn2 where cn2: "conns ?w2 c = Some cn2" "conn_ident cn2 = conn_ident cn" .
  have "kept interest used ?w2 (post K (cn_service cn2) c t (call_err_cb U (Some f) c e) ?w2)" for t f e
    using U alive_acquire [OF a2] by (intro post_kept [OF a2 cn2(1)]) (simp add: base_sound_def)
  moreover have "cn_service cn2 = cn_service cn" using conn_identD [OF cn2(2)] by blast
  ultimately have "kept interest used w (post K (cn_service cn) c t (call_err_cb U (Some f) c e) ?w2)" for t f e
    using kept_from [OF s2] by metis
  with msg err cn s2 show ?thesis
    by (cases "cn_err_cb cn") (simp_all add: handle_error_def get_conn_def Let_def)
qed

text \<open>
  A connection that its own handler has ended, but that one more pointer keeps alive: it is in no map and
  no interest set, and nothing calls it any more.
\<close>

definition ended ::
  "('k \<Rightarrow> fd \<Rightarrow> fd \<rightharpoonup> epoll_event) \<Rightarrow> ('k \<Rightarrow> fd set) \<Rightarrow> ptr \<Rightarrow> ptr \<Rightarrow> ('k, 'm) srv_state_scheme \<Rightarrow> ('k, 'm) srv_state_scheme \<Rightarrow> bool" where
  "ended interest used v c w w' \<longleftrightarrow> (\<exists>cn i sv k chn. conns w c = Some cn \<and> services w (cn_service cn) = Some i \<and>
     servers w v = Some sv \<and> same_shape interest used (w\<lparr>kern := k, refs := (refs w)(c := refs w c - 1),
       services := (services w)(cn_service cn \<mapsto> unregister (cn_socket cn) i),
       servers := (servers w)(v \<mapsto> forget (cn_socket cn) sv)\<rparr>) w' \<and> used k = used (kern w) \<and>
     watch interest k = (watch interest (kern w))(ep_fd (m_poller i) :=
       (watch interest (kern w) (ep_fd (m_poller i)))(cn_socket cn := None)) \<and>
     chans w' (cn_channle cn) = Some chn \<and> ch_last_evt_status chn = 0)"

lemma handle_close_ended:
  assumes sys: "system_documented K interest used counter" and a: "alive interest v c w" and refs: "2 \<le> refs w c"
    and U: "U = echo_code K \<or> U = mt_code K"
  shows "sound (ended interest used v c w) (handle_close K (server_code K U) c w)"
proof -
  from a obtain cn chn i sv where loop: "conn_loop c cn chn i w" and cb: "cn_conn_cb cn \<noteq> None" "cn_close_cb cn = Some v"
    and reg: "watch interest (kern w) (ep_fd (m_poller i)) (cn_socket cn) = Some (cn_channle cn)"
    and sv: "servers w v = Some sv" "ts_conn_map sv (cn_socket cn) = Some c" by (rule aliveE)
  note D = conn_loopD [OF loop]
  have rel: "epoll_reliable K interest" using sys by (simp add: system_documented_def)
  have "served interest v sv c cn chn i w"
    using loop sv cb(2) reg by (auto simp: served_def watch_def)
  moreover have "only_logs c (call_conn_cb U (cn_conn_cb cn) c)"
    using cb(1) echo_only_logs [OF U] by auto
  ultimately obtain k l where
    close: "handle_close K (server_code K U) c w = Inr (w\<lparr>kern := k, log_out := l,
       chans := (chans w)(cn_channle cn \<mapsto> chn\<lparr>ch_last_evt_status := 0, ch_progress_in_write := False\<rparr>),
       services := (services w)(cn_service cn \<mapsto> unregister (cn_socket cn) i),
       refs := (refs w)(c := refs w c - 1), conns := (conns w)(c \<mapsto> cn\<lparr>cn_conn_status := kDisconnect\<rparr>),
       servers := (servers w)(v \<mapsto> forget (cn_socket cn) sv)\<rparr>)" (is "_ = Inr ?w'")
    and k: "k = unwatch K (ep_fd (m_poller i)) (cn_socket cn) (ch_last_evt_status chn) (cn_channle cn) (kern w)"
      "interest k = (interest (kern w))(ep_fd (m_poller i) := (interest (kern w) (ep_fd (m_poller i)))(cn_socket cn := None))"
    using handle_close_removes [OF rel _ _ refs] by blast
  have "used k = used (kern w)"
    by (simp add: k(1) unwatch_def Let_def used_keeps [OF sys])
  moreover have "watch interest k = (watch interest (kern w))(ep_fd (m_poller i) :=
       (watch interest (kern w) (ep_fd (m_poller i)))(cn_socket cn := None))"
    by (auto simp: k(2) watch_def fun_eq_iff)
  moreover have "same_shape interest used (w\<lparr>kern := k, refs := (refs w)(c := refs w c - 1),
       services := (services w)(cn_service cn \<mapsto> unregister (cn_socket cn) i),
       servers := (servers w)(v \<mapsto> forget (cn_socket cn) sv)\<rparr>) ?w'"
    using D by (simp add: same_shape_def conn_ident_def chan_ident_def)
  ultimately have "ended interest used v c w ?w'"
    using D sv by (auto simp: ended_def)
  with close show ?thesis by simp
qed

lemma ended_from:
  assumes shape: "same_shape interest used w u" and "ended interest used v c u w'"
  shows "ended interest used v c w w'"
proof -
  from assms(2) obtain cn i sv k chn where e: "conns u c = Some cn" "services u (cn_service cn) = Some i" "servers u v = Some sv"
    "same_shape interest used (u\<lparr>kern := k, refs := (refs u)(c := refs u c - 1),
       services := (services u)(cn_service cn \<mapsto> unregister (cn_socket cn) i),
       servers := (servers u)(v \<mapsto> forget (cn_socket cn) sv)\<rparr>) w'" "used k = used (kern u)"
    "watch interest k = (watch interest (kern u))(ep_fd (m_poller i) :=
       (watch interest (kern u) (ep_fd (m_poller i)))(cn_socket cn := None))"
    "chans w' (cn_channle cn) = Some chn" "ch_last_evt_status chn = 0"
    unfolding ended_def by blast
  from same_shape_conn [OF same_shape_sym [OF shape] e(1)] obtain cn0 where
    cn0: "conns w c = Some cn0" "conn_ident cn0 = conn_ident cn" .
  show ?thesis
    unfolding ended_def
    by (rule exI [of _ cn0], rule exI [of _ i], rule exI [of _ sv], rule exI [of _ k], rule exI [of _ chn])
      (use shape e cn0 conn_identD [OF cn0(2)] in \<open>simp add: same_shape_def\<close>)
qed

definition kept_or_ended ::
  "('k \<Rightarrow> fd \<Rightarrow> fd \<rightharpoonup> epoll_event) \<Rightarrow> ('k \<Rightarrow> fd set) \<Rightarrow> ptr \<Rightarrow> ptr \<Rightarrow> ('k, 'm) srv_state_scheme \<Rightarrow> ('k, 'm) srv_state_scheme \<Rightarrow> bool" where
  "kept_or_ended interest used v c w w' \<longleftrightarrow> same_shape interest used w w' \<or> ended interest used v c w w'"

lemma kept_or_ended_from:
  "same_shape interest used w u \<Longrightarrow> sound (kept_or_ended interest used v c u) r \<Longrightarrow> sound (kept_or_ended interest used v c w) r"
  by (erule sound_mono) (auto simp: kept_or_ended_def intro: same_shape_trans ended_from)

lemma kept_is: "kept interest used w r \<Longrightarrow> sound (kept_or_ended interest used v c w) r"
  by (erule sound_mono) (simp add: kept_or_ended_def)

lemma handle_read_sound:
  assumes sys: "system_documented K interest used counter" and a: "alive interest v c w" and refs: "2 \<le> refs w c"
    and U: "U = echo_code K \<or> U = mt_code K"
  shows "sound (kept_or_ended interest used v c w) (handle_read K (server_code K U) c w)"
proof -
  let ?U = "server_code K U"
  from a obtain cn chn i where loop: "conn_loop c cn chn i w" by (rule aliveE)
  note D = conn_loopD [OF loop]
  have base: "base_sound interest used v ?U" using U echo_base_sound(5,6) [OF sys] by auto
  obtain ret errno bytes k where recv: "sys_recv K (cn_socket cn) max_readbytes_once (kern w) = ((ret, errno, bytes), k)"
    by (metis surj_pair)
  have res: "recv_result max_readbytes_once ret bytes"
    using sys recv unfolding system_documented_def calls_documented_def by (metis (mono_tags, lifting) case_prod_conv)
  have k: "interest k = interest (kern w)" "used k = used (kern w)"
    using interest_keeps(3) [OF sys, of "cn_socket cn" max_readbytes_once "kern w"]
      used_keeps(3) [OF sys, of "cn_socket cn" max_readbytes_once "kern w"] recv by simp_all
  have "max_readbytes_once \<le> vec_max_size" by (simp add: max_readbytes_once_def vec_max_size_def)
  from make_space_cases [OF D(8) this] consider
      (space) b1 where "make_space (cn_read_cache cn) max_readbytes_once = Inr b1" "buf_inv b1"
        "contents b1 = contents (cn_read_cache cn)" "m_wt_index b1 + max_readbytes_once \<le> storage b1"
    | (full) "make_space (cn_read_cache cn) max_readbytes_once = Inl LengthError" by blast
  then show ?thesis
  proof cases
    case full
    with D(1) show ?thesis by (simp add: handle_read_def get_conn_def ensure_write_space_def)
  next
    case space
    from handle_read_space [OF loop space recv res, of ?U] obtain b w2 where
      w2: "w2 = put_conn c (cn\<lparr>cn_read_cache := b\<rparr>) (w\<lparr>kern := k\<rparr>)"
      and loop2: "conn_loop c (cn\<lparr>cn_read_cache := b\<rparr>) chn i w2"
      and read: "handle_read K ?U c w = (if ret = 0 then
          rbind (post_conn_cb K ?U c w2) (\<lambda>w3. rbind (get_conn c w3) (\<lambda>cn3.
            run_task K (cn_service cn3) (THandleClose c) (handle_close K ?U c) w3))
        else post_read_cb K ?U c
          (if ret > 0 then no_error (sys_strerror K) else sys_error_new (sys_strerror K) errno) w2)" by blast
    have s2: "same_shape interest used w w2"
      using D(1,7,8) conn_loopD(8) [OF loop2] k by (simp add: w2 same_shape_def put_conn_def conn_ident_def watch_def)
    note a2 = alive_same [OF s2 a]
    have close: "sound (kept_or_ended interest used v c w2) (rbind (get_conn c w3) (\<lambda>cn3.
        run_task K (cn_service cn3) (THandleClose c) (handle_close K ?U c) w3))" if s3: "same_shape interest used w2 w3" for w3
    proof -
      note a3 = alive_same [OF s3 a2]
      from a3 obtain cn3 chn3 i3 where "conn_loop c cn3 chn3 i3 w3" by (rule aliveE)
      note D3 = conn_loopD [OF this]
      have "2 \<le> refs w3 c" using refs s2 s3 by (simp add: same_shape_def)
      from handle_close_ended [OF sys a3 this U] show ?thesis
        using D3 by (intro kept_or_ended_from [OF s3]) (auto simp: get_conn_def run_task_def get_ios_def check_this_loop_def
            kept_or_ended_def elim: sound_mono)
    qed
    have "sound (kept_or_ended interest used v c w2) (rbind (post_conn_cb K ?U c w2) (\<lambda>w3. rbind (get_conn c w3) (\<lambda>cn3.
        run_task K (cn_service cn3) (THandleClose c) (handle_close K ?U c) w3)))"
      by (rule sound_rbind [OF post_cb_kept(1) [OF base a2] close])
    moreover have "kept interest used w2 (post_read_cb K ?U c (sys_error_new (sys_strerror K) n) w2)" for n
    proof -
      from a2 obtain cn2 f where cn2: "conns w2 c = Some cn2" "cn_read_cb cn2 = Some f"
        by (elim aliveE) (auto dest: conn_loopD)
      from post_kept [OF a2 cn2(1), where f = "call_read_cb ?U (Some f) c (sys_error_new (sys_strerror K) n)"]
        read_cb_kept [OF sys U alive_acquire [OF a2]] cn2 show ?thesis
        by (simp add: post_read_cb_def get_conn_def)
    qed
    ultimately have "sound (kept_or_ended interest used v c w2) (handle_read K ?U c w)"
      unfolding read by (simp add: no_error_def kept_is)
    then show ?thesis by (rule kept_or_ended_from [OF s2])
  qed
qed

section \<open>Events of a connection\<close>

lemma functor_sound:
  assumes sys: "system_documented K interest used counter" and U: "U = echo_code K \<or> U = mt_code K"
    and a: "alive interest v c w" and refs: "2 \<le> refs w c"
    and f: "f \<in> {ConnHandleClose c, ConnHandleError c, ConnHandleRead c, ConnHandleWrite c}"
  shows "sound (kept_or_ended interest used v c w) (server_functor h K U f w)"
proof -
  have base: "base_sound interest used v (server_code K U)" using U echo_base_sound(5,6) [OF sys] by auto
  have "sound (kept_or_ended interest used v c w) (handle_close K (server_code K U) c w)"
    using handle_close_ended [OF sys a refs U] by (rule sound_mono) (simp add: kept_or_ended_def)
  with f kept_is [OF handle_error_kept [OF sys base a]] kept_is [OF handle_write_kept [OF sys base a]]
    handle_read_sound [OF sys a refs U] show ?thesis
    by (auto simp: server_functor_def)
qed

text \<open>One of the four callbacks of \<open>process_work\<close>: after the end of the connection the mask is 0 and none is called.\<close>

lemma callback_sound:
  assumes sys: "system_documented K interest used counter" and U: "U = echo_code K \<or> U = mt_code K"
    and a: "alive interest v c w" and refs: "2 \<le> refs w c" and cn: "conns w c = Some cn"
    and q: "kept_or_ended interest used v c w u" and f: "sel \<in> {ch_close_callback, ch_error_callback, ch_read_callback, ch_write_callback}"
    and p: "\<not> test 0"
  shows "sound (kept_or_ended interest used v c w) (rbind (get_chan (cn_channle cn) u) (\<lambda>x.
     if test (ch_last_evt_status x) then call_if_set (server_functor h K U) (sel x) u else Inr u))"
  using q unfolding kept_or_ended_def [of _ _ _ _ _ u]
proof
  assume s: "same_shape interest used w u"
  from a cn obtain chn where chn: "chans w (cn_channle cn) = Some chn" "conn_channel c chn"
    by (elim aliveE) (auto dest: conn_loopD simp: conn_loop_def in_loop_def)
  from same_shape_chan [OF s chn(1)] obtain x where x: "chans u (cn_channle cn) = Some x" "chan_ident x = chan_ident chn" .
  have "2 \<le> refs u c" using s refs by (simp add: same_shape_def)
  moreover obtain g where "sel x = Some g" "g \<in> {ConnHandleClose c, ConnHandleError c, ConnHandleRead c, ConnHandleWrite c}"
    using f chn(2) chan_identD [OF x(2)] by (auto simp: conn_channel_def)
  ultimately have "sound (kept_or_ended interest used v c u) (call_if_set (server_functor h K U) (sel x) u)"
    using functor_sound [OF sys U alive_same [OF s a]] by auto
  then have "sound (kept_or_ended interest used v c u) (if test (ch_last_evt_status x) then call_if_set (server_functor h K U) (sel x) u else Inr u)"
    by (simp add: kept_or_ended_def)
  then show ?thesis
    using x(1) by (intro kept_or_ended_from [OF s]) (simp add: get_chan_def)
next
  assume "ended interest used v c w u"
  moreover from this cn obtain x where "chans u (cn_channle cn) = Some x" "ch_last_evt_status x = 0"
    by (auto simp: ended_def)
  ultimately show ?thesis using p by (simp add: get_chan_def kept_or_ended_def)
qed

lemma do_process_work_sound:
  assumes sys: "system_documented K interest used counter" and U: "U = echo_code K \<or> U = mt_code K"
    and a: "alive interest v c w" and refs: "2 \<le> refs w c" and cn: "conns w c = Some cn"
  shows "sound (kept_or_ended interest used v c w) (do_process_work (server_functor h K U) (cn_channle cn) w)"
proof -
  let ?F = "call_if_set (server_functor h K U)" and ?Q = "kept_or_ended interest used v c w" and ?g = "get_chan (cn_channle cn)"
  note step = callback_sound [OF sys U a refs cn, where h = h]
  have last: "sound ?Q (rbind (?g u) (\<lambda>x. if ch_last_evt_status x AND EPOLLOUT \<noteq> 0
      then ?F (ch_write_callback x) (put_chan (cn_channle cn) (x\<lparr>ch_progress_in_write := False\<rparr>) u) else Inr u))" if q: "?Q u" for u
  proof (cases "ended interest used v c w u")
    case True
    moreover from this cn obtain x where "chans u (cn_channle cn) = Some x" "ch_last_evt_status x = 0"
      by (auto simp: ended_def)
    ultimately show ?thesis using q by (simp add: get_chan_def)
  next
    case False
    then have s: "same_shape interest used w u" using q by (simp add: kept_or_ended_def)
    from a cn obtain chn where chn: "chans w (cn_channle cn) = Some chn"
      by (elim aliveE) (auto dest: conn_loopD simp: conn_loop_def in_loop_def)
    from same_shape_chan [OF s chn] obtain x where x: "chans u (cn_channle cn) = Some x" .
    let ?x = "x\<lparr>ch_progress_in_write := False\<rparr>"
    have "same_shape interest used u (put_chan (cn_channle cn) ?x u)"
      using x by (simp add: same_shape_def put_chan_def chan_ident_def)
    then have "?Q (put_chan (cn_channle cn) ?x u)"
      using s by (auto simp: kept_or_ended_def intro: same_shape_trans)
    from step [OF this, of ch_write_callback "\<lambda>e. e AND EPOLLOUT \<noteq> 0"] x q show ?thesis
      by (auto simp: get_chan_def)
  qed
  have "?Q w" by (simp add: kept_or_ended_def)
  from step [OF this, of ch_close_callback "\<lambda>e. e AND EPOLLHUP \<noteq> 0 \<and> e AND EPOLLIN = 0"]
  have 1: "sound ?Q (rbind (?g w) (\<lambda>x. if ch_last_evt_status x AND EPOLLHUP \<noteq> 0 \<and> ch_last_evt_status x AND EPOLLIN = 0
      then ?F (ch_close_callback x) w else Inr w))" by simp
  have 2: "sound ?Q (rbind (?g u) (\<lambda>x. if ch_last_evt_status x AND EPOLLERR \<noteq> 0 then ?F (ch_error_callback x) u else Inr u))" if "?Q u" for u
    using step [OF that, of ch_error_callback "\<lambda>e. e AND EPOLLERR \<noteq> 0"] by simp
  have 3: "sound ?Q (rbind (?g u) (\<lambda>x. if ch_last_evt_status x AND (EPOLLIN OR EPOLLPRI OR EPOLLRDHUP) \<noteq> 0
      then ?F (ch_read_callback x) u else Inr u))" if "?Q u" for u
    using step [OF that, of ch_read_callback "\<lambda>e. e AND (EPOLLIN OR EPOLLPRI OR EPOLLRDHUP) \<noteq> 0"] by simp
  from sound_rbind [OF sound_rbind [OF sound_rbind [OF 1 2] 3] last] show ?thesis
    by (simp add: do_process_work_def rbind_assoc)
qed

text \<open>The end of a connection that only the map of its server owned.\<close>

definition freed ::
  "('k \<Rightarrow> fd \<Rightarrow> fd \<rightharpoonup> epoll_event) \<Rightarrow> ('k \<Rightarrow> fd set) \<Rightarrow> ptr \<Rightarrow> ptr \<Rightarrow> ('k, 'm) srv_state_scheme \<Rightarrow> ('k, 'm) srv_state_scheme \<Rightarrow> bool" where
  "freed interest used v c w w' \<longleftrightarrow> (\<exists>cn i sv k. conns w c = Some cn \<and> services w (cn_service cn) = Some i \<and>
     servers w v = Some sv \<and> same_shape interest used (w\<lparr>kern := k, refs := (refs w)(c := 0),
       services := (services w)(cn_service cn \<mapsto> unregister (cn_socket cn) i),
       servers := (servers w)(v \<mapsto> forget (cn_socket cn) sv),
       chans := (chans w)(cn_channle cn := None), conns := (conns w)(c := None)\<rparr>) w' \<and>
     used (kern w) - {cn_socket cn} \<subseteq> used k \<and>
     (\<forall>ep f. ep \<noteq> cn_socket cn \<longrightarrow> watch interest k ep f = watch interest (kern w) ep f \<or>
        watch interest k ep f = None \<and> f = cn_socket cn) \<and>
     (ep_fd (m_poller i) \<noteq> cn_socket cn \<longrightarrow> watch interest k (ep_fd (m_poller i)) (cn_socket cn) = None))"

lemma ended_freed:
  assumes sys: "system_documented K interest used counter" and refs: "refs w c = 1"
    and e: "ended interest used v c (acquire c w) u"
  shows "sound (freed interest used v c w) (release (connection_dtor K) c u)"
proof -
  from e obtain cn i sv k where cn: "conns w c = Some cn" "services w (cn_service cn) = Some i" "servers w v = Some sv"
    and u: "same_shape interest used ((acquire c w)\<lparr>kern := k, refs := refs w,
       services := (services w)(cn_service cn \<mapsto> unregister (cn_socket cn) i),
       servers := (servers w)(v \<mapsto> forget (cn_socket cn) sv)\<rparr>) u" (is "same_shape _ _ ?w u")
    and k: "used k = used (kern w)" "watch interest k = (watch interest (kern w))(ep_fd (m_poller i) :=
       (watch interest (kern w) (ep_fd (m_poller i)))(cn_socket cn := None))"
    using refs by (auto simp: ended_def acquire_def fun_upd_idem)
  have "conns ?w c = Some cn" using cn by simp
  from same_shape_conn [OF u this] obtain cn' where cn': "conns u c = Some cn'" "conn_ident cn' = conn_ident cn" .
  let ?k = "snd (sys_close K (cn_socket cn) (kern u))"
  have id: "cn_socket cn' = cn_socket cn" "cn_channle cn' = cn_channle cn" using conn_identD [OF cn'(2)] by auto
  have "refs u c = 1" using u refs by (simp add: same_shape_def)
  from last_release [OF cn'(1) this, of K]
  have rel: "release (connection_dtor K) c u = Inr (u\<lparr>refs := (refs u)(c := 0), chans := (chans u)(cn_channle cn := None),
     kern := ?k, conns := (conns u)(c := None)\<rparr>)" (is "_ = Inr ?u") by (simp add: id)
  have ku: "used (kern u) = used (kern w)" "watch interest (kern u) = watch interest k"
    using u k by (simp_all add: same_shape_def)
  have close: "interest ?k ep \<in> {interest (kern u) ep, (interest (kern u) ep)(cn_socket cn := None)}" if "ep \<noteq> cn_socket cn" for ep
    using sys that unfolding system_documented_def close_documented_def by blast
  have shrink: "watch interest ?k ep f = watch interest k ep f \<or> watch interest ?k ep f = None \<and> f = cn_socket cn"
    if "ep \<noteq> cn_socket cn" for ep f
  proof -
    have "watch interest ?k ep f = watch interest (kern u) ep f \<or> watch interest ?k ep f = None \<and> f = cn_socket cn"
    proof (cases "interest ?k ep = interest (kern u) ep")
      case False
      then have "interest ?k ep = (interest (kern u) ep)(cn_socket cn := None)" using close [OF that] by blast
      then show ?thesis by (simp add: watch_def)
    qed (simp add: watch_def)
    then show ?thesis by (simp add: ku(2))
  qed
  have "used (kern w) - {cn_socket cn} \<subseteq> used ?k"
    using sys ku(1) unfolding system_documented_def open_documented_def by metis
  moreover have "watch interest ?k ep f = watch interest (kern w) ep f \<or> watch interest ?k ep f = None \<and> f = cn_socket cn"
    if "ep \<noteq> cn_socket cn" for ep f
    using shrink [OF that, of f] by (auto simp: k(2) split: if_splits)
  moreover have "watch interest ?k (ep_fd (m_poller i)) (cn_socket cn) = None" if "ep_fd (m_poller i) \<noteq> cn_socket cn"
    using shrink [OF that, of "cn_socket cn"] by (auto simp: k(2))
  moreover have "same_shape interest used (w\<lparr>kern := ?k, refs := (refs w)(c := 0),
       services := (services w)(cn_service cn \<mapsto> unregister (cn_socket cn) i),
       servers := (servers w)(v \<mapsto> forget (cn_socket cn) sv),
       chans := (chans w)(cn_channle cn := None), conns := (conns w)(c := None)\<rparr>) ?u"
    using u by (auto simp: same_shape_def acquire_def)
  ultimately have "freed interest used v c w ?u"
    using cn unfolding freed_def by blast
  with rel show ?thesis by simp
qed

lemma conn_work_sound:
  assumes sys: "system_documented K interest used counter" and U: "U = echo_code K \<or> U = mt_code K"
    and a: "alive interest v c w" and refs: "refs w c = 1" and cn: "conns w c = Some cn"
  shows "sound (\<lambda>w'. same_shape interest used w w' \<or> freed interest used v c w w') (server_work h K U (cn_channle cn) w)"
proof -
  let ?Q = "\<lambda>w'. same_shape interest used w w' \<or> freed interest used v c w w'"
  from a cn obtain chn where chn: "chans w (cn_channle cn) = Some chn" "conn_channel c chn"
    by (elim aliveE) (auto dest: conn_loopD simp: conn_loop_def in_loop_def)
  have "sound (kept_or_ended interest used v c (acquire c w)) (do_process_work (server_functor h K U) (cn_channle cn) (acquire c w))"
    using refs cn by (intro do_process_work_sound [OF sys U alive_acquire [OF a]]) (simp_all add: acquire_def)
  moreover have "sound ?Q (release (connection_dtor K) c u)" if "kept_or_ended interest used v c (acquire c w) u" for u
    using that unfolding kept_or_ended_def
  proof
    assume "same_shape interest used (acquire c w) u"
    then show ?thesis
      using release_many [of u c "connection_dtor K"] refs by (auto simp: same_shape_def acquire_def fun_upd_idem)
  next
    assume "ended interest used v c (acquire c w) u"
    from ended_freed [OF sys refs this] show ?thesis by (rule sound_mono) simp
  qed
  ultimately have "sound ?Q (rbind (do_process_work (server_functor h K U) (cn_channle cn) (acquire c w)) (release (connection_dtor K) c))"
    by (rule sound_rbind)
  with chn refs show ?thesis
    by (simp add: server_work_def process_work_def get_chan_def conn_channel_def)
qed

end
