(* ===== verification/Server_Safety.thy ===== *)
theory Server_Safety
  imports Conn_Safety
begin

unbundle bit_operations_syntax

text \<open>
  Memory safety of the echo servers: whatever the clients do and in whatever order the loops of
  the acceptor and of the pool take their rounds, no object is used after its lifetime, no pointer
  leads to nothing, no empty function object is called and no access is outside its container.
  The invariant \<open>safe_state\<close> says who points to whom between two rounds.
\<close>

section \<open>The invariant\<close>

definition conn_at :: "('k, 'm) srv_state_scheme \<Rightarrow> ptr \<rightharpoonup> connection \<times> bool" where
  "conn_at w c = map_option conn_ident (conns w c)"

definition chan_at :: "('k, 'm) srv_state_scheme \<Rightarrow> ptr \<rightharpoonup> evt_channel" where
  "chan_at w ch = map_option chan_ident (chans w ch)"

definition self_channel :: "ptr \<Rightarrow> evt_channel \<Rightarrow> bool" where
  "self_channel s chn \<longleftrightarrow> \<not> ch_tied chn \<and> ch_read_callback chn = Some (IoServiceOnRead s) \<and>
     ch_close_callback chn = None \<and> ch_error_callback chn = None \<and> ch_write_callback chn = None"

definition acceptor_channel :: "ptr \<Rightarrow> ('k, 'm) srv_state_scheme \<Rightarrow> evt_channel \<Rightarrow> bool" where
  "acceptor_channel v w chn \<longleftrightarrow> \<not> ch_tied chn \<and> ch_close_callback chn = None \<and> ch_error_callback chn = None \<and>
     ch_write_callback chn = None \<and> (\<exists>a ac. ch_read_callback chn = Some (AcceptorOnRead a) \<and>
       acceptors w a = Some ac \<and> ac_accept_cb ac = Some v)"

definition queued_refs :: "io_service \<Rightarrow> ptr list" where
  "queued_refs i = concat (map task_refs (m_pending_tasks i))"

lemma unregister_simps [simp]:
  "ep_fd (m_poller (unregister f i)) = ep_fd (m_poller i)" "m_owner_tid (unregister f i) = m_owner_tid i"
  "m_pending_tasks (unregister f i) = m_pending_tasks i" "queued_refs (unregister f i) = queued_refs i"
  by (simp_all add: unregister_def queued_refs_def)

text \<open>The loops \<open>L\<close>: each has its own thread and its own \<open>epoll\<close> descriptor.\<close>

definition loops_ok :: "('k \<Rightarrow> fd set) \<Rightarrow> ptr set \<Rightarrow> ('k, 'm) srv_state_scheme \<Rightarrow> bool" where
  "loops_ok used L w \<longleftrightarrow>
     (\<forall>s \<in> L. \<exists>i. services w s = Some i \<and> ep_fd (m_poller i) \<in> used (kern w)) \<and>
     (\<forall>s \<in> L. \<forall>t \<in> L. \<forall>i j. services w s = Some i \<and> services w t = Some j \<and>
        (ep_fd (m_poller i) = ep_fd (m_poller j) \<or> m_owner_tid i = m_owner_tid j) \<longrightarrow> s = t)"

text \<open>The server at \<open>v\<close> with its callbacks and its pool; the acceptor has the loop \<open>s0\<close>.\<close>

definition server_ok :: "ptr set \<Rightarrow> ptr \<Rightarrow> ptr \<Rightarrow> ('k, 'm) srv_state_scheme \<Rightarrow> bool" where
  "server_ok L s0 v w \<longleftrightarrow> (\<exists>sv. servers w v = Some sv \<and> ts_conn_cb sv \<noteq> None \<and> ts_read_cb sv \<noteq> None \<and> ts_write_cb sv \<noteq> None \<and>
     pool_ready (ts_service_pool sv) \<and> set (sp_services (ts_service_pool sv)) \<subseteq> L - {s0} \<and>
     (\<forall>f c. ts_conn_map sv f = Some c \<longleftrightarrow> (\<exists>cn ok. conn_at w c = Some (cn, ok) \<and> cn_socket cn = f)))"

text \<open>
  A connection is owned by the map of the server and by the tasks that hold a pointer to it, those in the queue of its
  loop and those that the loop is running, \<open>X\<close>.
\<close>

definition conn_ok ::
  "('k \<Rightarrow> fd set) \<Rightarrow> ptr set \<Rightarrow> ptr \<Rightarrow> (ptr \<Rightarrow> ptr list) \<Rightarrow> ('k, 'm) srv_state_scheme \<Rightarrow> ptr \<Rightarrow> connection \<Rightarrow> bool" where
  "conn_ok used L v X w c cn \<longleftrightarrow> cn_service cn \<in> L \<and>
     cn_conn_cb cn \<noteq> None \<and> cn_read_cb cn \<noteq> None \<and> cn_write_cb cn \<noteq> None \<and> cn_close_cb cn = Some v \<and>
     (\<exists>chn. chan_at w (cn_channle cn) = Some chn \<and> conn_channel c chn \<and> ch_fd chn = cn_socket cn \<and> ch_service chn = cn_service cn) \<and>
     cn_socket cn \<in> used (kern w) \<and> (\<forall>s \<in> L. \<forall>i. services w s = Some i \<longrightarrow> cn_socket cn \<noteq> ep_fd (m_poller i)) \<and>
     (\<forall>i. services w (cn_service cn) = Some i \<longrightarrow>
        refs w c = Suc (count_list (queued_refs i) c + count_list (X (cn_service cn)) c))"

definition conns_ok ::
  "('k \<Rightarrow> fd set) \<Rightarrow> ptr set \<Rightarrow> ptr \<Rightarrow> (ptr \<Rightarrow> ptr list) \<Rightarrow> ('k, 'm) srv_state_scheme \<Rightarrow> bool" where
  "conns_ok used L v X w \<longleftrightarrow> (\<forall>c cn ok. conn_at w c = Some (cn, ok) \<longrightarrow> ok \<and> conn_ok used L v X w c cn)"

text \<open>
  Every pointer in an interest set is the address of a living channel of that loop; a connection that is
  registered has no task left in the queue.
\<close>

definition unqueued :: "io_service \<Rightarrow> ptr \<Rightarrow> ptr \<Rightarrow> bool" where
  "unqueued i c ch \<longleftrightarrow> c \<notin> set (queued_refs i) \<and> TAddChannel ch \<notin> set (m_pending_tasks i) \<and> TUpdateChannel ch \<notin> set (m_pending_tasks i)"

definition channel_ok ::
  "ptr \<Rightarrow> ptr \<Rightarrow> ptr \<Rightarrow> ('k, 'm) srv_state_scheme \<Rightarrow> (ptr \<Rightarrow> bool) \<Rightarrow> ptr \<Rightarrow> evt_channel \<Rightarrow> bool" where
  "channel_ok s0 v s w P ch chn \<longleftrightarrow> chan_at w ch = Some chn \<and> ch_service chn = s \<and>
     (self_channel s chn \<or> s = s0 \<and> acceptor_channel v w chn \<or>
      (\<exists>c cn ok. conn_at w c = Some (cn, ok) \<and> cn_channle cn = ch \<and> P c))"

definition watched_ok ::
  "('k \<Rightarrow> fd \<Rightarrow> fd \<rightharpoonup> epoll_event) \<Rightarrow> ptr set \<Rightarrow> ptr \<Rightarrow> ptr \<Rightarrow> ('k, 'm) srv_state_scheme \<Rightarrow> bool" where
  "watched_ok interest L s0 v w \<longleftrightarrow> (\<forall>s \<in> L. \<forall>i f ch. services w s = Some i \<and> watch interest (kern w) (ep_fd (m_poller i)) f = Some ch \<longrightarrow>
     (\<exists>chn. channel_ok s0 v s w (\<lambda>c. unqueued i c ch) ch chn \<and> ch_fd chn = f))"

fun task_ok :: "ptr \<Rightarrow> ptr \<Rightarrow> ptr \<Rightarrow> ('k, 'm) srv_state_scheme \<Rightarrow> task \<Rightarrow> bool" where
  "task_ok s0 v s w (TAddChannel ch) = (\<exists>chn. channel_ok s0 v s w (\<lambda>_. True) ch chn)"
| "task_ok s0 v s w (TUpdateChannel ch) = (\<exists>chn. channel_ok s0 v s w (\<lambda>_. True) ch chn)"
| "task_ok s0 v s w (TConnCb f c) = (f \<noteq> None \<and> (\<exists>cn ok. conn_at w c = Some (cn, ok) \<and> cn_service cn = s))"
| "task_ok s0 v s w _ = False"

definition tasks_ok :: "ptr set \<Rightarrow> ptr \<Rightarrow> ptr \<Rightarrow> ('k, 'm) srv_state_scheme \<Rightarrow> bool" where
  "tasks_ok L s0 v w \<longleftrightarrow> (\<forall>s \<in> L. \<forall>i. services w s = Some i \<longrightarrow> (\<forall>t \<in> set (m_pending_tasks i). task_ok s0 v s w t))"

definition fresh_ok :: "('k, 'm) srv_state_scheme \<Rightarrow> bool" where
  "fresh_ok w \<longleftrightarrow> (\<forall>a \<ge> next_addr w. chan_at w a = None \<and> conn_at w a = None \<and> refs w a = 0)"

definition safe_state ::
  "('k \<Rightarrow> fd \<Rightarrow> fd \<rightharpoonup> epoll_event) \<Rightarrow> ('k \<Rightarrow> fd set) \<Rightarrow> ptr set \<Rightarrow> ptr \<Rightarrow> ptr \<Rightarrow> (ptr \<Rightarrow> ptr list) \<Rightarrow> ('k, 'm) srv_state_scheme \<Rightarrow> bool" where
  "safe_state interest used L s0 v X w \<longleftrightarrow> loops_ok used L w \<and> server_ok L s0 v w \<and> conns_ok used L v X w \<and>
     watched_ok interest L s0 v w \<and> tasks_ok L s0 v w \<and> fresh_ok w"

text \<open>The invariant is about the shape of the state only.\<close>

lemma channel_ok_cong:
  assumes "conn_at w' = conn_at w" "chan_at w' = chan_at w" "acceptors w' = acceptors w"
  shows "channel_ok s0 v s w' = channel_ok s0 v s w"
  using assms by (intro ext) (simp add: channel_ok_def acceptor_channel_def)

lemma task_ok_cong:
  assumes "conn_at w' = conn_at w" "chan_at w' = chan_at w" "acceptors w' = acceptors w"
  shows "task_ok s0 v s w' = task_ok s0 v s w"
proof
  fix t
  show "task_ok s0 v s w' t = task_ok s0 v s w t"
    using assms channel_ok_cong [OF assms] by (cases t) simp_all
qed

lemma safe_same:
  assumes "same_shape interest used w w'"
  shows "safe_state interest used L s0 v X w' = safe_state interest used L s0 v X w"
proof -
  have at: "conn_at w' = conn_at w" "chan_at w' = chan_at w"
    using assms by (auto simp: same_shape_def conn_at_def chan_at_def fun_eq_iff)
  have w': "services w' = services w" "refs w' = refs w" "next_addr w' = next_addr w" "acceptors w' = acceptors w"
    "servers w' = servers w" "used (kern w') = used (kern w)" "watch interest (kern w') = watch interest (kern w)"
    using assms by (simp_all add: same_shape_def)
  note defs = safe_state_def loops_ok_def server_ok_def conns_ok_def conn_ok_def watched_ok_def tasks_ok_def fresh_ok_def
  show ?thesis
    unfolding defs by (simp only: at w' channel_ok_cong [OF at w'(4)] task_ok_cong [OF at w'(4)])
qed

lemma chan_ident_idem [simp]: "chan_ident (chan_ident chn) = chan_ident chn"
  by (simp add: chan_ident_def)

lemma conn_at_Some: "conns w c = Some cn \<Longrightarrow> conn_at w c = Some (conn_ident cn)"
  by (simp add: conn_at_def)

lemma conn_atE:
  assumes "conn_at w c = Some (x, ok)"
  obtains cn where "conns w c = Some cn" "cn_socket cn = cn_socket x" "cn_service cn = cn_service x" "cn_channle cn = cn_channle x"
    "cn_conn_cb cn = cn_conn_cb x" "cn_read_cb cn = cn_read_cb x" "cn_write_cb cn = cn_write_cb x" "cn_close_cb cn = cn_close_cb x"
    "ok = (buf_inv (cn_write_cache cn) \<and> buf_inv (cn_read_cache cn))" "conn_ident cn = (x, ok)"
proof -
  obtain cn where cn: "conns w c = Some cn" "conn_ident cn = (x, ok)"
    using assms by (auto simp: conn_at_def)
  then have "x = cn\<lparr>cn_write_cache := no_buffer, cn_read_cache := no_buffer, cn_conn_status := kDisconnect\<rparr>"
    "ok = (buf_inv (cn_write_cache cn) \<and> buf_inv (cn_read_cache cn))"
    by (simp_all add: conn_ident_def)
  with cn show ?thesis by (intro that [OF cn(1)]) simp_all
qed

lemma chan_atE:
  assumes "chan_at w ch = Some x"
  obtains chn where "chans w ch = Some chn" "chan_ident chn = x" "chan_ident x = x"
  using assms that by (auto simp: chan_at_def)

text \<open>A connection for which an event is reported to its loop.\<close>

lemma registered_alive:
  assumes safe: "safe_state interest used L s0 v (\<lambda>_. []) w" and s: "s \<in> L" "services w s = Some i" "this_tid w = m_owner_tid i"
    and reg: "watch interest (kern w) (ep_fd (m_poller i)) f = Some (cn_channle cn)"
    and c: "conn_at w c = Some (cn, ok)" and q: "unqueued i c (cn_channle cn)"
    and f: "\<exists>chn. chan_at w (cn_channle cn) = Some chn \<and> ch_service chn = s \<and> ch_fd chn = f"
  shows "alive interest v c w \<and> refs w c = 1 \<and> cn_service cn = s \<and> cn_socket cn = f"
proof -
  have ok: ok "conn_ok used L v (\<lambda>_. []) w c cn"
    using safe c by (auto simp: safe_state_def conns_ok_def)
  from ok(2) f obtain x where x: "chan_at w (cn_channle cn) = Some x" "conn_channel c x" "ch_fd x = cn_socket cn" "ch_service x = cn_service cn"
    "ch_service x = s" "ch_fd x = f"
    by (auto simp: conn_ok_def)
  from c obtain y where y: "conns w c = Some y" "cn_socket y = cn_socket cn" "cn_service y = cn_service cn" "cn_channle y = cn_channle cn"
    "cn_conn_cb y = cn_conn_cb cn" "cn_read_cb y = cn_read_cb cn" "cn_write_cb y = cn_write_cb cn" "cn_close_cb y = cn_close_cb cn"
    "ok = (buf_inv (cn_write_cache y) \<and> buf_inv (cn_read_cache y))" by (rule conn_atE)
  from x(1) obtain chn where chn: "chans w (cn_channle cn) = Some chn" "chan_ident chn = x" "chan_ident x = x" by (rule chan_atE)
  note xid = chan_identD [of chn x, unfolded chn(2,3), OF refl]
  have "count_list (queued_refs i) c = 0" using q by (simp add: unqueued_def)
  then have refs: "refs w c = 1"
    using ok(2) s x by (simp add: conn_ok_def)
  obtain sv where sv: "servers w v = Some sv" "ts_conn_map sv (cn_socket cn) = Some c"
    using safe c by (auto simp: safe_state_def server_ok_def)
  have "conn_loop c y chn i w"
    using y chn xid x s refs ok(1) by (auto simp: conn_loop_def in_loop_def)
  moreover have "conn_channel c chn" using x(2) xid by (simp add: conn_channel_def)
  ultimately have "alive interest v c w"
    using y sv reg x ok(2) unfolding alive_def conn_ok_def by metis
  with refs x show ?thesis by simp
qed

lemma loops_ok_mono:
  assumes "loops_ok used L w" and "\<And>t. map_option (\<lambda>j. (m_owner_tid j, ep_fd (m_poller j))) (services w' t) =
      map_option (\<lambda>j. (m_owner_tid j, ep_fd (m_poller j))) (services w t)"
    and "\<And>t j. t \<in> L \<Longrightarrow> services w t = Some j \<Longrightarrow> ep_fd (m_poller j) \<in> used (kern w) \<Longrightarrow> ep_fd (m_poller j) \<in> used (kern w')"
  shows "loops_ok used L w'"
proof -
  have old: "\<exists>j. services w t = Some j \<and> m_owner_tid j = m_owner_tid i \<and> ep_fd (m_poller j) = ep_fd (m_poller i)"
    if "services w' t = Some i" for t i
    using assms(2) [of t] that by (cases "services w t") auto
  have "\<exists>i. services w' t = Some i \<and> ep_fd (m_poller i) \<in> used (kern w')" if t: "t \<in> L" for t
  proof -
    from assms(1) t obtain j where j: "services w t = Some j" "ep_fd (m_poller j) \<in> used (kern w)" by (auto simp: loops_ok_def)
    with assms(2) [of t] assms(3) [OF t j] show ?thesis by (cases "services w' t") auto
  qed
  moreover have "s = t" if "s \<in> L" "t \<in> L" "services w' s = Some i" "services w' t = Some j"
    "ep_fd (m_poller i) = ep_fd (m_poller j) \<or> m_owner_tid i = m_owner_tid j" for s t i j
  proof -
    from old [OF that(3)] old [OF that(4)] that(5) obtain i0 j0 where "services w s = Some i0" "services w t = Some j0"
      "ep_fd (m_poller i0) = ep_fd (m_poller j0) \<or> m_owner_tid i0 = m_owner_tid j0" by auto
    with assms(1) that(1,2) show ?thesis unfolding loops_ok_def by blast
  qed
  ultimately show ?thesis unfolding loops_ok_def by blast
qed

lemma channel_ok_mono:
  assumes "channel_ok s0 v t w P d y" and "chan_at w' d = chan_at w d" and "acceptors w' = acceptors w"
    and "\<And>c cn ok. conn_at w c = Some (cn, ok) \<Longrightarrow> cn_channle cn = d \<Longrightarrow> P c \<Longrightarrow> conn_at w' c = Some (cn, ok) \<and> P' c"
  shows "channel_ok s0 v t w' P' d y"
proof -
  have "acceptor_channel v w' y = acceptor_channel v w y" using assms(3) by (simp add: acceptor_channel_def)
  moreover have "(\<exists>c cn ok. conn_at w c = Some (cn, ok) \<and> cn_channle cn = d \<and> P c) \<longrightarrow>
      (\<exists>c cn ok. conn_at w' c = Some (cn, ok) \<and> cn_channle cn = d \<and> P' c)"
    using assms(4) by blast
  ultimately show ?thesis using assms(1,2) unfolding channel_ok_def by metis
qed

section \<open>The end of a connection\<close>

lemma conn_channel_inj: "conn_channel c chn \<Longrightarrow> conn_channel c' chn \<Longrightarrow> c = c'"
  by (simp add: conn_channel_def)

text \<open>Nothing else knows a registered connection but the map of its server and the interest set of its loop.\<close>

lemma safe_freed:
  assumes safe: "safe_state interest used L s0 v (\<lambda>_. []) w" and free: "freed interest used v c w w'"
    and q: "\<And>cn i. conns w c = Some cn \<Longrightarrow> services w (cn_service cn) = Some i \<Longrightarrow> unqueued i c (cn_channle cn)"
  shows "safe_state interest used L s0 v (\<lambda>_. []) w'"
proof -
  from free obtain cn i sv k where cn: "conns w c = Some cn" and i: "services w (cn_service cn) = Some i" and sv: "servers w v = Some sv"
    and shape: "same_shape interest used (w\<lparr>kern := k, refs := (refs w)(c := 0),
       services := (services w)(cn_service cn \<mapsto> unregister (cn_socket cn) i),
       servers := (servers w)(v \<mapsto> forget (cn_socket cn) sv),
       chans := (chans w)(cn_channle cn := None), conns := (conns w)(c := None)\<rparr>) w'" (is "same_shape _ _ ?w w'")
    and k: "used (kern w) - {cn_socket cn} \<subseteq> used k"
      "\<And>ep f. ep \<noteq> cn_socket cn \<Longrightarrow> watch interest k ep f = watch interest (kern w) ep f \<or>
        watch interest k ep f = None \<and> f = cn_socket cn"
      "ep_fd (m_poller i) \<noteq> cn_socket cn \<Longrightarrow> watch interest k (ep_fd (m_poller i)) (cn_socket cn) = None"
    unfolding freed_def by blast
  let ?s = "cn_service cn" and ?ch = "cn_channle cn" and ?f = "cn_socket cn"
  note S = safe [unfolded safe_state_def]
  obtain x ok where x: "conn_at w c = Some (x, ok)" "cn_socket x = ?f" "cn_service x = ?s" "cn_channle x = ?ch"
    using conn_at_Some [OF cn] by (auto simp: conn_ident_def)
  have c: "conn_ok used L v (\<lambda>_. []) w c x" using S x by (simp add: conns_ok_def)
  then obtain chn where chn: "chan_at w ?ch = Some chn" "conn_channel c chn" "ch_fd chn = ?f" "ch_service chn = ?s"
    by (auto simp: conn_ok_def x)
  have s: "?s \<in> L" and nep: "\<And>t j. t \<in> L \<Longrightarrow> services w t = Some j \<Longrightarrow> ep_fd (m_poller j) \<noteq> ?f"
    using c by (auto simp: conn_ok_def x)
  have unq: "unqueued i c ?ch" using q cn i by blast
  have at: "conn_at ?w = (conn_at w)(c := None)" "chan_at ?w = (chan_at w)(?ch := None)"
    by (auto simp: conn_at_def chan_at_def)
  have other: "cn_channle y \<noteq> ?ch" "cn_socket y \<noteq> ?f" if "conn_at w d = Some (y, o1)" "d \<noteq> c" for d y o1
  proof -
    have "conn_ok used L v (\<lambda>_. []) w d y" using S that(1) by (auto simp: conns_ok_def)
    then show "cn_channle y \<noteq> ?ch"
      using chn that(2) conn_channel_inj [of c chn d] by (auto simp: conn_ok_def)
    have "ts_conn_map sv (cn_socket y) = Some d" "ts_conn_map sv ?f = Some c"
      using S sv that(1) x by (auto simp: server_ok_def)
    then show "cn_socket y \<noteq> ?f" using that(2) by auto
  qed
  have ios: "\<exists>j0. services w t = Some j0 \<and> ep_fd (m_poller j) = ep_fd (m_poller j0) \<and> m_owner_tid j = m_owner_tid j0 \<and>
      m_pending_tasks j = m_pending_tasks j0" if "services ?w t = Some j" for t j
    using that i by (auto split: if_splits)
  have chok: "channel_ok s0 v t ?w P d y" if "channel_ok s0 v t w P d y" "d \<noteq> ?ch" for t P d y
    by (rule channel_ok_mono [OF that(1)]) (use that(2) x in \<open>auto simp: at\<close>)
  have "loops_ok used L ?w"
    by (rule loops_ok_mono [where w = w]) (use S k(1) nep i in auto)
  moreover have "server_ok L s0 v ?w"
    using S sv x other(2) unfolding server_ok_def at by (auto simp: forget_def)
  moreover have "conns_ok used L v (\<lambda>_. []) ?w"
    unfolding conns_ok_def
  proof (intro allI impI)
    fix d y o1 assume "conn_at ?w d = Some (y, o1)"
    then have d: "conn_at w d = Some (y, o1)" "d \<noteq> c" by (auto simp: at split: if_splits)
    then have "o1 \<and> conn_ok used L v (\<lambda>_. []) w d y" using S by (auto simp: conns_ok_def)
    with d(2) other [OF d] k(1) i show "o1 \<and> conn_ok used L v (\<lambda>_. []) ?w d y"
      by (auto simp: conn_ok_def at split: if_splits)
  qed
  moreover have "watched_ok interest L s0 v ?w"
    unfolding watched_ok_def
  proof (intro ballI allI impI, elim conjE)
    fix t j g d assume t: "t \<in> L" "services ?w t = Some j" and "watch interest (kern ?w) (ep_fd (m_poller j)) g = Some d"
    moreover from ios [OF t(2)] obtain j0 where j0: "services w t = Some j0" "ep_fd (m_poller j) = ep_fd (m_poller j0)"
      "m_pending_tasks j = m_pending_tasks j0" by blast
    ultimately have g: "watch interest k (ep_fd (m_poller j0)) g = Some d" "watch interest (kern w) (ep_fd (m_poller j0)) g = Some d"
      using k(2) [OF nep [OF t(1) j0(1)], of g] by auto
    with S t(1) j0(1) obtain y where y: "channel_ok s0 v t w (\<lambda>c. unqueued j0 c d) d y" "ch_fd y = g"
      unfolding watched_ok_def by blast
    have "d \<noteq> ?ch"
      using y chn g(1) k(3) nep [OF t(1) j0(1)] i j0(1) by (auto simp: channel_ok_def)
    with chok [OF y(1)] y(2) j0(3) show "\<exists>chn. channel_ok s0 v t ?w (\<lambda>c. unqueued j c d) d chn \<and> ch_fd chn = g"
      by (auto simp: unqueued_def queued_refs_def)
  qed
  moreover have "tasks_ok L s0 v ?w"
    unfolding tasks_ok_def
  proof (intro ballI allI impI)
    fix t j tk assume t: "t \<in> L" "services ?w t = Some j" "tk \<in> set (m_pending_tasks j)"
    from ios [OF t(2)] t(3) obtain j0 where j0: "services w t = Some j0" "tk \<in> set (m_pending_tasks j0)" by auto
    have ok: "task_ok s0 v t w tk" using S t(1) j0 by (auto simp: tasks_ok_def)
    have mine: "j0 = i" if "t = ?s" using that i j0(1) by simp
    have ch: "\<exists>y. channel_ok s0 v t ?w (\<lambda>_. True) d y" if "channel_ok s0 v t w (\<lambda>_. True) d y" "tk = TAddChannel d \<or> tk = TUpdateChannel d" for d y
    proof -
      have "d \<noteq> ?ch" using that chn unq mine j0(2) by (auto simp: channel_ok_def unqueued_def)
      with chok that(1) show ?thesis by blast
    qed
    have "d \<noteq> c" if "tk = TConnCb r d" for r d
    proof
      assume "d = c"
      with that ok x have "t = ?s" by simp
      moreover have "c \<in> set (queued_refs j0)" using that j0(2) \<open>d = c\<close> by (force simp: queued_refs_def)
      ultimately show False using unq mine by (simp add: unqueued_def)
    qed
    then show "task_ok s0 v t ?w tk"
      using ok ch by (cases tk) (auto simp: at)
  qed
  moreover have "fresh_ok ?w"
    using S by (auto simp: fresh_ok_def at)
  ultimately have "safe_state interest used L s0 v (\<lambda>_. []) ?w"
    by (simp add: safe_state_def)
  then show ?thesis using safe_same [OF shape] by simp
qed

section \<open>A new connection\<close>

lemma count_queued:
  assumes "\<And>r. TConnCb r c \<notin> set (m_pending_tasks i)" and "\<And>t. t \<in> set (m_pending_tasks i) \<Longrightarrow> task_ok s0 v s w t"
  shows "count_list (queued_refs i) c = 0"
proof -
  have "c \<notin> set (task_refs t)" if t: "t \<in> set (m_pending_tasks i)" for t
    using assms(1) t assms(2) [OF t] by (cases t) auto
  then show ?thesis by (simp add: queued_refs_def)
qed

lemma conns_okD: "conns_ok used L v X w \<Longrightarrow> conn_at w d = Some (y, o1) \<Longrightarrow> o1 \<and> conn_ok used L v X w d y"
  by (auto simp: conns_ok_def)

lemma conn_okD:
  assumes "conn_ok used L v X w c cn"
  shows "\<exists>chn. chan_at w (cn_channle cn) = Some chn \<and> conn_channel c chn \<and> ch_fd chn = cn_socket cn \<and> ch_service chn = cn_service cn"
    "cn_socket cn \<in> used (kern w)"
  using assms by (simp_all add: conn_ok_def)

text \<open>
  \<open>on_new_conn\<close>: a descriptor that was not open gets a connection at addresses that nobody knew; its loop gets three
  tasks.
\<close>

lemma safe_accepted:
  assumes safe: "safe_state interest used L s0 v (\<lambda>_. []) w" and sv: "servers w v = Some sv"
    and s: "s \<in> L" "services w s = Some i" and c: "c = next_addr w" and f: "f \<notin> used (kern w)" "used k = insert f (used (kern w))"
    and k: "interest k = interest (kern w)" and p: "pool_ready p" "sp_services p = sp_services (ts_service_pool sv)"
    and cn: "cn_socket cn = f" "cn_service cn = s" "cn_channle cn = c + 1" "cn_close_cb cn = Some v" "cn_conn_cb cn = ts_conn_cb sv"
      "cn_read_cb cn = ts_read_cb sv" "cn_write_cb cn = ts_write_cb sv" "buf_inv (cn_write_cache cn)" "buf_inv (cn_read_cache cn)"
    and chn: "conn_channel c chn" "ch_fd chn = f" "ch_service chn = s"
    and w': "w' = w\<lparr>next_addr := c + 2, kern := k, log_out := l, chans := (chans w)(c + 1 \<mapsto> chn), services := (services w)(s \<mapsto>
        i\<lparr>m_pending_tasks := m_pending_tasks i @ [TAddChannel (c + 1), TUpdateChannel (c + 1), TConnCb (ts_conn_cb sv) c]\<rparr>),
       refs := (refs w)(c := 2), conns := (conns w)(c \<mapsto> cn),
       servers := (servers w)(v \<mapsto> sv\<lparr>ts_service_pool := p, ts_conn_map := (ts_conn_map sv)(f \<mapsto> c)\<rparr>)\<rparr>"
  shows "safe_state interest used L s0 v (\<lambda>_. []) w'"
proof -
  note S = safe [unfolded safe_state_def]
  let ?ts = "[TAddChannel (c + 1), TUpdateChannel (c + 1), TConnCb (ts_conn_cb sv) c]"
  let ?x = "fst (conn_ident cn)"
  have x: "cn_socket ?x = f" "cn_service ?x = s" "cn_channle ?x = c + 1" "cn_close_cb ?x = Some v" "cn_conn_cb ?x = ts_conn_cb sv"
      "cn_read_cb ?x = ts_read_cb sv" "cn_write_cb ?x = ts_write_cb sv" "conn_ident cn = (?x, True)"
    using cn by (simp_all add: conn_ident_def)
  have fresh: "chan_at w (c + 1) = None" "conn_at w c = None" "refs w c = 0"
    using S c by (simp_all add: fresh_ok_def)
  have at: "conn_at w' = (conn_at w)(c \<mapsto> (?x, True))" "chan_at w' = (chan_at w)(c + 1 \<mapsto> chan_ident chn)"
    using x(8) by (auto simp: conn_at_def chan_at_def w')
  have id: "conn_channel c (chan_ident chn)" "ch_fd (chan_ident chn) = f" "ch_service (chan_ident chn) = s"
    using chn by (simp_all add: conn_channel_def chan_ident_def)
  have kern: "watch interest (kern w') = watch interest (kern w)" "used (kern w') = insert f (used (kern w))"
    "acceptors w' = acceptors w" using k f by (simp_all add: w' watch_def)
  have old: "cn_channle y \<noteq> c + 1" if "conn_at w d = Some (y, o1)" for d y o1
    using conn_okD(1) [OF conjunct2 [OF conns_okD [OF _ that]]] S fresh(1) by fastforce
  have none: "count_list (queued_refs i) c = 0"
  proof (rule count_queued)
    show ok: "task_ok s0 v s w t" if "t \<in> set (m_pending_tasks i)" for t using S s that by (auto simp: tasks_ok_def)
    show "TConnCb r c \<notin> set (m_pending_tasks i)" for r using ok fresh(2) by fastforce
  qed
  have ios: "\<exists>j0. services w t = Some j0 \<and> ep_fd (m_poller j) = ep_fd (m_poller j0) \<and>
      m_pending_tasks j = m_pending_tasks j0 @ (if t = s then ?ts else [])" if "services w' t = Some j" for t j
    using that s(2) by (auto simp: w' split: if_splits)
  have new: "channel_ok s0 v s w' (\<lambda>_. True) (c + 1) (chan_ident chn)"
    using id x(3) by (auto simp: channel_ok_def at)
  have "loops_ok used L w'"
    by (rule loops_ok_mono [where w = w]) (use S s f in \<open>auto simp: w'\<close>)
  moreover have "server_ok L s0 v w'"
  proof -
    from S sv have map: "ts_conn_map sv g = Some d \<longleftrightarrow> (\<exists>y o1. conn_at w d = Some (y, o1) \<and> cn_socket y = g)" for g d
      by (simp add: server_ok_def)
    have "cn_socket y \<noteq> f" if "conn_at w d = Some (y, o1)" for d y o1
      using conn_okD(2) [OF conjunct2 [OF conns_okD [OF _ that]]] S f(1) by metis
    then have "((ts_conn_map sv)(f \<mapsto> c)) g = Some d \<longleftrightarrow> (\<exists>y o1. conn_at w' d = Some (y, o1) \<and> cn_socket y = g)" for g d
      using map [of g d] x(1) fresh(2) unfolding at by (cases "d = c") (auto simp: map)
    then show ?thesis
      using S sv p unfolding server_ok_def by (simp add: w')
  qed
  moreover have "conns_ok used L v (\<lambda>_. []) w'"
    unfolding conns_ok_def
  proof (intro allI impI)
    fix d y o1 assume d: "conn_at w' d = Some (y, o1)"
    have refs: "refs w' = (refs w)(c := 2)" by (simp add: w')
    show "o1 \<and> conn_ok used L v (\<lambda>_. []) w' d y"
    proof (cases "d = c")
      case True
      with d have y: "y = ?x" "o1" by (simp_all add: at)
      have "f \<noteq> ep_fd (m_poller j)" if t: "t \<in> L" "services w' t = Some j" for t j
        using ios [OF t(2)] S t(1) f(1) by (auto simp: loops_ok_def)
      then have "\<forall>t \<in> L. \<forall>j. services w' t = Some j \<longrightarrow> f \<noteq> ep_fd (m_poller j)" by blast
      moreover have "services w' s = Some (i\<lparr>m_pending_tasks := m_pending_tasks i @ ?ts\<rparr>)" by (simp add: w')
      moreover have "ts_conn_cb sv \<noteq> None" "ts_read_cb sv \<noteq> None" "ts_write_cb sv \<noteq> None" using S sv by (auto simp: server_ok_def)
      ultimately show ?thesis
        using True x y id none s(1) unfolding conn_ok_def at kern refs by (simp add: queued_refs_def)
    next
      case False
      with d have d': "conn_at w d = Some (y, o1)" by (simp add: at)
      from conns_okD [OF _ d'] S have "o1 \<and> conn_ok used L v (\<lambda>_. []) w d y" by blast
      with old [OF d'] False show ?thesis
        unfolding conn_ok_def at kern refs by (auto simp: queued_refs_def dest!: ios)
    qed
  qed
  moreover have "watched_ok interest L s0 v w'"
    unfolding watched_ok_def kern
  proof (intro ballI allI impI, elim conjE)
    fix t j g d assume t: "t \<in> L" "services w' t = Some j" and "watch interest (kern w) (ep_fd (m_poller j)) g = Some d"
    moreover from ios [OF t(2)] obtain j0 where j0: "services w t = Some j0" "ep_fd (m_poller j) = ep_fd (m_poller j0)"
      "m_pending_tasks j = m_pending_tasks j0 @ (if t = s then ?ts else [])" by blast
    ultimately obtain y where y: "channel_ok s0 v t w (\<lambda>c. unqueued j0 c d) d y" "ch_fd y = g"
      using S unfolding watched_ok_def by metis
    then have "d \<noteq> c + 1" using fresh(1) by (auto simp: channel_ok_def)
    then have "channel_ok s0 v t w' (\<lambda>c. unqueued j c d) d y"
      using j0(3) fresh(2) by (intro channel_ok_mono [OF y(1)]) (auto simp: at kern unqueued_def queued_refs_def)
    with y(2) show "\<exists>y. channel_ok s0 v t w' (\<lambda>c. unqueued j c d) d y \<and> ch_fd y = g" by blast
  qed
  moreover have "tasks_ok L s0 v w'"
    unfolding tasks_ok_def
  proof (intro ballI allI impI)
    fix t j tk assume t: "t \<in> L" "services w' t = Some j" and tk: "tk \<in> set (m_pending_tasks j)"
    from ios [OF t(2)] obtain j0 where j0: "services w t = Some j0"
      "m_pending_tasks j = m_pending_tasks j0 @ (if t = s then ?ts else [])" by blast
    from tk j0(2) consider "tk \<in> set (m_pending_tasks j0)" | "t = s" "tk \<in> set ?ts" by (auto split: if_splits)
    then show "task_ok s0 v t w' tk"
    proof cases
      case 1
      then have ok: "task_ok s0 v t w tk" using S t(1) j0(1) by (auto simp: tasks_ok_def)
      have "channel_ok s0 v t w' (\<lambda>_. True) d y" if "channel_ok s0 v t w (\<lambda>_. True) d y" for d y
        using that fresh by (intro channel_ok_mono [OF that]) (auto simp: at kern channel_ok_def)
      with ok fresh(2) show ?thesis by (cases tk) (auto simp: at)
    next
      case 2
      moreover have "ts_conn_cb sv \<noteq> None" using S sv by (auto simp: server_ok_def)
      moreover have "\<exists>y ok. conn_at w' c = Some (y, ok) \<and> cn_service y = s" using x(2) by (auto simp only: at fun_upd_same)
      ultimately show ?thesis using new by auto
    qed
  qed
  moreover have "fresh_ok w'"
  proof -
    have "next_addr w' = c + 2" "refs w' = (refs w)(c := 2)" by (simp_all add: w')
    then show ?thesis using S c unfolding fresh_ok_def at by simp
  qed
  ultimately show ?thesis by (simp add: safe_state_def)
qed

section \<open>Events\<close>

definition in_thread :: "ptr \<Rightarrow> ('k, 'm) srv_state_scheme \<Rightarrow> bool" where
  "in_thread s w \<longleftrightarrow> (\<exists>i. services w s = Some i \<and> this_tid w = m_owner_tid i)"

definition registered :: "('k \<Rightarrow> fd \<Rightarrow> fd \<rightharpoonup> epoll_event) \<Rightarrow> ptr \<Rightarrow> ('k, 'm) srv_state_scheme \<Rightarrow> ptr \<Rightarrow> bool" where
  "registered interest s w ch \<longleftrightarrow> (\<exists>i f. services w s = Some i \<and> watch interest (kern w) (ep_fd (m_poller i)) f = Some ch)"

text \<open>After the work on one channel the invariant holds again and the other channels are still registered.\<close>

definition after_work ::
  "('k \<Rightarrow> fd \<Rightarrow> fd \<rightharpoonup> epoll_event) \<Rightarrow> ('k \<Rightarrow> fd set) \<Rightarrow> ptr set \<Rightarrow> ptr \<Rightarrow> ptr \<Rightarrow> ptr \<Rightarrow> ptr \<Rightarrow>
     ('k, 'm) srv_state_scheme \<Rightarrow> ('k, 'm) srv_state_scheme \<Rightarrow> bool" where
  "after_work interest used L s0 v s ch w w' \<longleftrightarrow> safe_state interest used L s0 v (\<lambda>_. []) w' \<and> in_thread s w' \<and>
     (\<forall>d. d \<noteq> ch \<longrightarrow> registered interest s w d \<longrightarrow> registered interest s w' d)"

lemma after_work_same:
  assumes shape: "same_shape interest used w w'" and "safe_state interest used L s0 v (\<lambda>_. []) w" and "in_thread s w"
  shows "after_work interest used L s0 v s ch w w'"
proof -
  have "services w' = services w" "this_tid w' = this_tid w" "watch interest (kern w') = watch interest (kern w)"
    using shape by (simp_all add: same_shape_def)
  with assms(2,3) safe_same [OF shape] show ?thesis by (simp add: after_work_def in_thread_def registered_def)
qed

lemma after_work_freed:
  assumes safe: "safe_state interest used L s0 v (\<lambda>_. []) w" and s: "s \<in> L" "services w s = Some i" "this_tid w = m_owner_tid i"
    and cn: "conns w c = Some cn" "cn_service cn = s" and unq: "unqueued i c (cn_channle cn)"
    and reg: "watch interest (kern w) (ep_fd (m_poller i)) (cn_socket cn) = Some (cn_channle cn)"
    and free: "freed interest used v c w w'"
  shows "after_work interest used L s0 v s (cn_channle cn) w w'"
proof -
  have "safe_state interest used L s0 v (\<lambda>_. []) w'"
    by (rule safe_freed [OF safe free]) (use cn s unq in auto)
  moreover obtain k sv where
    shape: "same_shape interest used (w\<lparr>kern := k, refs := (refs w)(c := 0),
       services := (services w)(s \<mapsto> unregister (cn_socket cn) i),
       servers := (servers w)(v \<mapsto> forget (cn_socket cn) sv),
       chans := (chans w)(cn_channle cn := None), conns := (conns w)(c := None)\<rparr>) w'"
    and k: "\<And>ep f. ep \<noteq> cn_socket cn \<Longrightarrow> watch interest k ep f = watch interest (kern w) ep f \<or>
        watch interest k ep f = None \<and> f = cn_socket cn"
  proof -
    from free obtain cn0 i0 sv k where "conns w c = Some cn0" "services w (cn_service cn0) = Some i0"
      "same_shape interest used (w\<lparr>kern := k, refs := (refs w)(c := 0),
       services := (services w)(cn_service cn0 \<mapsto> unregister (cn_socket cn0) i0),
       servers := (servers w)(v \<mapsto> forget (cn_socket cn0) sv),
       chans := (chans w)(cn_channle cn0 := None), conns := (conns w)(c := None)\<rparr>) w'"
      "\<forall>ep f. ep \<noteq> cn_socket cn0 \<longrightarrow> watch interest k ep f = watch interest (kern w) ep f \<or>
        watch interest k ep f = None \<and> f = cn_socket cn0"
      unfolding freed_def by blast
    with cn s show ?thesis by (intro that [of sv k]) auto
  qed
  obtain x ok where x: "conn_at w c = Some (x, ok)" "cn_socket x = cn_socket cn"
    using conn_at_Some [OF cn(1)] by (auto simp: conn_ident_def)
  then have "conn_ok used L v (\<lambda>_. []) w c x"
    using safe by (auto simp: safe_state_def conns_ok_def)
  then have ep: "ep_fd (m_poller i) \<noteq> cn_socket cn" using s x by (auto simp: conn_ok_def)
  have "registered interest s w' d" if d: "d \<noteq> cn_channle cn" "registered interest s w d" for d
  proof -
    from d(2) s(2) obtain f where f: "watch interest (kern w) (ep_fd (m_poller i)) f = Some d" by (auto simp: registered_def)
    then have "f \<noteq> cn_socket cn" using reg d(1) by auto
    with f k [OF ep, of f] shape show ?thesis
      by (auto simp: registered_def same_shape_def)
  qed
  ultimately show ?thesis
    using shape s by (auto simp: after_work_def in_thread_def same_shape_def)
qed

text \<open>A channel that has only a read callback.\<close>

lemma read_only_work:
  assumes chn: "chans w ch = Some chn" "\<not> ch_tied chn" "ch_close_callback chn = None" "ch_error_callback chn = None"
      "ch_write_callback chn = None" "ch_read_callback chn = Some g"
    and F: "sound Q (F g w)" and Q: "Q w"
    and keep: "\<And>u. Q u \<Longrightarrow> \<exists>x. chans u ch = Some x \<and> ch_write_callback x = None"
    and put: "\<And>u x. Q u \<Longrightarrow> chans u ch = Some x \<Longrightarrow> Q (put_chan ch (x\<lparr>ch_progress_in_write := False\<rparr>) u)"
  shows "sound Q (process_work D F ch w)"
proof -
  have "sound Q (rbind (get_chan ch u) (\<lambda>x. if ch_last_evt_status x AND EPOLLOUT \<noteq> 0
      then call_if_set F (ch_write_callback x) (put_chan ch (x\<lparr>ch_progress_in_write := False\<rparr>) u) else Inr u))" if "Q u" for u
    using keep [OF that] put [OF that] that by (auto simp: get_chan_def)
  with F Q have "sound Q (rbind (if ch_last_evt_status chn AND (EPOLLIN OR EPOLLPRI OR EPOLLRDHUP) \<noteq> 0 then F g w else Inr w)
      (\<lambda>u. rbind (get_chan ch u) (\<lambda>x. if ch_last_evt_status x AND EPOLLOUT \<noteq> 0
      then call_if_set F (ch_write_callback x) (put_chan ch (x\<lparr>ch_progress_in_write := False\<rparr>) u) else Inr u)))"
    by (intro sound_rbind [where P = Q]) auto
  also have "rbind (if ch_last_evt_status chn AND (EPOLLIN OR EPOLLPRI OR EPOLLRDHUP) \<noteq> 0 then F g w else Inr w)
      (\<lambda>u. rbind (get_chan ch u) (\<lambda>x. if ch_last_evt_status x AND EPOLLOUT \<noteq> 0
      then call_if_set F (ch_write_callback x) (put_chan ch (x\<lparr>ch_progress_in_write := False\<rparr>) u) else Inr u)) = process_work D F ch w"
    using chn by (simp add: process_work_def do_process_work_def get_chan_Some)
  finally show ?thesis .
qed

lemma after_work_then:
  assumes "after_work interest used L s0 v s ch w u" and shape: "same_shape interest used u u'"
  shows "after_work interest used L s0 v s ch w u'"
proof -
  have "after_work interest used L s0 v s ch u u'"
    using assms by (intro after_work_same) (auto simp: after_work_def)
  with assms(1) show ?thesis by (auto simp: after_work_def same_shape_def registered_def)
qed

lemma on_read_kept:
  assumes sys: "system_documented K interest used counter" and "services w s = Some i"
  shows "kept interest used w (on_read K s w)"
proof -
  have "same_shape interest used w (w\<lparr>kern := snd (sys_read64 K (m_wakeup_fd i) (kern w))\<rparr>)"
    by (rule same_shape_call) (simp_all add: interest_keeps [OF sys] used_keeps [OF sys])
  with assms(2) show ?thesis
    by (auto simp: on_read_def get_ios_def kcall_unfold split_beta Let_def intro!: sound_assert)
qed

text \<open>The acceptor gets a descriptor, or an error that it logs.\<close>

lemma acceptor_on_read_sound:
  assumes sys: "system_documented K interest used counter" and safe: "safe_state interest used L s0 v (\<lambda>_. []) w"
    and s0: "s0 \<in> L" "in_thread s0 w" and a: "acceptors w a = Some ac" "ac_accept_cb ac = Some v"
    and ch: "chan_at w ch \<noteq> None"
  shows "sound (\<lambda>u. after_work interest used L s0 v s0 d w u \<and> chan_at u ch = chan_at w ch)
     (acceptor_on_read h K (on_new_conn K U) a w)"
proof -
  note S = safe [unfolded safe_state_def]
  obtain f errno addr k1 where acc: "sys_accept4 K (ac_socket ac) (endpoint_default h) (kern w) = ((f, errno, addr), k1)"
    by (metis surj_pair)
  let ?w1 = "w\<lparr>kern := k1\<rparr>"
  have k1: "interest k1 = interest (kern w)"
    using interest_keeps(2) [OF sys, of "ac_socket ac" "endpoint_default h" "kern w"] acc by simp
  have used1: "if 0 \<le> f then f \<notin> used (kern w) \<and> used k1 = insert f (used (kern w)) else used k1 = used (kern w)"
  proof -
    have "open_documented K used" using sys by (simp add: system_documented_def)
    then have "\<forall>f a k. case sys_accept4 K f a k of ((g, _, _), k') \<Rightarrow>
        if 0 \<le> g then g \<notin> used k \<and> used k' = insert g (used k) else used k' = used k"
      unfolding open_documented_def by (rule conjunct1)
    from spec [OF spec [OF spec [OF this, of "ac_socket ac"], of "endpoint_default h"], of "kern w"] acc show ?thesis by simp
  qed
  have read: "acceptor_on_read h K (on_new_conn K U) a w = (if f < 0 then
      Inr (if errno = EMFILE then log_line ll_error ''accept ,got EMFILE error'' [] (log_line ll_error ''accept fail,errno:'' [errno] ?w1)
           else log_line ll_error ''accept fail,errno:'' [errno] ?w1) else on_new_conn K U v f addr ?w1)"
    using a acc by (simp add: acceptor_on_read_def get_acc_def socket_accept_def kcall_unfold)
  show ?thesis
  proof (cases "f < 0")
    case True
    then have shape: "same_shape interest used w ?w1" using used1 k1 by (intro same_shape_call) auto
    have "after_work interest used L s0 v s0 d w (log_line lv m ar ?w1)" for lv m ar
      by (rule after_work_same [OF _ safe s0(2)]) (use shape in simp)
    moreover have "after_work interest used L s0 v s0 d w (log_line lv m ar (log_line lv' m' ar' ?w1))" for lv m ar lv' m' ar'
      by (rule after_work_same [OF _ safe s0(2)]) (use shape in simp)
    ultimately show ?thesis using True read by (simp add: chan_at_def log_line_def)
  next
    case False
    then have f: "f \<notin> used (kern w)" "used k1 = insert f (used (kern w))" using used1 by auto
    obtain sv where sv: "servers w v = Some sv" "pool_ready (ts_service_pool sv)"
      "set (sp_services (ts_service_pool sv)) \<subseteq> L - {s0}"
      "\<And>g c. ts_conn_map sv g = Some c \<longleftrightarrow> (\<exists>cn ok. conn_at w c = Some (cn, ok) \<and> cn_socket cn = g)"
      using S unfolding server_ok_def by blast
    let ?p = "ts_service_pool sv"
    define s where "s = sp_services ?p ! (sp_service_index ?p mod sp_size ?p)"
    have "sp_service_index ?p mod sp_size ?p < length (sp_services ?p)"
      using sv(2) unfolding pool_ready_def by (metis mod_less_divisor)
    then have s: "s \<in> L" "s \<noteq> s0" using sv(3) nth_mem unfolding s_def by blast+
    obtain i where i: "services w s = Some i" using S s(1) by (auto simp: loops_ok_def)
    have tid: "this_tid w \<noteq> m_owner_tid i"
      using s0 s i S unfolding in_thread_def loops_ok_def by metis
    have map: "ts_conn_map sv f = None"
    proof (rule ccontr)
      assume "ts_conn_map sv f \<noteq> None"
      then obtain c cn ok where c: "conn_at w c = Some (cn, ok)" "cn_socket cn = f" using sv(4) by auto
      from conn_okD(2) [OF conjunct2 [OF conns_okD [OF _ c(1)]]] S c(2) f(1) show False by metis
    qed
    have wk: "eventfd_documented K counter" "counter k1 (m_wakeup_fd i) < 2 ^ 64 - 1"
      "counter (snd (sys_setsockopt K fd l opt val k)) = counter k" for fd l opt val k
      using sys by (auto simp: system_documented_def wakeup_documented_def)
    have fresh: "refs w (next_addr w) = 0" using S by (simp add: fresh_ok_def)
    let ?c = "next_addr w"
    let ?k = "((\<lambda>k. snd (sys_write64 K (m_wakeup_fd i) 0 k)) ^^ 3) (snd (sys_setsockopt K f SOL_SOCKET SO_KEEPALIVE 1
          (snd (sys_setsockopt K f IPPROTO_TCP TCP_NODELAY 1 k1))))"
    from on_new_conn_queues [OF wk(1,3), of ?w1 v sv f s i ?c U addr] sv map s_def i tid wk(2) fresh
    obtain cn chn p where
      new: "on_new_conn K U v f addr ?w1 = Inr (?w1\<lparr>next_addr := ?c + 2, kern := ?k,
       chans := (chans w)(?c + 1 \<mapsto> chn), services := (services w)(s \<mapsto> i\<lparr>m_pending_tasks := m_pending_tasks i @
        [TAddChannel (?c + 1), TUpdateChannel (?c + 1), TConnCb (ts_conn_cb sv) ?c]\<rparr>),
       refs := (refs w)(?c := 2), conns := (conns w)(?c \<mapsto> cn),
       servers := (servers w)(v \<mapsto> sv\<lparr>ts_service_pool := p, ts_conn_map := (ts_conn_map sv)(f \<mapsto> ?c)\<rparr>)\<rparr>)" (is "_ = Inr ?w'")
      and p: "next_service ?p = Inr (s, p)" "pool_ready p"
      and cn: "cn_socket cn = f" "cn_service cn = s" "cn_channle cn = ?c + 1" "cn_close_cb cn = Some v" "cn_conn_cb cn = ts_conn_cb sv"
      "cn_read_cb cn = ts_read_cb sv" "cn_write_cb cn = ts_write_cb sv" "buf_inv (cn_write_cache cn)" "buf_inv (cn_read_cache cn)"
      and chn: "conn_channel ?c chn" "ch_fd chn = f" "ch_service chn = s"
      by auto
    have k: "interest ?k = interest (kern w)" "used ?k = insert f (used (kern w))"
      using k1 f by (simp_all add: numeral_3_eq_3 interest_keeps [OF sys] used_keeps [OF sys])
    have p': "sp_services p = sp_services ?p"
      using next_service_ready [OF sv(2)] p(1) by auto
    have "safe_state interest used L s0 v (\<lambda>_. []) ?w'"
      by (rule safe_accepted [OF safe sv(1) s(1) i refl f(1) k(2,1) p(2) p' cn chn, where l = "log_out w"]) simp
    moreover have "in_thread s0 ?w'" using s0(2) s(2) by (auto simp: in_thread_def)
    moreover have "registered interest s0 ?w' e" if "registered interest s0 w e" for e
      using that s(2) k(1) by (auto simp: registered_def watch_def)
    moreover have "chan_at ?w' ch = chan_at w ch"
      using ch S by (auto simp: chan_at_def fresh_ok_def)
    ultimately show ?thesis
      using False read new by (simp add: after_work_def)
  qed
qed

lemma same_shape_progress:
  "chans u ch = Some z \<Longrightarrow> same_shape interest used u (put_chan ch (z\<lparr>ch_progress_in_write := False\<rparr>) u)"
  by (simp add: same_shape_def put_chan_def chan_ident_def)

text \<open>The work of any channel that the loop has registered.\<close>

lemma server_work_sound:
  assumes sys: "system_documented K interest used counter" and U: "U = echo_code K \<or> U = mt_code K"
    and safe: "safe_state interest used L s0 v (\<lambda>_. []) w" and s: "s \<in> L" "in_thread s w" and reg: "registered interest s w ch"
  shows "sound (after_work interest used L s0 v s ch w) (server_work h K U ch w)"
proof -
  note S = safe [unfolded safe_state_def]
  from reg s(2) obtain i f where i: "services w s = Some i" "this_tid w = m_owner_tid i"
    and f: "watch interest (kern w) (ep_fd (m_poller i)) f = Some ch"
    by (auto simp: registered_def in_thread_def)
  from S s(1) i(1) f obtain x where x: "channel_ok s0 v s w (\<lambda>c. unqueued i c ch) ch x" "ch_fd x = f"
    unfolding watched_ok_def by blast
  then have at: "chan_at w ch = Some x" by (simp add: channel_ok_def)
  then obtain chn where chn: "chans w ch = Some chn" "chan_ident chn = x" "chan_ident x = x" by (rule chan_atE)
  note id = chan_identD [of chn x, unfolded chn(2,3), OF refl]
  from x(1) consider (self) "self_channel s x" | (acc) "s = s0" "acceptor_channel v w x"
    | (conn) c cn ok where "conn_at w c = Some (cn, ok)" "cn_channle cn = ch" "unqueued i c ch"
    unfolding channel_ok_def by blast
  then show ?thesis
  proof cases
    case self
    have "sound (same_shape interest used w) (process_work (connection_dtor K) (server_functor h K U) ch w)"
    proof (rule read_only_work [OF chn(1)])
      fix u assume u: "same_shape interest used w u"
      from same_shape_chan [OF u chn(1)] obtain y where y: "chans u ch = Some y" "chan_ident y = chan_ident chn" .
      then show "\<exists>y. chans u ch = Some y \<and> ch_write_callback y = None"
        using self id chan_identD [OF y(2)] by (auto simp: self_channel_def)
      show "same_shape interest used w (put_chan ch (z\<lparr>ch_progress_in_write := False\<rparr>) u)" if "chans u ch = Some z" for z
        by (rule same_shape_trans [OF u same_shape_progress [OF that]])
    qed (use self id on_read_kept [OF sys i(1)] in \<open>auto simp: self_channel_def server_functor_def\<close>)
    then show ?thesis
      unfolding server_work_def by (rule sound_mono) (rule after_work_same [OF _ safe s(2)])
  next
    case acc
    from acc(2) obtain a ac where a: "ch_read_callback x = Some (AcceptorOnRead a)" "acceptors w a = Some ac" "ac_accept_cb ac = Some v"
      by (auto simp: acceptor_channel_def)
    let ?Q = "\<lambda>u. after_work interest used L s0 v s0 ch w u \<and> chan_at u ch = chan_at w ch"
    have "sound ?Q (process_work (connection_dtor K) (server_functor h K U) ch w)"
    proof (rule read_only_work [OF chn(1)])
      show "?Q w" using after_work_same [OF same_shape_refl safe] s(2) acc(1) by simp
      fix u assume u: "?Q u"
      then obtain y where y: "chans u ch = Some y" "chan_ident y = x" using at by (auto elim!: chan_atE)
      show "\<exists>y. chans u ch = Some y \<and> ch_write_callback y = None"
        using y(1) acc(2) chan_identD [of y x, unfolded y(2) chn(3), OF refl] by (auto simp: acceptor_channel_def)
      fix z assume z: "chans u ch = Some z"
      from u z same_shape_progress [OF z] show "?Q (put_chan ch (z\<lparr>ch_progress_in_write := False\<rparr>) u)"
        by (auto intro: after_work_then simp: chan_at_def put_chan_def chan_ident_def)
    qed (use acc id a at s acceptor_on_read_sound [OF sys safe _ _ a(2,3), of ch ch h "server_code K U"]
        in \<open>auto simp: acceptor_channel_def server_functor_def\<close>)
    then show ?thesis
      unfolding server_work_def acc(1) by (rule sound_mono) simp
  next
    case conn
    then have q: "unqueued i c (cn_channle cn)" and reg': "watch interest (kern w) (ep_fd (m_poller i)) f = Some (cn_channle cn)"
      using f by simp_all
    have "\<exists>chn. chan_at w (cn_channle cn) = Some chn \<and> ch_service chn = s \<and> ch_fd chn = f"
      using conn(2) at x by (auto simp: channel_ok_def)
    from registered_alive [OF safe s(1) i reg' conn(1) q this]
    have alive: "alive interest v c w" "refs w c = 1" "cn_service cn = s" "cn_socket cn = f" by auto
    from conn(1) obtain y where y: "conns w c = Some y" "cn_socket y = f" "cn_service y = s" "cn_channle y = ch"
      using alive(3,4) conn(2) by (elim conn_atE) simp
    from conn_work_sound [OF sys U alive(1,2) y(1), of h] y(4)
    have "sound (\<lambda>w'. same_shape interest used w w' \<or> freed interest used v c w w') (server_work h K U ch w)" by simp
    then show ?thesis
      using after_work_same [OF _ safe s(2)] after_work_freed [OF safe s(1) i y(1,3)] y conn(3) f
      by (elim sound_mono) auto
  qed
qed

section \<open>A round\<close>

lemma collect_events_same:
  assumes "n \<le> length evts" and "\<forall>x \<in> set (take n evts). chans w (snd x) \<noteq> None"
  shows "\<exists>w'. collect_events p n evts active w = Inr (active @ map snd (take n evts), w') \<and> same_shape interest used w w'"
  using assms
proof (induction p n evts active w rule: collect_events.induct)
  case (3 p n events ch evts active w)
  have "chans w ch \<noteq> None" using "3.prems"(2) by simp
  then obtain c where c: "chans w ch = Some c" by blast
  obtain l where l: "assert_channel p c True w = w\<lparr>log_out := l\<rparr>" using assert_channel_logs by blast
  let ?w = "put_chan ch (save_evt_status events c) (assert_channel p c True w)"
  have shape: "same_shape interest used w ?w"
    using c by (simp add: l same_shape_def put_chan_def save_evt_status_def chan_ident_def)
  have live: "\<forall>x \<in> set (take n evts). chans ?w (snd x) \<noteq> None"
    using "3.prems"(2) by (simp add: l put_chan_def)
  have "n \<le> length evts" using "3.prems"(1) by simp
  from "3.IH" [OF refl refl this live] obtain w' where
    "collect_events p n evts (active @ [ch]) ?w = Inr ((active @ [ch]) @ map snd (take n evts), w')"
    "same_shape interest used ?w w'" by blast
  with c shape show ?case by (auto simp: get_chan_def Let_def intro: same_shape_trans)
qed auto

lemma wait_sound:
  assumes sys: "system_documented K interest used counter" and safe: "safe_state interest used L s0 v (\<lambda>_. []) w"
    and s: "s \<in> L" "in_thread s w"
  shows "sound (\<lambda>(act, w'). same_shape interest used w w' \<and> distinct act \<and> (\<forall>ch \<in> set act. registered interest s w ch)) (wait_channel K s t w)"
proof -
  obtain i where i: "services w s = Some i" using s(2) by (auto simp: in_thread_def)
  let ?ep = "ep_fd (m_poller i)"
  obtain ret errno evts k where wait: "sys_epoll_wait K ?ep kMaxPollEvt t (kern w) = ((ret, errno, evts), k)"
    by (metis surj_pair)
  have k: "interest k = interest (kern w)" "used k = used (kern w)"
    using interest_keeps(1) [OF sys, of ?ep kMaxPollEvt t "kern w"] used_keeps(2) [OF sys, of ?ep kMaxPollEvt t "kern w"] wait by simp_all
  have doc: "nat ret \<le> length evts" "distinct (map snd (take (nat ret) evts))"
    "\<forall>(e, ch) \<in> set (take (nat ret) evts). \<exists>f m. interest (kern w) ?ep f = Some (m, ch)"
  proof -
    have "events_documented K interest" using sys by (simp add: system_documented_def)
    from spec [OF spec [OF spec [OF spec [OF this [unfolded events_documented_def], of ?ep], of kMaxPollEvt], of t], of "kern w"] wait
    show "nat ret \<le> length evts" "distinct (map snd (take (nat ret) evts))"
      "\<forall>(e, ch) \<in> set (take (nat ret) evts). \<exists>f m. interest (kern w) ?ep f = Some (m, ch)" by simp_all
  qed
  have reg: "registered interest s w ch" if "(e, ch) \<in> set (take (nat ret) evts)" for e ch
  proof -
    from doc(3) that obtain f m where "interest (kern w) ?ep f = Some (m, ch)" by blast
    with i show ?thesis unfolding registered_def watch_def by force
  qed
  let ?w1 = "w\<lparr>kern := k\<rparr>"
  have shape: "same_shape interest used w ?w1" using k by (rule same_shape_call)
  have "chans ?w1 ch \<noteq> None" if "(e, ch) \<in> set (take (nat ret) evts)" for e ch
  proof -
    from reg [OF that] i obtain f where "watch interest (kern w) ?ep f = Some ch" by (auto simp: registered_def)
    with safe s(1) i obtain x where "channel_ok s0 v s w (\<lambda>c. unqueued i c ch) ch x"
      unfolding safe_state_def watched_ok_def by blast
    then have "chan_at w ch = Some x" by (simp add: channel_ok_def)
    then show ?thesis by (auto simp: chan_at_def)
  qed
  then have "\<forall>x \<in> set (take (nat ret) evts). chans ?w1 (snd x) \<noteq> None" by (metis prod.collapse)
  from collect_events_same [OF doc(1) this, of "m_poller i" "[]" interest used] obtain w' where
    "collect_events (m_poller i) (nat ret) evts [] ?w1 = Inr (map snd (take (nat ret) evts), w')" "same_shape interest used ?w1 w'"
    by auto
  with wait i shape doc(2) reg show ?thesis
    by (auto simp: wait_channel_def wait_for_evt_def get_ios_def kcall_unfold intro: same_shape_trans)
qed

lemma works_sound:
  assumes sys: "system_documented K interest used counter" and U: "U = echo_code K \<or> U = mt_code K" and s: "s \<in> L"
  shows "safe_state interest used L s0 v (\<lambda>_. []) w \<Longrightarrow> in_thread s w \<Longrightarrow> distinct chs \<Longrightarrow>
    (\<forall>ch \<in> set chs. registered interest s w ch) \<Longrightarrow>
    sound (\<lambda>w'. safe_state interest used L s0 v (\<lambda>_. []) w' \<and> in_thread s w') (run_all (server_work h K U) chs w)"
proof (induction chs arbitrary: w)
  case (Cons ch chs)
  have "sound (after_work interest used L s0 v s ch w) (server_work h K U ch w)"
    using Cons.prems by (intro server_work_sound [OF sys U _ s]) auto
  then show ?case
    unfolding run_all.simps
  proof (rule sound_rbind)
    fix u assume "after_work interest used L s0 v s ch w u"
    moreover from this Cons.prems have "\<forall>d \<in> set chs. registered interest s u d" by (auto simp: after_work_def)
    ultimately show "sound (\<lambda>w'. safe_state interest used L s0 v (\<lambda>_. []) w' \<and> in_thread s w') (run_all (server_work h K U) chs u)"
      using Cons.IH [of u] Cons.prems(3) by (simp add: after_work_def)
  qed
qed simp

text \<open>The tasks that a loop has swapped out of its queue: \<open>R\<close> are the pointers they hold.\<close>

definition batch ::
  "('k \<Rightarrow> fd \<Rightarrow> fd \<rightharpoonup> epoll_event) \<Rightarrow> ('k \<Rightarrow> fd set) \<Rightarrow> ptr set \<Rightarrow> ptr \<Rightarrow> ptr \<Rightarrow> ptr \<Rightarrow> task list \<Rightarrow> ptr list \<Rightarrow>
     ('k, 'm) srv_state_scheme \<Rightarrow> bool" where
  "batch interest used L s0 v s T R w \<longleftrightarrow> safe_state interest used L s0 v ((\<lambda>_. [])(s := R)) w \<and>
     (\<exists>i. services w s = Some i \<and> this_tid w = m_owner_tid i \<and> m_pending_tasks i = []) \<and>
     (\<forall>t \<in> set T. task_ok s0 v s w t)"

lemma batch_same:
  assumes shape: "same_shape interest used w w'" and "batch interest used L s0 v s T R w"
  shows "batch interest used L s0 v s T R w'"
proof -
  have at: "conn_at w' = conn_at w" "chan_at w' = chan_at w" "acceptors w' = acceptors w" "services w' = services w" "this_tid w' = this_tid w"
    using shape by (auto simp: same_shape_def conn_at_def chan_at_def fun_eq_iff)
  show ?thesis
    using assms(2) safe_same [OF shape] unfolding batch_def by (simp add: at task_ok_cong [OF at(1-3)])
qed

lemma batch_start:
  assumes safe: "safe_state interest used L s0 v (\<lambda>_. []) w" and s: "s \<in> L" "services w s = Some i" "this_tid w = m_owner_tid i"
  shows "batch interest used L s0 v s (m_pending_tasks i) (queued_refs i)
     (put_ios s (i\<lparr>m_running_pending_tasks := True, m_pending_tasks := []\<rparr>) w)" (is "batch _ _ _ _ _ _ _ _ ?w")
proof -
  note S = safe [unfolded safe_state_def]
  have w: "services ?w = (services w)(s \<mapsto> i\<lparr>m_running_pending_tasks := True, m_pending_tasks := []\<rparr>)" "refs ?w = refs w"
    "kern ?w = kern w" "acceptors ?w = acceptors w" "servers ?w = servers w" "next_addr ?w = next_addr w" "this_tid ?w = this_tid w"
    by (simp_all add: put_ios_def)
  have at: "conn_at ?w = conn_at w" "chan_at ?w = chan_at w" by (simp_all add: conn_at_def chan_at_def fun_eq_iff put_ios_def)
  have ok: "task_ok s0 v s w t" if "t \<in> set (m_pending_tasks i)" for t using S s that by (auto simp: tasks_ok_def)
  have "loops_ok used L ?w" by (rule loops_ok_mono [where w = w]) (use S s in \<open>auto simp: w\<close>)
  moreover have "server_ok L s0 v ?w" using S by (simp add: server_ok_def w at)
  moreover have "conns_ok used L v ((\<lambda>_. [])(s := queued_refs i)) ?w"
    unfolding conns_ok_def at
  proof (intro allI impI)
    fix d y o1 assume "conn_at w d = Some (y, o1)"
    with S have "o1 \<and> conn_ok used L v (\<lambda>_. []) w d y" by (blast dest: conns_okD)
    then show "o1 \<and> conn_ok used L v ((\<lambda>_. [])(s := queued_refs i)) ?w d y"
      using s(2) unfolding conn_ok_def at w by (auto simp: queued_refs_def split: if_splits)
  qed
  moreover have "watched_ok interest L s0 v ?w"
    unfolding watched_ok_def w
  proof (intro ballI allI impI, elim conjE)
    fix t j g d assume t: "t \<in> L" "((services w)(s \<mapsto> i\<lparr>m_running_pending_tasks := True, m_pending_tasks := []\<rparr>)) t = Some j"
      and g: "watch interest (kern w) (ep_fd (m_poller j)) g = Some d"
    then obtain j0 where j0: "services w t = Some j0" "ep_fd (m_poller j0) = ep_fd (m_poller j)"
      "m_pending_tasks j = m_pending_tasks j0 \<or> m_pending_tasks j = []"
      using s(2) by (cases "t = s") auto
    with S t(1) g obtain y where y: "channel_ok s0 v t w (\<lambda>c. unqueued j0 c d) d y" "ch_fd y = g"
      unfolding watched_ok_def by metis
    have "channel_ok s0 v t ?w (\<lambda>c. unqueued j c d) d y"
      by (rule channel_ok_mono [OF y(1)]) (use j0(3) in \<open>auto simp: at w unqueued_def queued_refs_def\<close>)
    with y(2) show "\<exists>y. channel_ok s0 v t ?w (\<lambda>c. unqueued j c d) d y \<and> ch_fd y = g" by blast
  qed
  moreover have "tasks_ok L s0 v ?w"
    using S unfolding tasks_ok_def w by (auto simp: task_ok_cong [OF at w(4)] split: if_splits)
  moreover have "fresh_ok ?w" using S by (simp add: fresh_ok_def w at)
  ultimately show ?thesis
    using ok s(3) by (simp add: batch_def safe_state_def w task_ok_cong [OF at w(4)])
qed

text \<open>A step of the loop that changes its map of channels or its flag, and may enter a channel into its interest set.\<close>

lemma batch_watch:
  assumes b: "batch interest used L s0 v s T R w" and s: "s \<in> L" and i: "services w s = Some i"
    and p: "ep_fd (m_poller j) = ep_fd (m_poller i)" "m_owner_tid j = m_owner_tid i" "m_pending_tasks j = m_pending_tasks i"
    and k: "used k = used (kern w)"
      "watch interest k = watch interest (kern w) \<or> (\<exists>ch chn. channel_ok s0 v s w (\<lambda>_. True) ch chn \<and>
         watch interest k = (watch interest (kern w))(ep_fd (m_poller i) := (watch interest (kern w) (ep_fd (m_poller i)))(ch_fd chn \<mapsto> ch)))"
    and w': "w' = w\<lparr>kern := k, log_out := l, services := (services w)(s \<mapsto> j)\<rparr>"
  shows "batch interest used L s0 v s T R w'"
proof -
  let ?X = "(\<lambda>_. [])(s := R)"
  have S: "loops_ok used L w" "server_ok L s0 v w" "conns_ok used L v ?X w" "watched_ok interest L s0 v w" "tasks_ok L s0 v w" "fresh_ok w"
    and pend: "m_pending_tasks i = []" and tid: "this_tid w = m_owner_tid i"
    using b i by (auto simp: batch_def safe_state_def)
  have w: "services w' = (services w)(s \<mapsto> j)" "refs w' = refs w"
    "kern w' = k" "acceptors w' = acceptors w" "servers w' = servers w" "next_addr w' = next_addr w" "this_tid w' = this_tid w"
    by (simp_all add: w')
  have at: "conn_at w' = conn_at w" "chan_at w' = chan_at w" by (simp_all add: conn_at_def chan_at_def fun_eq_iff w')
  have ios: "\<exists>j0. services w t = Some j0 \<and> ep_fd (m_poller j) = ep_fd (m_poller j0) \<and> m_pending_tasks j = m_pending_tasks j0"
    if "services w' t = Some j" for t j
    using that i p by (auto simp: w split: if_splits)
  have "loops_ok used L w'" by (rule loops_ok_mono [OF S(1)]) (use i p k in \<open>auto simp: w\<close>)
  moreover have "server_ok L s0 v w'" using S(2) by (simp add: server_ok_def w at)
  moreover have "conns_ok used L v ?X w'"
    unfolding conns_ok_def at
  proof (intro allI impI)
    fix d y o1 assume "conn_at w d = Some (y, o1)"
    with S(3) have "o1 \<and> conn_ok used L v ?X w d y" by (rule conns_okD)
    then show "o1 \<and> conn_ok used L v ?X w' d y"
      using i p k(1) unfolding conn_ok_def at by (auto simp: w queued_refs_def split: if_splits)
  qed
  moreover have "watched_ok interest L s0 v w'"
    unfolding watched_ok_def
  proof (intro ballI allI impI, elim conjE)
    fix t j1 g d assume t: "t \<in> L" "services w' t = Some j1" and g: "watch interest (kern w') (ep_fd (m_poller j1)) g = Some d"
    from ios [OF t(2)] obtain j0 where j0: "services w t = Some j0" "ep_fd (m_poller j1) = ep_fd (m_poller j0)"
      "m_pending_tasks j1 = m_pending_tasks j0" by blast
    show "\<exists>y. channel_ok s0 v t w' (\<lambda>c. unqueued j1 c d) d y \<and> ch_fd y = g"
    proof (cases "watch interest (kern w) (ep_fd (m_poller j0)) g = Some d")
      case True
      with S(4) t(1) j0(1) obtain y where y: "channel_ok s0 v t w (\<lambda>c. unqueued j0 c d) d y" "ch_fd y = g"
        unfolding watched_ok_def by blast
      have "channel_ok s0 v t w' (\<lambda>c. unqueued j1 c d) d y"
        by (rule channel_ok_mono [OF y(1)]) (use j0(3) in \<open>auto simp: at w unqueued_def queued_refs_def\<close>)
      with y(2) show ?thesis by blast
    next
      case False
      with g k(2) j0(2) obtain ch chn where ch: "channel_ok s0 v s w (\<lambda>_. True) ch chn"
        and new: "ep_fd (m_poller j0) = ep_fd (m_poller i)" "g = ch_fd chn" "d = ch"
        by (auto simp: w split: if_splits)
      then have "t = s" using S(1) t(1) s i j0(1) unfolding loops_ok_def by blast
      then have "m_pending_tasks j1 = []" using j0(1,3) i pend by simp
      then have "channel_ok s0 v s w' (\<lambda>c. unqueued j1 c d) ch chn"
        by (intro channel_ok_mono [OF ch]) (auto simp: at w unqueued_def queued_refs_def)
      with new \<open>t = s\<close> show ?thesis by blast
    qed
  qed
  moreover have "tasks_ok L s0 v w'"
    using S(5) unfolding tasks_ok_def task_ok_cong [OF at w(4)] by (metis ios)
  moreover have "fresh_ok w'" using S(6) by (simp add: fresh_ok_def w at)
  ultimately show ?thesis
    using b tid pend p by (auto simp: batch_def safe_state_def w task_ok_cong [OF at w(4)])
qed

lemma channel_tasks_sound:
  assumes sys: "system_documented K interest used counter" and b: "batch interest used L s0 v s T R w" and s: "s \<in> L"
    and ch: "channel_ok s0 v s w (\<lambda>_. True) ch chn"
  shows "sound (batch interest used L s0 v s T R) (add_channel_in_loop K s ch w)"
    "sound (batch interest used L s0 v s T R) (update_channel_in_loop K s ch w)"
proof -
  obtain i where i: "services w s = Some i" "this_tid w = m_owner_tid i" using b by (auto simp: batch_def)
  from ch obtain y where y: "chans w ch = Some y" "chan_ident y = chn" "chan_ident chn = chn"
    by (auto simp: channel_ok_def elim: chan_atE)
  have fd: "ch_fd chn = ch_fd y" using chan_identD [of y chn, unfolded y(2,3), OF refl] by simp
  let ?ep = "ep_fd (m_poller i)" and ?e = "(ch_last_evt_status y, ch)"
  have doc: "epoll_documented K interest" using sys by (simp add: system_documented_def epoll_reliable_def)
  have k: "used k = used (kern w)" "watch interest k = watch interest (kern w) \<or>
      watch interest k = (watch interest (kern w))(?ep := (watch interest (kern w) ?ep)(ch_fd chn \<mapsto> ch))"
    if call: "sys_epoll_ctl K ?ep oper (ch_fd y) (Some ?e) (kern w) = ((r, e), k)" and "oper \<noteq> EPOLL_CTL_DEL" for oper r e k
  proof -
    show "used k = used (kern w)" using used_keeps(1) [OF sys, of ?ep oper "ch_fd y" "Some ?e" "kern w"] call by simp
    show "watch interest k = watch interest (kern w) \<or>
      watch interest k = (watch interest (kern w))(?ep := (watch interest (kern w) ?ep)(ch_fd chn \<mapsto> ch))"
      using epoll_documentedD(1,2) [OF doc call] that(2) by (cases "r = 0") (auto simp: watch_def fd fun_eq_iff)
  qed
  note bw = batch_watch [OF b s i(1)]
  obtain r e k1 where add: "sys_epoll_ctl K ?ep EPOLL_CTL_ADD (ch_fd y) (Some ?e) (kern w) = ((r, e), k1)" by (metis surj_pair)
  define p where "p = (if r = 0 then m_poller i\<lparr>channel_map := (channel_map (m_poller i))(ch_fd y \<mapsto> ch)\<rparr> else m_poller i)"
  from poller_add_channel_form [OF y(1) add] obtain l where
    "poller_add_channel K (m_poller i) ch w = Inr (p, w\<lparr>kern := k1, log_out := l\<rparr>)" unfolding p_def by blast
  then have "add_channel_in_loop K s ch w = Inr (w\<lparr>kern := k1, log_out := l, services := (services w)(s \<mapsto> i\<lparr>m_poller := p\<rparr>)\<rparr>)"
    using i by (simp add: add_channel_in_loop_def get_ios_def must_run_in_loop_owner put_ios_def)
  moreover have "batch interest used L s0 v s T R (w\<lparr>kern := k1, log_out := l, services := (services w)(s \<mapsto> i\<lparr>m_poller := p\<rparr>)\<rparr>)"
    by (rule bw [OF _ _ _ k(1) [OF add] _ refl]) (use k(2) [OF add] ch in \<open>auto simp: p_def\<close>)
  ultimately show "sound (batch interest used L s0 v s T R) (add_channel_in_loop K s ch w)" by simp
  from update_evt_code_form [OF y(1), of K "m_poller i"] obtain l' where l': "update_evt_code K (m_poller i) ch w =
      Inr (m_poller i, w\<lparr>kern := snd (sys_epoll_ctl K ?ep EPOLL_CTL_MOD (ch_fd y) (Some ?e) (kern w)), log_out := l'\<rparr>)" by blast
  obtain r' e' k2 where upd: "sys_epoll_ctl K ?ep EPOLL_CTL_MOD (ch_fd y) (Some ?e) (kern w) = ((r', e'), k2)" by (metis surj_pair)
  have "update_channel_in_loop K s ch w = Inr (w\<lparr>kern := k2, log_out := l', services := (services w)(s \<mapsto> i\<lparr>m_poller := m_poller i\<rparr>)\<rparr>)"
    using l' i upd by (simp add: update_channel_in_loop_def get_ios_def must_run_in_loop_owner put_ios_def)
  moreover have "batch interest used L s0 v s T R (w\<lparr>kern := k2, log_out := l', services := (services w)(s \<mapsto> i\<lparr>m_poller := m_poller i\<rparr>)\<rparr>)"
    by (rule bw [OF _ _ _ k(1) [OF upd] _ refl]) (use k(2) [OF upd] ch in auto)
  ultimately show "sound (batch interest used L s0 v s T R) (update_channel_in_loop K s ch w)" by simp
qed

lemma server_task_sound:
  assumes sys: "system_documented K interest used counter" and U: "U = echo_code K \<or> U = mt_code K"
    and b: "batch interest used L s0 v s T R w" and s: "s \<in> L" and t: "t \<in> set T"
  shows "sound (batch interest used L s0 v s T R) (server_task K U s t w)"
proof -
  have ok: "task_ok s0 v s w t" using b t by (auto simp: batch_def)
  show ?thesis
  proof (cases t)
    case (TConnCb f c)
    with ok obtain r where r: "f = Some r" and c: "conns w c \<noteq> None" by (auto elim: conn_atE)
    from echo_only_logs [OF U, of c r] have "only_logs c (call_conn_cb (server_code K U) (Some r) c)"
      by (simp add: only_logs_server_code)
    from only_logsE [OF this c] obtain l where "call_conn_cb (server_code K U) (Some r) c w = Inr (w\<lparr>log_out := l\<rparr>)" .
    moreover have "batch interest used L s0 v s T R (w\<lparr>log_out := l\<rparr>)" by (rule batch_same [OF _ b]) simp
    ultimately show ?thesis using TConnCb r by (simp add: server_task_def exec_task_def)
  qed (use ok channel_tasks_sound [OF sys b s] in \<open>auto simp: server_task_def exec_task_def\<close>)
qed

lemma tasks_sound:
  assumes sys: "system_documented K interest used counter" and U: "U = echo_code K \<or> U = mt_code K" and s: "s \<in> L"
  shows "batch interest used L s0 v s T R w \<Longrightarrow> set ts \<subseteq> set T \<Longrightarrow>
    sound (batch interest used L s0 v s T R) (run_all (server_task K U s) ts w)"
proof (induction ts arbitrary: w)
  case (Cons t ts)
  have "sound (batch interest used L s0 v s T R) (server_task K U s t w)"
    using Cons.prems by (intro server_task_sound [OF sys U _ s]) auto
  then show ?case
    unfolding run_all.simps by (rule sound_rbind) (use Cons in auto)
qed simp

text \<open>The pointers that the tasks held are destroyed; the map of the server still holds one.\<close>

lemma batch_release:
  assumes b: "batch interest used L s0 v s T (c # R) w" and c: "conn_at w c = Some (cn, ok)" "cn_service cn = s"
  shows "\<exists>w'. release D c w = Inr w' \<and> batch interest used L s0 v s T R w' \<and> conn_at w' = conn_at w"
proof -
  let ?w = "w\<lparr>refs := (refs w)(c := refs w c - 1)\<rparr>"
  have S: "loops_ok used L w" "server_ok L s0 v w" "conns_ok used L v ((\<lambda>_. [])(s := c # R)) w" "watched_ok interest L s0 v w"
    "tasks_ok L s0 v w" "fresh_ok w" using b by (simp_all add: batch_def safe_state_def)
  obtain i where i: "services w s = Some i" "this_tid w = m_owner_tid i" "m_pending_tasks i = []" using b by (auto simp: batch_def)
  have "conn_ok used L v ((\<lambda>_. [])(s := c # R)) w c cn" using conns_okD [OF S(3) c(1)] by blast
  then have refs: "1 < refs w c" using i c(2) by (simp add: conn_ok_def)
  have at: "conn_at ?w = conn_at w" "chan_at ?w = chan_at w" by (simp_all add: conn_at_def chan_at_def fun_eq_iff)
  have acc: "acceptors ?w = acceptors w" by simp
  have "conns_ok used L v ((\<lambda>_. [])(s := R)) ?w"
    unfolding conns_ok_def at
  proof (intro allI impI)
    fix d y o1 assume d: "conn_at w d = Some (y, o1)"
    have "o1 \<and> conn_ok used L v ((\<lambda>_. [])(s := c # R)) w d y" by (rule conns_okD [OF S(3) d])
    then show "o1 \<and> conn_ok used L v ((\<lambda>_. [])(s := R)) ?w d y"
      using c d i(1) unfolding conn_ok_def at by (cases "d = c") auto
  qed
  moreover have "fresh_ok ?w" using S(6) unfolding fresh_ok_def at by simp
  ultimately have "safe_state interest used L s0 v ((\<lambda>_. [])(s := R)) ?w"
    using S unfolding safe_state_def loops_ok_def server_ok_def watched_ok_def tasks_ok_def at
      channel_ok_cong [OF at acc] task_ok_cong [OF at acc] by simp
  then have "batch interest used L s0 v s T R ?w"
    using b unfolding batch_def task_ok_cong [OF at acc] by simp
  with release_many [OF refs, of D] at show ?thesis by auto
qed

lemma task_refs_ok:
  "task_ok s0 v s w t \<Longrightarrow> c \<in> set (task_refs t) \<Longrightarrow> \<exists>cn ok. conn_at w c = Some (cn, ok) \<and> cn_service cn = s"
  by (cases t) auto

lemma releases_sound:
  "batch interest used L s0 v s T R w \<Longrightarrow> \<forall>c \<in> set R. \<exists>cn ok. conn_at w c = Some (cn, ok) \<and> cn_service cn = s \<Longrightarrow>
   \<exists>w'. run_all (release D) R w = Inr w' \<and> batch interest used L s0 v s T [] w'"
proof (induction R arbitrary: w)
  case (Cons c R)
  then obtain cn ok where "conn_at w c = Some (cn, ok)" "cn_service cn = s" by auto
  from batch_release [OF Cons.prems(1) this, of D] obtain u where
    u: "release D c w = Inr u" "batch interest used L s0 v s T R u" "conn_at u = conn_at w" by blast
  with Cons.IH [OF u(2)] Cons.prems(2) show ?case by simp
qed simp

lemma pending_sound:
  assumes sys: "system_documented K interest used counter" and U: "U = echo_code K \<or> U = mt_code K"
    and safe: "safe_state interest used L s0 v (\<lambda>_. []) w" and s: "s \<in> L" "in_thread s w"
  shows "sound (\<lambda>w'. safe_state interest used L s0 v (\<lambda>_. []) w' \<and> in_thread s w')
     (run_pending_task (connection_dtor K) (server_task K U s) s w)"
proof -
  obtain i where i: "services w s = Some i" "this_tid w = m_owner_tid i" using s(2) by (auto simp: in_thread_def)
  let ?T = "m_pending_tasks i"
  let ?w1 = "put_ios s (i\<lparr>m_running_pending_tasks := True, m_pending_tasks := []\<rparr>) w"
  let ?B = "batch interest used L s0 v s ?T"
  have 1: "?B (queued_refs i) ?w1" by (rule batch_start [OF safe s(1) i])
  have rest: "sound (\<lambda>w'. safe_state interest used L s0 v (\<lambda>_. []) w' \<and> in_thread s w')
      (rbind (get_ios s w2) (\<lambda>j. run_all (release (connection_dtor K)) (queued_refs i) (put_ios s (j\<lparr>m_running_pending_tasks := False\<rparr>) w2)))"
    if 2: "?B (queued_refs i) w2" for w2
  proof -
    obtain j where j: "services w2 s = Some j" "this_tid w2 = m_owner_tid j" "m_pending_tasks j = []" using 2 by (auto simp: batch_def)
    let ?w3 = "put_ios s (j\<lparr>m_running_pending_tasks := False\<rparr>) w2"
    have at: "conn_at ?w3 = conn_at w2" "chan_at ?w3 = chan_at w2" "acceptors ?w3 = acceptors w2"
      by (simp_all add: conn_at_def chan_at_def fun_eq_iff put_ios_def)
    have 3: "?B (queued_refs i) ?w3"
      by (rule batch_watch [OF 2 s(1) j(1), where k = "kern w2" and l = "log_out w2"]) (simp_all add: put_ios_def)
    have "\<exists>cn ok. conn_at ?w3 c = Some (cn, ok) \<and> cn_service cn = s" if "c \<in> set (queued_refs i)" for c
    proof -
      from that obtain t where t: "t \<in> set ?T" "c \<in> set (task_refs t)" by (auto simp: queued_refs_def)
      have "task_ok s0 v s w2 t" using 2 t(1) by (auto simp: batch_def)
      from task_refs_ok [OF this t(2)] show ?thesis unfolding at .
    qed
    with releases_sound [OF 3, of "connection_dtor K"] obtain w' where
      "run_all (release (connection_dtor K)) (queued_refs i) ?w3 = Inr w'" "?B [] w'" by blast
    moreover have "(\<lambda>_. [])(s := []) = (\<lambda>_. [] :: ptr list)" by auto
    ultimately show ?thesis
      using j(1) by (auto simp: get_ios_def batch_def in_thread_def)
  qed
  have "run_pending_task (connection_dtor K) (server_task K U s) s w = rbind (run_all (server_task K U s) ?T ?w1) (\<lambda>w2.
      rbind (get_ios s w2) (\<lambda>j. run_all (release (connection_dtor K)) (queued_refs i) (put_ios s (j\<lparr>m_running_pending_tasks := False\<rparr>) w2)))"
    using i(1) by (simp add: run_pending_task_def get_ios_Some Let_def queued_refs_def)
  with sound_rbind [OF tasks_sound [OF sys U s(1) 1 subset_refl] rest] show ?thesis by simp
qed

lemma round_sound:
  assumes sys: "system_documented K interest used counter" and U: "U = echo_code K \<or> U = mt_code K"
    and safe: "safe_state interest used L s0 v (\<lambda>_. []) w" and s: "s \<in> L" "in_thread s w"
  shows "sound (\<lambda>w'. safe_state interest used L s0 v (\<lambda>_. []) w' \<and> in_thread s w')
     (run_round K (connection_dtor K) (server_task K U s) (server_work h K U) s w)"
proof -
  let ?Q = "\<lambda>w'. safe_state interest used L s0 v (\<lambda>_. []) w' \<and> in_thread s w'"
  have "sound ?Q (rbind (run_all (server_work h K U) act u) (run_pending_task (connection_dtor K) (server_task K U s) s))"
    if u: "same_shape interest used w u" "distinct act" "\<forall>ch \<in> set act. registered interest s w ch" for act u
  proof (rule sound_rbind)
    have "safe_state interest used L s0 v (\<lambda>_. []) u" "in_thread s u" "\<forall>ch \<in> set act. registered interest s u ch"
      using u(3) safe_same [OF u(1)] safe s(2) u(1) by (auto simp: in_thread_def registered_def same_shape_def)
    then show "sound ?Q (run_all (server_work h K U) act u)"
      using works_sound [OF sys U s(1)] u(2) by blast
    show "sound ?Q (run_pending_task (connection_dtor K) (server_task K U s) s x)" if "?Q x" for x
      using that pending_sound [OF sys U _ s(1)] by blast
  qed
  then show ?thesis
    unfolding run_round_def by (intro sound_rbind [OF wait_sound [OF sys safe s]]) auto
qed

lemma safe_tid [simp]: "safe_state interest used L s0 v X (w\<lparr>this_tid := t\<rparr>) = safe_state interest used L s0 v X w"
proof -
  let ?w = "w\<lparr>this_tid := t\<rparr>"
  have at: "conn_at ?w = conn_at w" "chan_at ?w = chan_at w" "acceptors ?w = acceptors w"
    by (simp_all add: conn_at_def chan_at_def fun_eq_iff)
  show ?thesis
    unfolding safe_state_def loops_ok_def server_ok_def conns_ok_def conn_ok_def watched_ok_def tasks_ok_def fresh_ok_def
      at channel_ok_cong [OF at] task_ok_cong [OF at] by simp
qed

end
