(* ===== verification/Echo_Safety.thy ===== *)
theory Echo_Safety
  imports Server_Safety
begin

unbundle bit_operations_syntax

text \<open>
  Memory safety of the two echo servers from \<open>main\<close> on: the state in which the loops start has the invariant
  of \<open>Server_Safety\<close>, and every round of every loop keeps it.
\<close>

section \<open>The start\<close>

lemma started_safe:
  fixes w :: "('k, 'm) srv_state_scheme"
  assumes ok: "fds_ok interest used (kern w)" and empty: "conns w = Map.empty"
    and fresh: "\<And>a. next_addr w \<le> a \<Longrightarrow> chans w a = None \<and> refs w a = 0"
    and sv: "servers w v = Some sv" "ts_conn_map sv = Map.empty" "ts_conn_cb sv = Some r1" "ts_read_cb sv = Some r2" "ts_write_cb sv = Some r3"
    and s: "services w s = Some i" "m_owner_tid i = tid" "s \<notin> set (sp_services (ts_service_pool sv))"
    and pend: "set (m_pending_tasks i) \<subseteq> {TAddChannel ch, TUpdateChannel ch}"
    and reg: "interest (kern w) (ep_fd (m_poller i)) f = Some (m, s + 1)"
      "\<And>g m' d. interest (kern w) (ep_fd (m_poller i)) g = Some (m', d) \<Longrightarrow> g = f \<and> d = s + 1 \<or> g = ch_fd c \<and> d = ch"
    and self: "chans w (s + 1) = Some (loop_channel f s)"
    and acc: "chans w ch = Some c" "ch_service c = s" "ch_read_callback c = Some (AcceptorOnRead a)" "bare_channel c"
      "acceptors w a = Some ac" "ac_accept_cb ac = Some v"
    and pool: "pool_started interest tids (ts_service_pool sv) w" "distinct (tid # tids)"
  shows "safe_state interest used (insert s (set (sp_services (ts_service_pool sv)))) s v (\<lambda>_. []) w"
proof -
  let ?p = "ts_service_pool sv"
  let ?L = "insert s (set (sp_services ?p))"
  have at: "conn_at w = (\<lambda>_. None)" by (simp add: conn_at_def empty fun_eq_iff)
  have loop: "self_channel t (chan_ident (loop_channel g t))" "ch_fd (chan_ident (loop_channel g t)) = g"
    "ch_service (chan_ident (loop_channel g t)) = t" for t g
    by (simp_all add: self_channel_def chan_ident_def loop_channel_def set_read_callback_def evt_channel_new_def)
  have acc': "channel_ok s v s w P ch (chan_ident c)" "ch_fd (chan_ident c) = ch_fd c" for P
    using acc by (auto simp: channel_ok_def chan_at_def acceptor_channel_def chan_ident_def bare_channel_def)
  have self': "channel_ok s v t w P (t + 1) (chan_ident (loop_channel g t))" if "chans w (t + 1) = Some (loop_channel g t)" for t g P
    using that loop by (auto simp: channel_ok_def chan_at_def)
  have pl: "\<exists>j ep g. j < length tids \<and> t = sp_services ?p ! j \<and> services w t = Some (new_loop (tids ! j) ep g (t + 1)) \<and>
      chans w (t + 1) = Some (loop_channel g t) \<and> interest (kern w) ep = [g \<mapsto> (read_mask, t + 1)]" if "t \<in> set (sp_services ?p)" for t
  proof -
    from that obtain j where j: "j < length (sp_services ?p)" "t = sp_services ?p ! j" by (metis in_set_conv_nth)
    moreover have "length (sp_services ?p) = length tids" using pool(1) by (auto simp: pool_started_def pool_ready_def)
    ultimately have "j < length tids" "loop_started interest (tids ! j) t w" using pool(1) by (auto simp: pool_started_def)
    with j(2) show ?thesis unfolding loop_started_def by blast
  qed
  have used: "ep \<in> used (kern w)" if "interest (kern w) ep g \<noteq> None" for ep g using ok that unfolding fds_ok_def by blast
  have info: "services w t = Some j \<and> (\<exists>g m. interest (kern w) (ep_fd (m_poller j)) g = Some (m, t + 1)) \<and>
      (\<forall>g m d. interest (kern w) (ep_fd (m_poller j)) g = Some (m, d) \<longrightarrow> d = t + 1 \<or> t = s) \<and>
      (\<forall>g m d P. interest (kern w) (ep_fd (m_poller j)) g = Some (m, d) \<longrightarrow> (\<exists>chn. channel_ok s v t w P d chn \<and> ch_fd chn = g)) \<and>
      (\<forall>k \<in> set (m_pending_tasks j). task_ok s v t w k) \<and>
      (t = s \<and> m_owner_tid j = tid \<or> t \<noteq> s \<and> (\<exists>n < length tids. t = sp_services ?p ! n \<and> m_owner_tid j = tids ! n))"
    if t: "t \<in> ?L" "services w t = Some j" for t j
  proof (cases "t = s")
    case True
    have "\<exists>chn. channel_ok s v s w P d chn \<and> ch_fd chn = g"
      if "interest (kern w) (ep_fd (m_poller i)) g = Some (m', d)" for g m' d P
      using reg(2) [OF that] acc'(1) [of P] acc'(2) self' [OF self, of P] loop(2) [of f s] by blast
    moreover have "task_ok s v s w k" if "k \<in> set (m_pending_tasks i)" for k
      using set_mp [OF pend that] acc'(1) [of "\<lambda>_. True"] by auto
    ultimately show ?thesis using True t s reg(1) by auto
  next
    case False
    then obtain n ep g where n: "n < length tids" "t = sp_services ?p ! n" "services w t = Some (new_loop (tids ! n) ep g (t + 1))"
      "chans w (t + 1) = Some (loop_channel g t)" "interest (kern w) ep = [g \<mapsto> (read_mask, t + 1)]" using pl [of t] t(1) by blast
    have j: "j = new_loop (tids ! n) ep g (t + 1)" using n(3) t(2) by simp
    have "\<exists>chn. channel_ok s v t w P (t + 1) chn \<and> ch_fd chn = g" for P
      using self' [OF n(4)] loop(2) by blast
    then show ?thesis using False n by (auto simp: j new_loop_def split: if_splits)
  qed
  have owner: "t = s \<and> m_owner_tid j = tid \<or> t \<noteq> s \<and> (\<exists>n < length tids. t = sp_services ?p ! n \<and> m_owner_tid j = tids ! n)"
    if "t \<in> ?L" "services w t = Some j" for t j
    using info [OF that] by (elim conjE) assumption
  have same: "t = t'" if t: "t \<in> ?L" "t' \<in> ?L" "services w t = Some j" "services w t' = Some j'"
      "ep_fd (m_poller j) = ep_fd (m_poller j') \<or> m_owner_tid j = m_owner_tid j'" for t t' j j'
    using t(5)
  proof
    assume ep: "ep_fd (m_poller j) = ep_fd (m_poller j')"
    from info [OF t(1,3)] obtain g m where g: "interest (kern w) (ep_fd (m_poller j)) g = Some (m, t + 1)" by blast
    from info [OF t(2,4)] obtain g' m' where g': "interest (kern w) (ep_fd (m_poller j')) g' = Some (m', t' + 1)" by blast
    have "t' + 1 = t + 1 \<or> t = s" using info [OF t(1,3)] g' ep by auto
    moreover have "t + 1 = t' + 1 \<or> t' = s" using info [OF t(2,4)] g ep by auto
    ultimately show "t = t'" by auto
  next
    assume "m_owner_tid j = m_owner_tid j'"
    with owner [OF t(1,3)] owner [OF t(2,4)] pool(2) show "t = t'" by (auto simp: nth_eq_iff_index_eq)
  qed
  have "\<exists>j. services w t = Some j" if "t \<in> ?L" for t using that pl [of t] s(1) by blast
  moreover have "ep_fd (m_poller j) \<in> used (kern w)" if "t \<in> ?L" "services w t = Some j" for t j
    using info [OF that] used by blast
  ultimately have loops: "loops_ok used ?L w"
    using same unfolding loops_ok_def by metis
  have server: "server_ok ?L s v w"
    using sv pool(1) s(3) at by (auto simp: server_ok_def pool_started_def)
  have watched: "watched_ok interest ?L s v w"
    unfolding watched_ok_def watch_def using info by fastforce
  have tasks: "tasks_ok ?L s v w"
    unfolding tasks_ok_def using info by blast
  show ?thesis
    using loops server watched tasks fresh at by (simp add: safe_state_def conns_ok_def fresh_ok_def chan_at_def)
qed

section \<open>The servers\<close>

text \<open>
  A run of a server: \<open>main\<close> of one of the two programs up to its loop, then rounds of the loops of the acceptor and of
  the pool in any order, each in its own thread, as long as none fails. The threads of the loops are different.
\<close>

inductive runs ::
  "byteorder_t \<Rightarrow> (string \<Rightarrow> 32 word option) \<Rightarrow> 32 word \<Rightarrow> 'k kernel \<Rightarrow> 'k srv_state \<Rightarrow>
    'k srv_state user_code \<Rightarrow> ptr set \<Rightarrow> ptr \<Rightarrow> 'k srv_state \<Rightarrow> bool"
  for h pton junk K w0 where
  echo: "echo_main h pton junk K [t] w0 = Inr (s, v, w) \<Longrightarrow> servers w v = Some sv \<Longrightarrow> distinct [this_tid w0, t] \<Longrightarrow>
    runs h pton junk K w0 (echo_code K) (insert s (set (sp_services (ts_service_pool sv)))) v w"
| mt: "mt_main h pton junk K r [t1, t2] w0 = Inr (s, v, w) \<Longrightarrow> servers w v = Some sv \<Longrightarrow> distinct [this_tid w0, t1, t2] \<Longrightarrow>
    r \<noteq> this_tid w0 \<Longrightarrow> runs h pton junk K w0 (mt_code K) (insert s (set (sp_services (ts_service_pool sv)))) v w"
| round: "runs h pton junk K w0 U L v w \<Longrightarrow> s \<in> L \<Longrightarrow> services w s = Some i \<Longrightarrow>
    run_round K (connection_dtor K) (server_task K U s) (server_work h K U) s (w\<lparr>this_tid := m_owner_tid i\<rparr>) = Inr w' \<Longrightarrow>
    runs h pton junk K w0 U L v w'"

lemma echo_started_safe:
  fixes w :: "'k srv_state"
  assumes sys: "system_documented K interest used counter" and doc: "descriptors_documented K interest used"
    and ok: "fds_ok interest used (kern w)" and empty: "conns w = Map.empty"
    and fresh: "\<And>a. next_addr w \<le> a \<Longrightarrow> chans w a = None \<and> refs w a = 0"
    and main: "echo_main h pton junk K [t] w = Inr (s, v, w')" "servers w' v = Some sv" "distinct [this_tid w, t]"
  shows "safe_state interest used (insert s (set (sp_services (ts_service_pool sv)))) s v (\<lambda>_. []) w'"
proof -
  have rel: "epoll_reliable K interest" "sockets_documented K interest" using sys by (simp_all add: system_documented_def)
  from echo_main_ok [OF rel doc ok, of h pton junk t] main(1,2) have
    1: "conns w' = conns w" "ts_conn_map sv = Map.empty" "ts_conn_cb sv = Some 1" "ts_read_cb sv = Some 2" "ts_write_cb sv = Some 3"
      "listening interest (EPOLLIN OR EPOLLHUP OR EPOLLPRI) (this_tid w) s v (ts_acceptor sv) w'"
      "pool_started interest [t] (ts_service_pool sv) w'" "s \<notin> set (sp_services (ts_service_pool sv))"
      "only_new w w'" "fds_ok interest used (kern w')"
    by auto
  have new: "chans w' a = None \<and> refs w' a = 0" if "next_addr w' \<le> a" for a
    using fresh [of a] 1(9) that by (auto simp: only_new_def)
  from 1(6) obtain ep f ac c where
    2: "services w' s = Some ((new_loop (this_tid w) ep f (s + 1))\<lparr>m_poller := \<lparr>ep_fd = ep, channel_map = [f \<mapsto> s + 1, ac_socket ac \<mapsto> ac_channel ac]\<rparr>\<rparr>)"
      "f \<noteq> ac_socket ac" "chans w' (s + 1) = Some (loop_channel f s)" "acceptors w' (ts_acceptor sv) = Some ac" "ac_accept_cb ac = Some v"
      "chans w' (ac_channel ac) = Some c" "ch_fd c = ac_socket ac" "ch_service c = s"
      "ch_read_callback c = Some (AcceptorOnRead (ts_acceptor sv))" "bare_channel c"
      "interest (kern w') ep = [f \<mapsto> (read_mask, s + 1), ac_socket ac \<mapsto> (EPOLLIN OR EPOLLHUP OR EPOLLPRI, ac_channel ac)]"
    unfolding listening_def Let_def by blast
  show ?thesis
    by (rule started_safe [OF 1(10) _ new main(2) 1(2-5) 2(1) _ 1(8) _ _ _ 2(3,6,8,9,10,4,5) 1(7)])
      (use main(3) 1(1) empty 2 in \<open>auto simp: new_loop_def split: if_splits\<close>)
qed

lemma mt_started_safe:
  fixes w :: "'k srv_state"
  assumes sys: "system_documented K interest used counter" and doc: "descriptors_documented K interest used"
    and ok: "fds_ok interest used (kern w)" and empty: "conns w = Map.empty"
    and fresh: "\<And>a. next_addr w \<le> a \<Longrightarrow> chans w a = None \<and> refs w a = 0"
    and main: "mt_main h pton junk K r [t1, t2] w = Inr (s, v, w')" "servers w' v = Some sv" "distinct [this_tid w, t1, t2]" "r \<noteq> this_tid w"
  shows "safe_state interest used (insert s (set (sp_services (ts_service_pool sv)))) s v (\<lambda>_. []) w'"
proof -
  have rel: "epoll_reliable K interest" "sockets_documented K interest" "eventfd_documented K counter" "\<And>f k. counter k f < 2 ^ 64 - 1"
    using sys by (simp_all add: system_documented_def wakeup_documented_def)
  from mt_main_ok [OF rel(1,2) doc rel(3,4) ok main(4), of h pton junk t1 t2] main(1,2) have
    1: "conns w' = conns w" "ts_conn_map sv = Map.empty" "ts_conn_cb sv = Some 1" "ts_read_cb sv = Some 2" "ts_write_cb sv = Some 3"
      "acceptor_queued interest (\<lambda>ch. [TAddChannel ch, TUpdateChannel ch]) (EPOLLIN OR EPOLLHUP OR EPOLLPRI) (this_tid w) s v (ts_acceptor sv) w'"
      "pool_started interest [t1, t2] (ts_service_pool sv) w'" "s \<notin> set (sp_services (ts_service_pool sv))"
      "only_new w w'" "fds_ok interest used (kern w')"
    by auto
  have new: "chans w' a = None \<and> refs w' a = 0" if "next_addr w' \<le> a" for a
    using fresh [of a] 1(9) that by (auto simp: only_new_def)
  from 1(6) obtain ep f ac c where
    2: "services w' s = Some ((new_loop (this_tid w) ep f (s + 1))\<lparr>m_pending_tasks := [TAddChannel (ac_channel ac), TUpdateChannel (ac_channel ac)]\<rparr>)"
      "f \<noteq> ac_socket ac" "chans w' (s + 1) = Some (loop_channel f s)" "acceptors w' (ts_acceptor sv) = Some ac" "ac_accept_cb ac = Some v"
      "chans w' (ac_channel ac) = Some c" "ch_fd c = ac_socket ac" "ch_service c = s"
      "ch_read_callback c = Some (AcceptorOnRead (ts_acceptor sv))" "bare_channel c"
      "interest (kern w') ep = [f \<mapsto> (read_mask, s + 1)]"
    unfolding acceptor_queued_def Let_def by blast
  show ?thesis
    by (rule started_safe [OF 1(10) _ new main(2) 1(2-5) 2(1) _ 1(8) _ _ _ 2(3,6,8,9,10,4,5) 1(7)])
      (use main(3) 1(1) empty 2 in \<open>auto simp: new_loop_def split: if_splits\<close>)
qed

lemma runs_safe:
  assumes sys: "system_documented K interest used counter" and doc: "descriptors_documented K interest used"
    and ok: "fds_ok interest used (kern w0)" and empty: "conns w0 = Map.empty"
    and fresh: "\<And>a. next_addr w0 \<le> a \<Longrightarrow> chans w0 a = None \<and> refs w0 a = 0"
    and "runs h pton junk K w0 U L v w"
  shows "(U = echo_code K \<or> U = mt_code K) \<and> (\<exists>s0. safe_state interest used L s0 v (\<lambda>_. []) w)"
  using assms(6)
proof induction
  case (echo t s v w sv)
  then show ?case using echo_started_safe [OF sys doc ok empty fresh] by blast
next
  case (mt r t1 t2 s v w sv)
  then show ?case using mt_started_safe [OF sys doc ok empty fresh] by blast
next
  case (round U L v w s i w')
  from round.IH obtain s0 where U: "U = echo_code K \<or> U = mt_code K" and safe: "safe_state interest used L s0 v (\<lambda>_. []) w" by blast
  have "in_thread s (w\<lparr>this_tid := m_owner_tid i\<rparr>)" using round(3) by (simp add: in_thread_def)
  with round_sound [OF sys U _ round(2), of s0 v "w\<lparr>this_tid := m_owner_tid i\<rparr>" h] round(4) safe U show ?case by auto
qed

lemma safe_owned:
  assumes "safe_state interest used L s0 v (\<lambda>_. []) w"
  shows "\<exists>sv. servers w v = Some sv \<and> (\<forall>f c. ts_conn_map sv f = Some c \<longrightarrow> conns w c \<noteq> None) \<and>
    (\<forall>c cn. conns w c = Some cn \<longrightarrow> 0 < refs w c \<and> ts_conn_map sv (cn_socket cn) = Some c \<and>
       (\<exists>chn. chans w (cn_channle cn) = Some chn \<and> ch_fd chn = cn_socket cn \<and> ch_service chn = cn_service cn))"
proof -
  note S = assms [unfolded safe_state_def]
  obtain sv where sv: "servers w v = Some sv"
    "\<And>f c. ts_conn_map sv f = Some c \<longleftrightarrow> (\<exists>cn ok. conn_at w c = Some (cn, ok) \<and> cn_socket cn = f)"
    using S by (auto simp: server_ok_def)
  have "0 < refs w c \<and> ts_conn_map sv (cn_socket cn) = Some c \<and>
      (\<exists>chn. chans w (cn_channle cn) = Some chn \<and> ch_fd chn = cn_socket cn \<and> ch_service chn = cn_service cn)"
    if cn: "conns w c = Some cn" for c cn
  proof -
    obtain x ok where x: "conn_at w c = Some (x, ok)" "cn_socket x = cn_socket cn" "cn_service x = cn_service cn" "cn_channle x = cn_channle cn"
      using conn_at_Some [OF cn] by (auto simp: conn_ident_def)
    then have c: "conn_ok used L v (\<lambda>_. []) w c x" using S by (simp add: conns_ok_def)
    then have "cn_service x \<in> L" by (simp add: conn_ok_def)
    then obtain i where "services w (cn_service x) = Some i" using S by (auto simp: loops_ok_def)
    then have "0 < refs w c" using c by (simp add: conn_ok_def)
    moreover have "\<exists>chn. chans w (cn_channle cn) = Some chn \<and> ch_fd chn = cn_socket cn \<and> ch_service chn = cn_service cn"
      using c x(2-4) by (auto simp: conn_ok_def chan_at_def chan_ident_def)
    ultimately show ?thesis using sv(2) x(1,2) by blast
  qed
  with sv show ?thesis by (auto simp: conn_at_def)
qed

lemma safe_watched:
  assumes "safe_state interest used L s0 v X w" and "s \<in> L" "services w s = Some i" "interest (kern w) (ep_fd (m_poller i)) f = Some (m, ch)"
  shows "\<exists>chn. chans w ch = Some chn \<and> ch_fd chn = f \<and> ch_service chn = s"
proof -
  have "watch interest (kern w) (ep_fd (m_poller i)) f = Some ch" using assms(4) by (simp add: watch_def)
  with assms(1-3) obtain chn where "chan_at w ch = Some chn" "ch_service chn = s" "ch_fd chn = f"
    unfolding safe_state_def watched_ok_def channel_ok_def by blast
  then show ?thesis by (auto simp: chan_at_def chan_ident_def)
qed

section \<open>Properties\<close>

text \<open>
  C1. The echo servers \<^verbatim>\<open>echo.cpp\<close> and \<^verbatim>\<open>echo_mt.cpp\<close> are memory safe. Take any system that behaves as its
  manual says and does not run out of memory for \<^verbatim>\<open>epoll_ctl\<close> or of descriptors in \<open>main\<close>, any clients, any other results of its calls
  and any order of the rounds of the loops. Then in every state of a run
  the next round of no loop uses an object after its lifetime, follows a pointer to nothing, calls an empty function
  object or leaves a container; every connection is owned and known to the map of its server under its descriptor and has a living
  channel, and the map has no other; every pointer in an interest set of the system leads to a living channel of that loop with that descriptor.
  Rounds of two loops do not overlap here, so that the unlocked accesses to the map from two threads are not covered.
\<close>

theorem server_memory_safe:
  assumes sys: "system_documented K interest used counter" and doc: "descriptors_documented K interest used"
    and ok: "fds_ok interest used (kern w0)" and empty: "conns w0 = Map.empty"
    and fresh: "\<And>a. next_addr w0 \<le> a \<Longrightarrow> chans w0 a = None \<and> refs w0 a = 0"
    and run: "runs h pton junk K w0 U L v w"
  shows "(\<forall>s \<in> L. \<exists>i. services w s = Some i \<and> (\<forall>e.
       run_round K (connection_dtor K) (server_task K U s) (server_work h K U) s (w\<lparr>this_tid := m_owner_tid i\<rparr>) = Inl e \<longrightarrow>
       e \<notin> {Dangling, BadWeakPtr, BadFunctionCall, OutOfRange})) \<and>
     (\<exists>sv. servers w v = Some sv \<and> (\<forall>f c. ts_conn_map sv f = Some c \<longrightarrow> conns w c \<noteq> None) \<and>
       (\<forall>c cn. conns w c = Some cn \<longrightarrow> 0 < refs w c \<and> ts_conn_map sv (cn_socket cn) = Some c \<and>
          (\<exists>chn. chans w (cn_channle cn) = Some chn \<and> ch_fd chn = cn_socket cn \<and> ch_service chn = cn_service cn))) \<and>
     (\<forall>s i f m ch. s \<in> L \<longrightarrow> services w s = Some i \<longrightarrow> interest (kern w) (ep_fd (m_poller i)) f = Some (m, ch) \<longrightarrow>
        (\<exists>chn. chans w ch = Some chn \<and> ch_fd chn = f \<and> ch_service chn = s))"
proof -
  from runs_safe [OF sys doc ok empty fresh run] obtain s0 where U: "U = echo_code K \<or> U = mt_code K"
    and safe: "safe_state interest used L s0 v (\<lambda>_. []) w" by blast
  show ?thesis
  proof (intro conjI)
    show "\<forall>s \<in> L. \<exists>i. services w s = Some i \<and> (\<forall>e.
       run_round K (connection_dtor K) (server_task K U s) (server_work h K U) s (w\<lparr>this_tid := m_owner_tid i\<rparr>) = Inl e \<longrightarrow>
       e \<notin> {Dangling, BadWeakPtr, BadFunctionCall, OutOfRange})"
    proof
      fix s assume s: "s \<in> L"
      then obtain i where i: "services w s = Some i" using safe by (auto simp: safe_state_def loops_ok_def)
      then have "in_thread s (w\<lparr>this_tid := m_owner_tid i\<rparr>)" by (simp add: in_thread_def)
      from round_sound [OF sys U _ s this, of s0 v h] safe i show "\<exists>i. services w s = Some i \<and> (\<forall>e.
        run_round K (connection_dtor K) (server_task K U s) (server_work h K U) s (w\<lparr>this_tid := m_owner_tid i\<rparr>) = Inl e \<longrightarrow>
        e \<notin> {Dangling, BadWeakPtr, BadFunctionCall, OutOfRange})"
        by (auto simp: memory_error_def)
    qed
  next
    show "\<exists>sv. servers w v = Some sv \<and> (\<forall>f c. ts_conn_map sv f = Some c \<longrightarrow> conns w c \<noteq> None) \<and>
       (\<forall>c cn. conns w c = Some cn \<longrightarrow> 0 < refs w c \<and> ts_conn_map sv (cn_socket cn) = Some c \<and>
          (\<exists>chn. chans w (cn_channle cn) = Some chn \<and> ch_fd chn = cn_socket cn \<and> ch_service chn = cn_service cn))"
      by (rule safe_owned [OF safe])
  next
    show "\<forall>s i f m ch. s \<in> L \<longrightarrow> services w s = Some i \<longrightarrow> interest (kern w) (ep_fd (m_poller i)) f = Some (m, ch) \<longrightarrow>
        (\<exists>chn. chans w ch = Some chn \<and> ch_fd chn = f \<and> ch_service chn = s)"
      using safe_watched [OF safe] by blast
  qed
qed

subsection \<open>A run\<close>

text \<open>
  The system of \<open>Ref_System\<close>, whose list of events now names descriptors: a wait reports the event of the first if it is
  registered there, and times out otherwise.
\<close>

definition ready_kernel :: "ref_sys kernel" where
  "ready_kernel = ref_kernel\<lparr>sys_epoll_wait := (\<lambda>ep n t k. case rs_ready k of [] \<Rightarrow> ((0, 0, []), k)
     | (e, f) # xs \<Rightarrow> (case rs_interest k ep (int f) of None \<Rightarrow> (0, 0, []) | Some (m, ch) \<Rightarrow> (1, 0, [(e, ch)]), k\<lparr>rs_ready := xs\<rparr>))\<rparr>"

definition rs_open :: "ref_sys \<Rightarrow> fd set" where
  "rs_open k = {f. f < max 0 (rs_next_fd k)}"

lemma ready_same:
  "sys_epoll_ctl ready_kernel = sys_epoll_ctl ref_kernel" "sys_socket ready_kernel = sys_socket ref_kernel"
  "sys_bind ready_kernel = sys_bind ref_kernel" "sys_listen ready_kernel = sys_listen ref_kernel"
  "sys_setsockopt ready_kernel = sys_setsockopt ref_kernel" "sys_epoll_create ready_kernel = sys_epoll_create ref_kernel"
  "sys_eventfd ready_kernel = sys_eventfd ref_kernel" "sys_write64 ready_kernel = sys_write64 ref_kernel"
  "sys_read64 ready_kernel = sys_read64 ref_kernel" "sys_close ready_kernel = sys_close ref_kernel"
  "sys_accept4 ready_kernel = sys_accept4 ref_kernel" "sys_recv ready_kernel = sys_recv ref_kernel"
  "sys_send ready_kernel = sys_send ref_kernel" "sys_shutdown ready_kernel = sys_shutdown ref_kernel"
  "sys_getsockopt ready_kernel = sys_getsockopt ref_kernel" "sys_strerror ready_kernel = sys_strerror ref_kernel"
  by (simp_all add: ready_kernel_def)

lemma ready_wait:
  "sys_epoll_wait ready_kernel ep n t k = (case rs_ready k of [] \<Rightarrow> ((0, 0, []), k)
     | (e, f) # xs \<Rightarrow> (case rs_interest k ep (int f) of None \<Rightarrow> (0, 0, []) | Some (m, ch) \<Rightarrow> (1, 0, [(e, ch)]), k\<lparr>rs_ready := xs\<rparr>))"
  by (simp add: ready_kernel_def)

lemma ready_descriptors: "descriptors_documented ready_kernel rs_interest rs_open"
  unfolding descriptors_documented_def ready_same by (auto simp: ref_kernel_def rs_open_def rs_epoll_ctl_def Let_def)

lemma ready_documented: "system_documented ready_kernel rs_interest rs_open rs_bounded_counter"
proof -
  let ?K = ready_kernel
  have "epoll_reliable ?K rs_interest"
    using ref_epoll_reliable unfolding epoll_reliable_def epoll_documented_def ready_same .
  moreover have "transfer_documented ?K rs_interest"
    by (auto simp: transfer_documented_def ready_same ready_wait split: list.splits option.splits)
  moreover have "sockets_documented ?K rs_interest"
    using ref_sockets_documented unfolding sockets_documented_def ready_same .
  moreover have "close_documented ?K rs_interest"
    using ref_close_documented unfolding close_documented_def ready_same .
  moreover have "calls_documented ?K rs_interest"
    by (simp add: calls_documented_def ready_same recv_result_def max_msg_length_def)
  moreover have "events_documented ?K rs_interest"
    by (auto simp: events_documented_def ready_wait split: list.splits option.splits)
  moreover have "open_documented ?K rs_open"
    by (auto simp: open_documented_def ready_same ready_wait rs_open_def rs_epoll_ctl_def Let_def split: list.splits option.splits)
  moreover have "eventfd_documented ?K rs_bounded_counter"
    using ref_bounded_eventfd unfolding eventfd_documented_def ready_same .
  then have "wakeup_documented ?K rs_bounded_counter"
    by (simp add: wakeup_documented_def ready_same rs_bounded_counter_def min_less_iff_disj)
  ultimately show ?thesis by (simp add: system_documented_def)
qed

definition run_state :: "ref_sys srv_state" where
  "run_state = start_state\<lparr>kern := ref_init\<lparr>rs_ready := [(EPOLLIN, 5)]\<rparr>\<rparr>"

lemma ready_ctl:
  "rs_interest k ep f = None \<Longrightarrow>
     snd (sys_epoll_ctl ready_kernel ep EPOLL_CTL_ADD f (Some e) k) = k\<lparr>rs_interest := (rs_interest k)(ep := (rs_interest k ep)(f \<mapsto> e))\<rparr>"
  "rs_interest k ep f \<noteq> None \<Longrightarrow>
     snd (sys_epoll_ctl ready_kernel ep EPOLL_CTL_MOD f (Some e) k) = k\<lparr>rs_interest := (rs_interest k)(ep := (rs_interest k ep)(f \<mapsto> e))\<rparr>"
  by (simp_all add: ready_same rs_epoll_ctl_def epoll_ops Let_def)

lemma ready_new:
  "sys_epoll_create ready_kernel k = ((rs_next_fd k, 0), k\<lparr>rs_next_fd := rs_next_fd k + 1\<rparr>)"
  "sys_eventfd ready_kernel k = ((rs_next_fd k, 0), k\<lparr>rs_next_fd := rs_next_fd k + 1\<rparr>)"
  "sys_socket ready_kernel k = ((rs_next_fd k, 0), k\<lparr>rs_next_fd := rs_next_fd k + 1\<rparr>)"
  "bound_socket ready_kernel f a k = k" "sys_listen ready_kernel f n k = ((0, 0), k)"
  by (simp_all add: bound_socket_def Let_def ready_same ref_kernel_def)

lemma ready_rel: "epoll_reliable ready_kernel rs_interest" "sockets_documented ready_kernel rs_interest"
  using ready_documented by (simp_all add: system_documented_def)

lemma ready_loop:
  assumes n: "n = rs_next_fd (kern w)" "0 \<le> n" "rs_interest (kern w) n = Map.empty" and s: "s = next_addr w"
  shows "\<exists>l. io_service_new ready_kernel w = Inr (s, w\<lparr>next_addr := s + 2,
     kern := (kern w)\<lparr>rs_next_fd := n + 2, rs_interest := (rs_interest (kern w))(n := [n + 1 \<mapsto> (read_mask, s + 1)])\<rparr>, log_out := l,
     services := (services w)(s \<mapsto> new_loop (this_tid w) n (n + 1) (s + 1)), chans := (chans w)(s + 1 \<mapsto> loop_channel (n + 1) s)\<rparr>)"
proof -
  let ?k = "(kern w)\<lparr>rs_next_fd := n + 2\<rparr>"
  have "sys_epoll_create ready_kernel (kern w) = ((n, 0), (kern w)\<lparr>rs_next_fd := n + 1\<rparr>)"
    "sys_eventfd ready_kernel ((kern w)\<lparr>rs_next_fd := n + 1\<rparr>) = ((n + 1, 0), ?k)" "n \<noteq> -1" "0 < n + 1" "rs_interest ?k n (n + 1) = None"
    using n by (simp_all add: ready_new)
  from io_service_new_form [OF ready_rel(1) this(1,3,2,4,5) s refl read_mask_def] n(3) show ?thesis
    by (auto simp: ready_ctl s)
qed


definition run_acceptor :: acceptor where
  "run_acceptor = \<lparr>ac_service = 100, ac_socket = 5, ac_accept_cb = Some 102,
     ac_addr = endpoint_ip_port lite_endian (\<lambda>_. None) 0 '''' 4001, ac_channel = 104\<rparr>"

definition run_server :: tcp_server where
  "run_server = \<lparr>ts_io_service = 100, ts_acceptor = 103, ts_conn_map = Map.empty, ts_conn_cb = Some 1, ts_read_cb = Some 2,
     ts_write_cb = Some 3, ts_err_cb = Some 4,
     ts_service_pool = \<lparr>sp_services = [105], sp_threads = [(7, 105)], sp_size = 1, sp_service_index = 0\<rparr>\<rparr>"

definition made_state :: "(loging_level \<times> string \<times> int list) list \<Rightarrow> ref_sys srv_state" where
  "made_state l = run_state\<lparr>next_addr := 105, acceptors := [103 \<mapsto> run_acceptor],
     servers := [102 \<mapsto> run_server\<lparr>ts_conn_cb := None, ts_read_cb := None, ts_write_cb := None, ts_err_cb := None,
       ts_service_pool := io_service_pool_new 1\<rparr>],
     kern := ref_init\<lparr>rs_ready := [(EPOLLIN, 5)], rs_next_fd := 6,
       rs_interest := (\<lambda>_. Map.empty)(3 := [4 \<mapsto> (read_mask, 101), 5 \<mapsto> (0, 104)])\<rparr>, log_out := l,
     services := [100 \<mapsto> (new_loop 1 3 4 101)\<lparr>m_poller := \<lparr>ep_fd = 3, channel_map = [4 \<mapsto> 101, 5 \<mapsto> 104]\<rparr>\<rparr>],
     chans := [101 \<mapsto> loop_channel 4 100, 104 \<mapsto> set_read_callback (AcceptorOnRead 103) (evt_channel_new 5 100 ''acceptor-chnl'')]\<rparr>"

lemma run_made:
  "\<exists>w l. io_service_new ready_kernel run_state = Inr (100, w) \<and>
     tcp_server_new lite_endian (\<lambda>_. None) 0 ready_kernel '''' 4001 100 1 w = Inr (102, made_state l)"
proof -
  let ?K = ready_kernel and ?k = "ref_init\<lparr>rs_ready := [(EPOLLIN, 5)]\<rparr>"
  let ?addr = "endpoint_ip_port lite_endian (\<lambda>_. None) 0 '''' 4001"
  have "3 = rs_next_fd (kern run_state)" "0 \<le> (3 :: fd)" "rs_interest (kern run_state) 3 = Map.empty" "100 = next_addr run_state"
    by (simp_all add: run_state_def start_state_def ref_init_def)
  from ready_loop [OF this] obtain l1 where
    1: "io_service_new ?K run_state = Inr (100, run_state\<lparr>next_addr := 102,
     kern := ?k\<lparr>rs_next_fd := 5, rs_interest := (\<lambda>_. Map.empty)(3 := [4 \<mapsto> (read_mask, 101)])\<rparr>, log_out := l1,
     services := [100 \<mapsto> new_loop 1 3 4 101], chans := [101 \<mapsto> loop_channel 4 100]\<rparr>)" (is "_ = Inr (_, ?w1)")
    by (auto simp: run_state_def start_state_def ref_init_def)
  let ?v1 = "?w1\<lparr>next_addr := 103\<rparr>" and ?i = "new_loop 1 3 4 101"
  let ?c = "set_read_callback (AcceptorOnRead 103) (evt_channel_new 5 100 ''acceptor-chnl'')"
  have "services ?v1 100 = Some ?i" "m_owner_tid ?i = this_tid ?v1" "sys_socket ?K (kern ?v1) = ((5, 0), (kern ?v1)\<lparr>rs_next_fd := 6\<rparr>)"
    "0 < (5 :: fd)" "rs_interest (kern ?v1) (ep_fd (m_poller ?i)) 5 = None" "104 = next_addr ?v1 + 1"
    "?c = set_read_callback (AcceptorOnRead (next_addr ?v1)) (evt_channel_new 5 100 ''acceptor-chnl'')"
    "\<lparr>ep_fd = 3, channel_map = [4 \<mapsto> 101, 5 \<mapsto> 104]\<rparr> = m_poller ?i\<lparr>channel_map := (channel_map (m_poller ?i))(5 \<mapsto> 104)\<rparr>"
    by (simp_all add: ready_new new_loop_def run_state_def start_state_def)
  from acceptor_new_form [OF ready_rel this, of ?addr] obtain l2 where
    2: "acceptor_new ?K ?addr 100 ?v1 = Inr (103, ?v1\<lparr>next_addr := 105,
      acceptors := [103 \<mapsto> \<lparr>ac_service = 100, ac_socket = 5, ac_accept_cb = None, ac_addr = ?addr, ac_channel = 104\<rparr>],
      chans := [101 \<mapsto> loop_channel 4 100, 104 \<mapsto> ?c], kern := ?k\<lparr>rs_next_fd := 6, rs_interest := (\<lambda>_. Map.empty)
       (3 := [4 \<mapsto> (read_mask, 101), 5 \<mapsto> (0, 104)])\<rparr>, log_out := l2,
      services := [100 \<mapsto> ?i\<lparr>m_poller := \<lparr>ep_fd = 3, channel_map = [4 \<mapsto> 101, 5 \<mapsto> 104]\<rparr>\<rparr>]\<rparr>)" (is "_ = Inr (_, ?w2)")
    by (auto simp: ready_ctl ready_new new_loop_def run_state_def start_state_def)
  have "tcp_server_new lite_endian (\<lambda>_. None) 0 ?K '''' 4001 100 1 ?w1 = Inr (102, made_state l2)"
    using 2 by (simp add: tcp_server_new_def Let_def set_accept_cb_def get_acc_def put_acc_def put_srv_def run_server_def
        run_acceptor_def run_state_def start_state_def made_state_def)
  with 1 show ?thesis by blast
qed

lemma run_started:
  "\<exists>w c. echo_main lite_endian (\<lambda>_. None) 0 ready_kernel [7] run_state = Inr (100, 102, w) \<and>
     next_addr w = 107 \<and> this_tid w = 1 \<and> conns w = Map.empty \<and> refs w = (\<lambda>_. 0) \<and>
     services w 100 = Some ((new_loop 1 3 4 101)\<lparr>m_poller := \<lparr>ep_fd = 3, channel_map = [4 \<mapsto> 101, 5 \<mapsto> 104]\<rparr>\<rparr>) \<and>
     services w 105 = Some (new_loop 7 6 7 106) \<and> acceptors w 103 = Some run_acceptor \<and> servers w 102 = Some run_server \<and>
     chans w 104 = Some c \<and> ch_read_callback c = Some (AcceptorOnRead 103) \<and> \<not> ch_tied c \<and>
     kern w = ref_init\<lparr>rs_ready := [(EPOLLIN, 5)], rs_next_fd := 8, rs_interest := (\<lambda>_. Map.empty)
       (6 := [7 \<mapsto> (read_mask, 106)], 3 := [4 \<mapsto> (read_mask, 101), 5 \<mapsto> (read_mask, 104)])\<rparr>"
proof -
  let ?K = ready_kernel and ?k = "ref_init\<lparr>rs_ready := [(EPOLLIN, 5)]\<rparr>" and ?i = "new_loop 1 3 4 101"
  let ?c = "set_read_callback (AcceptorOnRead 103) (evt_channel_new 5 100 ''acceptor-chnl'')"
  let ?sv = "run_server\<lparr>ts_conn_cb := None, ts_read_cb := None, ts_write_cb := None, ts_err_cb := None, ts_service_pool := io_service_pool_new 1\<rparr>"
  from run_made obtain w1 l where
    1: "io_service_new ?K run_state = Inr (100, w1)" "tcp_server_new lite_endian (\<lambda>_. None) 0 ?K '''' 4001 100 1 w1 = Inr (102, made_state l)"
    by blast
  let ?w4 = "put_srv 102 (echo_set_callbacks ?sv) (log_line ll_info '' : '' [4001] (log_line ll_info '' runing '' [] (made_state l)))"
  have "6 = rs_next_fd (kern (?w4\<lparr>this_tid := 7\<rparr>))" "0 \<le> (6 :: fd)" "rs_interest (kern (?w4\<lparr>this_tid := 7\<rparr>)) 6 = Map.empty"
    "105 = next_addr (?w4\<lparr>this_tid := 7\<rparr>)"
    by (simp_all add: put_srv_def log_line_def made_state_def)
  from ready_loop [OF this] obtain l4 where
    4: "io_service_new ?K (?w4\<lparr>this_tid := 7\<rparr>) = Inr (105, ?w4\<lparr>this_tid := 7, next_addr := 107, kern := ?k\<lparr>rs_next_fd := 8,
      rs_interest := (\<lambda>_. Map.empty)(3 := [4 \<mapsto> (read_mask, 101), 5 \<mapsto> (0, 104)], 6 := [7 \<mapsto> (read_mask, 106)])\<rparr>, log_out := l4,
      services := (services ?w4)(105 \<mapsto> new_loop 7 6 7 106), chans := (chans ?w4)(106 \<mapsto> loop_channel 7 105)\<rparr>)" (is "_ = Inr (_, ?w5)")
    by (auto simp: put_srv_def log_line_def made_state_def)
  have this_tid: "?w5\<lparr>this_tid := this_tid ?w4\<rparr> = ?w5\<lparr>this_tid := 1\<rparr>"
    by (simp add: put_srv_def log_line_def made_state_def run_state_def start_state_def)
  have sv: "get_srv 102 ?w4 = Inr (echo_set_callbacks ?sv)" "ts_service_pool (echo_set_callbacks ?sv) = io_service_pool_new 1"
    by (simp_all add: get_srv_def put_srv_def echo_set_callbacks_def srv_set_conn_callback_def srv_set_read_callback_def
        srv_set_write_callback_def srv_set_error_callback_def)
  have pool: "pool_run ?K [7] (io_service_pool_new 1) ?w4 = Inr (ts_service_pool run_server, ?w5\<lparr>this_tid := 1\<rparr>)"
    using 4 this_tid by (simp add: pool_run_def io_service_pool_new_def service_thread_new_def service_thread_run_def run_server_def)
  let ?w6 = "put_srv 102 run_server (?w5\<lparr>this_tid := 1\<rparr>)" and ?j = "?i\<lparr>m_poller := \<lparr>ep_fd = 3, channel_map = [4 \<mapsto> 101, 5 \<mapsto> 104]\<rparr>\<rparr>"
  have "acceptors ?w6 103 = Some run_acceptor" "in_loop (ac_channel run_acceptor) ?c ?j ?w6" "ch_fd ?c = ac_socket run_acceptor"
    "ch_last_evt_status ?c = 0"
    by (simp_all add: put_srv_def log_line_def made_state_def in_loop_def run_acceptor_def set_read_callback_def evt_channel_new_def new_loop_def)
  from acceptor_start_form [OF this read_mask_def, of ?K] obtain l6 where
    5: "acceptor_start ?K 103 ?w6 = Inr (?w6\<lparr>kern := (kern ?w6)\<lparr>rs_interest := (\<lambda>_. Map.empty)
       (6 := [7 \<mapsto> (read_mask, 106)], 3 := [4 \<mapsto> (read_mask, 101), 5 \<mapsto> (read_mask, 104)])\<rparr>,
      log_out := l6, chans := (chans ?w6)(104 \<mapsto> ?c\<lparr>ch_last_evt_status := read_mask\<rparr>)\<rparr>)" (is "_ = Inr ?w7")
    by (auto simp: ready_ctl ready_new run_acceptor_def put_srv_def)
  have cb: "echo_set_callbacks ?sv\<lparr>ts_service_pool := ts_service_pool run_server\<rparr> = run_server" "ts_acceptor (echo_set_callbacks ?sv) = 103"
    by (simp_all add: echo_set_callbacks_def srv_set_conn_callback_def srv_set_read_callback_def srv_set_write_callback_def
        srv_set_error_callback_def run_server_def)
  have "server_ready ?K [7] 102 ?w4 = Inr ?w7"
    by (simp only: server_ready_def sv pool rbind_Inr prod.case cb 5)
  moreover have "get_srv 102 (log_line ll_info '' : '' [4001] (log_line ll_info '' runing '' [] (made_state l))) = Inr ?sv"
    by (simp add: get_srv_def log_line_def made_state_def)
  ultimately have "echo_main lite_endian (\<lambda>_. None) 0 ?K [7] run_state = Inr (100, 102, ?w7)"
    by (simp only: echo_main_def 1 rbind_Inr prod.case Let_def)
  then show ?thesis
    by (intro exI [of _ ?w7] exI [of _ "?c\<lparr>ch_last_evt_status := read_mask\<rparr>"])
      (simp add: put_srv_def log_line_def made_state_def run_state_def start_state_def set_read_callback_def evt_channel_new_def)
qed

text \<open>A client is accepted in the first round of the acceptor's loop; its connection waits for the loop of the pool.\<close>

theorem server_memory_safe_witness:
  "\<exists>w1 cn. runs lite_endian (\<lambda>_. None) 0 ready_kernel run_state (echo_code ready_kernel) {100, 105} 102 w1 \<and>
     conns w1 107 = Some cn \<and> cn_socket cn = 8 \<and> 0 < refs w1 107 \<and> (\<exists>chn. chans w1 (cn_channle cn) = Some chn \<and> ch_fd chn = 8) \<and>
     echo_round lite_endian ready_kernel (echo_code ready_kernel) 105 (w1\<lparr>this_tid := 7\<rparr>) \<noteq> Inl Dangling"
proof -
  let ?K = ready_kernel and ?j = "new_loop 7 6 7 106"
  let ?i = "(new_loop 1 3 4 101)\<lparr>m_poller := \<lparr>ep_fd = 3, channel_map = [4 \<mapsto> 101, 5 \<mapsto> 104]\<rparr>\<rparr>"
  have st: "fds_ok rs_interest rs_open (kern run_state)" "conns run_state = Map.empty"
    "\<And>a. next_addr run_state \<le> a \<Longrightarrow> chans run_state a = None \<and> refs run_state a = 0" "distinct [this_tid run_state, 7]"
    by (simp_all add: run_state_def start_state_def fds_ok_def rs_open_def ref_init_def)
  from run_started obtain w c where
    main: "echo_main lite_endian (\<lambda>_. None) 0 ?K [7] run_state = Inr (100, 102, w)" and
    w: "107 = next_addr w" "this_tid w = 1" "refs w 107 = 0" "services w 100 = Some ?i"
     "services w 105 = Some ?j" "acceptors w 103 = Some run_acceptor" "servers w 102 = Some run_server"
     "chans w 104 = Some c" "ch_read_callback c = Some (AcceptorOnRead 103)" "\<not> ch_tied c"
     "kern w = ref_init\<lparr>rs_ready := [(EPOLLIN, 5)], rs_next_fd := 8, rs_interest := (\<lambda>_. Map.empty)
       (6 := [7 \<mapsto> (read_mask, 106)], 3 := [4 \<mapsto> (read_mask, 101), 5 \<mapsto> (read_mask, 104)])\<rparr>"
    by auto
  have "runs lite_endian (\<lambda>_. None) 0 ?K run_state (echo_code ?K) (insert 100 (set (sp_services (ts_service_pool run_server)))) 102 w"
    by (rule runs.echo [OF main w(7) st(4)])
  then have run: "runs lite_endian (\<lambda>_. None) 0 ?K run_state (echo_code ?K) {100, 105} 102 w" by (simp add: run_server_def)
  have evt: "eventfd_documented ?K rs_bounded_counter" "\<And>k f. rs_bounded_counter k f < 2 ^ 64 - 1"
    "\<And>f l n x k. rs_bounded_counter (snd (sys_setsockopt ?K f l n x k)) = rs_bounded_counter k"
    using ready_documented by (auto simp: system_documented_def wakeup_documented_def)
  have ac: "chans w (ac_channel run_acceptor) = Some c" "ac_accept_cb run_acceptor = Some 102" "ac_channel run_acceptor < 107"
    "idle ?i" "idle ?j" "this_tid w \<noteq> m_owner_tid ?j" "pool_ready (ts_service_pool run_server)" "ts_conn_map run_server 8 = None"
    "105 = sp_services (ts_service_pool run_server) ! (sp_service_index (ts_service_pool run_server) mod sp_size (ts_service_pool run_server))"
    "(100 :: ptr) \<noteq> 105"
    using w by (simp_all add: run_acceptor_def run_server_def idle_def new_loop_def pool_ready_def size_mod_def)
  let ?k = "(kern w)\<lparr>rs_ready := []\<rparr>"
  have calls: "sys_epoll_wait ?K (ep_fd (m_poller ?i)) kMaxPollEvt poll_timout_ms (kern w) = ((1, 0, [(EPOLLIN, ac_channel run_acceptor)]), ?k)"
    "readable EPOLLIN" "sys_accept4 ?K (ac_socket run_acceptor) (endpoint_default lite_endian) ?k =
       ((8, 0, endpoint_default lite_endian), ?k\<lparr>rs_next_fd := 9\<rparr>)" "0 \<le> (8 :: fd)"
    by (simp_all add: ready_wait ready_same w(11) run_acceptor_def readable_def epoll_consts)
  from accept_round [OF evt w(4) ac(4) w(6) ac(2,1) w(9,10,7) ac(7,8,9) w(5) ac(6,5,10) w(1,3) ac(3) calls, of "echo_code ?K"]
  obtain w1 cn chn where w1: "echo_round lite_endian ?K (echo_code ?K) 100 w = Inr w1" "conns w1 107 = Some cn" "cn_socket cn = 8"
    "services w1 105 = Some (?j\<lparr>m_pending_tasks := [TAddChannel (107 + 1), TUpdateChannel (107 + 1), TConnCb (ts_conn_cb run_server) 107]\<rparr>)"
    by (auto simp: accepted_conn_def)
  have "w\<lparr>this_tid := m_owner_tid ?i\<rparr> = w" using w(2) by (simp add: new_loop_def)
  with runs.round [OF run _ w(4), of w1] w1(1) have run1: "runs lite_endian (\<lambda>_. None) 0 ?K run_state (echo_code ?K) {100, 105} 102 w1" by simp
  note safe = server_memory_safe [OF ready_documented ready_descriptors st(1-3) run1]
  have "0 < refs w1 107 \<and> (\<exists>chn. chans w1 (cn_channle cn) = Some chn \<and> ch_fd chn = cn_socket cn)"
    using safe [THEN conjunct2, THEN conjunct1] w1(2) by blast
  moreover have "echo_round lite_endian ?K (echo_code ?K) 105 (w1\<lparr>this_tid := 7\<rparr>) \<noteq> Inl Dangling"
    using safe [THEN conjunct1] w1(4) by (auto simp: new_loop_def)
  ultimately show ?thesis using run1 w1(2,3) by auto
qed

end
