(* ===== verification/Monitor.thy ===== *)
theory Monitor
  imports Prelude
begin

text \<open>
  The pattern of the two classes that use a mutex and a condition variable
  (\<^verbatim>\<open>base/blocking_counter.cpp\<close>, \<^verbatim>\<open>net/service_thread.cpp\<close>), as interleaved steps of threads: an
  update takes the mutex, changes the value, releases the mutex and then notifies one
  waiting thread; a wait takes the mutex and, as long as its condition is false, blocks on
  the condition variable, which releases the mutex, and takes the mutex again when it is
  woken, also without a reason. \<open>upd\<close> is the update and \<open>ok\<close> the condition. The locale
  \<open>monitor\<close> has what holds for every such class, \<open>stable_monitor\<close> what holds when an update
  never makes a true condition false.
\<close>

section \<open>Steps\<close>

datatype (discs_sels) ('d, 'v) mpc =
    MIdle
  | MUpdate 'd
  | MNotify
  | MEnter 'v
  | MCheck 'v
  | MWait 'v
  | MWoken 'v
  | MDone 'v

record ('a, 'd, 'v) mon_state =
  mon_val :: 'a
  mon_lock :: "nat option"
  mon_pc :: "nat \<Rightarrow> ('d, 'v) mpc"

definition mon_init :: "'a \<Rightarrow> ('a, 'd, 'v) mon_state" where
  "mon_init x = \<lparr>mon_val = x, mon_lock = None, mon_pc = (\<lambda>_. MIdle)\<rparr>"

definition goto :: "nat \<Rightarrow> ('d, 'v) mpc \<Rightarrow> ('a, 'd, 'v) mon_state \<Rightarrow> ('a, 'd, 'v) mon_state" where
  "goto t p s = s\<lparr>mon_pc := (mon_pc s)(t := p)\<rparr>"

text \<open>Threads in \<open>W\<close> may wait; every thread may update.\<close>

inductive mon_step ::
  "nat set \<Rightarrow> ('d \<Rightarrow> 'a \<Rightarrow> 'a) \<Rightarrow> ('v \<Rightarrow> 'a \<Rightarrow> bool) \<Rightarrow> ('a, 'd, 'v) mon_state \<Rightarrow> ('a, 'd, 'v) mon_state \<Rightarrow> bool"
  for W upd ok where
    call_update: "mon_pc s t = MIdle \<Longrightarrow> mon_step W upd ok s (goto t (MUpdate d) s)"
  | update: "mon_pc s t = MUpdate d \<Longrightarrow> mon_lock s = None \<Longrightarrow>
      mon_step W upd ok s ((goto t MNotify s)\<lparr>mon_val := upd d (mon_val s)\<rparr>)"
  | notify: "mon_pc s t = MNotify \<Longrightarrow> mon_pc s u = MWait v \<Longrightarrow>
      mon_step W upd ok s (goto u (MWoken v) (goto t MIdle s))"
  | notify_nobody: "mon_pc s t = MNotify \<Longrightarrow> \<forall>u v. mon_pc s u \<noteq> MWait v \<Longrightarrow> mon_step W upd ok s (goto t MIdle s)"
  | call_wait: "mon_pc s t = MIdle \<Longrightarrow> t \<in> W \<Longrightarrow> mon_step W upd ok s (goto t (MEnter v) s)"
  | enter: "mon_pc s t = MEnter v \<or> mon_pc s t = MWoken v \<Longrightarrow> mon_lock s = None \<Longrightarrow>
      mon_step W upd ok s ((goto t (MCheck v) s)\<lparr>mon_lock := Some t\<rparr>)"
  | check_true: "mon_pc s t = MCheck v \<Longrightarrow> ok v (mon_val s) \<Longrightarrow>
      mon_step W upd ok s ((goto t (MDone v) s)\<lparr>mon_lock := None\<rparr>)"
  | check_false: "mon_pc s t = MCheck v \<Longrightarrow> \<not> ok v (mon_val s) \<Longrightarrow>
      mon_step W upd ok s ((goto t (MWait v) s)\<lparr>mon_lock := None\<rparr>)"
  | spurious: "mon_pc s t = MWait v \<Longrightarrow> mon_step W upd ok s (goto t (MWoken v) s)"
  | return: "mon_pc s t = MDone v \<Longrightarrow> mon_step W upd ok s (goto t MIdle s)"

inductive_cases mon_stepE: "mon_step W upd ok s s'"

inductive mon_reach ::
  "nat set \<Rightarrow> ('d \<Rightarrow> 'a \<Rightarrow> 'a) \<Rightarrow> ('v \<Rightarrow> 'a \<Rightarrow> bool) \<Rightarrow> ('a, 'd, 'v) mon_state \<Rightarrow> ('a, 'd, 'v) mon_state \<Rightarrow> bool"
  for W upd ok s where
    here: "mon_reach W upd ok s s"
  | step: "mon_reach W upd ok s s1 \<Longrightarrow> mon_step W upd ok s1 s2 \<Longrightarrow> mon_reach W upd ok s s2"

lemma mon_reach_trans:
  "mon_reach W upd ok s1 s2 \<Longrightarrow> mon_reach W upd ok s s1 \<Longrightarrow> mon_reach W upd ok s s2"
  by (induction rule: mon_reach.induct) (auto intro: mon_reach.intros)

section \<open>What holds for every monitor\<close>

lemma goto_simps [simp]:
  "mon_val (goto t p s) = mon_val s" "mon_lock (goto t p s) = mon_lock s"
  "mon_pc (goto t p s) = (mon_pc s)(t := p)"
  by (simp_all add: goto_def)

text \<open>The thread that holds the mutex is the one that looks at the condition.\<close>

definition mutex_inv :: "('a, 'd, 'v) mon_state \<Rightarrow> bool" where
  "mutex_inv s \<longleftrightarrow> (\<forall>t. is_MCheck (mon_pc s t) \<longleftrightarrow> mon_lock s = Some t)"

definition in_wait :: "('d, 'v) mpc \<Rightarrow> bool" where
  "in_wait p \<longleftrightarrow> is_MEnter p \<or> is_MCheck p \<or> is_MWait p \<or> is_MWoken p"

definition only_waits :: "nat set \<Rightarrow> ('a, 'd, 'v) mon_state \<Rightarrow> bool" where
  "only_waits W s \<longleftrightarrow> (\<forall>t. in_wait (mon_pc s t) \<longrightarrow> t \<in> W)"

lemma in_wait_simps [simp]:
  "\<not> in_wait MIdle" "\<not> in_wait (MUpdate d)" "\<not> in_wait MNotify" "\<not> in_wait (MDone v)"
  "in_wait (MEnter v)" "in_wait (MCheck v)" "in_wait (MWait v)" "in_wait (MWoken v)"
  by (simp_all add: in_wait_def)

text \<open>With one waiting thread: while it is blocked and its condition is true, a notification is due.\<close>

definition no_lost_wakeup :: "('v \<Rightarrow> 'a \<Rightarrow> bool) \<Rightarrow> nat \<Rightarrow> ('a, 'd, 'v) mon_state \<Rightarrow> bool" where
  "no_lost_wakeup ok u s \<longleftrightarrow> (\<forall>v. mon_pc s u = MWait v \<and> ok v (mon_val s) \<longrightarrow> (\<exists>t. mon_pc s t = MNotify))"

lemma mutex_goto:
  "mutex_inv s \<Longrightarrow> \<not> is_MCheck (mon_pc s t) \<Longrightarrow> \<not> is_MCheck p \<Longrightarrow> mutex_inv (goto t p s)"
  by (simp add: mutex_inv_def)

lemma mutex_step:
  assumes "mutex_inv s" and "mon_step W upd ok s s'"
  shows "mutex_inv s'"
  using assms(2)
proof cases
  case (update t d)
  then show ?thesis using mutex_goto [OF assms(1), of t MNotify] by (simp add: mutex_inv_def)
next
  case (enter t v)
  then show ?thesis using assms(1) by (auto simp: mutex_inv_def)
next
  case (check_true t v)
  then show ?thesis using assms(1) by (auto simp: mutex_inv_def)
next
  case (check_false t v)
  then show ?thesis using assms(1) by (auto simp: mutex_inv_def)
next
  case (notify t u v)
  have "mutex_inv (goto t MIdle s)" using notify by (intro mutex_goto assms(1)) simp_all
  then show ?thesis unfolding notify(1) by (rule mutex_goto) (use notify in auto)
qed (auto intro!: mutex_goto assms(1))

lemma only_waits_goto: "only_waits W s \<Longrightarrow> t \<in> W \<or> \<not> in_wait p \<Longrightarrow> only_waits W (goto t p s)"
  by (auto simp: only_waits_def)

lemma only_waits_more: "mon_pc s' = mon_pc s \<Longrightarrow> only_waits W s \<Longrightarrow> only_waits W s'"
  by (simp add: only_waits_def)

lemma only_waits_step:
  assumes inv: "only_waits W s" and step: "mon_step W upd ok s s'"
  shows "only_waits W s'"
proof -
  have w: "t \<in> W" if "in_wait (mon_pc s t)" for t
    using inv that by (simp add: only_waits_def)
  show ?thesis
    using step
  proof cases
    case (notify t u v)
    then show ?thesis using w [of u] by (auto intro!: only_waits_goto inv)
  next
    case (update t d)
    then show ?thesis by (auto intro: only_waits_more [OF _ only_waits_goto [OF inv, of t MNotify]])
  next
    case (enter t v)
    then show ?thesis using w [of t] by (auto intro: only_waits_more [OF _ only_waits_goto [OF inv, of t "MCheck v"]])
  next
    case (check_true t v)
    then show ?thesis by (auto intro: only_waits_more [OF _ only_waits_goto [OF inv, of t "MDone v"]])
  next
    case (check_false t v)
    then show ?thesis using w [of t] by (auto intro: only_waits_more [OF _ only_waits_goto [OF inv, of t "MWait v"]])
  next
    case (spurious t v)
    then show ?thesis using w [of t] by (auto intro!: only_waits_goto inv)
  qed (auto intro!: only_waits_goto inv)
qed

lemma no_lost_wakeup_goto:
  assumes "no_lost_wakeup ok u s" and "mon_pc s t \<noteq> MNotify" and "\<not> is_MWait p"
  shows "no_lost_wakeup ok u (goto t p s)"
  unfolding no_lost_wakeup_def
proof (intro allI impI)
  fix v
  assume "mon_pc (goto t p s) u = MWait v \<and> ok v (mon_val (goto t p s))"
  then have "mon_pc s u = MWait v" "ok v (mon_val s)"
    using assms(3) by (auto split: if_splits)
  then obtain x where "mon_pc s x = MNotify"
    using assms(1) by (auto simp: no_lost_wakeup_def)
  with assms(2) have "mon_pc (goto t p s) x = MNotify" by auto
  then show "\<exists>x. mon_pc (goto t p s) x = MNotify" ..
qed

text \<open>The single thread that may wait is not blocked after any step of its own and after a notification.\<close>

lemma no_lost_wakeup_other:
  "\<forall>v. mon_pc s u = MWait v \<longrightarrow> \<not> ok v (mon_val s) \<Longrightarrow> no_lost_wakeup ok u s"
  by (auto simp: no_lost_wakeup_def)

lemma no_lost_wakeup_step:
  assumes w: "only_waits {u} s" and inv: "no_lost_wakeup ok u s" and step: "mon_step {u} upd ok s s'"
  shows "no_lost_wakeup ok u s'"
proof -
  have w: "t = u" if "in_wait (mon_pc s t)" for t
    using w that by (auto simp: only_waits_def)
  show ?thesis
    using step
  proof cases
    case (update t d)
    then show ?thesis by (auto simp: no_lost_wakeup_def)
  next
    case (notify t x v)
    then show ?thesis using w [of x] by (auto intro: no_lost_wakeup_other)
  next
    case (notify_nobody t)
    then have "\<forall>v. mon_pc s' u \<noteq> MWait v" by auto
    then show ?thesis by (auto intro: no_lost_wakeup_other)
  next
    case (enter t v)
    then show ?thesis using w [of t] by (auto intro: no_lost_wakeup_other)
  next
    case (check_true t v)
    then show ?thesis using w [of t] by (auto intro: no_lost_wakeup_other)
  next
    case (check_false t v)
    then show ?thesis using w [of t] by (auto intro: no_lost_wakeup_other)
  qed (auto intro!: no_lost_wakeup_goto inv)
qed

section \<open>Whole calls\<close>

text \<open>A wait that blocks, a blocked thread that returns when it is woken, an update with its notification.\<close>

lemma goto_goto [simp]: "goto t p (goto t q s) = goto t p s"
  by (simp add: goto_def)

lemma goto_lock [simp]: "goto t p (s\<lparr>mon_lock := x\<rparr>) = (goto t p s)\<lparr>mon_lock := x\<rparr>"
  by (simp add: goto_def)

lemma lock_same [simp]: "mon_lock s = x \<Longrightarrow> s\<lparr>mon_lock := x\<rparr> = s"
  by simp

lemma wait_blocks:
  assumes "mon_pc s t = MIdle" "t \<in> W" "mon_lock s = None" "\<not> ok v (mon_val s)"
  shows "mon_reach W upd ok s (goto t (MWait v) s)"
proof -
  have "mon_step W upd ok s (goto t (MEnter v) s)"
    using assms by (intro call_wait)
  moreover have "mon_step W upd ok (goto t (MEnter v) s) ((goto t (MCheck v) s)\<lparr>mon_lock := Some t\<rparr>)"
    using enter [of "goto t (MEnter v) s" t v W upd ok] assms by simp
  moreover have "mon_step W upd ok ((goto t (MCheck v) s)\<lparr>mon_lock := Some t\<rparr>) (goto t (MWait v) s)"
    using check_false [of "(goto t (MCheck v) s)\<lparr>mon_lock := Some t\<rparr>" t v ok W upd] assms by simp
  ultimately show ?thesis by (blast intro: mon_reach.intros)
qed

lemma woken_returns:
  assumes "mon_pc s t = MWoken v" "mon_lock s = None" "ok v (mon_val s)"
  shows "mon_reach W upd ok s (goto t (MDone v) s)"
proof -
  have "mon_step W upd ok s ((goto t (MCheck v) s)\<lparr>mon_lock := Some t\<rparr>)"
    using assms by (intro enter) simp_all
  moreover have "mon_step W upd ok ((goto t (MCheck v) s)\<lparr>mon_lock := Some t\<rparr>) (goto t (MDone v) s)"
    using check_true [of "(goto t (MCheck v) s)\<lparr>mon_lock := Some t\<rparr>" t v ok W upd] assms by simp
  ultimately show ?thesis by (blast intro: mon_reach.intros)
qed

lemma update_path:
  assumes "mon_pc s t = MIdle" "mon_lock s = None"
  shows "mon_reach W upd ok s ((goto t MNotify s)\<lparr>mon_val := upd d (mon_val s)\<rparr>)"
proof -
  have "mon_step W upd ok s (goto t (MUpdate d) s)"
    using assms by (intro call_update)
  moreover have "mon_step W upd ok (goto t (MUpdate d) s) ((goto t MNotify s)\<lparr>mon_val := upd d (mon_val s)\<rparr>)"
    using update [of "goto t (MUpdate d) s" t d W upd ok] assms by simp
  ultimately show ?thesis by (blast intro: mon_reach.intros)
qed

section \<open>Interfaces\<close>

text \<open>What a class that follows the pattern gives its users: exclusion, and no lost wake-up for one waiter.\<close>

locale monitor =
  fixes upd :: "'d \<Rightarrow> 'a \<Rightarrow> 'a" and ok :: "'v \<Rightarrow> 'a \<Rightarrow> bool" and start :: 'a
begin

lemma reach_mutex: "mon_reach W upd ok (mon_init start) s \<Longrightarrow> mutex_inv s \<and> only_waits W s"
proof (induction rule: mon_reach.induct)
  case here
  then show ?case by (simp add: mutex_inv_def only_waits_def mon_init_def)
next
  case (step s1 s2)
  then show ?case using mutex_step only_waits_step by blast
qed

lemma reach_no_lost: "mon_reach {u} upd ok (mon_init start) s \<Longrightarrow> no_lost_wakeup ok u s"
proof (induction rule: mon_reach.induct)
  case here
  then show ?case by (simp add: no_lost_wakeup_def mon_init_def)
next
  case (step s1 s2)
  then show ?case using reach_mutex no_lost_wakeup_step by blast
qed

lemma lock_free:
  assumes "mon_reach W upd ok (mon_init start) s" and "\<forall>t \<in> W. \<not> is_MCheck (mon_pc s t)"
  shows "mon_lock s = None"
proof (rule ccontr)
  assume "mon_lock s \<noteq> None"
  then obtain t where "mon_lock s = Some t" by auto
  then have "is_MCheck (mon_pc s t)"
    using reach_mutex [OF assms(1)] by (simp add: mutex_inv_def)
  moreover have "t \<in> W"
    using reach_mutex [OF assms(1)] calculation by (simp add: only_waits_def in_wait_def)
  ultimately show False using assms(2) by blast
qed

text \<open>From the moment its condition is true the single waiter can be brought to return.\<close>

lemma waiter_returns:
  assumes r: "mon_reach {u} upd ok (mon_init start) s" and pc: "mon_pc s u = MWait v" and ok: "ok v (mon_val s)"
  shows "\<exists>s'. mon_reach {u} upd ok s s' \<and> mon_pc s' u = MDone v \<and> mon_val s' = mon_val s"
proof -
  from reach_no_lost [OF r] pc ok obtain t where t: "mon_pc s t = MNotify"
    by (auto simp: no_lost_wakeup_def)
  let ?s1 = "goto u (MWoken v) (goto t MIdle s)"
  have "mon_reach {u} upd ok s ?s1"
    using notify [OF t pc] by (blast intro: mon_reach.intros)
  moreover have "mon_reach {u} upd ok ?s1 (goto u (MDone v) ?s1)"
    using lock_free [OF r] pc ok by (intro woken_returns) simp_all
  ultimately show ?thesis
    using mon_reach_trans by (intro exI [of _ "goto u (MDone v) ?s1"]) auto
qed

text \<open>A wait returns only in a step at which its condition is true.\<close>

lemma return_ok:
  "mon_step W upd ok s s' \<Longrightarrow> mon_pc s' t = MDone v \<Longrightarrow> mon_pc s t \<noteq> MDone v \<Longrightarrow> ok v (mon_val s) \<and> mon_val s' = mon_val s"
  by (erule mon_stepE) (auto split: if_splits)

end

locale stable_monitor = monitor +
  assumes stable: "ok v x \<Longrightarrow> ok v (upd d x)"
begin

lemma step_stable: "mon_step W upd ok s s' \<Longrightarrow> ok v (mon_val s) \<Longrightarrow> ok v (mon_val s')"
  by (erule mon_stepE) (auto simp: stable)

lemma done_ok: "mon_reach W upd ok (mon_init start) s \<Longrightarrow> mon_pc s t = MDone v \<Longrightarrow> ok v (mon_val s)"
proof (induction rule: mon_reach.induct)
  case here
  then show ?case by (simp add: mon_init_def)
next
  case (step s1 s2)
  then show ?case
    using return_ok [OF step.hyps(2) step.prems] step_stable [OF step.hyps(2)] by (cases "mon_pc s1 t = MDone v") auto
qed

end

end
