(* ===== verification/Blocking_Counter.thy ===== *)
theory Blocking_Counter
  imports Monitor
begin

text \<open>
  \<^verbatim>\<open>src/muradin/base/blocking_counter.h\<close> and \<^verbatim>\<open>blocking_counter.cpp\<close>: a counter whose value
  threads can wait for, as an instance of the pattern of \<open>Monitor\<close>. The value is an \<open>int\<close>
  whose overflow is undefined in C++; here it is unbounded. \<open>increment\<close> and \<open>decrement\<close> return
  no value in the code although their result type is \<open>int\<close>.
\<close>

datatype counter_op = Increment | Decrement

type_synonym counter_state = "(int, counter_op, int) mon_state"

definition blocking_counter_new :: "int \<Rightarrow> counter_state" where
  "blocking_counter_new init_count = mon_init init_count"

definition get_val :: "counter_state \<Rightarrow> int" where
  "get_val s = mon_val s"

text \<open>The bodies of \<open>increment\<close> and \<open>decrement\<close> under the mutex, and the condition of \<open>wait_for\<close>.\<close>

fun counter_update :: "counter_op \<Rightarrow> int \<Rightarrow> int" where
  "counter_update Increment m_val = m_val + 1"
| "counter_update Decrement m_val = m_val - 1"

definition wait_for_done :: "int \<Rightarrow> int \<Rightarrow> bool" where
  "wait_for_done val m_val \<longleftrightarrow> \<not> (val \<noteq> m_val)"

text \<open>The steps of the threads that use one counter, of which those in \<open>W\<close> call \<open>wait_for\<close>.\<close>

definition counter_step :: "nat set \<Rightarrow> counter_state \<Rightarrow> counter_state \<Rightarrow> bool" where
  "counter_step W = mon_step W counter_update wait_for_done"

definition counter_reach :: "nat set \<Rightarrow> counter_state \<Rightarrow> counter_state \<Rightarrow> bool" where
  "counter_reach W = mon_reach W counter_update wait_for_done"

lemmas counter_defs = counter_step_def counter_reach_def blocking_counter_new_def get_val_def

interpretation counter: monitor counter_update wait_for_done n for n .


text \<open>Thread \<open>u\<close> blocked on a counter that another thread has just brought to the value.\<close>

lemma blocked_then_reached:
  "counter_reach {1} (blocking_counter_new 1)
     ((goto 3 MNotify (goto 1 (MWait 0) (blocking_counter_new 1)))\<lparr>mon_val := 0\<rparr>)"
proof -
  let ?s = "goto 1 (MWait 0) (blocking_counter_new 1) :: counter_state"
  have "mon_reach {1} counter_update wait_for_done (blocking_counter_new 1) ?s"
    by (rule wait_blocks) (simp_all add: counter_defs mon_init_def wait_for_done_def)
  moreover have "mon_reach {1} counter_update wait_for_done ?s ((goto 3 MNotify ?s)\<lparr>mon_val := counter_update Decrement (mon_val ?s)\<rparr>)"
    by (rule update_path) (simp_all add: counter_defs mon_init_def)
  moreover have "counter_update Decrement (mon_val ?s) = 0"
    by (simp add: counter_defs mon_init_def)
  ultimately show ?thesis
    unfolding counter_reach_def by (metis mon_reach_trans)
qed


text \<open>
  Updates wake one thread only. Two threads that wait for the same value: after the update
  that reaches it, one of them may return while the other stays blocked, with the value it
  waits for, with no notification due and with every other thread idle.
\<close>

theorem two_waiters_lost_wakeup:
  "\<exists>s. counter_reach {1, 2} (blocking_counter_new 1) s \<and> get_val s = 0 \<and> mon_pc s 2 = MWait 0 \<and>
     mon_lock s = None \<and> (\<forall>t. t \<noteq> 2 \<longrightarrow> mon_pc s t = MIdle)"
proof -
  let ?R = "mon_reach {1, 2} counter_update wait_for_done"
  let ?s0 = "blocking_counter_new 1" and ?s1 = "goto 1 (MWait 0) (blocking_counter_new 1) :: counter_state"
  let ?s2 = "goto 2 (MWait 0) ?s1"
  let ?s3 = "(goto 3 MNotify ?s2)\<lparr>mon_val := counter_update Decrement (mon_val ?s2)\<rparr>"
  let ?s4 = "goto 1 (MWoken 0) (goto 3 MIdle ?s3)"
  let ?s5 = "goto 1 (MDone 0) ?s4"
  let ?s6 = "goto 1 MIdle ?s5"
  have init: "mon_lock ?s0 = None" "mon_val ?s0 = 1" "mon_pc ?s0 = (\<lambda>_. MIdle)"
    by (simp_all add: counter_defs mon_init_def)
  have "?R ?s0 ?s1" by (rule wait_blocks) (simp_all add: init wait_for_done_def)
  moreover have "?R ?s1 ?s2" by (rule wait_blocks) (simp_all add: init wait_for_done_def)
  moreover have "?R ?s2 ?s3" by (rule update_path) (simp_all add: init)
  moreover have "mon_step {1, 2} counter_update wait_for_done ?s3 ?s4"
    by (rule notify) simp_all
  moreover have "?R ?s4 ?s5" by (rule woken_returns) (simp_all add: init wait_for_done_def)
  moreover have "mon_step {1, 2} counter_update wait_for_done ?s5 ?s6"
    by (rule return) simp
  ultimately have "?R ?s0 ?s6"
    by (meson mon_reach_trans mon_reach.step)
  moreover have "get_val ?s6 = 0" "mon_pc ?s6 2 = MWait 0" "mon_lock ?s6 = None" "\<forall>t. t \<noteq> 2 \<longrightarrow> mon_pc ?s6 t = MIdle"
    by (simp_all add: get_val_def init)
  ultimately show ?thesis
    unfolding counter_reach_def by blast
qed

section \<open>The counter of echo\_mt.cpp\<close>

text \<open>
  \<open>run_srv\<close> ends with \<open>g_counter.wait_for(0)\<close>; no thread of the program calls \<open>increment\<close> or \<open>decrement\<close>. These are
  the states that the threads can then reach.
\<close>

definition g_counter :: counter_state where
  "g_counter = blocking_counter_new 1"

inductive g_counter_reach :: "nat set \<Rightarrow> counter_state \<Rightarrow> bool" for W where
  start: "g_counter_reach W g_counter"
| step: "g_counter_reach W s \<Longrightarrow> counter_step W s s' \<Longrightarrow> \<forall>t d. mon_pc s' t \<noteq> MUpdate d \<Longrightarrow> g_counter_reach W s'"

lemma g_counter_stays:
  "g_counter_reach W s \<Longrightarrow> mon_val s = 1 \<and> (\<forall>t. mon_pc s t \<noteq> MNotify \<and> mon_pc s t \<noteq> MDone 0 \<and> (\<forall>d. mon_pc s t \<noteq> MUpdate d))"
proof (induction rule: g_counter_reach.induct)
  case start
  show ?case by (simp add: g_counter_def blocking_counter_new_def mon_init_def)
next
  case (step s s')
  from step(2) [unfolded counter_step_def] show ?case
    using step(3,4) by cases (auto simp: wait_for_done_def split: if_splits)
qed

text \<open>
  The thread of \<open>run_srv\<close> never returns from \<open>wait_for(0)\<close>: it writes no line about its end, and the server is not destroyed.
\<close>

theorem g_counter_wait_blocks:
  assumes "g_counter_reach W s"
  shows "get_val s = 1 \<and> mon_pc s u \<noteq> MDone 0"
  using g_counter_stays [OF assms] by (simp add: get_val_def)

end
