(* ===== verification/Service_Thread.thy ===== *)
theory Service_Thread
  imports Monitor
begin

text \<open>
  \<^verbatim>\<open>src/muradin/net/service_thread.h\<close> and \<^verbatim>\<open>service_thread.cpp\<close>: the handshake between the
  thread that starts a loop and the thread that runs it, as an instance of the pattern of
  \<open>Monitor\<close>. The value is the pointer \<open>m_service\<close>, null at first; \<open>thread_func\<close> publishes the
  address of its \<open>io_service\<close>, \<open>run\<close> waits until the pointer is not null.
\<close>

type_synonym handshake_state = "(nat option, nat, unit) mon_state"

definition service_thread_init :: handshake_state where
  "service_thread_init = mon_init None"

definition publish :: "nat \<Rightarrow> nat option \<Rightarrow> nat option" where
  "publish ios m_service = Some ios"

definition run_done :: "unit \<Rightarrow> nat option \<Rightarrow> bool" where
  "run_done v m_service \<longleftrightarrow> \<not> (m_service = None)"

definition handshake_step :: "nat set \<Rightarrow> handshake_state \<Rightarrow> handshake_state \<Rightarrow> bool" where
  "handshake_step W = mon_step W publish run_done"

definition handshake_reach :: "nat set \<Rightarrow> handshake_state \<Rightarrow> handshake_state \<Rightarrow> bool" where
  "handshake_reach W = mon_reach W publish run_done"

lemmas handshake_defs = handshake_step_def handshake_reach_def service_thread_init_def

interpretation handshake: stable_monitor publish run_done None
  by unfold_locales (simp add: run_done_def publish_def)



end
