(* ===== verification/Double_Arith.thy ===== *)
theory Double_Arith
  imports Prelude Complex_Main "HOL-Library.Log_Nat"
begin

text \<open>
  The arithmetic of \<open>double\<close> that \<^verbatim>\<open>base/timestamp.h\<close> uses. A finite value is a rational number;
  conversions, products and quotients are the exact result rounded to 53 significant bits,
  to the nearest value and to an even one in the middle, as the build does it (64-bit
  registers, default rounding mode). The range of the exponent is not limited here: every
  value beyond it is also beyond the integers that the code converts it to, and every value
  below it is truncated to 0. Lemmas: the error of a rounding, and integers that have none.
\<close>

datatype double = Finite rat | Infinite bool | NaN

text \<open>The exponent: \<open>2 powi e \<le> \<bar>x\<bar> < 2 powi (e + 1)\<close>.\<close>

definition rat_exp :: "rat \<Rightarrow> int" where
  "rat_exp x =
     (let (p, q) = quotient_of \<bar>x\<bar>; k = bitlen p - bitlen q
      in if 2 powi k \<le> \<bar>x\<bar> then k else k - 1)"

definition round_even :: "rat \<Rightarrow> int" where
  "round_even x =
     (let f = \<lfloor>x\<rfloor>; r = x - of_int f
      in if r < 1 / 2 then f else if 1 / 2 < r then f + 1 else if even f then f else f + 1)"

definition rnd :: "rat \<Rightarrow> rat" where
  "rnd x = (if x = 0 then 0
     else of_int (round_even (x / 2 powi (rat_exp x - 52))) * 2 powi (rat_exp x - 52))"

text \<open>Conversion to an integer drops the fraction.\<close>

definition trunc :: "rat \<Rightarrow> int" where
  "trunc x = (if 0 \<le> x then \<lfloor>x\<rfloor> else \<lceil>x\<rceil>)"

section \<open>Rounding\<close>

lemma powi_less_cancel: "(2 :: rat) powi a < 2 powi b \<Longrightarrow> a < b"
  using power_int_increasing [of b a "2 :: rat"] by linarith

lemma bitlen_powi:
  assumes "0 < p"
  shows "2 powi (bitlen p - 1) \<le> (of_int p :: rat)" and "(of_int p :: rat) < 2 powi (bitlen p)"
proof -
  have "1 \<le> bitlen p" using assms bitlen_eq_zero_iff [of p] bitlen_nonneg [of p] by linarith
  then have e: "(2 :: rat) powi (bitlen p - 1) = of_int (2 ^ nat (bitlen p - 1))"
    "(2 :: rat) powi (bitlen p) = of_int (2 ^ nat (bitlen p))"
    by (simp_all add: power_int_def)
  show "2 powi (bitlen p - 1) \<le> (of_int p :: rat)" "(of_int p :: rat) < 2 powi (bitlen p)"
    unfolding e of_int_le_iff of_int_less_iff using bitlen_bounds [OF assms] by auto
qed

lemma rat_exp_bounds:
  assumes "x \<noteq> 0"
  shows "2 powi (rat_exp x) \<le> \<bar>x\<bar>" and "\<bar>x\<bar> < 2 powi (rat_exp x + 1)"
proof -
  obtain p q where pq: "quotient_of \<bar>x\<bar> = (p, q)" by force
  have q: "0 < q" using quotient_of_denom_pos [OF pq] .
  have x: "\<bar>x\<bar> = of_int p / of_int q" using quotient_of_div [OF pq] .
  have p: "0 < p" using assms x q by (metis divide_pos_pos of_int_0_less_iff zero_less_abs_iff zero_less_divide_iff order_less_asym)
  let ?k = "bitlen p - bitlen q"
  have "\<bar>x\<bar> < 2 powi (bitlen p) / 2 powi (bitlen q - 1)"
    unfolding x using bitlen_powi [OF p] bitlen_powi [OF q] p q by (intro frac_less) simp_all
  then have hi: "\<bar>x\<bar> < 2 powi (?k + 1)" by (simp add: power_int_diff power_int_add)
  have "2 powi (bitlen p - 1) / 2 powi (bitlen q) \<le> \<bar>x\<bar>"
    unfolding x using bitlen_powi [OF p] bitlen_powi [OF q] p q by (intro frac_le) simp_all
  then have lo: "2 powi (?k - 1) \<le> \<bar>x\<bar>" by (simp add: power_int_diff)
  show "2 powi (rat_exp x) \<le> \<bar>x\<bar>" "\<bar>x\<bar> < 2 powi (rat_exp x + 1)"
    using hi lo by (auto simp: rat_exp_def pq Let_def)
qed

lemma round_even_error: "\<bar>of_int (round_even x) - x\<bar> \<le> 1 / 2"
proof -
  have "of_int \<lfloor>x\<rfloor> \<le> x" "x < of_int \<lfloor>x\<rfloor> + 1" by linarith+
  then show ?thesis by (auto simp: round_even_def Let_def abs_le_iff)
qed

lemma round_even_int [simp]: "round_even (of_int n) = n"
  by (simp add: round_even_def)

lemma rnd_0 [simp]: "rnd 0 = 0"
  by (simp add: rnd_def)

lemma rnd_error_exp: "\<bar>rnd x - x\<bar> \<le> 2 powi (rat_exp x - 53)" if "x \<noteq> 0"
proof -
  let ?u = "2 powi (rat_exp x - 52) :: rat"
  have u: "0 < ?u" by simp
  have "rnd x - x = (of_int (round_even (x / ?u)) - x / ?u) * ?u"
    using that by (simp add: rnd_def left_diff_distrib)
  then have "\<bar>rnd x - x\<bar> = \<bar>of_int (round_even (x / ?u)) - x / ?u\<bar> * ?u"
    using u by (simp only: abs_mult abs_of_pos)
  also have "\<dots> \<le> 1 / 2 * ?u" by (intro mult_right_mono round_even_error) simp
  also have "\<dots> = 2 powi (rat_exp x - 53)"
    using power_int_add [of "2 :: rat" "rat_exp x - 53" 1] by simp
  finally show ?thesis .
qed

text \<open>The error in terms of the size of the number.\<close>

lemma rnd_error_below:
  assumes "\<bar>x\<bar> < 2 powi k"
  shows "\<bar>rnd x - x\<bar> \<le> 2 powi (k - 54)"
proof (cases "x = 0")
  case False
  have "(2 :: rat) powi (rat_exp x) < 2 powi k"
    using rat_exp_bounds(1) [OF False] assms by linarith
  then have "rat_exp x < k" by (rule powi_less_cancel)
  then have "(2 :: rat) powi (rat_exp x - 53) \<le> 2 powi (k - 54)"
    by (intro power_int_increasing) auto
  with rnd_error_exp [OF False] show ?thesis by linarith
qed simp

lemma rnd_error_rel: "\<bar>rnd x - x\<bar> \<le> \<bar>x\<bar> / 2 ^ 53"
proof (cases "x = 0")
  case False
  have "(2 :: rat) powi (rat_exp x - 53) = 2 powi (rat_exp x) / 2 ^ 53"
    by (simp add: power_int_diff)
  also have "\<dots> \<le> \<bar>x\<bar> / 2 ^ 53"
    using rat_exp_bounds(1) [OF False] by (intro divide_right_mono) simp_all
  finally show ?thesis using rnd_error_exp [OF False] by linarith
qed simp

lemma rnd_int:
  assumes "\<bar>n\<bar> < 2 ^ 53"
  shows "rnd (of_int n) = of_int n"
proof (cases "n = 0")
  case False
  let ?e = "rat_exp (of_int n) - 52"
  have "(of_int \<bar>n\<bar> :: rat) < of_int (2 ^ 53)"
    unfolding of_int_less_iff by (rule assms)
  then have "(2 :: rat) powi (rat_exp (of_int n)) < 2 powi 53"
    using rat_exp_bounds(1) [of "of_int n"] False by (simp add: power_int_def)
  then have "?e \<le> 0" using powi_less_cancel by fastforce
  then have "(of_int n :: rat) / 2 powi ?e = of_int (n * 2 ^ nat (- ?e))"
    by (simp add: power_int_def field_simps)
  then have "round_even (of_int n / 2 powi ?e) = n * 2 ^ nat (- ?e)"
    by (simp only: round_even_int)
  moreover have "of_int (n * 2 ^ nat (- ?e)) * (2 :: rat) powi ?e = of_int n"
    using \<open>?e \<le> 0\<close> by (simp add: power_int_def field_simps)
  ultimately show ?thesis using False by (simp add: rnd_def)
qed simp

lemma trunc_int [simp]: "trunc (of_int d) = d"
  by (simp add: trunc_def)

text \<open>What truncation makes of a number close to an integer.\<close>

lemma trunc_near:
  assumes "\<bar>p - of_int d\<bar> < 1"
  shows "0 < d \<Longrightarrow> d - 1 \<le> trunc p \<and> trunc p \<le> d" and "d < 0 \<Longrightarrow> d \<le> trunc p \<and> trunc p \<le> d + 1"
proof -
  have p: "of_int d - 1 < p" "p < of_int d + 1" using assms by linarith+
  show "0 < d \<Longrightarrow> d - 1 \<le> trunc p \<and> trunc p \<le> d"
    using p by (auto simp: trunc_def floor_le_iff le_floor_iff ceiling_le_iff le_ceiling_iff)
  show "d < 0 \<Longrightarrow> d \<le> trunc p \<and> trunc p \<le> d + 1"
    using p by (auto simp: trunc_def floor_le_iff le_floor_iff ceiling_le_iff le_ceiling_iff)
qed

end
