(* ===== verification/Time_Double.thy ===== *)
theory Time_Double
  imports Time_Stamp Double_Arith
begin

text \<open>
  \<open>time_difference\<close> and \<open>add_time\<close> of \<^verbatim>\<open>src/muradin/base/timestamp.h\<close>, which compute in \<open>double\<close>.
  Properties: the comment's claim about the resolution, with the exact range in which it
  holds, and how close the two functions come to being inverse.
\<close>

definition in_int64 :: "int \<Rightarrow> bool" where
  "in_int64 i \<longleftrightarrow> - (2 ^ 63) \<le> i \<and> i < 2 ^ 63"

definition time_difference :: "timestamp \<Rightarrow> timestamp \<Rightarrow> double res" where
  "time_difference high low =
     (let diff = microSecondsSinceEpoch high - microSecondsSinceEpoch low
      in if in_int64 diff then Inr (Finite (rnd (rnd (of_int diff) / of_int kMicroSecondsPerSecond)))
         else Inl Overflow)"

text \<open>Converting a value that is not finite, or too large, is undefined.\<close>

definition add_time :: "timestamp \<Rightarrow> double \<Rightarrow> timestamp res" where
  "add_time tmstamp seconds =
     (case seconds of
        Finite s \<Rightarrow>
          let delta = trunc (rnd (s * of_int kMicroSecondsPerSecond))
          in if in_int64 delta \<and> in_int64 (microSecondsSinceEpoch tmstamp + delta)
             then Inr (timestamp_of (microSecondsSinceEpoch tmstamp + delta))
             else Inl Overflow
      | _ \<Rightarrow> Inl Overflow)"

section \<open>Resolution\<close>

lemma difference_value:
  assumes "\<bar>microSecondsSinceEpoch h - microSecondsSinceEpoch l\<bar> < 2 ^ 53"
  shows "time_difference h l = Inr (Finite (rnd (of_int (microSecondsSinceEpoch h - microSecondsSinceEpoch l) / 1000000)))"
proof -
  have "in_int64 (microSecondsSinceEpoch h - microSecondsSinceEpoch l)"
    using assms by (auto simp: in_int64_def abs_less_iff)
  moreover have "rnd (of_int (microSecondsSinceEpoch h - microSecondsSinceEpoch l)) =
      of_int (microSecondsSinceEpoch h - microSecondsSinceEpoch l)"
    using assms by (rule rnd_int)
  ultimately show ?thesis
    by (simp add: time_difference_def Let_def kMicroSecondsPerSecond_def)
qed

lemma difference_error:
  fixes d :: int
  assumes "\<bar>d\<bar> < 2 ^ 33 * 1000000"
  shows "\<bar>rnd (of_int d / 1000000) * 1000000 - of_int d\<bar> < 1 / 2"
proof -
  have "\<bar>of_int d / 1000000 :: rat\<bar> < 2 powi 33"
    using assms by (simp add: power_int_def field_simps flip: of_int_abs)
  then have "\<bar>rnd (of_int d / 1000000) - of_int d / 1000000\<bar> \<le> 2 powi (33 - 54)"
    by (rule rnd_error_below)
  then have "\<bar>rnd (of_int d / 1000000) - of_int d / 1000000\<bar> \<le> 1 / 2097152"
    by (simp add: power_int_def power_divide)
  then show ?thesis by linarith
qed

text \<open>
  C35. The comment says that \<open>double\<close> resolves microseconds for the next 100 years. For differences
  of up to \<open>2 ^ 33\<close> seconds, 272 years: \<open>time_difference\<close> has a result, which is less than half a
  microsecond off, and of two differences the longer one has the larger result, so that different
  differences have different results.
\<close>

theorem time_difference_resolution:
  assumes d: "\<bar>microSecondsSinceEpoch h - microSecondsSinceEpoch l\<bar> < 2 ^ 33 * 1000000"
    and d': "\<bar>microSecondsSinceEpoch h' - microSecondsSinceEpoch l'\<bar> < 2 ^ 33 * 1000000"
  shows "\<exists>r r'. time_difference h l = Inr (Finite r) \<and> time_difference h' l' = Inr (Finite r') \<and>
    \<bar>r * 1000000 - of_int (microSecondsSinceEpoch h - microSecondsSinceEpoch l)\<bar> < 1 / 2 \<and>
    (r < r' \<longleftrightarrow> microSecondsSinceEpoch h - microSecondsSinceEpoch l < microSecondsSinceEpoch h' - microSecondsSinceEpoch l')"
proof -
  let ?d = "microSecondsSinceEpoch h - microSecondsSinceEpoch l" and ?d' = "microSecondsSinceEpoch h' - microSecondsSinceEpoch l'"
  let ?r = "rnd (of_int ?d / 1000000)" and ?r' = "rnd (of_int ?d' / 1000000)"
  have v: "time_difference h l = Inr (Finite ?r)" "time_difference h' l' = Inr (Finite ?r')"
    using d d' by (intro difference_value; simp)+
  have e: "\<bar>?r * 1000000 - of_int ?d\<bar> < 1 / 2" "\<bar>?r' * 1000000 - of_int ?d'\<bar> < 1 / 2"
    using difference_error [OF d] difference_error [OF d'] by blast+
  have "?r < ?r' \<longleftrightarrow> ?d < ?d'"
  proof (cases ?d ?d' rule: linorder_cases)
    case less
    then have "(of_int ?d :: rat) + 1 \<le> of_int ?d'" by linarith
    with e less show ?thesis by linarith
  next
    case equal
    then show ?thesis by simp
  next
    case greater
    then have "(of_int ?d' :: rat) + 1 \<le> of_int ?d" by linarith
    with e greater show ?thesis by linarith
  qed
  with v e show ?thesis by blast
qed

theorem time_difference_resolution_witness:
  "\<exists>r r'. time_difference (timestamp_of 1351555200000042) (timestamp_of 0) = Inr (Finite r) \<and>
     time_difference (timestamp_of 1351555200000043) (timestamp_of 0) = Inr (Finite r') \<and> r < r'"
  using time_difference_resolution [of "timestamp_of 1351555200000042" "timestamp_of 0" "timestamp_of 1351555200000043" "timestamp_of 0"]
  by (auto simp: timestamp_of_def)

section \<open>Adding a difference\<close>

lemma add_error:
  fixes d :: int
  assumes "\<bar>d\<bar> < 2 ^ 51"
  shows "\<bar>rnd (rnd (of_int d / 1000000) * 1000000) - of_int d\<bar> < 1"
proof -
  let ?r = "rnd (of_int d / 1000000)"
  have d: "\<bar>of_int d :: rat\<bar> < 2 ^ 51"
    using assms by (simp flip: of_int_abs)
  have "\<bar>?r - of_int d / 1000000\<bar> \<le> \<bar>of_int d / 1000000\<bar> / 2 ^ 53" by (rule rnd_error_rel)
  then have r: "\<bar>?r * 1000000 - of_int d\<bar> \<le> \<bar>of_int d\<bar> / 2 ^ 53" by (simp add: abs_le_iff field_simps)
  have "\<bar>rnd (?r * 1000000) - ?r * 1000000\<bar> \<le> \<bar>?r * 1000000\<bar> / 2 ^ 53" by (rule rnd_error_rel)
  moreover have "(2 :: rat) ^ 53 = 9007199254740992" "(2 :: rat) ^ 51 = 2251799813685248" by simp_all
  moreover have "\<bar>p - z\<bar> < 1" if "\<bar>p - y\<bar> \<le> \<bar>y\<bar> / 9007199254740992" "\<bar>y - z\<bar> \<le> \<bar>z\<bar> / 9007199254740992"
    "\<bar>z\<bar> < 2251799813685248" for p y z :: rat
    using that by linarith
  ultimately show ?thesis using r d by metis
qed

text \<open>
  C36. Adding the difference of two time stamps to the earlier one, when they are less than \<open>2 ^ 51\<close>
  microseconds (71 years) apart: the result is the later time stamp or one microsecond before it,
  never later (and the other way round for a negative difference). If they are a whole number
  of seconds apart the result is exact.
\<close>

theorem add_time_difference:
  assumes d: "\<bar>microSecondsSinceEpoch h - microSecondsSinceEpoch l\<bar> < 2 ^ 51"
    and h: "in_int64 (microSecondsSinceEpoch h)" and l: "in_int64 (microSecondsSinceEpoch l)"
  shows "\<exists>r t. time_difference h l = Inr (Finite r) \<and> add_time l (Finite r) = Inr t \<and>
    (let m = microSecondsSinceEpoch h; d = m - microSecondsSinceEpoch l; m' = microSecondsSinceEpoch t in
      (0 \<le> d \<longrightarrow> m' = m \<or> m' = m - 1) \<and> (d \<le> 0 \<longrightarrow> m' = m \<or> m' = m + 1) \<and> (1000000 dvd d \<longrightarrow> m' = m))"
proof -
  let ?m = "microSecondsSinceEpoch h" and ?l = "microSecondsSinceEpoch l"
  let ?r = "rnd (of_int (?m - ?l) / 1000000)"
  let ?p = "rnd (?r * 1000000)"
  have r: "time_difference h l = Inr (Finite ?r)"
    using d by (intro difference_value) simp
  have p: "\<bar>?p - of_int (?m - ?l)\<bar> < 1" using d by (rule add_error)
  have exact: "trunc ?p = ?m - ?l" if "1000000 dvd ?m - ?l"
  proof -
    from that obtain n where n: "?m - ?l = 1000000 * n" by (rule dvdE)
    then have "?r = of_int n" using d rnd_int [of n] by simp
    then have "?p = of_int (?m - ?l)" using n d rnd_int [of "1000000 * n"] by (simp add: mult.commute)
    then show ?thesis by (simp only: trunc_int)
  qed
  have t: "0 < ?m - ?l \<Longrightarrow> ?m - ?l - 1 \<le> trunc ?p \<and> trunc ?p \<le> ?m - ?l"
    "?m - ?l < 0 \<Longrightarrow> ?m - ?l \<le> trunc ?p \<and> trunc ?p \<le> ?m - ?l + 1"
    using trunc_near(1,2) [OF p] by blast+
  then have "in_int64 (trunc ?p)" "in_int64 (?l + trunc ?p)"
    using d h l exact by (cases "?m - ?l" "0 :: int" rule: linorder_cases; auto simp: in_int64_def)+
  then have "add_time l (Finite ?r) = Inr (timestamp_of (?l + trunc ?p))"
    by (simp add: add_time_def Let_def kMicroSecondsPerSecond_def)
  with r t exact show ?thesis
    by (intro exI [of _ ?r] exI [of _ "timestamp_of (?l + trunc ?p)"])
      (cases "?m - ?l" "0 :: int" rule: linorder_cases; auto simp: Let_def timestamp_of_def)
qed

theorem add_time_difference_witness:
  "\<exists>r t. time_difference (timestamp_of 5000000) (timestamp_of 2000000) = Inr (Finite r) \<and>
     add_time (timestamp_of 2000000) (Finite r) = Inr t \<and> microSecondsSinceEpoch t = 5000000"
  using add_time_difference [of "timestamp_of 5000000" "timestamp_of 2000000"]
  by (auto simp: timestamp_of_def in_int64_def Let_def)

text \<open>
  The microsecond can get lost: 249 microseconds after the epoch are \<open>0.000249\<close> seconds, which
  as a \<open>double\<close> times 1000000 is below 249 and is truncated to 248.
\<close>

theorem add_time_loses_microsecond:
  "rbind (time_difference (timestamp_of 249) (timestamp_of 0)) (add_time (timestamp_of 0)) = Inr (timestamp_of 248)"
  by code_simp

end
