(* ===== verification/Asio_Stream.thy ===== *)
theory Asio_Stream
  imports Prelude "HOL-Library.Sublist"
begin

text \<open>
  What the two programs of \<^verbatim>\<open>example/asio/pingpong\<close> use of \<open>boost::asio\<close>, and the
  double buffering that their sessions share. The library is the parameter \<open>A\<close>, a record of
  the functions the programs call, on a state of any type; \<open>asio_next\<close> is the next thing
  that \<open>io_service::run\<close> does, which may be to call a handler. \<open>asio_documented\<close> is what the
  manual promises of it, for an observer \<open>view\<close> of its state: data is transferred between the
  buffers of the operations under way and the connection, a handler is called once per
  operation that was started, and the memory that \<open>new\<close> returned is left alone otherwise;
  all that as long as the buffers of the operations under way are allocated and at most one
  \<open>async_write\<close> per connection is under way. Lemmas: the invariant of the double buffer.
\<close>

section \<open>Memory and connections\<close>

text \<open>
  The arrays that the constructor of the session at address \<open>p\<close> allocates are the blocks
  \<open>(p, False)\<close> and \<open>(p, True)\<close>.
\<close>

type_synonym obj = nat
type_synonym block = "obj \<times> bool"
type_synonym memory = "block \<rightharpoonup> byte list"

text \<open>
  Operations under way: \<open>Reading b n\<close> waits for up to \<open>n\<close> bytes, \<open>ReadOver n\<close> has stored \<open>n\<close>
  bytes and its handler has not been called yet, \<open>Writing b n k\<close> has sent \<open>k\<close> of \<open>n\<close> bytes.
\<close>

datatype rd_op = Reading block size_t | ReadOver size_t
datatype wr_op = Writing block size_t size_t

record tcp_stream =
  rd_ops :: "rd_op list"
  wr_ops :: "wr_op list"
  bytes_in :: "byte list"
  bytes_out :: "byte list"

datatype stream_event = Quiet | ReadEnd bool size_t | WriteEnd bool size_t

inductive stream_move :: "memory \<Rightarrow> tcp_stream \<Rightarrow> stream_event \<Rightarrow> memory \<Rightarrow> tcp_stream \<Rightarrow> bool" where
  recv: "rd_ops s = xs @ Reading b n # ys \<Longrightarrow> m b = Some old \<Longrightarrow> length bytes \<le> n \<Longrightarrow>
    stream_move m s Quiet (m(b \<mapsto> bytes @ drop (length bytes) old))
      (s\<lparr>rd_ops := xs @ ReadOver (length bytes) # ys, bytes_in := bytes_in s @ bytes\<rparr>)"
| send: "wr_ops s = xs @ Writing b n k # ys \<Longrightarrow> m b = Some data \<Longrightarrow> k + j \<le> n \<Longrightarrow>
    stream_move m s Quiet m
      (s\<lparr>wr_ops := xs @ Writing b n (k + j) # ys, bytes_out := bytes_out s @ take j (drop k data)\<rparr>)"
| read_ok: "rd_ops s = xs @ ReadOver n # ys \<Longrightarrow>
    stream_move m s (ReadEnd False n) m (s\<lparr>rd_ops := xs @ ys\<rparr>)"
| read_err: "rd_ops s = xs @ Reading b n # ys \<Longrightarrow>
    stream_move m s (ReadEnd True 0) m (s\<lparr>rd_ops := xs @ ys\<rparr>)"
| write_ok: "wr_ops s = xs @ Writing b n n # ys \<Longrightarrow>
    stream_move m s (WriteEnd False n) m (s\<lparr>wr_ops := xs @ ys\<rparr>)"
| write_err: "wr_ops s = xs @ Writing b n k # ys \<Longrightarrow>
    stream_move m s (WriteEnd True k) m (s\<lparr>wr_ops := xs @ ys\<rparr>)"

inductive_cases stream_moveE: "stream_move m s ev m' s'"

lemma stream_move_busy: "stream_move m st ev m' st' \<Longrightarrow> rd_ops st \<noteq> [] \<or> wr_ops st \<noteq> []"
  by (cases rule: stream_move.cases) auto

section \<open>The library\<close>

datatype completion =
    OnRead obj bool size_t
  | OnWrite obj bool size_t
  | OnPosted obj
  | OnAccept obj bool
  | OnConnect obj bool "nat list"
  | OnTimer
  | NoHandler

text \<open>
  The functions of \<open>asio\<close> on the socket of the session at an address, with the handler that
  the programs bind. Endpoints are numbers and a resolver iterator is the list of the
  endpoints from it on; an error code is a flag.
\<close>

record 'a asio =
  asio_no_delay :: "obj \<Rightarrow> 'a \<Rightarrow> bool \<times> 'a"
  asio_read_some :: "obj \<Rightarrow> block \<Rightarrow> size_t \<Rightarrow> 'a \<Rightarrow> 'a"
  asio_write :: "obj \<Rightarrow> block \<Rightarrow> size_t \<Rightarrow> 'a \<Rightarrow> 'a"
  asio_post :: "obj \<Rightarrow> 'a \<Rightarrow> 'a"
  asio_accept :: "obj \<Rightarrow> 'a \<Rightarrow> 'a"
  asio_connect :: "obj \<Rightarrow> nat \<Rightarrow> nat list \<Rightarrow> 'a \<Rightarrow> 'a"
  asio_close :: "obj \<Rightarrow> 'a \<Rightarrow> 'a"
  asio_timer :: "int \<Rightarrow> 'a \<Rightarrow> 'a"
  asio_next :: "memory \<Rightarrow> 'a \<Rightarrow> completion \<times> memory \<times> 'a"

record asio_view =
  av_stream :: "obj \<Rightarrow> tcp_stream"
  av_posts :: "obj list"
  av_accepts :: "obj list"
  av_connects :: "(obj \<times> nat list) list"
  av_timers :: nat

definition add_read :: "obj \<Rightarrow> block \<Rightarrow> size_t \<Rightarrow> asio_view \<Rightarrow> asio_view" where
  "add_read p b n v = v\<lparr>av_stream := (av_stream v)(p := (av_stream v p)
     \<lparr>rd_ops := rd_ops (av_stream v p) @ [Reading b n]\<rparr>)\<rparr>"

definition add_write :: "obj \<Rightarrow> block \<Rightarrow> size_t \<Rightarrow> asio_view \<Rightarrow> asio_view" where
  "add_write p b n v = v\<lparr>av_stream := (av_stream v)(p := (av_stream v p)
     \<lparr>wr_ops := wr_ops (av_stream v p) @ [Writing b n 0]\<rparr>)\<rparr>"

text \<open>A connection is new: nothing has been received or sent on it.\<close>

definition new_stream :: "obj \<Rightarrow> asio_view \<Rightarrow> asio_view" where
  "new_stream p v = v\<lparr>av_stream := (av_stream v)(p := (av_stream v p)\<lparr>bytes_in := [], bytes_out := []\<rparr>)\<rparr>"

fun handler_of :: "obj \<Rightarrow> stream_event \<Rightarrow> completion" where
  "handler_of p Quiet = NoHandler"
| "handler_of p (ReadEnd e n) = OnRead p e n"
| "handler_of p (WriteEnd e n) = OnWrite p e n"

inductive asio_move :: "memory \<Rightarrow> asio_view \<Rightarrow> completion \<Rightarrow> memory \<Rightarrow> asio_view \<Rightarrow> bool" where
  idle: "asio_move m v NoHandler m v"
| stream: "stream_move m (av_stream v p) ev m' s' \<Longrightarrow>
    asio_move m v (handler_of p ev) m' (v\<lparr>av_stream := (av_stream v)(p := s')\<rparr>)"
| posted: "av_posts v = xs @ p # ys \<Longrightarrow> asio_move m v (OnPosted p) m (v\<lparr>av_posts := xs @ ys\<rparr>)"
| accepted: "av_accepts v = xs @ p # ys \<Longrightarrow>
    asio_move m v (OnAccept p False) m (new_stream p (v\<lparr>av_accepts := xs @ ys\<rparr>))"
| accept_failed: "av_accepts v = xs @ p # ys \<Longrightarrow>
    asio_move m v (OnAccept p True) m (v\<lparr>av_accepts := xs @ ys\<rparr>)"
| connected: "av_connects v = xs @ (p, es) # ys \<Longrightarrow>
    asio_move m v (OnConnect p False es) m (new_stream p (v\<lparr>av_connects := xs @ ys\<rparr>))"
| connect_failed: "av_connects v = xs @ (p, es) # ys \<Longrightarrow>
    asio_move m v (OnConnect p True es) m (v\<lparr>av_connects := xs @ ys\<rparr>)"
| timer: "av_timers v = Suc n \<Longrightarrow> asio_move m v OnTimer m (v\<lparr>av_timers := n\<rparr>)"

inductive_cases asio_moveE: "asio_move m v c m' v'"

text \<open>What the manual asks of the program while operations are under way.\<close>

definition buffers_ok :: "memory \<Rightarrow> tcp_stream \<Rightarrow> bool" where
  "buffers_ok m s \<longleftrightarrow>
     (\<forall>b n. Reading b n \<in> set (rd_ops s) \<longrightarrow> (\<exists>xs. m b = Some xs \<and> n \<le> length xs)) \<and>
     (\<forall>b n k. Writing b n k \<in> set (wr_ops s) \<longrightarrow> (\<exists>xs. m b = Some xs \<and> n \<le> length xs)) \<and>
     length (wr_ops s) \<le> 1"

definition asio_documented :: "'a asio \<Rightarrow> ('a \<Rightarrow> asio_view) \<Rightarrow> bool" where
  "asio_documented A view \<longleftrightarrow>
     (\<forall>p a. view (snd (asio_no_delay A p a)) = view a) \<and>
     (\<forall>p b n a. view (asio_read_some A p b n a) = add_read p b n (view a)) \<and>
     (\<forall>p b n a. view (asio_write A p b n a) = add_write p b n (view a)) \<and>
     (\<forall>p a. view (asio_post A p a) = (view a)\<lparr>av_posts := av_posts (view a) @ [p]\<rparr>) \<and>
     (\<forall>p a. view (asio_accept A p a) = (view a)\<lparr>av_accepts := av_accepts (view a) @ [p]\<rparr>) \<and>
     (\<forall>p e es a. view (asio_connect A p e es a) = (view a)\<lparr>av_connects := av_connects (view a) @ [(p, es)]\<rparr>) \<and>
     (\<forall>p a. view (asio_close A p a) = view a) \<and>
     (\<forall>t a. view (asio_timer A t a) = (view a)\<lparr>av_timers := av_timers (view a) + 1\<rparr>) \<and>
     (\<forall>m a. (\<forall>p. buffers_ok m (av_stream (view a) p)) \<longrightarrow>
        (case asio_next A m a of (c, m', a') \<Rightarrow> asio_move m (view a) c m' (view a')))"

lemma asio_documentedD:
  assumes "asio_documented A view"
  shows "view (snd (asio_no_delay A p a)) = view a"
    and "view (asio_read_some A p b n a) = add_read p b n (view a)"
    and "view (asio_write A p b n a) = add_write p b n (view a)"
    and "view (asio_post A p a) = (view a)\<lparr>av_posts := av_posts (view a) @ [p]\<rparr>"
    and "view (asio_accept A p a) = (view a)\<lparr>av_accepts := av_accepts (view a) @ [p]\<rparr>"
    and "view (asio_connect A p e es a) = (view a)\<lparr>av_connects := av_connects (view a) @ [(p, es)]\<rparr>"
    and "view (asio_close A p a) = view a"
    and "view (asio_timer A t a) = (view a)\<lparr>av_timers := av_timers (view a) + 1\<rparr>"
  using assms unfolding asio_documented_def by - (elim conjE, erule allE, blast)+

lemma asio_nextD:
  assumes "asio_documented A view" and "asio_next A m a = (c, m', a')"
    and "\<And>p. buffers_ok m (av_stream (view a) p)"
  shows "asio_move m (view a) c m' (view a')"
proof -
  have "\<forall>m a. (\<forall>p. buffers_ok m (av_stream (view a) p)) \<longrightarrow>
      (case asio_next A m a of (c, m', a') \<Rightarrow> asio_move m (view a) c m' (view a'))"
    using assms(1) unfolding asio_documented_def by - (elim conjE, assumption)
  with assms(2,3) show ?thesis by fastforce
qed

section \<open>The double buffer\<close>

text \<open>
  The members that the two classes \<open>session\<close> share; \<open>unsent_count\<close> is \<open>unsent_count_\<close> in
  \<^verbatim>\<open>server.cpp\<close> and \<open>unwritten_count_\<close> in \<^verbatim>\<open>client.cpp\<close>.
\<close>

record duplex =
  block_size :: size_t
  read_data :: block
  read_data_length :: size_t
  write_data :: block
  unsent_count :: int

text \<open>
  The statements that the handlers of both programs repeat: swap the buffers, write what has
  been read, and read again.
\<close>

definition exchange :: "'a asio \<Rightarrow> obj \<Rightarrow> 'x duplex_scheme \<Rightarrow> 'a \<Rightarrow> 'x duplex_scheme \<times> 'a" where
  "exchange A p s a =
     (let s' = s\<lparr>read_data := write_data s, write_data := read_data s\<rparr>;
          a1 = asio_write A p (write_data s') (read_data_length s') a
      in (s', asio_read_some A p (read_data s') (block_size s') a1))"

text \<open>
  What has been received, behind the bytes \<open>init\<close> with which a client begins, is what has been
  sent, what is being sent, what waits in the read buffer until the write is over, and what
  the read under way has stored already. After a failed write nothing is sent any more.
\<close>

fun being_sent :: "memory \<Rightarrow> wr_op list \<Rightarrow> byte list" where
  "being_sent m (Writing b n k # ops) = take (n - k) (drop k (the (m b)))"
| "being_sent m [] = []"

fun stored :: "memory \<Rightarrow> block \<Rightarrow> rd_op list \<Rightarrow> byte list" where
  "stored m b (ReadOver n # ops) = take n (the (m b))"
| "stored m b ops = []"

definition waiting :: "memory \<Rightarrow> 'x duplex_scheme \<Rightarrow> byte list" where
  "waiting m s = (if unsent_count s = 2 then take (read_data_length s) (the (m (read_data s))) else [])"

definition duplex_shape :: "obj \<Rightarrow> 'x duplex_scheme \<Rightarrow> memory \<Rightarrow> tcp_stream \<Rightarrow> bool" where
  "duplex_shape p s m st \<longleftrightarrow>
     fst (read_data s) = p \<and> fst (write_data s) = p \<and> read_data s \<noteq> write_data s \<and>
     (\<exists>xs. m (read_data s) = Some xs \<and> length xs = block_size s) \<and>
     (\<exists>xs. m (write_data s) = Some xs \<and> length xs = block_size s) \<and>
     read_data_length s \<le> block_size s \<and>
     (rd_ops st = [] \<or> rd_ops st = [Reading (read_data s) (block_size s)] \<or>
        (\<exists>n \<le> block_size s. rd_ops st = [ReadOver n])) \<and>
     (wr_ops st = [] \<or> (\<exists>n k. k \<le> n \<and> n \<le> block_size s \<and> wr_ops st = [Writing (write_data s) n k])) \<and>
     (unsent_count s = 0 \<and> wr_ops st = [] \<or> unsent_count s = 1 \<or> unsent_count s = 2 \<and> rd_ops st = [])"

definition duplex_data :: "byte list \<Rightarrow> 'x duplex_scheme \<Rightarrow> memory \<Rightarrow> tcp_stream \<Rightarrow> bool" where
  "duplex_data init s m st \<longleftrightarrow>
     init @ bytes_in st = bytes_out st @ being_sent m (wr_ops st) @ waiting m s @ stored m (read_data s) (rd_ops st) \<or>
     wr_ops st = [] \<and> unsent_count s \<noteq> 0 \<and> prefix (bytes_out st) (init @ bytes_in st)"

definition duplex_inv :: "byte list \<Rightarrow> obj \<Rightarrow> 'x duplex_scheme \<Rightarrow> memory \<Rightarrow> tcp_stream \<Rightarrow> bool" where
  "duplex_inv init p s m st \<longleftrightarrow> duplex_shape p s m st \<and> duplex_data init s m st"

lemma duplex_inv_prefix: "duplex_inv init p s m st \<Longrightarrow> prefix (bytes_out st) (init @ bytes_in st)"
  by (auto simp: duplex_inv_def duplex_data_def)

lemma duplex_buffers_ok: "duplex_inv init p s m st \<Longrightarrow> buffers_ok m st"
  by (auto simp: duplex_inv_def duplex_shape_def buffers_ok_def)

lemma duplex_inv_scheme:
  "duplex_inv init p (duplex.truncate s) m st = duplex_inv init p s m st"
  by (simp add: duplex_inv_def duplex_shape_def duplex_data_def waiting_def duplex.truncate_def)

text \<open>Data transfer changes the blocks of the session only and keeps the invariant.\<close>

lemma take_drop_continue: "j \<le> n \<Longrightarrow> take j xs @ take (n - j) (drop j xs) = take n xs"
  by (metis le_add_diff_inverse take_add)

lemma duplex_quiet:
  assumes inv: "duplex_inv init p s m st" and move: "stream_move m st Quiet m' st'"
  shows "duplex_inv init p s m' st'" and "\<And>b. fst b \<noteq> p \<Longrightarrow> m' b = m b"
    and "length (rd_ops st') = length (rd_ops st)" and "length (wr_ops st') = length (wr_ops st)"
proof -
  have "duplex_inv init p s m' st' \<and> (\<forall>b. fst b \<noteq> p \<longrightarrow> m' b = m b) \<and>
      length (rd_ops st') = length (rd_ops st) \<and> length (wr_ops st') = length (wr_ops st)"
    using move
  proof cases
    case (recv xs b n ys old bytes)
    with inv have "xs = []" "ys = []" "b = read_data s" "n = block_size s" "unsent_count s \<noteq> 2"
      by (auto simp: duplex_inv_def duplex_shape_def append_eq_Cons_conv)
    note * = this
    then have b: "fst b = p" "write_data s \<noteq> b"
      using inv by (auto simp: duplex_inv_def duplex_shape_def)
    have "being_sent m' (wr_ops st) = being_sent m (wr_ops st)"
      using inv recv b by (auto simp: duplex_inv_def duplex_shape_def)
    then have "duplex_data init s m' st'"
      using inv recv * by (auto simp: duplex_inv_def duplex_data_def waiting_def simp flip: append_assoc)
    moreover have "duplex_shape p s m' st'"
      using inv recv * b by (auto simp: duplex_inv_def duplex_shape_def)
    ultimately show ?thesis
      using recv b by (auto simp: duplex_inv_def)
  next
    case (send xs b n k ys data j)
    with inv have *: "xs = []" "ys = []" "b = write_data s" "n \<le> block_size s" "unsent_count s \<noteq> 0"
      by (auto simp: duplex_inv_def duplex_shape_def append_eq_Cons_conv)
    have "take (n - k) (drop k data) = take j (drop k data) @ take (n - (k + j)) (drop (k + j) data)"
      using take_drop_continue [of j "n - k" "drop k data"] send by (simp add: add.commute)
    with * send inv show ?thesis
      by (auto simp: duplex_inv_def duplex_shape_def duplex_data_def waiting_def)
  qed
  then show "duplex_inv init p s m' st'" "\<And>b. fst b \<noteq> p \<Longrightarrow> m' b = m b"
    "length (rd_ops st') = length (rd_ops st)" "length (wr_ops st') = length (wr_ops st)" by auto
qed

text \<open>The handlers of both programs, as far as the double buffer is concerned.\<close>

definition swapped :: "'x duplex_scheme \<Rightarrow> 'x duplex_scheme" where
  "swapped s = s\<lparr>read_data := write_data s, write_data := read_data s\<rparr>"

definition exchanged :: "'x duplex_scheme \<Rightarrow> tcp_stream \<Rightarrow> tcp_stream" where
  "exchanged s st = st\<lparr>wr_ops := wr_ops st @ [Writing (read_data s) (read_data_length s) 0],
     rd_ops := rd_ops st @ [Reading (write_data s) (block_size s)]\<rparr>"

lemma exchange_view:
  assumes "asio_documented A view"
  shows "fst (exchange A p s a) = swapped s"
    and "view (snd (exchange A p s a)) =
      (view a)\<lparr>av_stream := (av_stream (view a))(p := exchanged s (av_stream (view a) p))\<rparr>"
  using asio_documentedD(2,3) [OF assms]
  by (simp_all add: exchange_def swapped_def exchanged_def Let_def add_read_def add_write_def)

lemma duplex_read_ok:
  assumes inv: "duplex_inv init p s m st" and move: "stream_move m st (ReadEnd False n) m' st'"
  defines "s1 \<equiv> s\<lparr>read_data_length := n, unsent_count := unsent_count s + 1\<rparr>"
  shows "m' = m" and "length (rd_ops st) = Suc (length (rd_ops st'))" and "wr_ops st' = wr_ops st"
    and "unsent_count s1 = 1 \<Longrightarrow> duplex_inv init p (swapped s1) m (exchanged s1 st')"
    and "unsent_count s1 \<noteq> 1 \<Longrightarrow> duplex_inv init p s1 m st'"
proof -
  from move obtain xs ys where st: "m' = m" "rd_ops st = xs @ ReadOver n # ys" "st' = st\<lparr>rd_ops := xs @ ys\<rparr>"
    by cases auto
  with inv have "xs = []" "ys = []" "n \<le> block_size s" "unsent_count s \<noteq> 2"
    by (auto simp: duplex_inv_def duplex_shape_def append_eq_Cons_conv)
  with st have st: "m' = m" "rd_ops st = [ReadOver n]" "st' = st\<lparr>rd_ops := []\<rparr>" "n \<le> block_size s"
    "unsent_count s \<noteq> 2" by auto
  then show "m' = m" "length (rd_ops st) = Suc (length (rd_ops st'))" "wr_ops st' = wr_ops st" by simp_all
  have data: "unsent_count s = 0 \<Longrightarrow> init @ bytes_in st = bytes_out st @ take n (the (m (read_data s)))"
    using inv st by (auto simp: duplex_inv_def duplex_shape_def duplex_data_def waiting_def)
  show "duplex_inv init p (swapped s1) m (exchanged s1 st')" if "unsent_count s1 = 1"
    using inv st data that
    by (auto simp: duplex_inv_def duplex_shape_def duplex_data_def waiting_def s1_def swapped_def exchanged_def)
  show "duplex_inv init p s1 m st'" if "unsent_count s1 \<noteq> 1"
    using inv st that
    by (auto simp: duplex_inv_def duplex_shape_def duplex_data_def waiting_def s1_def)
qed

lemma duplex_read_err:
  assumes inv: "duplex_inv init p s m st" and move: "stream_move m st (ReadEnd True n) m' st'"
  shows "m' = m" and "length (rd_ops st) = Suc (length (rd_ops st'))" and "wr_ops st' = wr_ops st"
    and "duplex_inv init p s m st'"
proof -
  from move obtain b k xs ys where st: "m' = m" "rd_ops st = xs @ Reading b k # ys" "st' = st\<lparr>rd_ops := xs @ ys\<rparr>"
    by cases auto
  with inv have "xs = []" "ys = []"
    by (auto simp: duplex_inv_def duplex_shape_def append_eq_Cons_conv)
  with st inv show "m' = m" "length (rd_ops st) = Suc (length (rd_ops st'))" "wr_ops st' = wr_ops st"
    "duplex_inv init p s m st'"
    by (auto simp: duplex_inv_def duplex_shape_def duplex_data_def waiting_def)
qed

lemma duplex_write_ok:
  assumes inv: "duplex_inv init p s m st" and move: "stream_move m st (WriteEnd False n) m' st'"
  defines "s1 \<equiv> s\<lparr>unsent_count := unsent_count s - 1\<rparr>"
  shows "m' = m" and "length (wr_ops st) = Suc (length (wr_ops st'))" and "rd_ops st' = rd_ops st"
    and "unsent_count s1 = 1 \<Longrightarrow> duplex_inv init p (swapped s1) m (exchanged s1 st')"
    and "unsent_count s1 \<noteq> 1 \<Longrightarrow> duplex_inv init p s1 m st'"
proof -
  from move obtain b xs ys where st: "m' = m" "wr_ops st = xs @ Writing b n n # ys" "st' = st\<lparr>wr_ops := xs @ ys\<rparr>"
    by cases auto
  with inv have "xs = []" "ys = []" "unsent_count s \<noteq> 0"
    by (auto simp: duplex_inv_def duplex_shape_def append_eq_Cons_conv)
  with st have st: "m' = m" "wr_ops st = [Writing b n n]" "st' = st\<lparr>wr_ops := []\<rparr>" "unsent_count s \<noteq> 0" by auto
  then show "m' = m" "length (wr_ops st) = Suc (length (wr_ops st'))" "rd_ops st' = rd_ops st" by simp_all
  have data: "init @ bytes_in st = bytes_out st @ waiting m s @ stored m (read_data s) (rd_ops st)"
    using inv st by (auto simp: duplex_inv_def duplex_data_def)
  show "duplex_inv init p (swapped s1) m (exchanged s1 st')" if "unsent_count s1 = 1"
    using inv st data that
    by (auto simp: duplex_inv_def duplex_shape_def duplex_data_def waiting_def s1_def swapped_def exchanged_def)
  show "duplex_inv init p s1 m st'" if "unsent_count s1 \<noteq> 1"
    using inv st data that
    by (auto simp: duplex_inv_def duplex_shape_def duplex_data_def waiting_def s1_def)
qed

text \<open>A failed write, or one that the handler ignores: nothing is sent afterwards.\<close>

lemma duplex_write_lost:
  assumes inv: "duplex_inv init p s m st" and move: "stream_move m st (WriteEnd e n) m' st'"
  shows "m' = m" and "length (wr_ops st) = Suc (length (wr_ops st'))" and "rd_ops st' = rd_ops st"
    and "duplex_inv init p s m st'"
proof -
  from move obtain b k xs ys where st: "m' = m" "wr_ops st = xs @ Writing b k n # ys" "st' = st\<lparr>wr_ops := xs @ ys\<rparr>"
    by cases auto
  with inv have "xs = []" "ys = []" "unsent_count s \<noteq> 0"
    by (auto simp: duplex_inv_def duplex_shape_def append_eq_Cons_conv)
  with st inv show "m' = m" "length (wr_ops st) = Suc (length (wr_ops st'))" "rd_ops st' = rd_ops st"
    "duplex_inv init p s m st'"
    by (auto simp: duplex_inv_def duplex_shape_def duplex_data_def waiting_def)
qed

lemma duplex_memory:
  assumes "duplex_inv init p s m st" and "\<And>b. fst b = p \<Longrightarrow> m' b = m b"
  shows "duplex_inv init p s m' st"
proof -
  have eq: "m' (read_data s) = m (read_data s)" "m' (write_data s) = m (write_data s)"
    using assms by (auto simp: duplex_inv_def duplex_shape_def)
  moreover have "being_sent m' (wr_ops st) = being_sent m (wr_ops st)"
    "stored m' (read_data s) (rd_ops st) = stored m (read_data s) (rd_ops st)"
    using assms(1) eq by (auto simp: duplex_inv_def duplex_shape_def)
  ultimately show ?thesis
    using assms(1) by (auto simp: duplex_inv_def duplex_shape_def duplex_data_def waiting_def)
qed

section \<open>A concrete library for the instances\<close>

text \<open>
  It follows a script: each entry says which operation goes on, and is skipped when there is
  none. It is one of the libraries the theorems quantify over and shows that their
  hypothesis can hold.
\<close>

datatype script_entry =
    SRecv obj "byte list" | SSend obj | SReadEnd obj | SWriteEnd obj | SPosted | SAccept bool | SConnect bool | STimer

definition idle_stream :: tcp_stream where
  "idle_stream = \<lparr>rd_ops = [], wr_ops = [], bytes_in = [], bytes_out = []\<rparr>"

definition idle_view :: asio_view where
  "idle_view = \<lparr>av_stream = (\<lambda>_. idle_stream), av_posts = [], av_accepts = [], av_connects = [], av_timers = 0\<rparr>"

fun follow :: "script_entry \<Rightarrow> memory \<Rightarrow> asio_view \<Rightarrow> completion \<times> memory \<times> asio_view" where
  "follow (SRecv p bytes) m v =
     (case rd_ops (av_stream v p) of
        Reading b n # ops \<Rightarrow>
          (case m b of
             Some old \<Rightarrow> if length bytes \<le> n
               then (NoHandler, m(b \<mapsto> bytes @ drop (length bytes) old), v\<lparr>av_stream := (av_stream v)(p := (av_stream v p)
                  \<lparr>rd_ops := ReadOver (length bytes) # ops, bytes_in := bytes_in (av_stream v p) @ bytes\<rparr>)\<rparr>)
               else (NoHandler, m, v)
           | None \<Rightarrow> (NoHandler, m, v))
      | _ \<Rightarrow> (NoHandler, m, v))"
| "follow (SSend p) m v =
     (case wr_ops (av_stream v p) of
        Writing b n k # ops \<Rightarrow>
          (case m b of
             Some data \<Rightarrow> if k \<le> n
               then (NoHandler, m, v\<lparr>av_stream := (av_stream v)(p := (av_stream v p)
                  \<lparr>wr_ops := Writing b n n # ops, bytes_out := bytes_out (av_stream v p) @ take (n - k) (drop k data)\<rparr>)\<rparr>)
               else (NoHandler, m, v)
           | None \<Rightarrow> (NoHandler, m, v))
      | [] \<Rightarrow> (NoHandler, m, v))"
| "follow (SReadEnd p) m v =
     (case rd_ops (av_stream v p) of
        ReadOver n # ops \<Rightarrow> (OnRead p False n, m, v\<lparr>av_stream := (av_stream v)(p := (av_stream v p)\<lparr>rd_ops := ops\<rparr>)\<rparr>)
      | Reading b n # ops \<Rightarrow> (OnRead p True 0, m, v\<lparr>av_stream := (av_stream v)(p := (av_stream v p)\<lparr>rd_ops := ops\<rparr>)\<rparr>)
      | [] \<Rightarrow> (NoHandler, m, v))"
| "follow (SWriteEnd p) m v =
     (case wr_ops (av_stream v p) of
        Writing b n k # ops \<Rightarrow>
          (OnWrite p (k \<noteq> n) k, m, v\<lparr>av_stream := (av_stream v)(p := (av_stream v p)\<lparr>wr_ops := ops\<rparr>)\<rparr>)
      | [] \<Rightarrow> (NoHandler, m, v))"
| "follow SPosted m v =
     (case av_posts v of p # ps \<Rightarrow> (OnPosted p, m, v\<lparr>av_posts := ps\<rparr>) | [] \<Rightarrow> (NoHandler, m, v))"
| "follow (SAccept err) m v =
     (case av_accepts v of
        p # ps \<Rightarrow> (OnAccept p err, m, if err then v\<lparr>av_accepts := ps\<rparr> else new_stream p (v\<lparr>av_accepts := ps\<rparr>))
      | [] \<Rightarrow> (NoHandler, m, v))"
| "follow (SConnect err) m v =
     (case av_connects v of
        (p, es) # ps \<Rightarrow> (OnConnect p err es, m, if err then v\<lparr>av_connects := ps\<rparr> else new_stream p (v\<lparr>av_connects := ps\<rparr>))
      | [] \<Rightarrow> (NoHandler, m, v))"
| "follow STimer m v =
     (case av_timers v of Suc n \<Rightarrow> (OnTimer, m, v\<lparr>av_timers := n\<rparr>) | 0 \<Rightarrow> (NoHandler, m, v))"

definition script_asio :: "(asio_view \<times> script_entry list) asio" where
  "script_asio =
     \<lparr>asio_no_delay = (\<lambda>p a. (False, a)),
      asio_read_some = (\<lambda>p b n (v, sc). (add_read p b n v, sc)),
      asio_write = (\<lambda>p b n (v, sc). (add_write p b n v, sc)),
      asio_post = (\<lambda>p (v, sc). (v\<lparr>av_posts := av_posts v @ [p]\<rparr>, sc)),
      asio_accept = (\<lambda>p (v, sc). (v\<lparr>av_accepts := av_accepts v @ [p]\<rparr>, sc)),
      asio_connect = (\<lambda>p e es (v, sc). (v\<lparr>av_connects := av_connects v @ [(p, es)]\<rparr>, sc)),
      asio_close = (\<lambda>p a. a),
      asio_timer = (\<lambda>t (v, sc). (v\<lparr>av_timers := av_timers v + 1\<rparr>, sc)),
      asio_next = (\<lambda>m (v, sc). case sc of
          [] \<Rightarrow> (NoHandler, m, v, [])
        | e # es \<Rightarrow> (case follow e m v of (c, m', v') \<Rightarrow> (c, m', v', es)))\<rparr>"

lemma follow_moves: "case follow e m v of (c, m', v') \<Rightarrow> asio_move m v c m' v'"
proof (cases e)
  case (SRecv p bytes)
  show ?thesis
    using stream_move.recv [of "av_stream v p" "[]" _ _ _ m _ bytes]
    by (auto simp: SRecv intro: asio_move.idle asio_move.stream [where ev = Quiet, simplified]
        split: list.splits rd_op.splits option.splits)
next
  case (SSend p)
  have "stream_move m (av_stream v p) Quiet m ((av_stream v p)\<lparr>wr_ops := Writing b n n # ops,
      bytes_out := bytes_out (av_stream v p) @ take (n - k) (drop k data)\<rparr>)"
    if "wr_ops (av_stream v p) = Writing b n k # ops" "m b = Some data" "k \<le> n" for b n k ops data
    using stream_move.send [of "av_stream v p" "[]" b n k ops m data "n - k"] that by simp
  then show ?thesis
    by (auto simp: SSend intro: asio_move.idle asio_move.stream [where ev = Quiet, simplified]
        split: list.splits wr_op.splits option.splits)
next
  case (SReadEnd p)
  show ?thesis
    by (auto simp: SReadEnd intro: asio_move.idle asio_move.stream [where ev = "ReadEnd _ _", simplified]
        stream_move.read_ok [where xs = "[]", simplified] stream_move.read_err [where xs = "[]", simplified]
        split: list.splits rd_op.splits)
next
  case (SWriteEnd p)
  have "stream_move m (av_stream v p) (WriteEnd (k \<noteq> n) k) m ((av_stream v p)\<lparr>wr_ops := ops\<rparr>)"
    if "wr_ops (av_stream v p) = Writing b n k # ops" for b n k ops
    using that stream_move.write_ok [where xs = "[]"] stream_move.write_err [where xs = "[]"]
    by (cases "k = n") auto
  then show ?thesis
    by (auto simp: SWriteEnd intro: asio_move.idle asio_move.stream [where ev = "WriteEnd _ _", simplified]
        split: list.splits wr_op.splits)
qed (auto intro: asio_move.idle asio_move.posted [where xs = "[]", simplified] asio_move.timer
    asio_move.accepted [where xs = "[]", simplified] asio_move.accept_failed [where xs = "[]", simplified]
    asio_move.connected [where xs = "[]", simplified] asio_move.connect_failed [where xs = "[]", simplified]
    split: list.splits nat.splits)

lemma script_documented: "asio_documented script_asio fst"
proof -
  have "case asio_next script_asio m a of (c, m', a') \<Rightarrow> asio_move m (fst a) c m' (fst a')" for m a
  proof (cases a)
    case (Pair v sc)
    with follow_moves [where m = m and v = v] show ?thesis
      by (cases sc) (fastforce simp: script_asio_def intro: asio_move.idle split: prod.splits)+
  qed
  then show ?thesis
    unfolding asio_documented_def by (auto simp: script_asio_def split_beta)
qed

end
