(* ===== verification/Pingpong_Client.thy ===== *)
theory Pingpong_Client
  imports Asio_Stream
begin

text \<open>
  \<^verbatim>\<open>example/asio/pingpong/client.cpp\<close>: the classes \<open>stats\<close>, \<open>session\<close> and \<open>client\<close> and the handlers
  that \<open>io_service::run\<close> calls. A session connects to the first endpoint that accepts it, sends a
  block and then sends back what it receives. Properties: the order of the bytes, and the
  totals that the client prints at its end (\<open>Pingpong_Main\<close>).
\<close>

section \<open>State\<close>

record stats =
  total_bytes_written :: size_t
  total_bytes_read :: size_t

record cli_session = duplex +
  bytes_written :: size_t
  bytes_read :: size_t

record 'a pp_client =
  cl_lib :: 'a
  cl_bufs :: memory
  cl_objs :: "obj \<rightharpoonup> cli_session"
  cl_next :: obj
  cl_sessions :: "obj list"
  cl_stats :: stats
  cl_printed :: "size_t list"

definition get_cli :: "obj \<Rightarrow> 'a pp_client \<Rightarrow> cli_session res" where
  "get_cli p w = (case cl_objs w p of Some s \<Rightarrow> Inr s | None \<Rightarrow> Inl Dangling)"

definition put_cli :: "obj \<Rightarrow> cli_session \<Rightarrow> 'a pp_client \<Rightarrow> 'a pp_client" where
  "put_cli p s w = w\<lparr>cl_objs := (cl_objs w)(p \<mapsto> s)\<rparr>"

section \<open>class stats\<close>

definition stats_new :: stats where
  "stats_new = \<lparr>total_bytes_written = 0, total_bytes_read = 0\<rparr>"

definition stats_add :: "size_t \<Rightarrow> size_t \<Rightarrow> stats \<Rightarrow> stats" where
  "stats_add written got t =
     t\<lparr>total_bytes_written := sz_add (total_bytes_written t) written, total_bytes_read := sz_add (total_bytes_read t) got\<rparr>"

text \<open>The two numbers that \<open>print\<close> writes.\<close>

definition stats_print :: "stats \<Rightarrow> size_t list" where
  "stats_print t = [total_bytes_written t, total_bytes_read t]"

section \<open>class session\<close>

text \<open>The block that a session begins with: \<open>write_data_[i] = i % 128\<close>.\<close>

definition first_block :: "size_t \<Rightarrow> byte list" where
  "first_block n = map (\<lambda>i. of_nat (i mod 128)) [0..<n]"

definition cli_session_new :: "(nat \<Rightarrow> byte) \<Rightarrow> size_t \<Rightarrow> 'a pp_client \<Rightarrow> obj \<times> 'a pp_client" where
  "cli_session_new junk n w =
     (let p = cl_next w
      in (p, w\<lparr>cl_next := p + 1,
              cl_bufs := (cl_bufs w)((p, False) \<mapsto> map junk [0..<n], (p, True) \<mapsto> first_block n),
              cl_objs := (cl_objs w)(p \<mapsto> \<lparr>block_size = n, read_data = (p, False), read_data_length = 0,
                write_data = (p, True), unsent_count = 0, bytes_written = 0, bytes_read = 0\<rparr>)\<rparr>))"

definition cli_session_delete :: "obj \<Rightarrow> 'a pp_client \<Rightarrow> 'a pp_client res" where
  "cli_session_delete p w =
     rbind (get_cli p w) (\<lambda>s.
     Inr (w\<lparr>cl_stats := stats_add (bytes_written s) (bytes_read s) (cl_stats w),
            cl_bufs := (cl_bufs w)(read_data s := None, write_data s := None),
            cl_objs := (cl_objs w)(p := None)\<rparr>))"

text \<open>\<open>*endpoint_iterator\<close> has no value when the iterator is at its end.\<close>

definition cli_start :: "'a asio \<Rightarrow> obj \<Rightarrow> nat list \<Rightarrow> 'a pp_client \<Rightarrow> 'a pp_client res" where
  "cli_start A p endpoints w =
     (case endpoints of
        [] \<Rightarrow> Inl OutOfRange
      | e # es \<Rightarrow> Inr (w\<lparr>cl_lib := asio_connect A p e es (cl_lib w)\<rparr>))"

definition cli_stop :: "'a asio \<Rightarrow> obj \<Rightarrow> 'a pp_client \<Rightarrow> 'a pp_client" where
  "cli_stop A p w = w\<lparr>cl_lib := asio_post A p (cl_lib w)\<rparr>"

definition close_socket :: "'a asio \<Rightarrow> obj \<Rightarrow> 'a pp_client \<Rightarrow> 'a pp_client res" where
  "close_socket A p w = rbind (get_cli p w) (\<lambda>s. Inr (w\<lparr>cl_lib := asio_close A p (cl_lib w)\<rparr>))"

definition handle_connect :: "'a asio \<Rightarrow> obj \<Rightarrow> bool \<Rightarrow> nat list \<Rightarrow> 'a pp_client \<Rightarrow> 'a pp_client res" where
  "handle_connect A p err endpoints w =
     rbind (get_cli p w) (\<lambda>s.
     if \<not> err then
       let (set_option_err, a) = asio_no_delay A p (cl_lib w)
       in if \<not> set_option_err
          then Inr (put_cli p (s\<lparr>unsent_count := unsent_count s + 1\<rparr>)
                 (w\<lparr>cl_lib := asio_read_some A p (read_data s) (block_size s)
                      (asio_write A p (write_data s) (block_size s) a)\<rparr>))
          else Inr (w\<lparr>cl_lib := a\<rparr>)
     else
       (case endpoints of
          [] \<Rightarrow> Inr w
        | e # es \<Rightarrow> Inr (w\<lparr>cl_lib := asio_connect A p e es (asio_close A p (cl_lib w))\<rparr>)))"

definition cli_handle_read :: "'a asio \<Rightarrow> obj \<Rightarrow> bool \<Rightarrow> size_t \<Rightarrow> 'a pp_client \<Rightarrow> 'a pp_client res" where
  "cli_handle_read A p err len w =
     rbind (get_cli p w) (\<lambda>s.
     if \<not> err then
       let s1 = s\<lparr>bytes_read := sz_add (bytes_read s) len, read_data_length := len, unsent_count := unsent_count s + 1\<rparr>;
           (s2, a) = (if unsent_count s1 = 1 then exchange A p s1 (cl_lib w) else (s1, cl_lib w))
       in Inr (put_cli p s2 (w\<lparr>cl_lib := a\<rparr>))
     else Inr w)"

definition cli_handle_write :: "'a asio \<Rightarrow> obj \<Rightarrow> bool \<Rightarrow> size_t \<Rightarrow> 'a pp_client \<Rightarrow> 'a pp_client res" where
  "cli_handle_write A p err len w =
     rbind (get_cli p w) (\<lambda>s.
     if \<not> err \<and> len > 0 then
       let s1 = s\<lparr>bytes_written := sz_add (bytes_written s) len, unsent_count := unsent_count s - 1\<rparr>;
           (s2, a) = (if unsent_count s1 = 1 then exchange A p s1 (cl_lib w) else (s1, cl_lib w))
       in Inr (put_cli p s2 (w\<lparr>cl_lib := a\<rparr>))
     else Inr w)"

section \<open>class client\<close>

text \<open>The loop of the constructor: the remaining number of sessions to make.\<close>

fun make_sessions :: "nat \<Rightarrow> 'a asio \<Rightarrow> (nat \<Rightarrow> byte) \<Rightarrow> nat list \<Rightarrow> size_t \<Rightarrow> 'a pp_client \<Rightarrow> 'a pp_client res" where
  "make_sessions 0 A junk endpoints n w = Inr w"
| "make_sessions (Suc k) A junk endpoints n w =
     (let (p, w1) = cli_session_new junk n w
      in rbind (cli_start A p endpoints w1) (\<lambda>w2.
         make_sessions k A junk endpoints n (w2\<lparr>cl_sessions := cl_sessions w2 @ [p]\<rparr>)))"

definition client_new ::
  "'a asio \<Rightarrow> (nat \<Rightarrow> byte) \<Rightarrow> nat list \<Rightarrow> size_t \<Rightarrow> nat \<Rightarrow> int \<Rightarrow> 'a \<Rightarrow> 'a pp_client res" where
  "client_new A junk endpoints n session_count timeout a =
     make_sessions session_count A junk endpoints n
       \<lparr>cl_lib = asio_timer A timeout a, cl_bufs = Map.empty, cl_objs = Map.empty, cl_next = 0, cl_sessions = [],
        cl_stats = stats_new, cl_printed = []\<rparr>"

definition handle_timeout :: "'a asio \<Rightarrow> 'a pp_client \<Rightarrow> 'a pp_client" where
  "handle_timeout A w = fold (cli_stop A) (cl_sessions w) w"

text \<open>The loop of the destructor: delete the first session and take it off the list.\<close>

fun delete_sessions :: "obj list \<Rightarrow> 'a pp_client \<Rightarrow> 'a pp_client res" where
  "delete_sessions [] w = Inr (w\<lparr>cl_sessions := []\<rparr>)"
| "delete_sessions (p # ps) w = rbind (cli_session_delete p w) (delete_sessions ps)"

definition client_dtor :: "'a pp_client \<Rightarrow> 'a pp_client res" where
  "client_dtor w =
     rbind (delete_sessions (cl_sessions w) w) (\<lambda>w1. Inr (w1\<lparr>cl_printed := cl_printed w1 @ stats_print (cl_stats w1)\<rparr>))"

fun client_handler :: "'a asio \<Rightarrow> completion \<Rightarrow> 'a pp_client \<Rightarrow> 'a pp_client res" where
  "client_handler A (OnRead p err n) w = cli_handle_read A p err n w"
| "client_handler A (OnWrite p err n) w = cli_handle_write A p err n w"
| "client_handler A (OnPosted p) w = close_socket A p w"
| "client_handler A (OnConnect p err es) w = handle_connect A p err es w"
| "client_handler A OnTimer w = Inr (handle_timeout A w)"
| "client_handler A NoHandler w = Inr w"
| "client_handler A (OnAccept p err) w = Inl BadFunctionCall"

definition client_step :: "'a asio \<Rightarrow> 'a pp_client \<Rightarrow> 'a pp_client res" where
  "client_step A w =
     (let (c, m, a) = asio_next A (cl_bufs w) (cl_lib w)
      in client_handler A c (w\<lparr>cl_lib := a, cl_bufs := m\<rparr>))"

fun client_events :: "nat \<Rightarrow> 'a asio \<Rightarrow> 'a pp_client \<Rightarrow> 'a pp_client res" where
  "client_events 0 A w = Inr w"
| "client_events (Suc n) A w = rbind (client_step A w) (client_events n A)"

section \<open>Invariant\<close>

fun read_pending :: "rd_op list \<Rightarrow> nat" where
  "read_pending (ReadOver n # ops) = n"
| "read_pending ops = 0"

text \<open>\<open>bytes_read_\<close> counts the bytes received that have been handed to the session.\<close>

definition counted :: "cli_session \<Rightarrow> tcp_stream \<Rightarrow> bool" where
  "counted s st \<longleftrightarrow> (\<exists>h. h + read_pending (rd_ops st) = length (bytes_in st) \<and> bytes_read s = h mod size_mod)"

definition untouched :: "tcp_stream \<Rightarrow> bool" where
  "untouched st \<longleftrightarrow> rd_ops st = [] \<and> wr_ops st = [] \<and> bytes_in st = [] \<and> bytes_out st = []"

text \<open>
  A session that has not been connected, with at most one attempt under way, or one that has
  and is in the state of the double buffer that begins with the first block.
\<close>

definition not_started :: "size_t \<Rightarrow> obj \<Rightarrow> cli_session \<Rightarrow> memory \<Rightarrow> tcp_stream \<Rightarrow> bool" where
  "not_started n p s m st \<longleftrightarrow> untouched st \<and> unsent_count s = 0 \<and> duplex_shape p s m st \<and>
     m (write_data s) = Some (first_block n)"

fun cli_inv :: "size_t \<Rightarrow> obj \<Rightarrow> cli_session option \<Rightarrow> memory \<Rightarrow> tcp_stream \<Rightarrow> nat \<Rightarrow> bool" where
  "cli_inv n p None m st c \<longleftrightarrow> untouched st \<and> c = 0"
| "cli_inv n p (Some s) m st c \<longleftrightarrow> block_size s = n \<and> counted s st \<and>
     (not_started n p s m st \<and> c \<le> 1 \<or> c = 0 \<and> duplex_inv (first_block n) p s m st)"

definition pc_inv :: "('a \<Rightarrow> asio_view) \<Rightarrow> size_t \<Rightarrow> 'a pp_client \<Rightarrow> bool" where
  "pc_inv view n w \<longleftrightarrow>
     (\<forall>p. cli_inv n p (cl_objs w p) (cl_bufs w) (av_stream (view (cl_lib w)) p)
        (count_list (map fst (av_connects (view (cl_lib w)))) p)) \<and>
     (\<forall>p \<in> set (av_posts (view (cl_lib w))) \<union> set (cl_sessions w). cl_objs w p \<noteq> None) \<and>
     (\<forall>p \<ge> cl_next w. cl_objs w p = None) \<and> av_accepts (view (cl_lib w)) = []"

lemma pc_invD: "pc_inv view n w \<Longrightarrow> cli_inv n p (cl_objs w p) (cl_bufs w) (av_stream (view (cl_lib w)) p)
    (count_list (map fst (av_connects (view (cl_lib w)))) p)"
  by (simp add: pc_inv_def)

lemma pc_inv_rest:
  assumes "pc_inv view n w"
  shows "\<forall>p \<in> set (av_posts (view (cl_lib w))) \<union> set (cl_sessions w). cl_objs w p \<noteq> None"
    and "\<forall>p \<ge> cl_next w. cl_objs w p = None" and "av_accepts (view (cl_lib w)) = []"
  using assms by (simp_all add: pc_inv_def)

lemma not_started_memory:
  assumes "not_started n p s m st" and "\<And>b. fst b = p \<Longrightarrow> m' b = m b"
  shows "not_started n p s m' st"
proof -
  have "m' (read_data s) = m (read_data s)" "m' (write_data s) = m (write_data s)"
    using assms by (auto simp: not_started_def duplex_shape_def)
  with assms(1) show ?thesis
    by (auto simp: not_started_def duplex_shape_def)
qed

lemma cli_inv_memory:
  "cli_inv n p so m st c \<Longrightarrow> (\<And>b. fst b = p \<Longrightarrow> m' b = m b) \<Longrightarrow> cli_inv n p so m' st c"
  by (cases so) (auto intro: duplex_memory not_started_memory)

lemma untouched_buffers_ok: "untouched st \<Longrightarrow> buffers_ok m st"
  by (simp add: untouched_def buffers_ok_def)

lemma cli_inv_buffers_ok: "cli_inv n p so m st c \<Longrightarrow> buffers_ok m st"
  by (cases so) (auto intro: duplex_buffers_ok untouched_buffers_ok simp: not_started_def)

lemma pc_inv_frame:
  assumes inv: "pc_inv view n w"
    and same: "\<And>q. q \<noteq> p \<Longrightarrow> cl_objs w' q = cl_objs w q" "\<And>b. fst b \<noteq> p \<Longrightarrow> cl_bufs w' b = cl_bufs w b"
      "\<And>q. q \<noteq> p \<Longrightarrow> av_stream (view (cl_lib w')) q = av_stream (view (cl_lib w)) q"
      "\<And>q. q \<noteq> p \<Longrightarrow> count_list (map fst (av_connects (view (cl_lib w')))) q =
         count_list (map fst (av_connects (view (cl_lib w)))) q"
    and rest: "\<forall>q \<in> set (av_posts (view (cl_lib w'))) \<union> set (cl_sessions w'). cl_objs w' q \<noteq> None"
      "\<forall>q \<ge> cl_next w'. cl_objs w' q = None" "av_accepts (view (cl_lib w')) = []"
    and p: "cli_inv n p (cl_objs w' p) (cl_bufs w') (av_stream (view (cl_lib w')) p)
        (count_list (map fst (av_connects (view (cl_lib w')))) p)"
  shows "pc_inv view n w'"
proof -
  have "cli_inv n q (cl_objs w' q) (cl_bufs w') (av_stream (view (cl_lib w')) q)
        (count_list (map fst (av_connects (view (cl_lib w')))) q)" for q
  proof (cases "q = p")
    case False
    have "cli_inv n q (cl_objs w q) (cl_bufs w') (av_stream (view (cl_lib w)) q)
        (count_list (map fst (av_connects (view (cl_lib w)))) q)"
      using pc_invD [OF inv, of q] by (rule cli_inv_memory) (use False same(2) in auto)
    with False same show ?thesis by simp
  qed (use p in simp)
  with rest show ?thesis by (simp add: pc_inv_def)
qed

lemma get_cli_Some [simp]: "cl_objs w p = Some s \<Longrightarrow> get_cli p w = Inr s"
  by (simp add: get_cli_def)

lemma put_cli_simps [simp]:
  "cl_objs (put_cli p s w) = (cl_objs w)(p \<mapsto> s)" "cl_bufs (put_cli p s w) = cl_bufs w"
  "cl_lib (put_cli p s w) = cl_lib w" "cl_next (put_cli p s w) = cl_next w" "cl_sessions (put_cli p s w) = cl_sessions w"
  by (simp_all add: put_cli_def)

lemma busy_cli:
  assumes inv: "pc_inv view n w" and move: "stream_move (cl_bufs w) (av_stream (view (cl_lib w)) p) ev m st"
  obtains s where "cl_objs w p = Some s" "block_size s = n" "counted s (av_stream (view (cl_lib w)) p)"
    "duplex_inv (first_block n) p s (cl_bufs w) (av_stream (view (cl_lib w)) p)"
    "count_list (map fst (av_connects (view (cl_lib w)))) p = 0"
  using pc_invD [OF inv, of p] stream_move_busy [OF move]
  by (cases "cl_objs w p") (auto simp: not_started_def untouched_def)

text \<open>An event of one session, after which the session is \<open>s'\<close> and its connection \<open>st'\<close>.\<close>

lemma pc_inv_settle:
  assumes inv: "pc_inv view n w" and s: "cl_objs w p = Some s" "count_list (map fst (av_connects (view (cl_lib w)))) p = 0"
    and a: "view a = (view (cl_lib w))\<lparr>av_stream := (av_stream (view (cl_lib w)))(p := st')\<rparr>"
    and m: "\<And>b. fst b \<noteq> p \<Longrightarrow> m b = cl_bufs w b"
    and s': "block_size s' = n" "counted s' st'" "duplex_inv (first_block n) p s' m st'"
  shows "pc_inv view n (put_cli p s' (w\<lparr>cl_lib := a, cl_bufs := m\<rparr>))"
  by (rule pc_inv_frame [OF inv, of p]) (use a m s s' pc_inv_rest [OF inv] in auto)

lemma duplex_counts [simp]:
  "duplex_inv init p (bytes_read_update f s) m st = duplex_inv init p s m st"
  "duplex_inv init p (bytes_written_update f s) m st = duplex_inv init p s m st"
  by (simp_all add: duplex_inv_def duplex_shape_def duplex_data_def waiting_def)

lemma cli_step_quiet:
  assumes inv: "pc_inv view n w" and move: "stream_move (cl_bufs w) (av_stream (view (cl_lib w)) p) Quiet m st"
    and a: "view a = (view (cl_lib w))\<lparr>av_stream := (av_stream (view (cl_lib w)))(p := st)\<rparr>"
  shows "pc_inv view n (w\<lparr>cl_lib := a, cl_bufs := m\<rparr>)"
proof -
  obtain s where s: "cl_objs w p = Some s" "block_size s = n" "counted s (av_stream (view (cl_lib w)) p)"
    "duplex_inv (first_block n) p s (cl_bufs w) (av_stream (view (cl_lib w)) p)"
    "count_list (map fst (av_connects (view (cl_lib w)))) p = 0" by (rule busy_cli [OF inv move])
  note q = duplex_quiet [OF s(4) move]
  have "counted s st"
    using move s(3,4)
    by cases (auto simp: counted_def duplex_inv_def duplex_shape_def append_eq_Cons_conv)
  from pc_inv_settle [OF inv s(1,5) a q(2) s(2) this q(1)] show ?thesis
    using s(1) by (simp add: put_cli_def fun_upd_idem)
qed

lemma counted_exchanged: "rd_ops st = [] \<Longrightarrow> counted (swapped s) (exchanged s st) = counted s st"
  by (simp add: counted_def swapped_def exchanged_def)

text \<open>A handler that may exchange the buffers.\<close>

lemma pc_inv_exchange:
  assumes doc: "asio_documented A view" and inv: "pc_inv view n w"
    and s: "cl_objs w p = Some s" "count_list (map fst (av_connects (view (cl_lib w)))) p = 0"
    and a: "view a = (view (cl_lib w))\<lparr>av_stream := (av_stream (view (cl_lib w)))(p := st)\<rparr>"
    and s': "block_size s' = n" "counted s' st"
    and go: "unsent_count s' = 1 \<Longrightarrow> duplex_inv (first_block n) p (swapped s') (cl_bufs w) (exchanged s' st)"
    and stay: "unsent_count s' \<noteq> 1 \<Longrightarrow> duplex_inv (first_block n) p s' (cl_bufs w) st"
    and x: "(if unsent_count s' = 1 then exchange A p s' a else (s', a)) = (s2, a2)"
  shows "pc_inv view n (put_cli p s2 (w\<lparr>cl_lib := a2, cl_bufs := cl_bufs w\<rparr>))"
proof (cases "unsent_count s' = 1")
  case True
  from exchange_view [OF doc, of p s' a] x True
  have x: "s2 = swapped s'" "view a2 = (view (cl_lib w))\<lparr>av_stream := (av_stream (view (cl_lib w)))(p := exchanged s' st)\<rparr>"
    using a by auto
  have "rd_ops st = []"
    using go [OF True] by (auto simp: duplex_inv_def duplex_shape_def exchanged_def)
  then have "counted s2 (exchanged s' st)" "block_size s2 = n"
    using s' x(1) by (simp_all add: counted_exchanged) (simp add: swapped_def)
  with go [OF True] x(1) show ?thesis
    by (intro pc_inv_settle [OF inv s x(2)]) simp_all
next
  case False
  with pc_inv_settle [OF inv s a _ s', of "cl_bufs w"] stay x show ?thesis by auto
qed

lemma cli_step_read:
  assumes doc: "asio_documented A view" and inv: "pc_inv view n w"
    and move: "stream_move (cl_bufs w) (av_stream (view (cl_lib w)) p) (ReadEnd err len) m st"
    and a: "view a = (view (cl_lib w))\<lparr>av_stream := (av_stream (view (cl_lib w)))(p := st)\<rparr>"
  shows "\<exists>w'. cli_handle_read A p err len (w\<lparr>cl_lib := a, cl_bufs := m\<rparr>) = Inr w' \<and> pc_inv view n w'"
proof -
  obtain s where s: "cl_objs w p = Some s" "block_size s = n" "counted s (av_stream (view (cl_lib w)) p)"
    "duplex_inv (first_block n) p s (cl_bufs w) (av_stream (view (cl_lib w)) p)"
    "count_list (map fst (av_connects (view (cl_lib w)))) p = 0" by (rule busy_cli [OF inv move])
  show ?thesis
  proof (cases err)
    case True
    with move have mv: "stream_move (cl_bufs w) (av_stream (view (cl_lib w)) p) (ReadEnd True len) m st" by simp
    note e = duplex_read_err [OF s(4) mv]
    have "counted s st"
      using mv s(3,4) by cases (auto simp: counted_def duplex_inv_def duplex_shape_def append_eq_Cons_conv)
    from pc_inv_settle [OF inv s(1,5) a _ s(2) this, of m] e True s(1) show ?thesis
      by (simp add: cli_handle_read_def put_cli_def fun_upd_idem)
  next
    case False
    with move have mv: "stream_move (cl_bufs w) (av_stream (view (cl_lib w)) p) (ReadEnd False len) m st" by simp
    let ?s0 = "s\<lparr>bytes_read := sz_add (bytes_read s) len\<rparr>"
    let ?s1 = "?s0\<lparr>read_data_length := len, unsent_count := unsent_count s + 1\<rparr>"
    have "duplex_inv (first_block n) p ?s0 (cl_bufs w) (av_stream (view (cl_lib w)) p)"
      using s(4) by simp
    note k = duplex_read_ok [OF this mv]
    have c: "counted ?s1 st"
      using mv s(3,4)
      by cases (auto simp: counted_def duplex_inv_def duplex_shape_def append_eq_Cons_conv sz_add_def mod_simps)
    obtain s2 a2 where x: "(if unsent_count ?s1 = 1 then exchange A p ?s1 a else (?s1, a)) = (s2, a2)"
      by (metis surj_pair)
    have "pc_inv view n (put_cli p s2 (w\<lparr>cl_lib := a2, cl_bufs := cl_bufs w\<rparr>))"
      by (rule pc_inv_exchange [OF doc inv s(1,5) a _ c _ _ x]) (use k s(2) in auto)
    with x False s(1) k(1) show ?thesis
      by (simp add: cli_handle_read_def Let_def put_cli_def split: if_splits)
  qed
qed

lemma cli_step_write:
  assumes doc: "asio_documented A view" and inv: "pc_inv view n w"
    and move: "stream_move (cl_bufs w) (av_stream (view (cl_lib w)) p) (WriteEnd err len) m st"
    and a: "view a = (view (cl_lib w))\<lparr>av_stream := (av_stream (view (cl_lib w)))(p := st)\<rparr>"
  shows "\<exists>w'. cli_handle_write A p err len (w\<lparr>cl_lib := a, cl_bufs := m\<rparr>) = Inr w' \<and> pc_inv view n w'"
proof -
  obtain s where s: "cl_objs w p = Some s" "block_size s = n" "counted s (av_stream (view (cl_lib w)) p)"
    "duplex_inv (first_block n) p s (cl_bufs w) (av_stream (view (cl_lib w)) p)"
    "count_list (map fst (av_connects (view (cl_lib w)))) p = 0" by (rule busy_cli [OF inv move])
  note e = duplex_write_lost [OF s(4) move]
  have "bytes_in st = bytes_in (av_stream (view (cl_lib w)) p)"
    using move by cases auto
  note same = e(3) this
  show ?thesis
  proof (cases "err \<or> len = 0")
    case True
    have "counted s st" using s(3) same by (simp add: counted_def)
    from pc_inv_settle [OF inv s(1,5) a _ s(2) this, of m] e True s(1) show ?thesis
      by (auto simp: cli_handle_write_def put_cli_def fun_upd_idem)
  next
    case False
    with move have mv: "stream_move (cl_bufs w) (av_stream (view (cl_lib w)) p) (WriteEnd False len) m st" by simp
    let ?s0 = "s\<lparr>bytes_written := sz_add (bytes_written s) len\<rparr>"
    let ?s1 = "?s0\<lparr>unsent_count := unsent_count s - 1\<rparr>"
    have "duplex_inv (first_block n) p ?s0 (cl_bufs w) (av_stream (view (cl_lib w)) p)"
      using s(4) by simp
    note k = duplex_write_ok [OF this mv]
    have c: "counted ?s1 st" using s(3) same by (simp add: counted_def)
    obtain s2 a2 where x: "(if unsent_count ?s1 = 1 then exchange A p ?s1 a else (?s1, a)) = (s2, a2)"
      by (metis surj_pair)
    have "pc_inv view n (put_cli p s2 (w\<lparr>cl_lib := a2, cl_bufs := cl_bufs w\<rparr>))"
      by (rule pc_inv_exchange [OF doc inv s(1,5) a _ c _ _ x]) (use k s(2) in auto)
    with x False s(1) k(1) show ?thesis
      by (simp add: cli_handle_write_def Let_def put_cli_def split: if_splits)
  qed
qed

text \<open>A connection attempt is over: the session has not been started, and has no other attempt under way.\<close>

lemma connecting:
  assumes inv: "pc_inv view n w" and c: "av_connects (view (cl_lib w)) = xs @ (p, es) # ys"
  obtains s where "cl_objs w p = Some s" "block_size s = n" "counted s (av_stream (view (cl_lib w)) p)"
    "not_started n p s (cl_bufs w) (av_stream (view (cl_lib w)) p)" "count_list (map fst (xs @ ys)) p = 0"
  using pc_invD [OF inv, of p] c by (cases "cl_objs w p") (auto simp: count_list_append)

lemma cli_step_connected:
  assumes doc: "asio_documented A view" and inv: "pc_inv view n w" and c: "av_connects (view (cl_lib w)) = xs @ (p, es) # ys"
    and a: "view a = new_stream p ((view (cl_lib w))\<lparr>av_connects := xs @ ys\<rparr>)"
  shows "\<exists>w'. handle_connect A p False es (w\<lparr>cl_lib := a\<rparr>) = Inr w' \<and> pc_inv view n w'"
proof -
  obtain s where s: "cl_objs w p = Some s" "block_size s = n" "counted s (av_stream (view (cl_lib w)) p)"
    "not_started n p s (cl_bufs w) (av_stream (view (cl_lib w)) p)" "count_list (map fst (xs @ ys)) p = 0"
    by (rule connecting [OF inv c])
  obtain err a1 where nd: "asio_no_delay A p a = (err, a1)" by force
  have a1: "view a1 = view a" using asio_documentedD(1) [OF doc, of p a] nd by simp
  let ?w = "if err then w\<lparr>cl_lib := a1\<rparr>
    else put_cli p (s\<lparr>unsent_count := 1\<rparr>) (w\<lparr>cl_lib := asio_read_some A p (read_data s) (block_size s)
       (asio_write A p (write_data s) (block_size s) a1)\<rparr>)"
  have st: "rd_ops (av_stream (view (cl_lib w)) p) = []" "wr_ops (av_stream (view (cl_lib w)) p) = []"
    "bytes_in (av_stream (view (cl_lib w)) p) = []" "bytes_out (av_stream (view (cl_lib w)) p) = []" "unsent_count s = 0"
    using s(4) by (auto simp: not_started_def untouched_def)
  have "handle_connect A p False es (w\<lparr>cl_lib := a\<rparr>) = Inr ?w"
    using s st nd by (simp add: handle_connect_def)
  moreover have "pc_inv view n ?w"
  proof (rule pc_inv_frame [OF inv, of p])
    show "cli_inv n p (cl_objs ?w p) (cl_bufs ?w) (av_stream (view (cl_lib ?w)) p)
        (count_list (map fst (av_connects (view (cl_lib ?w)))) p)"
      using s st a a1 by (auto simp: asio_documentedD [OF doc] new_stream_def add_read_def add_write_def counted_def not_started_def
          untouched_def duplex_inv_def duplex_shape_def duplex_data_def waiting_def)
  qed (use a a1 c pc_inv_rest [OF inv] s(1) in \<open>auto simp: asio_documentedD [OF doc] new_stream_def add_read_def add_write_def\<close>)
  ultimately show ?thesis by blast
qed

lemma cli_step_connect_failed:
  assumes doc: "asio_documented A view" and inv: "pc_inv view n w" and c: "av_connects (view (cl_lib w)) = xs @ (p, es) # ys"
    and a: "view a = (view (cl_lib w))\<lparr>av_connects := xs @ ys\<rparr>"
  shows "\<exists>w'. handle_connect A p True es (w\<lparr>cl_lib := a\<rparr>) = Inr w' \<and> pc_inv view n w'"
proof -
  obtain s where s: "cl_objs w p = Some s" "block_size s = n" "counted s (av_stream (view (cl_lib w)) p)"
    "not_started n p s (cl_bufs w) (av_stream (view (cl_lib w)) p)" "count_list (map fst (xs @ ys)) p = 0"
    by (rule connecting [OF inv c])
  let ?w = "case es of [] \<Rightarrow> w\<lparr>cl_lib := a\<rparr> | e # es' \<Rightarrow> w\<lparr>cl_lib := asio_connect A p e es' (asio_close A p a)\<rparr>"
  have "handle_connect A p True es (w\<lparr>cl_lib := a\<rparr>) = Inr ?w"
    using s by (simp add: handle_connect_def split: list.splits)
  moreover have "pc_inv view n ?w"
    by (rule pc_inv_frame [OF inv, of p])
      (use s a c pc_inv_rest [OF inv] in \<open>auto simp: asio_documentedD [OF doc] split: list.splits\<close>)
  ultimately show ?thesis by blast
qed

text \<open>Steps that change no session: stopping and closing.\<close>

lemma pc_inv_lib:
  assumes inv: "pc_inv view n w" and a: "view a = (view (cl_lib w))\<lparr>av_posts := ps\<rparr>" "\<forall>p \<in> set ps. cl_objs w p \<noteq> None"
  shows "pc_inv view n (w\<lparr>cl_lib := a\<rparr>)"
  using assms by (auto simp: pc_inv_def)

lemma handle_timeout_inv:
  assumes doc: "asio_documented A view" and inv: "pc_inv view n w" and ps: "\<forall>p \<in> set ps. cl_objs w p \<noteq> None"
  shows "pc_inv view n (fold (cli_stop A) ps w)"
  using inv ps
proof (induction ps arbitrary: w)
  case (Cons p ps)
  have "pc_inv view n (cli_stop A p w)"
    unfolding cli_stop_def
    by (rule pc_inv_lib [OF Cons.prems(1) asio_documentedD(4) [OF doc]])
      (use Cons.prems(2) pc_inv_rest(1) [OF Cons.prems(1)] in auto)
  with Cons.IH [of "cli_stop A p w"] Cons.prems(2) show ?case
    by (auto simp: cli_stop_def)
qed simp

lemma client_step_inv:
  assumes doc: "asio_documented A view" and inv: "pc_inv view n w"
  shows "\<exists>w'. client_step A w = Inr w' \<and> pc_inv view n w'"
proof -
  obtain c m a where next_: "asio_next A (cl_bufs w) (cl_lib w) = (c, m, a)" by (cases "asio_next A (cl_bufs w) (cl_lib w)")
  have ok: "buffers_ok (cl_bufs w) (av_stream (view (cl_lib w)) p)" for p
    using pc_invD [OF inv, of p] by (rule cli_inv_buffers_ok)
  have "\<exists>w'. client_handler A c (w\<lparr>cl_lib := a, cl_bufs := m\<rparr>) = Inr w' \<and> pc_inv view n w'"
    using asio_nextD [OF doc next_ ok]
  proof cases
    case idle
    then show ?thesis using inv by (simp add: pc_inv_def)
  next
    case (stream p ev st)
    then show ?thesis
      using cli_step_quiet [OF inv, of p m st a] cli_step_read [OF doc inv, of p _ _ m st a]
        cli_step_write [OF doc inv, of p _ _ m st a]
      by (cases ev) auto
  next
    case (posted xs p ys)
    have "pc_inv view n (w\<lparr>cl_lib := a\<rparr>)"
      by (rule pc_inv_lib [OF inv posted(3)]) (use posted pc_inv_rest(1) [OF inv] in auto)
    then have "pc_inv view n (w\<lparr>cl_lib := asio_close A p a\<rparr>)"
      using asio_documentedD(7) [OF doc] by (simp add: pc_inv_def)
    moreover obtain s where "cl_objs w p = Some s"
      using posted pc_inv_rest(1) [OF inv] by fastforce
    ultimately show ?thesis using posted by (simp add: close_socket_def)
  next
    case (connected xs p es ys)
    then show ?thesis using cli_step_connected [OF doc inv, of xs p es ys a] by simp
  next
    case (connect_failed xs p es ys)
    then show ?thesis using cli_step_connect_failed [OF doc inv, of xs p es ys a] by simp
  next
    case (timer k)
    then have "pc_inv view n (w\<lparr>cl_lib := a\<rparr>)" using inv by (simp add: pc_inv_def)
    from handle_timeout_inv [OF doc this, of "cl_sessions w"] timer pc_inv_rest(1) [OF inv] show ?thesis
      by (auto simp: handle_timeout_def)
  qed (use pc_inv_rest [OF inv] in auto)
  with next_ show ?thesis by (simp add: client_step_def)
qed

lemma client_events_inv:
  assumes doc: "asio_documented A view" and inv: "pc_inv view n w"
  shows "\<exists>w'. client_events k A w = Inr w' \<and> pc_inv view n w'"
  using inv
proof (induction k arbitrary: w)
  case (Suc k)
  from client_step_inv [OF doc Suc.prems] obtain w1 where "client_step A w = Inr w1" "pc_inv view n w1" by blast
  with Suc.IH [of w1] show ?case by simp
qed auto

lemma make_sessions_inv:
  assumes doc: "asio_documented A view" and inv: "pc_inv view n w" and es: "es \<noteq> []"
  shows "\<exists>w'. make_sessions k A junk es n w = Inr w' \<and> pc_inv view n w'"
  using inv
proof (induction k arbitrary: w)
  case (Suc k)
  obtain e es' where e: "es = e # es'" using es by (cases es) auto
  let ?p = "cl_next w"
  let ?w = "(snd (cli_session_new junk n w))\<lparr>cl_lib := asio_connect A ?p e es' (cl_lib w), cl_sessions := cl_sessions w @ [?p]\<rparr>"
  have none: "cl_objs w ?p = None" using pc_inv_rest(2) [OF Suc.prems] by simp
  then have un: "untouched (av_stream (view (cl_lib w)) ?p)" "count_list (map fst (av_connects (view (cl_lib w)))) ?p = 0"
    using pc_invD [OF Suc.prems, of ?p] by simp_all
  have "pc_inv view n ?w"
    by (rule pc_inv_frame [OF Suc.prems, of ?p])
      (use none un pc_inv_rest [OF Suc.prems] in \<open>auto simp: cli_session_new_def Let_def asio_documentedD [OF doc]
         count_list_append not_started_def duplex_shape_def counted_def untouched_def first_block_def\<close>)
  from Suc.IH [OF this] show ?case
    by (simp add: e cli_session_new_def Let_def cli_start_def)
qed auto

lemma client_new_inv:
  assumes doc: "asio_documented A view" and a: "view a = idle_view" and es: "es \<noteq> []"
  shows "\<exists>w. client_new A junk es n k timeout a = Inr w \<and> pc_inv view n w"
  unfolding client_new_def
  by (rule make_sessions_inv [OF doc _ es])
    (use a in \<open>simp add: pc_inv_def asio_documentedD [OF doc] idle_view_def idle_stream_def untouched_def\<close>)

lemma cli_inv_prefix: "cli_inv n p so m st c \<Longrightarrow> prefix (bytes_out st) (first_block n @ bytes_in st)"
  by (cases so) (auto simp: not_started_def untouched_def dest: duplex_inv_prefix)

section \<open>The totals\<close>

text \<open>What the handlers leave alone.\<close>

definition roster :: "'a pp_client \<Rightarrow> obj list \<times> obj set \<times> stats \<times> size_t list" where
  "roster w = (cl_sessions w, dom (cl_objs w), cl_stats w, cl_printed w)"

lemma roster_put [simp]: "cl_objs w p = Some s \<Longrightarrow> roster (put_cli p s' w) = roster w"
  by (auto simp: roster_def put_cli_def)

lemma roster_lib [simp]: "roster (w\<lparr>cl_lib := a\<rparr>) = roster w" "roster (w\<lparr>cl_bufs := m\<rparr>) = roster w"
  by (simp_all add: roster_def)

lemma get_cli_eq: "get_cli p w = Inr s \<longleftrightarrow> cl_objs w p = Some s"
  by (simp add: get_cli_def split: option.splits)

lemma handler_roster: "client_handler A c w = Inr w' \<Longrightarrow> roster w' = roster w"
proof (cases c)
  case OnTimer
  have "roster (fold (cli_stop A) ps v) = roster v" for ps v
    by (induction ps arbitrary: v) (simp_all add: cli_stop_def)
  then show "client_handler A c w = Inr w' \<Longrightarrow> roster w' = roster w"
    using OnTimer by (auto simp: handle_timeout_def)
qed (auto simp: cli_handle_read_def cli_handle_write_def close_socket_def handle_connect_def res_simps get_cli_eq Let_def
    split: if_splits prod.splits list.splits)

lemma client_events_roster: "client_events k A w = Inr w' \<Longrightarrow> roster w' = roster w"
proof (induction k arbitrary: w)
  case (Suc k)
  then show ?case
    using handler_roster by (fastforce simp: res_simps client_step_def split: prod.splits)
qed simp

lemma make_sessions_roster:
  assumes "make_sessions k A junk es n w = Inr w'" and "cl_sessions w = [0..<cl_next w]" "dom (cl_objs w) = {..<cl_next w}"
  shows "cl_next w' = cl_next w + k \<and> cl_sessions w' = [0..<cl_next w'] \<and> dom (cl_objs w') = {..<cl_next w'} \<and> cl_stats w' = cl_stats w \<and> cl_printed w' = cl_printed w"
  using assms
proof (induction k arbitrary: w)
  case (Suc k)
  obtain e es' where e: "es = e # es'"
    using Suc.prems(1) by (cases es) (auto simp: cli_start_def cli_session_new_def Let_def)
  let ?w = "(snd (cli_session_new junk n w))\<lparr>cl_lib := asio_connect A (cl_next w) e es' (cl_lib w), cl_sessions := cl_sessions w @ [cl_next w]\<rparr>"
  have "make_sessions k A junk es n ?w = Inr w'"
    using Suc.prems(1) by (simp add: e cli_session_new_def Let_def cli_start_def)
  moreover have "cl_sessions ?w = [0..<cl_next ?w]" "dom (cl_objs ?w) = {..<cl_next ?w}"
    "cl_stats ?w = cl_stats w" "cl_printed ?w = cl_printed w" "cl_next ?w = Suc (cl_next w)"
    using Suc.prems(2,3) by (auto simp: cli_session_new_def Let_def)
  ultimately show ?case
    using Suc.IH by (metis add_Suc add_Suc_right)
qed simp

lemma delete_sessions_eq:
  assumes "distinct ps" and "\<forall>p \<in> set ps. cl_objs w p \<noteq> None"
  shows "\<exists>w'. delete_sessions ps w = Inr w' \<and> cl_sessions w' = [] \<and> cl_objs w' = cl_objs w |` (- set ps) \<and>
    cl_stats w' = fold (\<lambda>p. stats_add (bytes_written (the (cl_objs w p))) (bytes_read (the (cl_objs w p)))) ps (cl_stats w) \<and>
    cl_printed w' = cl_printed w"
  using assms
proof (induction ps arbitrary: w)
  case (Cons p ps)
  then obtain s where s: "cl_objs w p = Some s" by auto
  let ?w = "w\<lparr>cl_stats := stats_add (bytes_written s) (bytes_read s) (cl_stats w),
            cl_bufs := (cl_bufs w)(read_data s := None, write_data s := None), cl_objs := (cl_objs w)(p := None)\<rparr>"
  have "\<forall>q \<in> set ps. cl_objs ?w q \<noteq> None" "distinct ps" using Cons.prems by auto
  from Cons.IH [OF this(2,1)] obtain w' where w': "delete_sessions ps ?w = Inr w'" "cl_sessions w' = []"
    "cl_objs w' = cl_objs ?w |` (- set ps)" "cl_printed w' = cl_printed ?w"
    "cl_stats w' = fold (\<lambda>q. stats_add (bytes_written (the (cl_objs ?w q))) (bytes_read (the (cl_objs ?w q)))) ps (cl_stats ?w)"
    by blast
  have "fold (\<lambda>q. stats_add (bytes_written (the (cl_objs ?w q))) (bytes_read (the (cl_objs ?w q)))) ps t =
      fold (\<lambda>q. stats_add (bytes_written (the (cl_objs w q))) (bytes_read (the (cl_objs w q)))) ps t" for t
    by (rule fold_cong) (use Cons.prems(1) in auto)
  moreover have "cl_objs w' = cl_objs w |` (- set (p # ps))"
    using w'(3) by (auto simp: restrict_map_def fun_eq_iff)
  ultimately show ?case
    using w' s by (simp add: cli_session_delete_def)
qed (simp add: restrict_map_def)

lemma stats_fold:
  "total_bytes_read t < size_mod \<Longrightarrow> total_bytes_written t < size_mod \<Longrightarrow>
   fold (\<lambda>p. stats_add (f p) (g p)) ps t =
     t\<lparr>total_bytes_written := (total_bytes_written t + sum_list (map f ps)) mod size_mod,
       total_bytes_read := (total_bytes_read t + sum_list (map g ps)) mod size_mod\<rparr>"
proof (induction ps arbitrary: t)
  case (Cons p ps)
  from Cons.IH [of "stats_add (f p) (g p) t"] show ?case
    by (simp add: stats_add_def sz_add_def mod_simps add.assoc)
qed simp

lemma sum_list_mod: "sum_list (map (\<lambda>p. f p mod n) ps) mod n = sum_list (map f ps) mod (n :: nat)"
proof (induction ps)
  case (Cons p ps)
  have "(f p mod n + sum_list (map (\<lambda>p. f p mod n) ps)) mod n = (f p mod n + sum_list (map f ps) mod n) mod n"
    using Cons.IH by (metis mod_add_right_eq)
  then show ?case by (simp add: mod_simps)
qed simp

section \<open>The totals\<close>

text \<open>
  The ping-pong client, with at least one endpoint: whatever the library delivers, no handler
  uses a session that does not exist, and the destructor deletes every session once. When no
  received data is left to be handed to a session, the second number it prints is the number
  of bytes received on all connections together, and the first the number of bytes of the
  completed writes of all sessions, both modulo \<open>2 ^ 64\<close>.
\<close>

lemma client_totals:
  assumes doc: "asio_documented A view" and a: "view a = idle_view" and es: "es \<noteq> []"
  shows "\<exists>w0 w w'. client_new A junk es n count timeout a = Inr w0 \<and> client_events k A w0 = Inr w \<and>
    cl_sessions w = [0..<count] \<and> dom (cl_objs w) = set (cl_sessions w) \<and>
    client_dtor w = Inr w' \<and> cl_objs w' = Map.empty \<and>
    ((\<forall>p \<in> set (cl_sessions w). \<forall>m. ReadOver m \<notin> set (rd_ops (av_stream (view (cl_lib w)) p))) \<longrightarrow>
      cl_printed w' =
        [sum_list (map (\<lambda>p. bytes_written (the (cl_objs w p))) (cl_sessions w)) mod size_mod,
         sum_list (map (\<lambda>p. length (bytes_in (av_stream (view (cl_lib w)) p))) (cl_sessions w)) mod size_mod])"
proof -
  obtain w0 where w0: "client_new A junk es n count timeout a = Inr w0" "pc_inv view n w0"
    using client_new_inv [OF doc a es] by blast
  obtain w where w: "client_events k A w0 = Inr w" "pc_inv view n w"
    using client_events_inv [OF doc w0(2)] by blast
  have r0: "cl_next w0 = count" "cl_sessions w0 = [0..<cl_next w0]" "dom (cl_objs w0) = {..<cl_next w0}" "cl_stats w0 = stats_new" "cl_printed w0 = []"
    using make_sessions_roster [OF w0(1) [unfolded client_new_def]] by auto
  have r: "cl_sessions w = [0..<cl_next w0]" "dom (cl_objs w) = {..<cl_next w0}" "cl_stats w = stats_new" "cl_printed w = []"
    using client_events_roster [OF w(1)] r0 by (simp_all add: roster_def)
  have "\<forall>p \<in> set (cl_sessions w). cl_objs w p \<noteq> None" using r by auto
  then obtain w1 where w1: "delete_sessions (cl_sessions w) w = Inr w1" "cl_objs w1 = cl_objs w |` (- set (cl_sessions w))"
    "cl_printed w1 = []" "cl_stats w1 = fold (\<lambda>p. stats_add (bytes_written (the (cl_objs w p))) (bytes_read (the (cl_objs w p))))
       (cl_sessions w) stats_new"
    using delete_sessions_eq [of "cl_sessions w" w] r by auto
  have "cl_objs w1 = Map.empty"
    using w1(2) r(1,2) by (auto simp: restrict_map_def fun_eq_iff domIff)
  moreover have "bytes_read (the (cl_objs w p)) = length (bytes_in (av_stream (view (cl_lib w)) p)) mod size_mod"
    if "\<forall>p \<in> set (cl_sessions w). \<forall>m. ReadOver m \<notin> set (rd_ops (av_stream (view (cl_lib w)) p))"
      and p: "p \<in> set (cl_sessions w)" for p
  proof -
    obtain s where s: "cl_objs w p = Some s" using p r by auto
    have "read_pending (rd_ops (av_stream (view (cl_lib w)) p)) = 0"
      using that by (cases "rd_ops (av_stream (view (cl_lib w)) p)" rule: read_pending.cases) force+
    with pc_invD [OF w(2), of p] s show ?thesis by (auto simp: counted_def)
  qed
  then have "sum_list (map (\<lambda>p. bytes_read (the (cl_objs w p))) (cl_sessions w)) mod size_mod =
      sum_list (map (\<lambda>p. length (bytes_in (av_stream (view (cl_lib w)) p))) (cl_sessions w)) mod size_mod"
    if "\<forall>p \<in> set (cl_sessions w). \<forall>m. ReadOver m \<notin> set (rd_ops (av_stream (view (cl_lib w)) p))"
    using that by (simp add: sum_list_mod cong: map_cong)
  moreover have "cl_stats w1 = \<lparr>total_bytes_written = sum_list (map (\<lambda>p. bytes_written (the (cl_objs w p))) (cl_sessions w)) mod size_mod,
      total_bytes_read = sum_list (map (\<lambda>p. bytes_read (the (cl_objs w p))) (cl_sessions w)) mod size_mod\<rparr>"
    using w1(4) stats_fold [of stats_new] by (simp add: stats_new_def size_mod_def)
  ultimately show ?thesis
    using w0 w r w1 r0(1) by (auto simp: client_dtor_def stats_print_def lessThan_atLeast0)
qed

text \<open>A session connects at the second attempt, sends its block of two bytes and gets it back.\<close>

definition cli_script :: "script_entry list" where
  "cli_script = [SConnect True, SConnect False, SSend 0, SWriteEnd 0, SRecv 0 [0, 1], SReadEnd 0]"

lemma cli_sample:
  "case rbind (client_new script_asio (\<lambda>_. 0) [5, 6] 2 1 10 (idle_view, cli_script)) (client_events 6 script_asio) of
     Inl e \<Rightarrow> False
   | Inr w \<Rightarrow> cl_sessions w = [0] \<and> map_option bytes_written (cl_objs w 0) = Some 2 \<and>
       rd_ops (av_stream (fst (cl_lib w)) 0) = [Reading (0, True) 2] \<and> bytes_in (av_stream (fst (cl_lib w)) 0) = [0, 1] \<and>
       bytes_out (av_stream (fst (cl_lib w)) 0) = [0, 1]"
proof -
  have num: "client_events 6 A = client_events (Suc (Suc (Suc (Suc (Suc (Suc 0))))))  A"
    "make_sessions 1 A = make_sessions (Suc 0) A" for A :: "(asio_view \<times> script_entry list) asio"
    by (simp_all add: numeral_eq_Suc)
  show ?thesis
    unfolding client_new_def num
    by (simp add: script_asio_def cli_session_new_def cli_start_def Let_def client_step_def cli_script_def idle_view_def
        idle_stream_def handle_connect_def get_cli_def put_cli_def add_read_def add_write_def new_stream_def
        cli_handle_write_def cli_handle_read_def exchange_def sz_add_def size_mod_def first_block_def upt_rec)
qed

end
