(* ===== verification/Pingpong_Server.thy ===== *)
theory Pingpong_Server
  imports Asio_Stream
begin

text \<open>
  \<^verbatim>\<open>example/asio/pingpong/server.cpp\<close>: the classes \<open>session\<close> and \<open>server\<close> and the handlers that
  \<open>io_service::run\<close> calls. Sessions live at addresses of the state until they are deleted; a
  handler that is called for a deleted session fails with \<open>Dangling\<close>. The two counters of a
  session are \<open>int\<close> members of the class and never leave the range from 0 to 2. Properties:
  whatever the order in which operations complete and fail, no deleted session is used and
  no session is forgotten, and the bytes sent are the bytes received, in order.
\<close>

section \<open>State\<close>

record session = duplex +
  op_count :: int

record 'a pp_server =
  lib :: 'a
  bufs :: memory
  sessions :: "obj \<rightharpoonup> session"
  next_obj :: obj
  srv_block_size :: size_t

definition get_session :: "obj \<Rightarrow> 'a pp_server \<Rightarrow> session res" where
  "get_session p w = (case sessions w p of Some s \<Rightarrow> Inr s | None \<Rightarrow> Inl Dangling)"

definition put_session :: "obj \<Rightarrow> session \<Rightarrow> 'a pp_server \<Rightarrow> 'a pp_server" where
  "put_session p s w = w\<lparr>sessions := (sessions w)(p \<mapsto> s)\<rparr>"

section \<open>class session\<close>

text \<open>\<open>new char[block_size]\<close> leaves the array uninitialised; \<open>junk\<close> is what it holds.\<close>

definition session_new :: "(nat \<Rightarrow> byte) \<Rightarrow> 'a pp_server \<Rightarrow> obj \<times> 'a pp_server" where
  "session_new junk w =
     (let p = next_obj w; n = srv_block_size w
      in (p, w\<lparr>next_obj := p + 1,
              bufs := (bufs w)((p, False) \<mapsto> map junk [0..<n], (p, True) \<mapsto> map junk [0..<n]),
              sessions := (sessions w)(p \<mapsto> \<lparr>block_size = n, read_data = (p, False), read_data_length = 0,
                write_data = (p, True), unsent_count = 0, op_count = 0\<rparr>)\<rparr>))"

definition session_delete :: "obj \<Rightarrow> 'a pp_server \<Rightarrow> 'a pp_server res" where
  "session_delete p w =
     rbind (get_session p w) (\<lambda>s.
     Inr (w\<lparr>bufs := (bufs w)(read_data s := None, write_data s := None), sessions := (sessions w)(p := None)\<rparr>))"

definition session_start :: "'a asio \<Rightarrow> obj \<Rightarrow> 'a pp_server \<Rightarrow> 'a pp_server res" where
  "session_start A p w =
     rbind (get_session p w) (\<lambda>s.
     let (set_option_err, a) = asio_no_delay A p (lib w)
     in if \<not> set_option_err
        then Inr (put_session p (s\<lparr>op_count := op_count s + 1\<rparr>)
               (w\<lparr>lib := asio_read_some A p (read_data s) (block_size s) a\<rparr>))
        else Inr (w\<lparr>lib := asio_post A p a\<rparr>))"

definition srv_handle_read :: "'a asio \<Rightarrow> obj \<Rightarrow> bool \<Rightarrow> size_t \<Rightarrow> 'a pp_server \<Rightarrow> 'a pp_server res" where
  "srv_handle_read A p err len w =
     rbind (get_session p w) (\<lambda>s.
     let s1 = s\<lparr>op_count := op_count s - 1\<rparr>;
         (s3, a3) =
           (if \<not> err then
              let s2 = s1\<lparr>read_data_length := len, unsent_count := unsent_count s1 + 1\<rparr>
              in if unsent_count s2 = 1 then exchange A p (s2\<lparr>op_count := op_count s2 + 2\<rparr>) (lib w)
                 else (s2, lib w)
            else (s1, lib w));
         a4 = (if op_count s3 = 0 then asio_post A p a3 else a3)
     in Inr (put_session p s3 (w\<lparr>lib := a4\<rparr>)))"

definition srv_handle_write :: "'a asio \<Rightarrow> obj \<Rightarrow> bool \<Rightarrow> 'a pp_server \<Rightarrow> 'a pp_server res" where
  "srv_handle_write A p err w =
     rbind (get_session p w) (\<lambda>s.
     let s1 = s\<lparr>op_count := op_count s - 1\<rparr>;
         (s3, a3) =
           (if \<not> err then
              let s2 = s1\<lparr>unsent_count := unsent_count s1 - 1\<rparr>
              in if unsent_count s2 = 1 then exchange A p (s2\<lparr>op_count := op_count s2 + 2\<rparr>) (lib w)
                 else (s2, lib w)
            else (s1, lib w));
         a4 = (if op_count s3 = 0 then asio_post A p a3 else a3)
     in Inr (put_session p s3 (w\<lparr>lib := a4\<rparr>)))"

section \<open>class server\<close>

text \<open>The last statements of the constructor and of \<open>handle_accept\<close>: accept into a new session.\<close>

definition accept_next :: "'a asio \<Rightarrow> (nat \<Rightarrow> byte) \<Rightarrow> 'a pp_server \<Rightarrow> 'a pp_server" where
  "accept_next A junk w =
     (let (p, w1) = session_new junk w in w1\<lparr>lib := asio_accept A p (lib w1)\<rparr>)"

text \<open>The constructor, after the acceptor has been opened and is listening.\<close>

definition server_new :: "'a asio \<Rightarrow> (nat \<Rightarrow> byte) \<Rightarrow> size_t \<Rightarrow> 'a \<Rightarrow> 'a pp_server" where
  "server_new A junk n a =
     accept_next A junk \<lparr>lib = a, bufs = Map.empty, sessions = Map.empty, next_obj = 0, srv_block_size = n\<rparr>"

definition handle_accept :: "'a asio \<Rightarrow> (nat \<Rightarrow> byte) \<Rightarrow> obj \<Rightarrow> bool \<Rightarrow> 'a pp_server \<Rightarrow> 'a pp_server res" where
  "handle_accept A junk p err w =
     (if \<not> err then rbind (session_start A p w) (\<lambda>w1. Inr (accept_next A junk w1))
      else session_delete p w)"

text \<open>The handlers that the program gives to the library, by what completes.\<close>

fun server_handler :: "'a asio \<Rightarrow> (nat \<Rightarrow> byte) \<Rightarrow> completion \<Rightarrow> 'a pp_server \<Rightarrow> 'a pp_server res" where
  "server_handler A junk (OnRead p err n) w = srv_handle_read A p err n w"
| "server_handler A junk (OnWrite p err n) w = srv_handle_write A p err w"
| "server_handler A junk (OnPosted p) w = session_delete p w"
| "server_handler A junk (OnAccept p err) w = handle_accept A junk p err w"
| "server_handler A junk NoHandler w = Inr w"
| "server_handler A junk (OnConnect p err es) w = Inl BadFunctionCall"
| "server_handler A junk OnTimer w = Inl BadFunctionCall"

definition server_step :: "'a asio \<Rightarrow> (nat \<Rightarrow> byte) \<Rightarrow> 'a pp_server \<Rightarrow> 'a pp_server res" where
  "server_step A junk w =
     (let (c, m, a) = asio_next A (bufs w) (lib w)
      in server_handler A junk c (w\<lparr>lib := a, bufs := m\<rparr>))"

text \<open>\<open>ios.run()\<close>, up to the \<open>n\<close>-th thing it does.\<close>

fun server_events :: "nat \<Rightarrow> 'a asio \<Rightarrow> (nat \<Rightarrow> byte) \<Rightarrow> 'a pp_server \<Rightarrow> 'a pp_server res" where
  "server_events 0 A junk w = Inr w"
| "server_events (Suc n) A junk w = rbind (server_step A junk w) (server_events n A junk)"

section \<open>Invariant\<close>

definition running :: "obj \<Rightarrow> session \<Rightarrow> memory \<Rightarrow> tcp_stream \<Rightarrow> nat \<Rightarrow> bool" where
  "running p s m st n \<longleftrightarrow> duplex_inv [] p s m st \<and>
     op_count s = int (length (rd_ops st) + length (wr_ops st)) \<and> n = (if op_count s = 0 then 1 else 0)"

definition unused :: "tcp_stream \<Rightarrow> nat \<Rightarrow> bool" where
  "unused st n \<longleftrightarrow> rd_ops st = [] \<and> wr_ops st = [] \<and> n = 0 \<and> prefix (bytes_out st) (bytes_in st)"

text \<open>
  What holds of the address \<open>p\<close>, with \<open>n\<close> calls of \<open>destroy\<close> due: a deleted or future session
  has nothing under way; the session that waits to be accepted has nothing under way; a
  started one counts its operations and is to be deleted, once, when there are none.
\<close>

fun obj_inv :: "obj \<Rightarrow> session option \<Rightarrow> memory \<Rightarrow> tcp_stream \<Rightarrow> nat \<Rightarrow> bool \<Rightarrow> bool" where
  "obj_inv p None m st n accepting \<longleftrightarrow> unused st n \<and> \<not> accepting"
| "obj_inv p (Some s) m st n accepting \<longleftrightarrow>
     (if accepting then unused st n \<and> op_count s = 0 \<and> unsent_count s = 0 \<and>
        duplex_inv [] p s m (st\<lparr>bytes_in := [], bytes_out := []\<rparr>)
      else running p s m st n)"

definition pp_inv :: "('a \<Rightarrow> asio_view) \<Rightarrow> 'a pp_server \<Rightarrow> bool" where
  "pp_inv view w \<longleftrightarrow>
     (\<forall>p. obj_inv p (sessions w p) (bufs w) (av_stream (view (lib w)) p)
        (count_list (av_posts (view (lib w))) p) (p \<in> set (av_accepts (view (lib w))))) \<and>
     length (av_accepts (view (lib w))) \<le> 1 \<and> (\<forall>p \<ge> next_obj w. sessions w p = None) \<and>
     av_connects (view (lib w)) = [] \<and> av_timers (view (lib w)) = 0"

lemma obj_inv_memory:
  "obj_inv p so m st n acc \<Longrightarrow> (\<And>b. fst b = p \<Longrightarrow> m' b = m b) \<Longrightarrow> obj_inv p so m' st n acc"
  by (cases so) (auto simp: running_def intro: duplex_memory)

lemma unused_buffers_ok: "unused st n \<Longrightarrow> buffers_ok m st"
  by (simp add: unused_def buffers_ok_def)

lemma obj_inv_buffers_ok: "obj_inv p so m st n acc \<Longrightarrow> buffers_ok m st"
  by (cases so) (auto simp: running_def intro: duplex_buffers_ok unused_buffers_ok split: if_splits)

text \<open>A step that concerns the session at \<open>p\<close> only keeps what holds of the others.\<close>

lemma pp_inv_frame:
  assumes inv: "pp_inv view w"
    and same: "\<And>q. q \<noteq> p \<Longrightarrow> sessions w' q = sessions w q" "\<And>b. fst b \<noteq> p \<Longrightarrow> bufs w' b = bufs w b"
      "\<And>q. q \<noteq> p \<Longrightarrow> av_stream (view (lib w')) q = av_stream (view (lib w)) q"
      "\<And>q. q \<noteq> p \<Longrightarrow> count_list (av_posts (view (lib w'))) q = count_list (av_posts (view (lib w))) q"
      "\<And>q. q \<noteq> p \<Longrightarrow> q \<in> set (av_accepts (view (lib w'))) \<longleftrightarrow> q \<in> set (av_accepts (view (lib w)))"
      "av_connects (view (lib w')) = av_connects (view (lib w))" "av_timers (view (lib w')) = av_timers (view (lib w))"
    and acc: "length (av_accepts (view (lib w'))) \<le> 1"
    and new: "\<forall>q \<ge> next_obj w'. sessions w' q = None"
    and p: "obj_inv p (sessions w' p) (bufs w') (av_stream (view (lib w')) p)
        (count_list (av_posts (view (lib w'))) p) (p \<in> set (av_accepts (view (lib w'))))"
  shows "pp_inv view w'"
proof -
  have "obj_inv q (sessions w' q) (bufs w') (av_stream (view (lib w')) q)
        (count_list (av_posts (view (lib w'))) q) (q \<in> set (av_accepts (view (lib w'))))" for q
  proof (cases "q = p")
    case False
    have "obj_inv q (sessions w q) (bufs w) (av_stream (view (lib w)) q)
        (count_list (av_posts (view (lib w))) q) (q \<in> set (av_accepts (view (lib w))))"
      using inv by (simp add: pp_inv_def)
    then have "obj_inv q (sessions w q) (bufs w') (av_stream (view (lib w)) q)
        (count_list (av_posts (view (lib w))) q) (q \<in> set (av_accepts (view (lib w))))"
      by (rule obj_inv_memory) (use False same(2) in auto)
    with False same show ?thesis by simp
  qed (use p in simp)
  with inv same acc new show ?thesis by (simp add: pp_inv_def)
qed

lemma get_session_Some [simp]: "sessions w p = Some s \<Longrightarrow> get_session p w = Inr s"
  by (simp add: get_session_def)

lemma put_session_simps [simp]:
  "sessions (put_session p s w) = (sessions w)(p \<mapsto> s)" "bufs (put_session p s w) = bufs w"
  "lib (put_session p s w) = lib w" "next_obj (put_session p s w) = next_obj w"
  by (simp_all add: put_session_def)

text \<open>The end of both handlers of a session: a session without operations is posted for deletion.\<close>

lemma pp_inv_settle:
  assumes doc: "asio_documented A view" and inv: "pp_inv view w" and s: "sessions w p = Some s" "p \<notin> set (av_accepts (view (lib w)))"
    and busy: "op_count s \<noteq> 0"
    and a: "view a = (view (lib w))\<lparr>av_stream := (av_stream (view (lib w)))(p := st)\<rparr>"
    and s': "duplex_inv [] p s' m st" "op_count s' = int (length (rd_ops st) + length (wr_ops st))"
    and m: "\<And>b. fst b \<noteq> p \<Longrightarrow> m b = bufs w b"
  shows "pp_inv view (put_session p s' (w\<lparr>bufs := m, lib := if op_count s' = 0 then asio_post A p a else a\<rparr>))"
proof (rule pp_inv_frame [OF inv, of p])
  have "obj_inv p (sessions w p) (bufs w) (av_stream (view (lib w)) p) (count_list (av_posts (view (lib w))) p)
      (p \<in> set (av_accepts (view (lib w))))"
    using inv by (simp add: pp_inv_def)
  then have "count_list (av_posts (view (lib w))) p = 0"
    using s busy by (simp add: running_def)
  then show "obj_inv p (sessions (put_session p s' (w\<lparr>bufs := m, lib := if op_count s' = 0 then asio_post A p a else a\<rparr>)) p)
     (bufs (put_session p s' (w\<lparr>bufs := m, lib := if op_count s' = 0 then asio_post A p a else a\<rparr>)))
     (av_stream (view (lib (put_session p s' (w\<lparr>bufs := m, lib := if op_count s' = 0 then asio_post A p a else a\<rparr>)))) p)
     (count_list (av_posts (view (lib (put_session p s' (w\<lparr>bufs := m, lib := if op_count s' = 0 then asio_post A p a else a\<rparr>))))) p)
     (p \<in> set (av_accepts (view (lib (put_session p s' (w\<lparr>bufs := m, lib := if op_count s' = 0 then asio_post A p a else a\<rparr>))))))"
    using s s' a by (simp add: asio_documentedD [OF doc] running_def)
  show "\<forall>q \<ge> next_obj (put_session p s' (w\<lparr>bufs := m, lib := if op_count s' = 0 then asio_post A p a else a\<rparr>)).
      sessions (put_session p s' (w\<lparr>bufs := m, lib := if op_count s' = 0 then asio_post A p a else a\<rparr>)) q = None"
    using inv s(1) by (auto simp: pp_inv_def)
qed (use a m inv in \<open>simp_all add: asio_documentedD [OF doc] pp_inv_def\<close>)

lemma busy_session:
  assumes inv: "pp_inv view w" and busy: "rd_ops (av_stream (view (lib w)) p) \<noteq> [] \<or> wr_ops (av_stream (view (lib w)) p) \<noteq> []"
  obtains s where "sessions w p = Some s" "p \<notin> set (av_accepts (view (lib w)))" "op_count s \<noteq> 0"
    "duplex_inv [] p s (bufs w) (av_stream (view (lib w)) p)"
    "op_count s = int (length (rd_ops (av_stream (view (lib w)) p)) + length (wr_ops (av_stream (view (lib w)) p)))"
proof -
  have "obj_inv p (sessions w p) (bufs w) (av_stream (view (lib w)) p) (count_list (av_posts (view (lib w))) p)
      (p \<in> set (av_accepts (view (lib w))))"
    using inv by (simp add: pp_inv_def)
  moreover have "int (length (rd_ops (av_stream (view (lib w)) p))) + int (length (wr_ops (av_stream (view (lib w)) p))) \<noteq> 0"
    using busy by (metis length_0_conv of_nat_0_le_iff add_nonneg_eq_0_iff of_nat_eq_0_iff)
  ultimately show ?thesis
    using busy that by (cases "sessions w p") (auto simp: unused_def running_def split: if_splits)
qed

lemma swapped_op_count [simp]: "op_count (swapped s) = op_count s"
  by (simp add: swapped_def)

lemma exchanged_ops: "length (rd_ops (exchanged s st)) + length (wr_ops (exchanged s st)) =
    length (rd_ops st) + length (wr_ops st) + 2"
  by (simp add: exchanged_def)

lemma duplex_op_count [simp]: "duplex_inv init p (op_count_update f s) m st = duplex_inv init p s m st"
  by (simp add: duplex_inv_def duplex_shape_def duplex_data_def waiting_def)

text \<open>What both handlers do after they have counted.\<close>

definition finish :: "'a asio \<Rightarrow> obj \<Rightarrow> bool \<Rightarrow> session \<Rightarrow> 'a pp_server \<Rightarrow> 'a pp_server" where
  "finish A p go s w =
     (let (s3, a3) = (if go \<and> unsent_count s = 1 then exchange A p (s\<lparr>op_count := op_count s + 2\<rparr>) (lib w) else (s, lib w))
      in put_session p s3 (w\<lparr>lib := if op_count s3 = 0 then asio_post A p a3 else a3\<rparr>))"

lemma handlers_finish:
  assumes "sessions w p = Some s"
  shows "srv_handle_read A p err n w = Inr (finish A p (\<not> err) (if err then s\<lparr>op_count := op_count s - 1\<rparr>
      else s\<lparr>op_count := op_count s - 1, read_data_length := n, unsent_count := unsent_count s + 1\<rparr>) w)"
    and "srv_handle_write A p err w = Inr (finish A p (\<not> err) (if err then s\<lparr>op_count := op_count s - 1\<rparr>
      else s\<lparr>op_count := op_count s - 1, unsent_count := unsent_count s - 1\<rparr>) w)"
  using assms by (simp_all add: srv_handle_read_def srv_handle_write_def finish_def Let_def split_beta)

lemma swapped_exchanged_op_count:
  "swapped (op_count_update f s) = op_count_update f (swapped s)" "exchanged (op_count_update f s) st = exchanged s st"
  by (simp_all add: swapped_def exchanged_def)

lemma pp_inv_finish:
  assumes doc: "asio_documented A view" and inv: "pp_inv view w" and s: "sessions w p = Some s" "p \<notin> set (av_accepts (view (lib w)))"
    and ops: "op_count s \<noteq> 0" "op_count s' = int (length (rd_ops st) + length (wr_ops st))"
    and a: "view a = (view (lib w))\<lparr>av_stream := (av_stream (view (lib w)))(p := st)\<rparr>"
    and go: "go \<and> unsent_count s' = 1 \<Longrightarrow> duplex_inv [] p (swapped s') (bufs w) (exchanged s' st)"
    and stay: "\<not> (go \<and> unsent_count s' = 1) \<Longrightarrow> duplex_inv [] p s' (bufs w) st"
  shows "pp_inv view (finish A p go s' (w\<lparr>lib := a, bufs := bufs w\<rparr>))"
proof (cases "go \<and> unsent_count s' = 1")
  case True
  let ?s2 = "s'\<lparr>op_count := op_count s' + 2\<rparr>"
  note x = exchange_view [OF doc, of p ?s2 a]
  have "pp_inv view (put_session p (swapped ?s2) (w\<lparr>bufs := bufs w, lib := if op_count (swapped ?s2) = 0
      then asio_post A p (snd (exchange A p ?s2 a)) else snd (exchange A p ?s2 a)\<rparr>))"
    by (rule pp_inv_settle [OF doc inv s ops(1), where st = "exchanged ?s2 st"])
      (use go [OF True] a x(2) ops in \<open>simp_all add: swapped_exchanged_op_count exchanged_ops\<close>)
  with True x(1) show ?thesis by (simp add: finish_def split_beta)
next
  case False
  from pp_inv_settle [OF doc inv s ops(1) a stay [OF False] ops(2)] False show ?thesis
    by (auto simp: finish_def)
qed

lemma step_read:
  assumes doc: "asio_documented A view" and inv: "pp_inv view w"
    and move: "stream_move (bufs w) (av_stream (view (lib w)) p) (ReadEnd err n) m st"
    and a: "view a = (view (lib w))\<lparr>av_stream := (av_stream (view (lib w)))(p := st)\<rparr>"
  shows "\<exists>w'. srv_handle_read A p err n (w\<lparr>lib := a, bufs := m\<rparr>) = Inr w' \<and> pp_inv view w'"
proof -
  obtain s where s: "sessions w p = Some s" "p \<notin> set (av_accepts (view (lib w)))" "op_count s \<noteq> 0"
    "duplex_inv [] p s (bufs w) (av_stream (view (lib w)) p)"
    "op_count s = int (length (rd_ops (av_stream (view (lib w)) p)) + length (wr_ops (av_stream (view (lib w)) p)))"
    using busy_session [OF inv] stream_move_busy [OF move] by metis
  have inv': "duplex_inv [] p (s\<lparr>op_count := op_count s - 1\<rparr>) (bufs w) (av_stream (view (lib w)) p)"
    using s(4) by simp
  have m: "m = bufs w"
    using duplex_read_err(1) [OF s(4)] duplex_read_ok(1) [OF s(4)] move by (cases err) auto
  have "pp_inv view (finish A p (\<not> err) (if err then s\<lparr>op_count := op_count s - 1\<rparr>
      else s\<lparr>op_count := op_count s - 1, read_data_length := n, unsent_count := unsent_count s + 1\<rparr>)
      (w\<lparr>lib := a, bufs := bufs w\<rparr>))"
  proof (cases err)
    case True
    with move have "stream_move (bufs w) (av_stream (view (lib w)) p) (ReadEnd True n) m st" by simp
    from duplex_read_err [OF inv' this] True s(5) m show ?thesis
      by (intro pp_inv_finish [OF doc inv s(1-3) _ a]) auto
  next
    case False
    with move have "stream_move (bufs w) (av_stream (view (lib w)) p) (ReadEnd False n) m st" by simp
    from duplex_read_ok [OF inv' this] False s(5) m show ?thesis
      by (intro pp_inv_finish [OF doc inv s(1-3) _ a]) auto
  qed
  with handlers_finish(1) [of "w\<lparr>lib := a, bufs := m\<rparr>"] s(1) m show ?thesis by simp
qed

lemma step_write:
  assumes doc: "asio_documented A view" and inv: "pp_inv view w"
    and move: "stream_move (bufs w) (av_stream (view (lib w)) p) (WriteEnd err n) m st"
    and a: "view a = (view (lib w))\<lparr>av_stream := (av_stream (view (lib w)))(p := st)\<rparr>"
  shows "\<exists>w'. srv_handle_write A p err (w\<lparr>lib := a, bufs := m\<rparr>) = Inr w' \<and> pp_inv view w'"
proof -
  obtain s where s: "sessions w p = Some s" "p \<notin> set (av_accepts (view (lib w)))" "op_count s \<noteq> 0"
    "duplex_inv [] p s (bufs w) (av_stream (view (lib w)) p)"
    "op_count s = int (length (rd_ops (av_stream (view (lib w)) p)) + length (wr_ops (av_stream (view (lib w)) p)))"
    using busy_session [OF inv] stream_move_busy [OF move] by metis
  have inv': "duplex_inv [] p (s\<lparr>op_count := op_count s - 1\<rparr>) (bufs w) (av_stream (view (lib w)) p)"
    using s(4) by simp
  note e = duplex_write_lost [OF inv' move]
  have "pp_inv view (finish A p (\<not> err) (if err then s\<lparr>op_count := op_count s - 1\<rparr>
      else s\<lparr>op_count := op_count s - 1, unsent_count := unsent_count s - 1\<rparr>) (w\<lparr>lib := a, bufs := bufs w\<rparr>))"
  proof (cases err)
    case True
    from e True s(5) show ?thesis
      by (intro pp_inv_finish [OF doc inv s(1-3) _ a]) auto
  next
    case False
    with move have "stream_move (bufs w) (av_stream (view (lib w)) p) (WriteEnd False n) m st" by simp
    from duplex_write_ok [OF inv' this] False s(5) show ?thesis
      by (intro pp_inv_finish [OF doc inv s(1-3) _ a]) auto
  qed
  with handlers_finish(2) [of "w\<lparr>lib := a, bufs := m\<rparr>"] s(1) e(1) show ?thesis by simp
qed

lemma pp_invD: "pp_inv view w \<Longrightarrow> obj_inv p (sessions w p) (bufs w) (av_stream (view (lib w)) p)
    (count_list (av_posts (view (lib w))) p) (p \<in> set (av_accepts (view (lib w))))"
  by (simp add: pp_inv_def)

lemma pp_inv_rest:
  assumes "pp_inv view w"
  shows "length (av_accepts (view (lib w))) \<le> 1" and "\<forall>q \<ge> next_obj w. sessions w q = None"
    and "av_connects (view (lib w)) = []" and "av_timers (view (lib w)) = 0"
  using assms by (simp_all add: pp_inv_def)

lemma step_quiet:
  assumes inv: "pp_inv view w" and move: "stream_move (bufs w) (av_stream (view (lib w)) p) Quiet m st"
    and a: "view a = (view (lib w))\<lparr>av_stream := (av_stream (view (lib w)))(p := st)\<rparr>"
  shows "pp_inv view (w\<lparr>lib := a, bufs := m\<rparr>)"
proof -
  obtain s where s: "sessions w p = Some s" "p \<notin> set (av_accepts (view (lib w)))"
    "duplex_inv [] p s (bufs w) (av_stream (view (lib w)) p)"
    using busy_session [OF inv] stream_move_busy [OF move] by metis
  note q = duplex_quiet [OF s(3) move]
  show ?thesis
    by (rule pp_inv_frame [OF inv, of p])
      (use a q s pp_invD [OF inv, of p] pp_inv_rest [OF inv] in \<open>simp_all add: running_def\<close>)
qed

lemma count_list_split: "xs = ys @ p # zs \<Longrightarrow> count_list xs q = count_list (ys @ zs) q + (if q = p then 1 else 0)"
  by (simp add: count_list_append)

text \<open>Deleting a session that has nothing under way.\<close>

lemma delete_inv:
  assumes inv: "pp_inv view w" and s: "sessions w p = Some s" "fst (read_data s) = p" "fst (write_data s) = p"
    and a: "av_stream (view a) = av_stream (view (lib w))" "av_connects (view a) = []" "av_timers (view a) = 0"
      "\<And>q. q \<noteq> p \<Longrightarrow> count_list (av_posts (view a)) q = count_list (av_posts (view (lib w))) q"
      "\<And>q. q \<noteq> p \<Longrightarrow> q \<in> set (av_accepts (view a)) \<longleftrightarrow> q \<in> set (av_accepts (view (lib w)))"
      "length (av_accepts (view a)) \<le> 1" "p \<notin> set (av_accepts (view a))"
    and idle: "unused (av_stream (view a) p) (count_list (av_posts (view a)) p)"
  shows "\<exists>w'. session_delete p (w\<lparr>lib := a\<rparr>) = Inr w' \<and> pp_inv view w'"
proof -
  let ?m = "(bufs w)(read_data s := None, write_data s := None)"
  let ?w = "w\<lparr>lib := a, bufs := ?m, sessions := (sessions w)(p := None)\<rparr>"
  have m: "?m b = bufs w b" if "fst b \<noteq> p" for b
    using that s(2,3) by (metis fun_upd_apply)
  have "pp_inv view ?w"
    by (rule pp_inv_frame [OF inv, of p]) (use m a idle pp_inv_rest [OF inv] in simp_all)
  then show ?thesis
    using s(1) by (simp add: session_delete_def)
qed

lemma step_posted:
  assumes inv: "pp_inv view w" and posts: "av_posts (view (lib w)) = xs @ p # ys"
    and a: "view a = (view (lib w))\<lparr>av_posts := xs @ ys\<rparr>"
  shows "\<exists>w'. session_delete p (w\<lparr>lib := a\<rparr>) = Inr w' \<and> pp_inv view w'"
proof -
  let ?st = "av_stream (view (lib w)) p"
  have "count_list (av_posts (view (lib w))) p \<noteq> 0" using posts by (simp add: count_list_append)
  with pp_invD [OF inv, of p] obtain s where s: "sessions w p = Some s" "p \<notin> set (av_accepts (view (lib w)))"
    "running p s (bufs w) ?st (count_list (av_posts (view (lib w))) p)"
    by (cases "sessions w p") (auto simp: unused_def split: if_splits)
  then have ops: "rd_ops ?st = []" "wr_ops ?st = []" "count_list (av_posts (view (lib w))) p = 1"
    "prefix (bytes_out ?st) (bytes_in ?st)" "fst (read_data s) = p" "fst (write_data s) = p"
    using \<open>count_list _ _ \<noteq> 0\<close> duplex_inv_prefix [of "[]" p s "bufs w" ?st]
    by (auto simp: running_def duplex_inv_def duplex_shape_def split: if_splits)
  show ?thesis
    by (rule delete_inv [OF inv s(1) ops(5,6)])
      (use a ops s(2) pp_inv_rest [OF inv] posts in \<open>simp_all add: unused_def count_list_append\<close>)
qed

lemma step_accept_failed:
  assumes inv: "pp_inv view w" and acc: "av_accepts (view (lib w)) = xs @ p # ys"
    and a: "view a = (view (lib w))\<lparr>av_accepts := xs @ ys\<rparr>"
  shows "\<exists>w'. session_delete p (w\<lparr>lib := a\<rparr>) = Inr w' \<and> pp_inv view w'"
proof -
  have "p \<in> set (av_accepts (view (lib w)))" and [simp]: "xs = []" "ys = []"
    using acc pp_inv_rest [OF inv] by auto
  with pp_invD [OF inv, of p] obtain s where s: "sessions w p = Some s"
    "unused (av_stream (view (lib w)) p) (count_list (av_posts (view (lib w))) p)" "fst (read_data s) = p" "fst (write_data s) = p"
    by (cases "sessions w p") (auto simp: duplex_inv_def duplex_shape_def)
  show ?thesis
    by (rule delete_inv [OF inv s(1,3,4)]) (use a s(2) pp_inv_rest [OF inv] acc in simp_all)
qed

lemma accept_next_inv:
  assumes doc: "asio_documented A view" and inv: "pp_inv view w" and acc: "av_accepts (view (lib w)) = []"
  shows "pp_inv view (accept_next A junk w)"
proof -
  have none: "sessions w (next_obj w) = None" using inv by (simp add: pp_inv_def)
  with pp_invD [OF inv, of "next_obj w"]
  have un: "unused (av_stream (view (lib w)) (next_obj w)) (count_list (av_posts (view (lib w))) (next_obj w))" by simp
  show ?thesis
    by (rule pp_inv_frame [OF inv, of "next_obj w"])
      (use none un pp_inv_rest [OF inv] acc in \<open>auto simp: accept_next_def session_new_def Let_def asio_documentedD [OF doc]
         unused_def duplex_inv_def duplex_shape_def duplex_data_def waiting_def\<close>)
qed

lemma step_accepted:
  assumes doc: "asio_documented A view" and inv: "pp_inv view w" and acc: "av_accepts (view (lib w)) = xs @ p # ys"
    and a: "view a = new_stream p ((view (lib w))\<lparr>av_accepts := xs @ ys\<rparr>)"
  shows "\<exists>w'. handle_accept A junk p False (w\<lparr>lib := a\<rparr>) = Inr w' \<and> pp_inv view w'"
proof -
  have "p \<in> set (av_accepts (view (lib w)))" and [simp]: "xs = []" "ys = []"
    using acc pp_inv_rest [OF inv] by auto
  with pp_invD [OF inv, of p] obtain s where s: "sessions w p = Some s"
    "unused (av_stream (view (lib w)) p) (count_list (av_posts (view (lib w))) p)" "op_count s = 0" "unsent_count s = 0"
    "duplex_inv [] p s (bufs w) ((av_stream (view (lib w)) p)\<lparr>bytes_in := [], bytes_out := []\<rparr>)"
    by (cases "sessions w p") auto
  obtain err a1 where nd: "asio_no_delay A p a = (err, a1)" by force
  have a1: "view a1 = view a" using asio_documentedD(1) [OF doc, of p a] nd by simp
  let ?w = "if err then w\<lparr>lib := asio_post A p a1\<rparr>
    else put_session p (s\<lparr>op_count := 1\<rparr>) (w\<lparr>lib := asio_read_some A p (read_data s) (block_size s) a1\<rparr>)"
  have start: "session_start A p (w\<lparr>lib := a\<rparr>) = Inr ?w"
    using s nd by (simp add: session_start_def)
  have "pp_inv view ?w"
  proof (rule pp_inv_frame [OF inv, of p])
    show "obj_inv p (sessions ?w p) (bufs ?w) (av_stream (view (lib ?w)) p) (count_list (av_posts (view (lib ?w))) p)
      (p \<in> set (av_accepts (view (lib ?w))))"
      using s a a1 acc by (auto simp: asio_documentedD [OF doc] new_stream_def add_read_def running_def unused_def
          duplex_inv_def duplex_shape_def duplex_data_def waiting_def)
  qed (use a a1 acc pp_inv_rest [OF inv] s(1) in \<open>auto simp: asio_documentedD [OF doc] new_stream_def add_read_def\<close>)
  moreover have "av_accepts (view (lib ?w)) = []"
    using a a1 by (simp add: asio_documentedD [OF doc] new_stream_def add_read_def)
  ultimately have "pp_inv view (accept_next A junk ?w)"
    by (rule accept_next_inv [OF doc])
  with start show ?thesis by (simp add: handle_accept_def)
qed

lemma server_step_inv:
  assumes doc: "asio_documented A view" and inv: "pp_inv view w"
  shows "\<exists>w'. server_step A junk w = Inr w' \<and> pp_inv view w'"
proof -
  obtain c m a where next_: "asio_next A (bufs w) (lib w) = (c, m, a)" by (cases "asio_next A (bufs w) (lib w)")
  have ok: "buffers_ok (bufs w) (av_stream (view (lib w)) p)" for p
    using pp_invD [OF inv, of p] by (rule obj_inv_buffers_ok)
  have "\<exists>w'. server_handler A junk c (w\<lparr>lib := a, bufs := m\<rparr>) = Inr w' \<and> pp_inv view w'"
    using asio_nextD [OF doc next_ ok]
  proof cases
    case idle
    then show ?thesis using inv by (simp add: pp_inv_def)
  next
    case (stream p ev st)
    then show ?thesis
      using step_quiet [OF inv, of p m st a] step_read [OF doc inv, of p _ _ m st a]
        step_write [OF doc inv, of p _ _ m st a]
      by (cases ev) auto
  next
    case (posted xs p ys)
    then show ?thesis using step_posted [OF inv, of xs p ys a] by simp
  next
    case (accepted xs p ys)
    then show ?thesis using step_accepted [OF doc inv, of xs p ys a junk] by simp
  next
    case (accept_failed xs p ys)
    then show ?thesis using step_accept_failed [OF inv, of xs p ys a] by (simp add: handle_accept_def)
  qed (use pp_inv_rest [OF inv] in auto)
  with next_ show ?thesis by (simp add: server_step_def)
qed

lemma server_new_inv:
  assumes doc: "asio_documented A view" and a: "view a = idle_view"
  shows "pp_inv view (server_new A junk n a)"
  unfolding server_new_def
proof (rule accept_next_inv [OF doc])
  show "pp_inv view \<lparr>lib = a, bufs = Map.empty, sessions = Map.empty, next_obj = 0, srv_block_size = n\<rparr>"
    using a by (simp add: pp_inv_def unused_def idle_view_def idle_stream_def)
qed (use a in \<open>simp add: idle_view_def\<close>)

lemma server_events_inv:
  assumes doc: "asio_documented A view" and inv: "pp_inv view w"
  shows "\<exists>w'. server_events k A junk w = Inr w' \<and> pp_inv view w'"
  using inv
proof (induction k arbitrary: w)
  case (Suc k)
  from server_step_inv [OF doc Suc.prems, of junk] obtain w1 where "server_step A junk w = Inr w1" "pp_inv view w1" by blast
  with Suc.IH [of w1] show ?case by simp
qed auto

lemma obj_inv_safe:
  assumes "obj_inv p so m st due accepting"
  shows "case so of
      None \<Rightarrow> rd_ops st = [] \<and> wr_ops st = [] \<and> due = 0 \<and> \<not> accepting
    | Some s \<Rightarrow> read_data s \<noteq> write_data s \<and> length (rd_ops st) \<le> 1 \<and> length (wr_ops st) \<le> 1 \<and>
        (\<forall>b m. Reading b m \<in> set (rd_ops st) \<longrightarrow> b = read_data s) \<and>
        (\<forall>b m j. Writing b m j \<in> set (wr_ops st) \<longrightarrow> b = write_data s) \<and>
        op_count s = int (length (rd_ops st) + length (wr_ops st)) \<and>
        due = (if op_count s = 0 \<and> \<not> accepting then 1 else 0)"
proof (cases so)
  case (Some s)
  with assms have "duplex_shape p s m st \<or> accepting \<and> unused st due \<and> op_count s = 0 \<and> read_data s \<noteq> write_data s"
    "accepting \<or> running p s m st due"
    by (auto simp: running_def duplex_inv_def duplex_shape_def split: if_splits)
  with Some assms show ?thesis
    by (cases accepting) (auto simp: running_def unused_def duplex_shape_def)
qed (use assms in \<open>simp add: unused_def\<close>)

lemma obj_inv_prefix: "obj_inv p so m st due accepting \<Longrightarrow> prefix (bytes_out st) (bytes_in st)"
  using duplex_inv_prefix [of "[]" p _ m st] by (cases so) (auto simp: running_def unused_def split: if_splits)

section \<open>Properties\<close>

text \<open>
  C8. The ping-pong server, for any sequence of accepted connections, data, completions and
  failures that the library produces: no handler runs for a deleted session, and a deleted
  session has no operation under way and no deletion due. A session that has been started
  has at most one read and one write under way, on different buffers; \<open>op_count_\<close> is the number
  of its operations under way; and it is posted for deletion exactly when there is none, so
  it is deleted once and not forgotten. At most one session waits to be accepted.
\<close>

theorem sessions_safe:
  assumes doc: "asio_documented A view" and a: "view a = idle_view"
  shows "\<exists>w. server_events k A junk (server_new A junk n a) = Inr w \<and>
    length (av_accepts (view (lib w))) \<le> 1 \<and>
    (\<forall>p. let st = av_stream (view (lib w)) p; due = count_list (av_posts (view (lib w))) p;
            accepting = (p \<in> set (av_accepts (view (lib w))))
      in case sessions w p of
           None \<Rightarrow> rd_ops st = [] \<and> wr_ops st = [] \<and> due = 0 \<and> \<not> accepting
         | Some s \<Rightarrow> read_data s \<noteq> write_data s \<and> length (rd_ops st) \<le> 1 \<and> length (wr_ops st) \<le> 1 \<and>
             (\<forall>b m. Reading b m \<in> set (rd_ops st) \<longrightarrow> b = read_data s) \<and>
             (\<forall>b m j. Writing b m j \<in> set (wr_ops st) \<longrightarrow> b = write_data s) \<and>
             op_count s = int (length (rd_ops st) + length (wr_ops st)) \<and>
             due = (if op_count s = 0 \<and> \<not> accepting then 1 else 0))"
proof -
  obtain w where w: "server_events k A junk (server_new A junk n a) = Inr w" "pp_inv view w"
    using server_events_inv [OF doc server_new_inv [OF doc a]] by blast
  with obj_inv_safe [OF pp_invD [OF w(2)]] pp_inv_rest(1) [OF w(2)] show ?thesis
    by (simp add: Let_def)
qed

text \<open>A client connects and sends two bytes; the server sends them back; the client closes.\<close>

definition sample_script :: "script_entry list" where
  "sample_script = [SAccept False, SRecv 0 [7, 8], SReadEnd 0, SSend 0, SWriteEnd 0, SReadEnd 0, SPosted]"

lemma sample_events:
  "case server_events 5 script_asio (\<lambda>_. 0) (server_new script_asio (\<lambda>_. 0) 4 (idle_view, sample_script)) of
     Inl e \<Rightarrow> False
   | Inr w \<Rightarrow> bytes_in (av_stream (fst (lib w)) 0) = [7, 8] \<and> rd_ops (av_stream (fst (lib w)) 0) = [Reading (0, True) 4] \<and>
       map_option unsent_count (sessions w 0) = Some 0 \<and> map_option op_count (sessions w 0) = Some 1 \<and>
       av_accepts (fst (lib w)) = [1]"
  by code_simp

theorem sessions_safe_witness:
  "\<exists>w s. server_events 5 script_asio (\<lambda>_. 0) (server_new script_asio (\<lambda>_. 0) 4 (idle_view, sample_script)) = Inr w \<and>
     sessions w 0 = Some s \<and> op_count s = 1 \<and> length (rd_ops (av_stream (fst (lib w)) 0)) = 1 \<and>
     wr_ops (av_stream (fst (lib w)) 0) = [] \<and> 0 \<notin> set (av_posts (fst (lib w)))"
proof -
  have "fst (idle_view, sample_script) = idle_view" by simp
  from sessions_safe [OF script_documented this, of 5 "\<lambda>_. 0" 4] obtain w where
    w: "server_events 5 script_asio (\<lambda>_. 0) (server_new script_asio (\<lambda>_. 0) 4 (idle_view, sample_script)) = Inr w"
    "\<forall>p. case sessions w p of
           None \<Rightarrow> True
         | Some s \<Rightarrow> op_count s = int (length (rd_ops (av_stream (fst (lib w)) p)) + length (wr_ops (av_stream (fst (lib w)) p))) \<and>
             count_list (av_posts (fst (lib w))) p = (if op_count s = 0 \<and> p \<notin> set (av_accepts (fst (lib w))) then 1 else 0)"
    by (force simp: Let_def split: option.splits)
  from sample_events w(1) obtain s where s: "sessions w 0 = Some s" "op_count s = 1"
    "rd_ops (av_stream (fst (lib w)) 0) = [Reading (0, True) 4]" by auto
  with w(2) [rule_format, of 0] have "wr_ops (av_stream (fst (lib w)) 0) = []" "count_list (av_posts (fst (lib w))) 0 = 0"
    by simp_all
  with w(1) s show ?thesis by (auto simp: count_list_0_iff)
qed

text \<open>
  C9. At every moment of every session of the ping-pong server, living or deleted, the bytes sent are
  a prefix of the bytes received: nothing is lost in the middle, repeated or reordered by the
  two buffers that trade places, however reads and writes overlap. Whenever a started session
  has nothing left to send and the data that arrived has been handed to it, all that was
  received has been sent.
\<close>

theorem session_echoes_in_order:
  assumes doc: "asio_documented A view" and a: "view a = idle_view"
    and run: "server_events k A junk (server_new A junk n a) = Inr w"
  shows "prefix (bytes_out (av_stream (view (lib w)) p)) (bytes_in (av_stream (view (lib w)) p)) \<and>
    (\<forall>s. sessions w p = Some s \<and> p \<notin> set (av_accepts (view (lib w))) \<and> unsent_count s = 0 \<and>
       (\<forall>m. ReadOver m \<notin> set (rd_ops (av_stream (view (lib w)) p))) \<longrightarrow>
       bytes_out (av_stream (view (lib w)) p) = bytes_in (av_stream (view (lib w)) p))"
proof -
  have "pp_inv view w"
    using server_events_inv [OF doc server_new_inv [OF doc a, of junk n], of k junk] run by auto
  note o = pp_invD [OF this, of p]
  have "bytes_out (av_stream (view (lib w)) p) = bytes_in (av_stream (view (lib w)) p)"
    if "sessions w p = Some s" "p \<notin> set (av_accepts (view (lib w)))" "unsent_count s = 0"
      "\<forall>m. ReadOver m \<notin> set (rd_ops (av_stream (view (lib w)) p))" for s
    using o that by (auto simp: running_def duplex_inv_def duplex_shape_def duplex_data_def waiting_def)
  with obj_inv_prefix [OF o] show ?thesis by blast
qed

theorem session_echoes_in_order_witness:
  "\<exists>w. server_events 5 script_asio (\<lambda>_. 0) (server_new script_asio (\<lambda>_. 0) 4 (idle_view, sample_script)) = Inr w \<and>
     bytes_out (av_stream (fst (lib w)) 0) = [7, 8]"
proof -
  have "fst (idle_view, sample_script) = idle_view" by simp
  note echo = session_echoes_in_order [OF script_documented this, of 5 "\<lambda>_. 0" 4 _ 0]
  show ?thesis
    using sample_events echo by (auto split: sum.splits)
qed

end
