(* ===== verification/Pingpong.thy ===== *)
theory Pingpong
  imports Pingpong_Client Pingpong_Server
begin

text \<open>
  The two programs of \<^verbatim>\<open>example/asio/pingpong\<close> together. The contract of a session, client or
  server, is that of a relay: it sends its first block and then what it receives, in order.
  The locale \<open>ping_pong\<close> puts two relays at the ends of a connection; it is interpreted on the
  sessions of the two programs.
\<close>

locale relay =
  fixes reach :: "'s \<Rightarrow> bool" and sent received :: "'s \<Rightarrow> byte list" and init :: "byte list"
  assumes relays: "reach s \<Longrightarrow> prefix (sent s) (init @ received s)"

locale ping_pong =
  client: relay reach_c sent_c received_c init + server: relay reach_s sent_s received_s "[]"
  for reach_c :: "'c \<Rightarrow> bool" and sent_c received_c init and reach_s :: "'s \<Rightarrow> bool" and sent_s received_s
begin

text \<open>A connection delivers to each side a prefix of what the other has sent.\<close>

lemma round_trip:
  assumes "reach_c c" and "reach_s s" and "prefix (received_s s) (sent_c c)" and "prefix (received_c c) (sent_s s)"
  shows "prefix (received_c c) (init @ received_c c)"
proof -
  have "prefix (received_c c) (received_s s)"
    using assms(4) server.relays [OF assms(2)] by (simp add: prefix_order.trans)
  also have "prefix (received_s s) (init @ received_c c)"
    using assms(3) client.relays [OF assms(1)] by (rule prefix_order.trans)
  finally show ?thesis .
qed

lemma cyclic:
  assumes "reach_c c" and "reach_s s" and "prefix (received_s s) (sent_c c)" and "prefix (received_c c) (sent_s s)"
    and "init \<noteq> []" and "i < length (received_c c)"
  shows "received_c c ! i = init ! (i mod length init)"
  using assms(6)
proof (induction i rule: less_induct)
  case (less i)
  obtain zs where "init @ received_c c = received_c c @ zs"
    using round_trip [OF assms(1-4)] by (auto simp: prefix_def)
  then have "received_c c ! i = (init @ received_c c) ! i"
    using less.prems by (simp add: nth_append)
  also have "\<dots> = init ! (i mod length init)"
  proof (cases "i < length init")
    case False
    moreover have "0 < length init" using assms(5) by simp
    ultimately have "received_c c ! (i - length init) = init ! ((i - length init) mod length init)"
      using less.prems by (intro less.IH) linarith+
    with False show ?thesis by (simp add: nth_append le_mod_geq)
  qed (simp add: nth_append)
  finally show ?case .
qed

end

text \<open>The sessions of the two programs: an observer, a state that the program reaches and the session in it.\<close>

definition client_conn :: "size_t \<Rightarrow> ('a \<Rightarrow> asio_view) \<times> 'a pp_client \<times> obj \<Rightarrow> bool" where
  "client_conn n = (\<lambda>(view, w, p). \<exists>A a junk es count timeout k w0. asio_documented A view \<and> view a = idle_view \<and> es \<noteq> [] \<and>
     client_new A junk es n count timeout a = Inr w0 \<and> client_events k A w0 = Inr w)"

definition server_conn :: "('a \<Rightarrow> asio_view) \<times> 'a pp_server \<times> obj \<Rightarrow> bool" where
  "server_conn = (\<lambda>(view, w, p). \<exists>A a junk n k. asio_documented A view \<and> view a = idle_view \<and>
     server_events k A junk (server_new A junk n a) = Inr w)"

interpretation pp: ping_pong "client_conn n" "\<lambda>(view, w, p). bytes_out (av_stream (view (cl_lib w)) p)"
    "\<lambda>(view, w, p). bytes_in (av_stream (view (cl_lib w)) p)" "first_block n"
    server_conn "\<lambda>(view, w, p). bytes_out (av_stream (view (lib w)) p)"
    "\<lambda>(view, w, p). bytes_in (av_stream (view (lib w)) p)" for n
proof unfold_locales
  fix s :: "('a \<Rightarrow> asio_view) \<times> 'a pp_client \<times> obj"
  assume "client_conn n s"
  then obtain view w p A a junk es count timeout k w0 where s: "s = (view, w, p)" "asio_documented A view" "view a = idle_view" "es \<noteq> []"
    "client_new A junk es n count timeout a = Inr w0" "client_events k A w0 = Inr w"
    by (auto simp: client_conn_def)
  then have "pc_inv view n w"
    using client_new_inv [of A view a es junk n count timeout] client_events_inv [of A view n w0 k] by auto
  from cli_inv_prefix [OF pc_invD [OF this, of p]] s(1)
  show "prefix ((\<lambda>(view, w, p). bytes_out (av_stream (view (cl_lib w)) p)) s)
      (first_block n @ (\<lambda>(view, w, p). bytes_in (av_stream (view (cl_lib w)) p)) s)" by simp
next
  fix s :: "('b \<Rightarrow> asio_view) \<times> 'b pp_server \<times> obj"
  assume "server_conn s"
  then obtain view w p A a junk n k where s: "s = (view, w, p)" "asio_documented A view" "view a = idle_view"
    "server_events k A junk (server_new A junk n a) = Inr w"
    by (auto simp: server_conn_def)
  then have "pp_inv view w"
    using server_events_inv [OF s(2) server_new_inv [OF s(2,3)], of k junk junk n] by auto
  from obj_inv_prefix [OF pp_invD [OF this, of p]] s(1)
  show "prefix ((\<lambda>(view, w, p). bytes_out (av_stream (view (lib w)) p)) s)
      ([] @ (\<lambda>(view, w, p). bytes_in (av_stream (view (lib w)) p)) s)" by simp
qed

text \<open>
  C11. A session of the ping-pong client connected to a session of the ping-pong server, each
  program with its own library, with its own block size and at any point of its execution: if
  the connection delivers to each side a prefix of what the other side has sent, then the
  \<open>i\<close>-th byte that the client has received is \<open>i mod block_size mod 128\<close>, the byte of the first
  block that belongs there: the block goes round and round unchanged.
\<close>

theorem pingpong_bytes:
  assumes c: "asio_documented A view" "view a = idle_view" "es \<noteq> []"
      "client_new A junk es n count timeout a = Inr w0" "client_events k A w0 = Inr w"
    and s: "asio_documented B view'" "view' b = idle_view"
      "server_events k' B junk' (server_new B junk' n' b) = Inr w'"
    and tcp: "prefix (bytes_in (av_stream (view' (lib w')) q)) (bytes_out (av_stream (view (cl_lib w)) p))"
      "prefix (bytes_in (av_stream (view (cl_lib w)) p)) (bytes_out (av_stream (view' (lib w')) q))"
    and i: "0 < n" "i < length (bytes_in (av_stream (view (cl_lib w)) p))"
  shows "bytes_in (av_stream (view (cl_lib w)) p) ! i = of_nat (i mod n mod 128)"
proof -
  have "client_conn n (view, w, p)" "server_conn (view', w', q)"
    unfolding client_conn_def server_conn_def using c s by blast+
  from pp.cyclic [OF this, of i] tcp i
  have "bytes_in (av_stream (view (cl_lib w)) p) ! i = first_block n ! (i mod length (first_block n))"
    by (simp add: first_block_def)
  with i(1) show ?thesis by (simp add: first_block_def)
qed

text \<open>The client of \<open>cli_script\<close> and a server that returned its block.\<close>

definition srv_script :: "script_entry list" where
  "srv_script = [SAccept False, SRecv 0 [0, 1], SReadEnd 0, SSend 0]"

lemma srv_sample:
  "case server_events 4 script_asio (\<lambda>_. 0) (server_new script_asio (\<lambda>_. 0) 4 (idle_view, srv_script)) of
     Inl e \<Rightarrow> False
   | Inr w \<Rightarrow> bytes_in (av_stream (fst (lib w)) 0) = [0, 1] \<and> bytes_out (av_stream (fst (lib w)) 0) = [0, 1]"
  by code_simp

theorem pingpong_bytes_witness:
  "\<exists>w. rbind (client_new script_asio (\<lambda>_. 0) [5, 6] 2 1 10 (idle_view, cli_script)) (client_events 6 script_asio) = Inr w \<and>
     bytes_in (av_stream (fst (cl_lib w)) 0) ! 1 = of_nat (1 mod 2 mod 128)"
proof -
  obtain w0 w where w: "client_new script_asio (\<lambda>_. 0) [5, 6] 2 1 10 (idle_view, cli_script) = Inr w0"
    "client_events 6 script_asio w0 = Inr w" "bytes_in (av_stream (fst (cl_lib w)) 0) = [0, 1]"
    "bytes_out (av_stream (fst (cl_lib w)) 0) = [0, 1]"
    using cli_sample by (auto split: sum.splits simp: rbind_def)
  obtain v where v: "server_events 4 script_asio (\<lambda>_. 0) (server_new script_asio (\<lambda>_. 0) 4 (idle_view, srv_script)) = Inr v"
    "bytes_in (av_stream (fst (lib v)) 0) = [0, 1]" "bytes_out (av_stream (fst (lib v)) 0) = [0, 1]"
    using srv_sample by (auto split: sum.splits)
  have "bytes_in (av_stream (fst (cl_lib w)) 0) ! 1 = of_nat (1 mod 2 mod 128)"
    by (rule pingpong_bytes [OF script_documented _ _ w(1,2) script_documented _ v(1), where q = 0]) (use w v in simp_all)
  with w(1,2) show ?thesis by auto
qed

end
