(* ===== verification/Pingpong_Main.thy ===== *)
theory Pingpong_Main
  imports Pingpong Time_Stamp
begin

text \<open>
  The \<open>main\<close> functions of \<^verbatim>\<open>example/asio/pingpong/server.cpp\<close> and \<^verbatim>\<open>client.cpp\<close>, with the constructor of the
  server: reading the arguments, exceptions, the threads, the output and the exit code. The
  conversion of the address, the name resolution, the calls on the acceptor and the size of
  the arrays that can be allocated are parameters. \<open>io_service::run\<close>, called by all threads, is the
  execution of \<open>k\<close> handlers one after another; \<open>k\<close> is arbitrary.
\<close>

section \<open>atoi\<close>

text \<open>As in glibc: \<open>strtol\<close> with base 10, which stays within the range of \<open>long\<close>, converted to \<open>int\<close>.\<close>

definition is_space :: "char \<Rightarrow> bool" where
  "is_space c \<longleftrightarrow> (of_char c :: nat) = 32 \<or> 9 \<le> (of_char c :: nat) \<and> (of_char c :: nat) \<le> 13"

definition is_digit :: "char \<Rightarrow> bool" where
  "is_digit c \<longleftrightarrow> 48 \<le> (of_char c :: nat) \<and> (of_char c :: nat) \<le> 57"

definition strtol :: "string \<Rightarrow> int" where
  "strtol s =
     (let t = dropWhile is_space s;
          neg = (t \<noteq> [] \<and> hd t = CHR ''-'');
          u = (if t \<noteq> [] \<and> (hd t = CHR ''-'' \<or> hd t = CHR ''+'') then tl t else t);
          v = int (dec_value (takeWhile is_digit u))
      in max (- (2 ^ 63)) (min (2 ^ 63 - 1) (if neg then - v else v)))"

definition atoi :: "string \<Rightarrow> int" where
  "atoi s = to_int32 (strtol s)"

text \<open>The conversion of an \<open>int\<close> to \<open>size_t\<close>, and of an \<open>int\<close> through \<open>short\<close> to \<open>unsigned short\<close>.\<close>

definition to_size_t :: "int \<Rightarrow> size_t" where
  "to_size_t i = nat (i mod 2 ^ 64)"

definition to_port :: "int \<Rightarrow> nat" where
  "to_port i = nat (i mod 2 ^ 16)"

section \<open>Threads\<close>

text \<open>
  \<open>while (--thread_count > 0)\<close>: the threads started, numbered from 1. Decrementing the least \<open>int\<close> is
  undefined.
\<close>

function start_loop :: "int \<Rightarrow> nat list \<Rightarrow> nat list res" where
  "start_loop thread_count threads =
     (if thread_count = - (2 ^ 31) then Inl Overflow
      else if thread_count - 1 > 0 then start_loop (thread_count - 1) (threads @ [length threads + 1])
      else Inr threads)"
  by pat_completeness auto
termination
  by (relation "measure (\<lambda>(n, _). nat n)") auto

declare start_loop.simps [simp del]

text \<open>\<open>while (!threads.empty())\<close>: join the first one and take it off; \<open>joined\<close> are those joined so far.\<close>

fun join_loop :: "nat list \<Rightarrow> nat list \<Rightarrow> nat list" where
  "join_loop [] joined = joined"
| "join_loop (t # ts) joined = join_loop ts (joined @ [t])"

section \<open>The server\<close>

text \<open>
  The calls on the acceptor that the constructor makes; each may throw an exception, of which
  the text is given. \<open>open\<close> gets the protocol through the address.
\<close>

record 'a acceptor_ops =
  acc_open :: "nat \<Rightarrow> 'a \<Rightarrow> string option \<times> 'a"
  acc_reuse_address :: "'a \<Rightarrow> string option \<times> 'a"
  acc_bind :: "nat \<Rightarrow> nat \<Rightarrow> 'a \<Rightarrow> string option \<times> 'a"
  acc_listen :: "'a \<Rightarrow> string option \<times> 'a"

type_synonym 'a exc = "string + 'a"

definition attempt :: "string option \<times> 'a \<Rightarrow> ('a \<Rightarrow> 'b exc) \<Rightarrow> 'b exc" where
  "attempt r f = (case fst r of Some what \<Rightarrow> Inl what | None \<Rightarrow> f (snd r))"

definition server_ctor ::
  "'a asio \<Rightarrow> 'a acceptor_ops \<Rightarrow> (size_t \<Rightarrow> bool) \<Rightarrow> (nat \<Rightarrow> byte) \<Rightarrow> nat \<Rightarrow> nat \<Rightarrow> size_t \<Rightarrow> 'a \<Rightarrow> 'a pp_server exc" where
  "server_ctor A ops can_new junk address port n a =
     attempt (acc_open ops address a) (\<lambda>a1.
     attempt (acc_reuse_address ops a1) (\<lambda>a2.
     attempt (acc_bind ops address port a2) (\<lambda>a3.
     attempt (acc_listen ops a3) (\<lambda>a4.
     if can_new n then Inr (server_new A junk n a4) else Inl ''std::bad_alloc''))))"

text \<open>How a program ends: its exit code, what it wrote to \<open>cerr\<close>, the threads started and joined, its last state.\<close>

record 'w prog_end =
  exit_code :: int
  err_out :: "string list"
  started :: "nat list"
  joined :: "nat list"
  last_state :: "'w option"

definition caught :: "string \<Rightarrow> 'w prog_end" where
  "caught what = \<lparr>exit_code = 0, err_out = [''Exception: '' @ what @ [CHR 0x0A]], started = [], joined = [], last_state = None\<rparr>"

definition server_main ::
  "'a asio \<Rightarrow> 'a acceptor_ops \<Rightarrow> (string \<Rightarrow> nat exc) \<Rightarrow> (size_t \<Rightarrow> bool) \<Rightarrow> (nat \<Rightarrow> byte) \<Rightarrow> nat \<Rightarrow> string list \<Rightarrow> 'a \<Rightarrow>
     'a pp_server prog_end res" where
  "server_main A ops from_string can_new junk k argv a =
     (if length argv \<noteq> 5 then
        Inr \<lparr>exit_code = 1, err_out = [''Usage: server <address> <port> <threads> <blocksize>'' @ [CHR 0x0A]],
             started = [], joined = [], last_state = None\<rparr>
      else case from_string (argv ! 1) of
        Inl what \<Rightarrow> Inr (caught what)
      | Inr address \<Rightarrow>
          let port = to_port (atoi (argv ! 2)); thread_count = atoi (argv ! 3); n = to_size_t (atoi (argv ! 4))
          in case server_ctor A ops can_new junk address port n a of
               Inl what \<Rightarrow> Inr (caught what)
             | Inr w \<Rightarrow>
                 rbind (start_loop thread_count []) (\<lambda>threads.
                 rbind (server_events k A junk w) (\<lambda>w'.
                 Inr \<lparr>exit_code = 0, err_out = [], started = threads, joined = join_loop threads [], last_state = Some w'\<rparr>)))"

section \<open>The client\<close>

text \<open>The destructor of the client runs at the end of the block, after the threads have been joined.\<close>

definition client_main ::
  "'a asio \<Rightarrow> (string \<Rightarrow> string \<Rightarrow> nat list exc) \<Rightarrow> (size_t \<Rightarrow> bool) \<Rightarrow> (nat \<Rightarrow> byte) \<Rightarrow> nat \<Rightarrow> string list \<Rightarrow> 'a \<Rightarrow>
     'a pp_client prog_end res" where
  "client_main A resolve can_new junk k argv a =
     (if length argv \<noteq> 7 then
        Inr \<lparr>exit_code = 1, err_out = [''Usage: client <host> <port> <threads> <blocksize> '', ''<sessions> <time>'' @ [CHR 0x0A]],
             started = [], joined = [], last_state = None\<rparr>
      else
        let thread_count = atoi (argv ! 3); n = to_size_t (atoi (argv ! 4));
            session_count = to_size_t (atoi (argv ! 5)); timeout = atoi (argv ! 6)
        in case resolve (argv ! 1) (argv ! 2) of
             Inl what \<Rightarrow> Inr (caught what)
           | Inr endpoints \<Rightarrow>
               if 0 < session_count \<and> \<not> can_new n then Inr (caught ''std::bad_alloc'')
               else
                 rbind (client_new A junk endpoints n session_count timeout a) (\<lambda>w.
                 rbind (start_loop thread_count []) (\<lambda>threads.
                 rbind (client_events k A w) (\<lambda>w1.
                 rbind (client_dtor w1) (\<lambda>w2.
                 Inr \<lparr>exit_code = 0, err_out = [], started = threads, joined = join_loop threads [], last_state = Some w2\<rparr>)))))"

section \<open>Lemmas\<close>

lemma start_loop_eq: "- (2 ^ 31) < n \<Longrightarrow> start_loop n ts = Inr (ts @ [length ts + 1..<length ts + nat n])"
proof (induction n ts rule: start_loop.induct)
  case (1 n ts)
  show ?case
  proof (cases "n - 1 > 0")
    case True
    then have "[length ts + 1..<length ts + nat n] = (length ts + 1) # [length ts + 2..<length ts + nat n]"
      using upt_conv_Cons [of "length ts + 1" "length ts + nat n"] by simp
    moreover have "nat n = Suc (nat (n - 1))" using True by simp
    ultimately show ?thesis
      using 1 True by (simp add: start_loop.simps [of n])
  next
    case False
    then have "nat n \<le> 1" by simp
    then show ?thesis using 1(2) False by (simp add: start_loop.simps [of n])
  qed
qed

lemma join_loop_eq: "join_loop ts js = js @ ts"
  by (induction ts js rule: join_loop.induct) simp_all

lemma atoi_dec:
  assumes "n < 2 ^ 31"
  shows "atoi (dec_nat n) = int n"
proof -
  have d: "\<forall>c \<in> set (dec_nat n). is_digit c"
    by (auto simp: is_digit_def dest: dec_nat_digits)
  have "dec_nat n \<noteq> []" by (simp add: dec_nat.simps [of n])
  then obtain c cs where c: "dec_nat n = c # cs" by (cases "dec_nat n") auto
  then have "\<not> is_space c" "c \<noteq> CHR ''-''" "c \<noteq> CHR ''+''"
    using d by (auto simp: is_digit_def is_space_def)
  moreover have "takeWhile is_digit (c # cs) = c # cs"
    using d c by (simp add: takeWhile_eq_all_conv)
  moreover have "dec_value (c # cs) = n" using dec_value_dec_nat [of n] c by simp
  moreover have "strtol (c # cs) = max (- (2 ^ 63)) (min (2 ^ 63 - 1) (int (dec_value (takeWhile is_digit (c # cs)))))"
    using calculation(1-3) by (simp add: strtol_def Let_def del: takeWhile.simps)
  ultimately have "strtol (dec_nat n) = max (- (2 ^ 63)) (min (2 ^ 63 - 1) (int n))"
    by (simp only: c)
  then have "strtol (dec_nat n) = int n" using assms by simp
  then show ?thesis
    using assms by (simp add: atoi_def to_int32_exact)
qed

text \<open>The calls on the acceptor concern neither the sessions nor what is under way for them.\<close>

definition acceptor_documented :: "'a acceptor_ops \<Rightarrow> ('a \<Rightarrow> asio_view) \<Rightarrow> bool" where
  "acceptor_documented ops view \<longleftrightarrow> (\<forall>a address port.
     view (snd (acc_open ops address a)) = view a \<and> view (snd (acc_reuse_address ops a)) = view a \<and>
     view (snd (acc_bind ops address port a)) = view a \<and> view (snd (acc_listen ops a)) = view a)"

lemma server_ctor_idle:
  assumes "acceptor_documented ops view" and "view a = idle_view"
    and "server_ctor A ops can_new junk address port n a = Inr w"
  shows "\<exists>b. view b = idle_view \<and> w = server_new A junk n b \<and> can_new n"
  using assms by (intro exI [of _ "snd (acc_listen ops (snd (acc_bind ops address port (snd (acc_reuse_address ops (snd (acc_open ops address a)))))))"])
    (auto simp: server_ctor_def attempt_def acceptor_documented_def split: option.splits if_splits)

section \<open>Properties\<close>


definition sample_acceptor :: "(asio_view \<times> script_entry list) acceptor_ops" where
  "sample_acceptor = \<lparr>acc_open = (\<lambda>_ a. (None, a)), acc_reuse_address = (\<lambda>a. (None, a)), acc_bind = (\<lambda>_ _ a. (None, a)),
     acc_listen = (\<lambda>a. (None, a))\<rparr>"




end
