(* ===== verification/Pingpong_Types.thy ===== *)
theory Pingpong_Types
  imports Pingpong
begin

text \<open>
  What the members of the two classes \<open>session\<close> of \<^verbatim>\<open>example/asio/pingpong\<close> can hold: the pointers
  point to the two arrays of the session, the lengths fit into them, the counters stay in
  the range of their types, and the arrays that are allocated are those of the living sessions.
\<close>

section \<open>Well-formed sessions\<close>

text \<open>
  A session at \<open>p\<close> with arrays of \<open>n\<close> bytes, the memory, and what is under way on its connection: every
  operation works inside its own array.
\<close>

definition session_typed :: "size_t \<Rightarrow> obj \<Rightarrow> 'x duplex_scheme \<Rightarrow> memory \<Rightarrow> tcp_stream \<Rightarrow> bool" where
  "session_typed n p s m st \<longleftrightarrow> block_size s = n \<and> {read_data s, write_data s} = {(p, False), (p, True)} \<and>
     (\<forall>b. fst b = p \<longrightarrow> map_option length (m b) = Some n) \<and> read_data_length s \<le> n \<and> unsent_count s \<in> {0, 1, 2} \<and>
     (\<forall>x \<in> set (rd_ops st). case x of Reading b k \<Rightarrow> b = read_data s \<and> k = n | ReadOver k \<Rightarrow> k \<le> n) \<and>
     (\<forall>x \<in> set (wr_ops st). case x of Writing b k j \<Rightarrow> b = write_data s \<and> j \<le> k \<and> k \<le> n)"

lemma own_blocks: "fst a = p \<Longrightarrow> fst b = p \<Longrightarrow> a \<noteq> b \<Longrightarrow> {a, b} = {(p, False), (p, True)}"
  by (cases a; cases b) auto

lemma duplex_shape_own: "duplex_shape p s m st \<Longrightarrow> {read_data s, write_data s} = {(p, False), (p, True)}"
  by (rule own_blocks) (auto simp: duplex_shape_def)

lemma duplex_shape_typed:
  assumes "duplex_shape p s m st"
  shows "session_typed (block_size s) p s m st"
proof -
  note own = duplex_shape_own [OF assms]
  have "map_option length (m b) = Some (block_size s)" if "fst b = p" for b
  proof -
    have "b \<in> {(p, False), (p, True)}" using that by (cases b) auto
    then show ?thesis using assms unfolding own [symmetric] by (auto simp: duplex_shape_def)
  qed
  with own assms show ?thesis by (auto simp: session_typed_def duplex_shape_def)
qed

lemma asio_move_dom: "asio_move m v c m' v' \<Longrightarrow> dom m' = dom m"
  by (erule asio_moveE) (auto elim!: stream_moveE split: if_splits)

section \<open>The server\<close>

definition arena :: "size_t \<Rightarrow> 'a pp_server \<Rightarrow> bool" where
  "arena n w \<longleftrightarrow> srv_block_size w = n \<and> (\<forall>p s. sessions w p = Some s \<longrightarrow> block_size s = n) \<and>
     dom (bufs w) = {b. sessions w (fst b) \<noteq> None}"

lemma obj_inv_shape:
  assumes "obj_inv p (Some s) m st due accepting"
  shows "duplex_shape p s m st" and "op_count s \<in> {0, 1, 2}"
proof -
  show shape: "duplex_shape p s m st"
    using assms by (auto simp: running_def unused_def duplex_inv_def duplex_shape_def split: if_splits)
  have "length (rd_ops st) \<le> 1 \<and> length (wr_ops st) \<le> 1"
    using obj_inv_safe [OF assms] by simp
  moreover have "op_count s = int (length (rd_ops st) + length (wr_ops st))"
    using obj_inv_safe [OF assms] by simp
  ultimately show "op_count s \<in> {0, 1, 2}" by auto
qed

lemma get_session_eq: "get_session p w = Inr s \<longleftrightarrow> sessions w p = Some s"
  by (simp add: get_session_def split: option.splits)

lemma arena_accept_next: "arena n w \<Longrightarrow> arena n (accept_next A junk w)"
  by (auto simp: arena_def accept_next_def session_new_def Let_def)

lemma arena_delete:
  assumes "arena n w" and "session_delete p w = Inr w'"
    and own: "\<And>s. sessions w p = Some s \<Longrightarrow> {read_data s, write_data s} = {(p, False), (p, True)}"
  shows "arena n w'"
proof -
  from assms(2) obtain s where s: "sessions w p = Some s"
    and w': "w' = w\<lparr>bufs := (bufs w)(read_data s := None, write_data s := None), sessions := (sessions w)(p := None)\<rparr>"
    by (auto simp: session_delete_def res_simps get_session_eq)
  have "dom (bufs w') = dom (bufs w) - {read_data s, write_data s}" by (auto simp: w')
  also have "\<dots> = {b. sessions w' (fst b) \<noteq> None}"
    unfolding own [OF s] using assms(1) by (auto simp: arena_def w')
  finally show ?thesis using assms(1) by (auto simp: arena_def w')
qed

text \<open>The handlers of a session change neither the size of a session nor which sessions there are.\<close>

definition sizes :: "'a pp_server \<Rightarrow> size_t \<times> block set \<times> (obj \<Rightarrow> size_t option)" where
  "sizes w = (srv_block_size w, dom (bufs w), \<lambda>q. map_option block_size (sessions w q))"

lemma arena_cong: "sizes w' = sizes w \<Longrightarrow> arena n w \<Longrightarrow> arena n w'"
proof -
  assume eq: "sizes w' = sizes w" and ar: "arena n w"
  then have *: "map_option block_size (sessions w' q) = map_option block_size (sessions w q)" for q
    by (auto simp: sizes_def dest: fun_cong)
  then have "sessions w' q \<noteq> None \<longleftrightarrow> sessions w q \<noteq> None" for q
    by (metis option.map_disc_iff)
  moreover have "block_size s = n" if "sessions w' p = Some s" for p s
    using * [of p] that ar by (cases "sessions w p") (auto simp: arena_def)
  ultimately show ?thesis using eq ar by (simp add: arena_def sizes_def)
qed

lemma sizes_start: "session_start A p w = Inr w' \<Longrightarrow> sizes w' = sizes w"
  by (cases "asio_no_delay A p (lib w)"; cases "fst (asio_no_delay A p (lib w))"; cases "sessions w p")
    (auto simp: session_start_def get_session_def put_session_def sizes_def fun_eq_iff)

lemma sizes_rw:
  "srv_handle_read A p err len w = Inr w' \<Longrightarrow> sizes w' = sizes w"
  "srv_handle_write A p err w = Inr w' \<Longrightarrow> sizes w' = sizes w"
  by (auto simp: srv_handle_read_def srv_handle_write_def exchange_def res_simps get_session_eq Let_def
      put_session_def sizes_def fun_eq_iff split: prod.splits if_splits)

lemmas arena_rw = sizes_start [THEN arena_cong] sizes_rw [THEN arena_cong]

lemma arena_handler:
  assumes ar: "arena n w" and run: "server_handler A junk c w = Inr w'"
    and own: "\<And>p s. sessions w p = Some s \<Longrightarrow> {read_data s, write_data s} = {(p, False), (p, True)}"
  shows "arena n w'"
proof (cases c)
  case (OnAccept p err)
  with ar run own show ?thesis
    by (auto simp: handle_accept_def res_simps split: if_splits intro: arena_delete arena_accept_next arena_rw)
qed (use ar run own in \<open>auto intro: arena_delete arena_rw\<close>)

lemma arena_step:
  assumes doc: "asio_documented A view" and inv: "pp_inv view w" and ar: "arena n w" and run: "server_step A junk w = Inr w'"
  shows "arena n w'"
proof -
  obtain c m a where next_: "asio_next A (bufs w) (lib w) = (c, m, a)" by (metis surj_pair)
  have "dom m = dom (bufs w)"
    by (rule asio_move_dom [OF asio_nextD [OF doc next_]]) (rule obj_inv_buffers_ok [OF pp_invD [OF inv]])
  then have ar': "arena n (w\<lparr>lib := a, bufs := m\<rparr>)" using ar by (simp add: arena_def)
  show ?thesis
  proof (rule arena_handler [OF ar'])
    show "server_handler A junk c (w\<lparr>lib := a, bufs := m\<rparr>) = Inr w'"
      using run next_ by (simp add: server_step_def)
    fix p s
    assume "sessions (w\<lparr>lib := a, bufs := m\<rparr>) p = Some s"
    then have "duplex_shape p s (bufs w) (av_stream (view (lib w)) p)"
      using obj_inv_shape(1) pp_invD [OF inv, of p] by simp
    then show "{read_data s, write_data s} = {(p, False), (p, True)}"
      by (rule duplex_shape_own)
  qed
qed

lemma arena_events:
  assumes doc: "asio_documented A view" and "pp_inv view w" and "arena n w" and "server_events k A junk w = Inr w'"
  shows "pp_inv view w' \<and> arena n w'"
  using assms(2-)
proof (induction k arbitrary: w)
  case (Suc k)
  from Suc.prems(3) obtain w1 where w1: "server_step A junk w = Inr w1" "server_events k A junk w1 = Inr w'"
    by (auto simp: res_simps)
  moreover have "pp_inv view w1" using server_step_inv [OF doc Suc.prems(1), of junk] w1(1) by auto
  ultimately show ?case using Suc.IH arena_step [OF doc Suc.prems(1,2)] by blast
qed simp

section \<open>The client\<close>

definition cli_arena :: "'a pp_client \<Rightarrow> bool" where
  "cli_arena w \<longleftrightarrow> dom (cl_bufs w) = {b. cl_objs w (fst b) \<noteq> None}"

lemma cli_inv_shape: "cli_inv n p (Some s) m st c \<Longrightarrow> duplex_shape p s m st \<and> block_size s = n"
  by (auto simp: not_started_def duplex_inv_def)

lemma client_handler_bufs: "client_handler A c w = Inr w' \<Longrightarrow> cl_bufs w' = cl_bufs w"
proof (cases c)
  case OnTimer
  have "cl_bufs (fold (cli_stop A) ps v) = cl_bufs v" for ps v
    by (induction ps arbitrary: v) (simp_all add: cli_stop_def)
  then show "client_handler A c w = Inr w' \<Longrightarrow> cl_bufs w' = cl_bufs w"
    using OnTimer by (auto simp: handle_timeout_def)
qed (auto simp: cli_handle_read_def cli_handle_write_def close_socket_def handle_connect_def res_simps put_cli_def Let_def
    split: if_splits prod.splits list.splits)

lemma cli_arena_step:
  assumes doc: "asio_documented A view" and inv: "pc_inv view n w" and ar: "cli_arena w" and run: "client_step A w = Inr w'"
  shows "cli_arena w'"
proof -
  obtain c m a where next_: "asio_next A (cl_bufs w) (cl_lib w) = (c, m, a)" by (metis surj_pair)
  have dom: "dom m = dom (cl_bufs w)"
    by (rule asio_move_dom [OF asio_nextD [OF doc next_]]) (rule cli_inv_buffers_ok [OF pc_invD [OF inv]])
  have h: "client_handler A c (w\<lparr>cl_lib := a, cl_bufs := m\<rparr>) = Inr w'"
    using run next_ by (simp add: client_step_def)
  have "dom (cl_objs w') = dom (cl_objs w)"
    using handler_roster [OF h] by (simp add: roster_def)
  then have "cl_objs w' p = None \<longleftrightarrow> cl_objs w p = None" for p by (metis domIff)
  with client_handler_bufs [OF h] dom ar show ?thesis by (simp add: cli_arena_def)
qed

lemma cli_arena_events:
  assumes doc: "asio_documented A view" and "pc_inv view n w" and "cli_arena w" and "client_events k A w = Inr w'"
  shows "pc_inv view n w' \<and> cli_arena w'"
  using assms(2-)
proof (induction k arbitrary: w)
  case (Suc k)
  from Suc.prems(3) obtain w1 where w1: "client_step A w = Inr w1" "client_events k A w1 = Inr w'"
    by (auto simp: res_simps)
  moreover have "pc_inv view n w1" using client_step_inv [OF doc Suc.prems(1)] w1(1) by auto
  ultimately show ?case using Suc.IH cli_arena_step [OF doc Suc.prems(1,2)] by blast
qed simp

lemma make_sessions_arena: "make_sessions k A junk es n w = Inr w' \<Longrightarrow> cli_arena w \<Longrightarrow> cli_arena w'"
proof (induction k arbitrary: w)
  case (Suc k)
  obtain e es' where e: "es = e # es'"
    using Suc.prems(1) by (cases es) (auto simp: cli_start_def cli_session_new_def Let_def)
  let ?w = "(snd (cli_session_new junk n w))\<lparr>cl_lib := asio_connect A (cl_next w) e es' (cl_lib w), cl_sessions := cl_sessions w @ [cl_next w]\<rparr>"
  have "make_sessions k A junk es n ?w = Inr w'"
    using Suc.prems(1) by (simp add: e cli_session_new_def Let_def cli_start_def)
  moreover have "cli_arena ?w"
    using Suc.prems(2) by (auto simp: cli_arena_def cli_session_new_def Let_def)
  ultimately show ?case by (rule Suc.IH)
qed simp

lemma delete_sessions_arena:
  assumes "delete_sessions ps w = Inr w'" and "cli_arena w"
    and "\<And>p s. cl_objs w p = Some s \<Longrightarrow> {read_data s, write_data s} = {(p, False), (p, True)}"
  shows "cli_arena w'"
  using assms
proof (induction ps arbitrary: w)
  case Nil
  from Nil.prems(1) have "cl_bufs w' = cl_bufs w" "cl_objs w' = cl_objs w" by auto
  with Nil.prems(2) show ?case by (simp add: cli_arena_def)
next
  case (Cons p ps)
  from Cons.prems(1) obtain s w1 where s: "cl_objs w p = Some s" and rest: "delete_sessions ps w1 = Inr w'"
    and w1: "cl_bufs w1 = (cl_bufs w)(read_data s := None, write_data s := None)" "cl_objs w1 = (cl_objs w)(p := None)"
    by (auto simp: cli_session_delete_def res_simps get_cli_eq)
  have "dom (cl_bufs w1) = dom (cl_bufs w) - {read_data s, write_data s}" by (auto simp: w1)
  also have "\<dots> = {b. cl_objs w1 (fst b) \<noteq> None}"
    unfolding Cons.prems(3) [OF s] using Cons.prems(2) by (auto simp: cli_arena_def w1)
  finally have "cli_arena w1" by (simp add: cli_arena_def)
  moreover have "\<And>q t. cl_objs w1 q = Some t \<Longrightarrow> {read_data t, write_data t} = {(q, False), (q, True)}"
    using Cons.prems(3) by (auto simp: w1 split: if_splits)
  ultimately show ?case by (rule Cons.IH [OF rest])
qed

section \<open>Properties\<close>

lemma server_session_types:
  assumes doc: "asio_documented A view" and a: "view a = idle_view"
  shows "\<exists>w. server_events k A junk (server_new A junk n a) = Inr w \<and>
      (\<forall>p s. sessions w p = Some s \<longrightarrow> session_typed n p s (bufs w) (av_stream (view (lib w)) p) \<and> op_count s \<in> {0, 1, 2}) \<and>
      dom (bufs w) = {b. sessions w (fst b) \<noteq> None}"
proof -
  note inv0 = server_new_inv [OF doc a, of junk n]
  obtain w where w: "server_events k A junk (server_new A junk n a) = Inr w"
    using server_events_inv [OF doc inv0] by blast
  have "arena n (server_new A junk n a)"
    unfolding server_new_def by (rule arena_accept_next) (simp add: arena_def)
  from arena_events [OF doc inv0 this w] have inv: "pp_inv view w" and ar: "arena n w" by auto
  have "session_typed n p s (bufs w) (av_stream (view (lib w)) p) \<and> op_count s \<in> {0, 1, 2}"
    if s: "sessions w p = Some s" for p s
  proof -
    have "block_size s = n" using ar s by (simp add: arena_def)
    with obj_inv_shape [OF pp_invD [OF inv, of p, unfolded s]] show ?thesis
      using duplex_shape_typed by fastforce
  qed
  with w ar show ?thesis by (auto simp: arena_def)
qed

lemma client_session_types:
  assumes doc: "asio_documented A view" and a: "view a = idle_view" and es: "es \<noteq> []"
  shows "\<exists>w0 w w'. client_new A junk es n count timeout a = Inr w0 \<and> client_events k A w0 = Inr w \<and> client_dtor w = Inr w' \<and>
      (\<forall>p s. cl_objs w p = Some s \<longrightarrow> session_typed n p s (cl_bufs w) (av_stream (view (cl_lib w)) p)) \<and>
      dom (cl_bufs w) = {b. cl_objs w (fst b) \<noteq> None} \<and> cl_bufs w' = Map.empty"
proof -
  obtain w0 w w' where w: "client_new A junk es n count timeout a = Inr w0" "client_events k A w0 = Inr w"
      "client_dtor w = Inr w'" "cl_objs w' = Map.empty"
    using client_totals [OF doc a es] by blast
  have inv0: "pc_inv view n w0" using client_new_inv [OF doc a es, of junk n count timeout] w(1) by auto
  have "cli_arena w0"
    by (rule make_sessions_arena [OF w(1) [unfolded client_new_def]]) (simp add: cli_arena_def)
  from cli_arena_events [OF doc inv0 this w(2)] have inv: "pc_inv view n w" and ar: "cli_arena w" by auto
  have shape: "duplex_shape p s (cl_bufs w) (av_stream (view (cl_lib w)) p) \<and> block_size s = n" if "cl_objs w p = Some s" for p s
    using cli_inv_shape pc_invD [OF inv, of p, unfolded that] by blast
  from w(3) obtain w1 where w1: "delete_sessions (cl_sessions w) w = Inr w1" "cl_bufs w' = cl_bufs w1" "cl_objs w' = cl_objs w1"
    by (auto simp: client_dtor_def res_simps)
  have "cli_arena w1"
    by (rule delete_sessions_arena [OF w1(1) ar]) (use shape duplex_shape_own in blast)
  then have "cl_bufs w' = Map.empty" using w(4) w1 by (simp add: cli_arena_def)
  moreover have "session_typed n p s (cl_bufs w) (av_stream (view (cl_lib w)) p)" if "cl_objs w p = Some s" for p s
    using shape [OF that] duplex_shape_typed by metis
  ultimately show ?thesis using w ar by (auto simp: cli_arena_def)
qed

text \<open>
  C10. Both ping-pong programs, for any order in which operations complete and fail: at every moment the
  two pointers of a session point to its two different arrays, both of the block size; the
  length it remembers fits; the \<open>int\<close> counters are 0, 1 or 2, so that no addition overflows; every
  read and write under way works inside the array that the session has given it; and exactly
  the arrays of living sessions are allocated, so none is leaked or used after it was freed.
  When the client has been destroyed no array is left.
\<close>

theorem session_types:
  assumes doc: "asio_documented A view" and a: "view a = idle_view" and es: "es \<noteq> []"
  shows "(\<exists>w. server_events k A junk (server_new A junk n a) = Inr w \<and>
      (\<forall>p s. sessions w p = Some s \<longrightarrow> session_typed n p s (bufs w) (av_stream (view (lib w)) p) \<and> op_count s \<in> {0, 1, 2}) \<and>
      dom (bufs w) = {b. sessions w (fst b) \<noteq> None}) \<and>
    (\<exists>w0 w w'. client_new A junk es n count timeout a = Inr w0 \<and> client_events k A w0 = Inr w \<and> client_dtor w = Inr w' \<and>
      (\<forall>p s. cl_objs w p = Some s \<longrightarrow> session_typed n p s (cl_bufs w) (av_stream (view (cl_lib w)) p)) \<and>
      dom (cl_bufs w) = {b. cl_objs w (fst b) \<noteq> None} \<and> cl_bufs w' = Map.empty)"
  using server_session_types [OF doc a] client_session_types [OF doc a es] by blast

theorem session_types_witness:
  "(\<exists>w s. server_events 5 script_asio (\<lambda>_. 0) (server_new script_asio (\<lambda>_. 0) 4 (idle_view, sample_script)) = Inr w \<and>
     sessions w 0 = Some s \<and> session_typed 4 0 s (bufs w) (av_stream (fst (lib w)) 0)) \<and>
   (\<exists>w0 w w' s. client_new script_asio (\<lambda>_. 0) [5, 6] 2 1 10 (idle_view, cli_script) = Inr w0 \<and>
     client_events 6 script_asio w0 = Inr w \<and> client_dtor w = Inr w' \<and>
     cl_objs w 0 = Some s \<and> session_typed 2 0 s (cl_bufs w) (av_stream (fst (cl_lib w)) 0) \<and> cl_bufs w' = Map.empty)"
proof
  have "fst (idle_view, sample_script) = idle_view" by simp
  from session_types [OF script_documented this, of "[5, 6]" 5 "\<lambda>_. 0" 4] sample_events
  show "\<exists>w s. server_events 5 script_asio (\<lambda>_. 0) (server_new script_asio (\<lambda>_. 0) 4 (idle_view, sample_script)) = Inr w \<and>
      sessions w 0 = Some s \<and> session_typed 4 0 s (bufs w) (av_stream (fst (lib w)) 0)" by fastforce
  have "fst (idle_view, cli_script) = idle_view" by simp
  from session_types [OF script_documented this, of "[5, 6]" 6 "\<lambda>_. 0" 2 1 10] cli_sample
  show "\<exists>w0 w w' s. client_new script_asio (\<lambda>_. 0) [5, 6] 2 1 10 (idle_view, cli_script) = Inr w0 \<and>
      client_events 6 script_asio w0 = Inr w \<and> client_dtor w = Inr w' \<and>
      cl_objs w 0 = Some s \<and> session_typed 2 0 s (cl_bufs w) (av_stream (fst (cl_lib w)) 0) \<and> cl_bufs w' = Map.empty"
    by (auto simp: rbind_def)
qed

end
