(* ===== verification/Handler_Allocator.thy ===== *)
theory Handler_Allocator
  imports Prelude
begin

text \<open>
  \<^verbatim>\<open>example/asio/pingpong/handler_allocator.hpp\<close>: allocators with one block of 1024 bytes of their
  own that fall back to the global heap, and the wrapper that gives a handler such an
  allocator. A program has several of them, two for each session. \<open>operator new\<close> is the
  parameter \<open>N\<close>: it sees the blocks in use and returns the address of a block, or nothing when it
  throws. The contract of an allocator is the locale \<open>block_store\<close>; the wrapped handlers of a program are an instance of it.
\<close>

section \<open>class handler\_allocator\<close>

text \<open>An address is \<open>storage_.address()\<close> of the allocator with a given number, or a block of the global heap.\<close>

datatype address = Storage nat | Global nat

type_synonym heap = "nat \<rightharpoonup> size_t"

record handler_allocator =
  in_use :: bool

text \<open>The allocators of the program, by their addresses, and the global heap.\<close>

type_synonym alloc_state = "(nat \<Rightarrow> handler_allocator) \<times> heap"

definition storage_size :: size_t where
  "storage_size = 1024"

definition handler_allocator_new :: handler_allocator where
  "handler_allocator_new = \<lparr>in_use = False\<rparr>"

definition allocator_allocate ::
  "(heap \<Rightarrow> size_t \<Rightarrow> nat option) \<Rightarrow> nat \<Rightarrow> size_t \<Rightarrow> alloc_state \<Rightarrow> address option \<times> alloc_state" where
  "allocator_allocate N a n = (\<lambda>(als, h).
     if \<not> in_use (als a) \<and> n < storage_size then (Some (Storage a), als(a := als a\<lparr>in_use := True\<rparr>), h)
     else (case N h n of None \<Rightarrow> (None, als, h) | Some x \<Rightarrow> (Some (Global x), als, h(x \<mapsto> n))))"

text \<open>\<open>operator delete\<close> of an address that is not a block of the heap in use is an error.\<close>

definition allocator_deallocate :: "nat \<Rightarrow> address \<Rightarrow> alloc_state \<Rightarrow> alloc_state res" where
  "allocator_deallocate a pointer = (\<lambda>(als, h).
     if pointer = Storage a then Inr (als(a := als a\<lparr>in_use := False\<rparr>), h)
     else (case pointer of
             Storage b \<Rightarrow> Inl Dangling
           | Global x \<Rightarrow> if h x = None then Inl Dangling else Inr (als, h(x := None))))"

section \<open>class custom\_alloc\_handler\<close>

text \<open>
  A handler and a reference to an allocator. The library copies it and calls it; it allocates
  through the hooks \<open>asio_handler_allocate\<close> and \<open>asio_handler_deallocate\<close> of any copy. The size given back is ignored.
\<close>

record 'f custom_alloc_handler =
  allocator_ref :: nat
  wrapped :: 'f

definition make_custom_alloc_handler :: "nat \<Rightarrow> 'f \<Rightarrow> 'f custom_alloc_handler" where
  "make_custom_alloc_handler a h = \<lparr>allocator_ref = a, wrapped = h\<rparr>"

definition call_handler1 :: "('a \<Rightarrow> 'w \<Rightarrow> 'w res) custom_alloc_handler \<Rightarrow> 'a \<Rightarrow> 'w \<Rightarrow> 'w res" where
  "call_handler1 this_handler arg1 w = wrapped this_handler arg1 w"

definition call_handler2 :: "('a \<Rightarrow> 'b \<Rightarrow> 'w \<Rightarrow> 'w res) custom_alloc_handler \<Rightarrow> 'a \<Rightarrow> 'b \<Rightarrow> 'w \<Rightarrow> 'w res" where
  "call_handler2 this_handler arg1 arg2 w = wrapped this_handler arg1 arg2 w"

definition asio_handler_allocate ::
  "(heap \<Rightarrow> size_t \<Rightarrow> nat option) \<Rightarrow> 'f custom_alloc_handler \<Rightarrow> size_t \<Rightarrow> alloc_state \<Rightarrow> address option \<times> alloc_state" where
  "asio_handler_allocate N this_handler n s = allocator_allocate N (allocator_ref this_handler) n s"

definition asio_handler_deallocate :: "'f custom_alloc_handler \<Rightarrow> address \<Rightarrow> size_t \<Rightarrow> alloc_state \<Rightarrow> alloc_state res" where
  "asio_handler_deallocate this_handler pointer n s = allocator_deallocate (allocator_ref this_handler) pointer s"

section \<open>The contract of an allocator\<close>

text \<open>
  A program that allocates through some handler \<open>c\<close> and gives back, by its position among the
  pointers it holds, what it has got, through the handler it got it from. An allocation that throws gives nothing.
\<close>

datatype 'c alloc_op = Acquire 'c size_t | Release nat

fun alloc_run ::
  "('c \<Rightarrow> size_t \<Rightarrow> 's \<Rightarrow> 'p option \<times> 's) \<Rightarrow> ('c \<Rightarrow> 'p \<Rightarrow> 's \<Rightarrow> 's res) \<Rightarrow> 'c alloc_op list \<Rightarrow>
     ('c \<times> 'p) list \<times> 's \<Rightarrow> (('c \<times> 'p) list \<times> 's) res" where
  "alloc_run alloc dealloc [] (held, s) = Inr (held, s)"
| "alloc_run alloc dealloc (Acquire c n # ops) (held, s) =
     (case alloc c n s of
        (None, s') \<Rightarrow> alloc_run alloc dealloc ops (held, s')
      | (Some p, s') \<Rightarrow> alloc_run alloc dealloc ops (held @ [(c, p)], s'))"
| "alloc_run alloc dealloc (Release i # ops) (held, s) =
     (if i < length held
      then rbind (dealloc (fst (held ! i)) (snd (held ! i)) s)
        (\<lambda>s'. alloc_run alloc dealloc ops (take i held @ drop (Suc i) held, s'))
      else alloc_run alloc dealloc ops (held, s))"

text \<open>The program holds exactly the pointers in use, \<open>live\<close>, each with the handler it came from.\<close>

definition holds :: "('c \<times> 'p) list \<Rightarrow> ('p \<rightharpoonup> 'c) \<Rightarrow> bool" where
  "holds held live \<longleftrightarrow> distinct (map snd held) \<and> (\<forall>c p. (c, p) \<in> set held \<longleftrightarrow> live p = Some c)"

lemma holds_acquire: "holds held live \<Longrightarrow> live p = None \<Longrightarrow> holds (held @ [(c, p)]) (live(p \<mapsto> c))"
  by (auto simp: holds_def)

lemma holds_release:
  assumes "holds held live" and "i < length held"
  shows "live (snd (held ! i)) = Some (fst (held ! i))"
    and "holds (take i held @ drop (Suc i) held) (live(snd (held ! i) := None))"
proof -
  have "held ! i \<in> set held" using assms(2) by simp
  then show "live (snd (held ! i)) = Some (fst (held ! i))"
    using assms(1) unfolding holds_def by (metis prod.collapse)
  define xs x ys where "xs = take i held" "x = held ! i" "ys = drop (Suc i) held"
  have split: "held = xs @ x # ys" using assms(2) by (simp add: xs_x_ys_def id_take_nth_drop)
  have d: "snd x \<notin> snd ` (set xs \<union> set ys)" using assms(1) split by (auto simp: holds_def)
  have "(c, p) \<in> set xs \<union> set ys \<longleftrightarrow> (live(snd x := None)) p = Some c" for c p
  proof (cases "p = snd x")
    case True
    then have "(c, p) \<notin> set xs \<union> set ys" using d by (metis image_eqI snd_conv)
    with True show ?thesis by simp
  next
    case False
    then have "(c, p) \<in> set xs \<union> set ys \<longleftrightarrow> (c, p) \<in> set held" using split by (auto simp: prod_eq_iff)
    with False assms(1) show ?thesis by (auto simp: holds_def)
  qed
  then have "holds (xs @ ys) (live(snd x := None))" using assms(1) split by (auto simp: holds_def)
  then show "holds (take i held @ drop (Suc i) held) (live(snd (held ! i) := None))" by (simp add: xs_x_ys_def)
qed

locale block_store =
  fixes alloc :: "'c \<Rightarrow> size_t \<Rightarrow> 's \<Rightarrow> 'p option \<times> 's" and dealloc :: "'c \<Rightarrow> 'p \<Rightarrow> 's \<Rightarrow> 's res"
    and rep :: "'s \<Rightarrow> ('p \<rightharpoonup> 'c) \<Rightarrow> bool"
  assumes alloc_some: "rep s live \<Longrightarrow> alloc c n s = (Some p, s') \<Longrightarrow> live p = None \<and> rep s' (live(p \<mapsto> c))"
    and alloc_none: "rep s live \<Longrightarrow> alloc c n s = (None, s') \<Longrightarrow> rep s' live"
    and dealloc_live: "rep s live \<Longrightarrow> live p = Some c \<Longrightarrow> \<exists>s'. dealloc c p s = Inr s' \<and> rep s' (live(p := None))"
begin

text \<open>Whatever the program does, it never fails, and what it holds is what is allocated, each once.\<close>

lemma run_holds:
  assumes "rep s live" and "holds held live"
  shows "\<exists>held' s' live'. alloc_run alloc dealloc ops (held, s) = Inr (held', s') \<and> rep s' live' \<and> holds held' live'"
  using assms
proof (induction ops arbitrary: held s live)
  case (Cons op ops)
  show ?case
  proof (cases op)
    case (Acquire c n)
    obtain r s' where a: "alloc c n s = (r, s')" by force
    show ?thesis
    proof (cases r)
      case None
      from Cons.IH [OF alloc_none Cons.prems(2)] Cons.prems(1) a None Acquire show ?thesis by simp
    next
      case (Some p)
      from alloc_some [OF Cons.prems(1)] a Some have "live p = None" "rep s' (live(p \<mapsto> c))" by blast+
      from Cons.IH [OF this(2) holds_acquire [OF Cons.prems(2) this(1)]] a Some Acquire show ?thesis by simp
    qed
  next
    case (Release i)
    show ?thesis
    proof (cases "i < length held")
      case True
      note h = holds_release [OF Cons.prems(2) True]
      from dealloc_live [OF Cons.prems(1) h(1)] obtain s' where
        "dealloc (fst (held ! i)) (snd (held ! i)) s = Inr s'" "rep s' (live(snd (held ! i) := None))" by blast
      from Cons.IH [OF this(2) h(2)] this(1) True Release show ?thesis by simp
    qed (use Cons Release in simp)
  qed
qed auto

end

text \<open>
  What is allocated: the own block of an allocator when it is marked, and the blocks of the heap; an
  own block came through a handler of that allocator. \<open>N\<close> returns blocks that are not in use.
\<close>

definition new_documented :: "(heap \<Rightarrow> size_t \<Rightarrow> nat option) \<Rightarrow> bool" where
  "new_documented N \<longleftrightarrow> (\<forall>h n x. N h n = Some x \<longrightarrow> h x = None)"

definition allocated :: "(heap \<Rightarrow> size_t \<Rightarrow> nat option) \<Rightarrow> alloc_state \<Rightarrow> (address \<rightharpoonup> 'f custom_alloc_handler) \<Rightarrow> bool" where
  "allocated N = (\<lambda>(als, h) live. new_documented N \<and> (\<forall>a. in_use (als a) \<longleftrightarrow> live (Storage a) \<noteq> None) \<and>
     (\<forall>a c. live (Storage a) = Some c \<longrightarrow> allocator_ref c = a) \<and> (\<forall>x. live (Global x) = None \<longleftrightarrow> h x = None))"

interpretation handler: block_store "asio_handler_allocate N :: 'a custom_alloc_handler \<Rightarrow> _" "\<lambda>c p. asio_handler_deallocate c p (sz p)" "allocated N" for N sz
proof unfold_locales
  fix s and live :: "address \<rightharpoonup> 'a custom_alloc_handler" and c :: "'a custom_alloc_handler" and n p s'
  assume "allocated N s live" "asio_handler_allocate N c n s = (Some p, s')"
  then show "live p = None \<and> allocated N s' (live(p \<mapsto> c))"
    by (cases s) (auto simp: allocated_def asio_handler_allocate_def allocator_allocate_def new_documented_def
        split: if_splits option.splits)
next
  fix s and live :: "address \<rightharpoonup> 'a custom_alloc_handler" and c :: "'a custom_alloc_handler" and n s'
  assume "allocated N s live" "asio_handler_allocate N c n s = (None, s')"
  then show "allocated N s' live"
    by (auto simp: allocated_def asio_handler_allocate_def allocator_allocate_def split: if_splits option.splits)
next
  fix s and live :: "address \<rightharpoonup> 'a custom_alloc_handler" and p and c :: "'a custom_alloc_handler"
  assume "allocated N s live" "live p = Some c"
  then show "\<exists>s'. asio_handler_deallocate c p (sz p) s = Inr s' \<and> allocated N s' (live(p := None))"
    by (cases p) (auto simp: allocated_def asio_handler_deallocate_def allocator_deallocate_def, metis not_None_eq)
qed

text \<open>
  C40. A program that allocates through the hooks of any wrapped handlers, starts with new allocators
  and gives back only what it holds, in any order, with any size and through a copy of the
  handler it used: no call fails; the pointers it holds are different from each other; the block of an
  allocator is marked as used exactly while the program holds it; and exactly the other
  pointers it holds are blocks of the global heap, so nothing is leaked and nothing is handed
  out twice, also across allocators. An allocation of less than 1024 bytes does not touch the heap when the block of its allocator is
  free.
\<close>

theorem handler_allocator_spec:
  assumes "new_documented N"
  shows "\<exists>held als h. alloc_run (asio_handler_allocate N) (\<lambda>c p. asio_handler_deallocate c p (sz p)) ops ([], \<lambda>_. handler_allocator_new, Map.empty) =
      Inr (held, als, h) \<and> distinct (map snd held) \<and> (\<forall>a. in_use (als a) \<longleftrightarrow> Storage a \<in> snd ` set held) \<and>
    dom h = {x. Global x \<in> snd ` set held} \<and>
    (\<forall>c n. n < storage_size \<and> Storage (allocator_ref c) \<notin> snd ` set held \<longrightarrow>
       fst (asio_handler_allocate N c n (als, h)) = Some (Storage (allocator_ref c)) \<and> snd (snd (asio_handler_allocate N c n (als, h))) = h)"
proof -
  have "allocated N (\<lambda>_. handler_allocator_new, Map.empty) (Map.empty :: address \<rightharpoonup> 'f custom_alloc_handler)"
    using assms by (simp add: allocated_def handler_allocator_new_def)
  from handler.run_holds [OF this, of "[]" sz ops] obtain held als h live where
    r: "alloc_run (asio_handler_allocate N) (\<lambda>c p. asio_handler_deallocate c p (sz p)) ops ([], \<lambda>_. handler_allocator_new, Map.empty) = Inr (held, als, h)"
    "allocated N (als, h) live" "holds held live" by (auto simp: holds_def)
  have held: "p \<in> snd ` set held \<longleftrightarrow> live p \<noteq> None" for p
    using r(3) by (force simp: holds_def)
  have "in_use (als a) \<longleftrightarrow> Storage a \<in> snd ` set held" for a
    using r(2) held by (simp add: allocated_def)
  moreover have "dom h = {x. Global x \<in> snd ` set held}"
    using r(2) unfolding held by (auto simp: allocated_def domIff simp del: not_None_eq)
  ultimately show ?thesis using r by (auto simp: asio_handler_allocate_def allocator_allocate_def holds_def)
qed

definition sample_new :: "heap \<Rightarrow> size_t \<Rightarrow> nat option" where
  "sample_new h n = (if h 0 = None then Some 0 else if h 1 = None then Some 1 else None)"

text \<open>A session with an allocator for its reads and one for its writes.\<close>

definition sample_ops :: "unit custom_alloc_handler alloc_op list" where
  "sample_ops = (let read = make_custom_alloc_handler 0 (); write = make_custom_alloc_handler 1 () in
     [Acquire read 100, Acquire write 200, Acquire read 300, Release 0, Acquire read 400, Acquire write 2000])"

theorem handler_allocator_spec_witness:
  "\<exists>held als h. alloc_run (asio_handler_allocate sample_new) (\<lambda>c p. asio_handler_deallocate c p 0) sample_ops
      ([], \<lambda>_. handler_allocator_new, Map.empty) = Inr (held, als, h) \<and>
    map snd held = [Storage 1, Global 0, Storage 0, Global 1] \<and> in_use (als 0) \<and> in_use (als 1) \<and> dom h = {0, 1}"
proof -
  have "new_documented sample_new"
    by (simp add: new_documented_def sample_new_def)
  from handler_allocator_spec [OF this, of "\<lambda>_. 0" sample_ops]
  show ?thesis
    by (auto simp: asio_handler_allocate_def asio_handler_deallocate_def allocator_allocate_def allocator_deallocate_def
        handler_allocator_new_def storage_size_def sample_new_def sample_ops_def make_custom_alloc_handler_def Let_def)
qed

end
