(* ===== verification/Preprocessor.thy ===== *)
theory Preprocessor
  imports Prelude
begin

text \<open>
  What the headers of \<^verbatim>\<open>src/muradin/platform\<close> use of the C++ preprocessor: object-like macros
  whose body is empty or an arithmetic expression, conditions, nested conditional groups, and
  the inclusion of system headers, which are a parameter \<open>I\<close>. A name that is being expanded is
  not expanded again, and an undefined name counts as 0 in a condition, as the standard says.
  The value of an expression may be nothing at all: the headers write \<open>X - 0\<close>, which is
  \<open>- 0\<close> when \<open>X\<close> is defined as nothing. Lemmas: which macros a group of directives leaves alone,
  and a static check under which no condition is ill-formed.
\<close>

section \<open>Directives\<close>

datatype pexp = Num int | Name string | Add pexp pexp | Mul pexp pexp | Sub pexp pexp

text \<open>The body of a macro; \<open>None\<close> is the empty one.\<close>

type_synonym body = "pexp option"
type_synonym env = "(string \<times> body) list"

datatype cond =
    Defined string
  | Neg cond
  | And cond cond
  | Or cond cond
  | Ge pexp pexp
  | Gt pexp pexp
  | Lt pexp pexp
  | Eq pexp pexp

datatype directive =
    Define string body
  | Undef string
  | Include string
  | Warn string
  | If cond "directive list" "directive list"

definition undef :: "string \<Rightarrow> env \<Rightarrow> env" where
  "undef x env = filter (\<lambda>p. fst p \<noteq> x) env"

lemma undef_less [simp]: "map_of env x = Some b \<Longrightarrow> length (undef x env) < length env"
  unfolding undef_def by (rule length_filter_less [of "(x, b)"]) (auto dest: map_of_SomeD)

lemma map_of_undef [simp]: "map_of (undef x env) y = (if y = x then None else map_of env y)"
  by (induction env) (auto simp: undef_def)

section \<open>Evaluation\<close>

datatype ptext = Nothing | Val int | Bad

fun sub_text :: "ptext \<Rightarrow> ptext \<Rightarrow> ptext" where
  "sub_text (Val u) (Val v) = Val (u - v)"
| "sub_text Nothing (Val v) = Val (- v)"
| "sub_text _ _ = Bad"

fun add_text :: "ptext \<Rightarrow> ptext \<Rightarrow> ptext" where
  "add_text (Val u) (Val v) = Val (u + v)"
| "add_text Nothing (Val v) = Val v"
| "add_text _ _ = Bad"

fun mul_text :: "ptext \<Rightarrow> ptext \<Rightarrow> ptext" where
  "mul_text (Val u) (Val v) = Val (u * v)"
| "mul_text _ _ = Bad"

function peval :: "env \<Rightarrow> pexp \<Rightarrow> ptext" where
  "peval env (Num n) = Val n"
| "peval env (Name x) =
     (case map_of env x of
        None \<Rightarrow> Val 0
      | Some None \<Rightarrow> Nothing
      | Some (Some e) \<Rightarrow> peval (undef x env) e)"
| "peval env (Add a b) = add_text (peval env a) (peval env b)"
| "peval env (Mul a b) = mul_text (peval env a) (peval env b)"
| "peval env (Sub a b) = sub_text (peval env a) (peval env b)"
  by pat_completeness auto
termination
  by (relation "measures [\<lambda>(env, e). length env, \<lambda>(env, e). size e]") auto

fun compare_text :: "(int \<Rightarrow> int \<Rightarrow> bool) \<Rightarrow> ptext \<Rightarrow> ptext \<Rightarrow> bool option" where
  "compare_text r (Val u) (Val v) = Some (r u v)"
| "compare_text r _ _ = None"

text \<open>A condition is parsed as a whole before it is evaluated: an operand without a value makes it ill-formed.\<close>

fun ceval :: "env \<Rightarrow> cond \<Rightarrow> bool option" where
  "ceval env (Defined x) = Some (map_of env x \<noteq> None)"
| "ceval env (Neg c) = map_option Not (ceval env c)"
| "ceval env (And c d) = Option.bind (ceval env c) (\<lambda>u. map_option (\<lambda>v. u \<and> v) (ceval env d))"
| "ceval env (Or c d) = Option.bind (ceval env c) (\<lambda>u. map_option (\<lambda>v. u \<or> v) (ceval env d))"
| "ceval env (Ge a b) = compare_text (\<ge>) (peval env a) (peval env b)"
| "ceval env (Gt a b) = compare_text (>) (peval env a) (peval env b)"
| "ceval env (Lt a b) = compare_text (<) (peval env a) (peval env b)"
| "ceval env (Eq a b) = compare_text (=) (peval env a) (peval env b)"

text \<open>The state is the macros and the warnings given. A second definition replaces the first.\<close>

record pp =
  macros :: env
  warnings :: "string list"

fun exec :: "(string \<Rightarrow> env \<Rightarrow> env) \<Rightarrow> directive \<Rightarrow> pp \<Rightarrow> pp option"
  and execs :: "(string \<Rightarrow> env \<Rightarrow> env) \<Rightarrow> directive list \<Rightarrow> pp \<Rightarrow> pp option" where
  "exec I (Define x b) s = Some (s\<lparr>macros := (x, b) # undef x (macros s)\<rparr>)"
| "exec I (Undef x) s = Some (s\<lparr>macros := undef x (macros s)\<rparr>)"
| "exec I (Include h) s = Some (s\<lparr>macros := I h (macros s)\<rparr>)"
| "exec I (Warn t) s = Some (s\<lparr>warnings := warnings s @ [t]\<rparr>)"
| "exec I (If c ds es) s =
     (case ceval (macros s) c of None \<Rightarrow> None | Some b \<Rightarrow> if b then execs I ds s else execs I es s)"
| "execs I [] s = Some s"
| "execs I (d # ds) s = Option.bind (exec I d s) (execs I ds)"

abbreviation def_in :: "pp \<Rightarrow> string \<Rightarrow> bool" where
  "def_in s x \<equiv> map_of (macros s) x \<noteq> None"

lemma execs_append: "execs I (ds @ es) s = Option.bind (execs I ds s) (execs I es)"
  by (induction ds arbitrary: s) (auto split: Option.bind_splits)

section \<open>Macros that directives leave alone\<close>

text \<open>The names that belong to the headers.\<close>

definition own_name :: "string \<Rightarrow> bool" where
  "own_name x \<longleftrightarrow> take 7 x = ''PREDEF_''"

text \<open>A directive may change a macro: it defines or undefines it, or includes a header and the macro is not an own one.\<close>

fun changes :: "directive \<Rightarrow> string \<Rightarrow> bool" where
  "changes (Define y b) x \<longleftrightarrow> y = x"
| "changes (Undef y) x \<longleftrightarrow> y = x"
| "changes (Include h) x \<longleftrightarrow> \<not> own_name x"
| "changes (Warn t) x \<longleftrightarrow> False"
| "changes (If c ds es) x \<longleftrightarrow> list_ex (\<lambda>d. changes d x) ds \<or> list_ex (\<lambda>d. changes d x) es"

fun warns :: "directive \<Rightarrow> bool" where
  "warns (Warn t) \<longleftrightarrow> True"
| "warns (If c ds es) \<longleftrightarrow> list_ex warns ds \<or> list_ex warns es"
| "warns _ \<longleftrightarrow> False"

definition keeps_own :: "(string \<Rightarrow> env \<Rightarrow> env) \<Rightarrow> bool" where
  "keeps_own I \<longleftrightarrow> (\<forall>h env x. own_name x \<longrightarrow> map_of (I h env) x = map_of env x)"

lemma exec_unchanged:
  "exec I d s = Some s' \<Longrightarrow> keeps_own I \<Longrightarrow> \<not> changes d x \<Longrightarrow> map_of (macros s') x = map_of (macros s) x"
  "execs I ds s = Some s' \<Longrightarrow> keeps_own I \<Longrightarrow> \<not> list_ex (\<lambda>d. changes d x) ds \<Longrightarrow> map_of (macros s') x = map_of (macros s) x"
proof (induction I d s and I ds s arbitrary: s' and s' rule: exec_execs.induct)
  case (3 I h s)
  then show ?case by (auto simp: keeps_own_def)
qed (auto split: option.splits if_splits Option.bind_splits)

text \<open>
  One directive, or several in a row, of a longer list: what is before them has left alone
  the macros it does not change, and what is behind them does not change \<open>x\<close>.
\<close>

lemma execs_part:
  assumes run: "execs I ds s = Some s'" and own: "keeps_own I"
    and x: "\<not> list_ex (\<lambda>d. changes d x) (drop (i + k) ds)"
  obtains t u where "execs I (take i ds) s = Some t" "execs I (take k (drop i ds)) t = Some u" "map_of (macros s') x = map_of (macros u) x"
    "\<And>y. \<not> list_ex (\<lambda>d. changes d y) (take i ds) \<Longrightarrow> map_of (macros t) y = map_of (macros s) y"
proof -
  have "take k (drop i ds) @ drop (i + k) ds = drop i ds"
    using append_take_drop_id [of k "drop i ds"] by (simp add: add.commute)
  then have "execs I (take i ds @ take k (drop i ds) @ drop (i + k) ds) s = Some s'"
    using run by simp
  then obtain t u where
    t: "execs I (take i ds) s = Some t" and u: "execs I (take k (drop i ds)) t = Some u"
    and s': "execs I (drop (i + k) ds) u = Some s'"
    unfolding execs_append by (auto split: Option.bind_splits)
  show ?thesis
    using that [OF t u] exec_unchanged(2) [OF s' own x] exec_unchanged(2) [OF t own] by blast
qed

text \<open>Directives that define and undefine own names only and include nothing.\<close>

fun own_only :: "directive \<Rightarrow> bool" where
  "own_only (Define x b) \<longleftrightarrow> own_name x"
| "own_only (Undef x) \<longleftrightarrow> own_name x"
| "own_only (Include h) \<longleftrightarrow> False"
| "own_only (Warn t) \<longleftrightarrow> True"
| "own_only (If c ds es) \<longleftrightarrow> list_all own_only ds \<and> list_all own_only es"

lemma own_only_changes:
  assumes "\<not> own_name x"
  shows "own_only d \<Longrightarrow> \<not> changes d x"
  using assms by (induction d x rule: changes.induct) (auto simp: list_ex_iff list_all_iff)

lemma own_only_run:
  assumes "execs I ds s = Some s'" and "keeps_own I" and "list_all own_only ds" and "\<not> own_name x"
  shows "map_of (macros s') x = map_of (macros s) x"
  using exec_unchanged(2) [OF assms(1,2)] own_only_changes [OF assms(4)] assms(3)
  by (auto simp: list_ex_iff list_all_iff)

lemma exec_warnings:
  "exec I d s = Some s' \<Longrightarrow> \<not> warns d \<Longrightarrow> warnings s' = warnings s"
  "execs I ds s = Some s' \<Longrightarrow> \<not> list_ex warns ds \<Longrightarrow> warnings s' = warnings s"
proof (induction I d s and I ds s arbitrary: s' and s' rule: exec_execs.induct)
  case (7 I d ds s)
  from "7.prems"(1) obtain t where t: "exec I d s = Some t" "execs I ds t = Some s'"
    by (auto split: Option.bind_splits)
  have "warnings s' = warnings t" using "7.IH"(2) [OF t] "7.prems"(2) by simp
  also have "\<dots> = warnings s" using "7.IH"(1) [OF t(1)] "7.prems"(2) by simp
  finally show ?case .
qed (auto split: option.splits if_splits)

section \<open>No condition is ill-formed\<close>

text \<open>
  \<open>flat S\<close>: the macros in \<open>S\<close> are undefined, empty, a number, or another macro in \<open>S\<close>.
  \<open>numeric N\<close>: those in \<open>N\<close> are undefined or a number.
\<close>

fun plain :: "body option \<Rightarrow> bool" where
  "plain None \<longleftrightarrow> True"
| "plain (Some None) \<longleftrightarrow> True"
| "plain (Some (Some (Num n))) \<longleftrightarrow> True"
| "plain (Some (Some (Name y))) \<longleftrightarrow> False"
| "plain (Some (Some (Add a b))) \<longleftrightarrow> False"
| "plain (Some (Some (Mul a b))) \<longleftrightarrow> False"
| "plain (Some (Some (Sub a b))) \<longleftrightarrow> False"

fun flat_body :: "string list \<Rightarrow> body option \<Rightarrow> bool" where
  "flat_body S (Some (Some (Name y))) \<longleftrightarrow> y \<in> set S"
| "flat_body S b \<longleftrightarrow> plain b"

fun numeric_body :: "body option \<Rightarrow> bool" where
  "numeric_body (Some None) \<longleftrightarrow> False"
| "numeric_body b \<longleftrightarrow> plain b"

definition flat :: "string list \<Rightarrow> env \<Rightarrow> bool" where
  "flat S env \<longleftrightarrow> (\<forall>x \<in> set S. flat_body S (map_of env x))"

definition numeric :: "string list \<Rightarrow> env \<Rightarrow> bool" where
  "numeric N env \<longleftrightarrow> (\<forall>x \<in> set N. numeric_body (map_of env x))"

lemma plain_flat: "plain b \<Longrightarrow> flat_body S b"
  by (cases b rule: plain.cases) auto

lemma flat_eval: "flat S env \<Longrightarrow> x \<in> set S \<Longrightarrow> peval env (Name x) \<noteq> Bad"
proof (induction "length env" arbitrary: env x rule: less_induct)
  case less
  show ?case
  proof (cases "map_of env x" rule: plain.cases)
    case (4 y)
    moreover have "y \<in> set S" using less.prems 4 by (auto simp: flat_def)
    moreover have "flat S (undef x env)" using less.prems by (auto simp: flat_def)
    ultimately show ?thesis using less.hyps [of "undef x env" y] by simp
  qed (use less.prems in \<open>auto simp: flat_def\<close>)
qed

lemma numeric_eval: "numeric N env \<Longrightarrow> x \<in> set N \<Longrightarrow> \<exists>n. peval env (Name x) = Val n"
  by (cases "map_of env x" rule: plain.cases) (force simp: numeric_def)+

fun ok_exp :: "string list \<Rightarrow> string list \<Rightarrow> pexp \<Rightarrow> bool" where
  "ok_exp S N (Num n) \<longleftrightarrow> True"
| "ok_exp S N (Name x) \<longleftrightarrow> x \<in> set N"
| "ok_exp S N (Sub (Name x) (Num n)) \<longleftrightarrow> x \<in> set S"
| "ok_exp S N _ \<longleftrightarrow> False"

fun ok_cond :: "string list \<Rightarrow> string list \<Rightarrow> cond \<Rightarrow> bool" where
  "ok_cond S N (Defined x) \<longleftrightarrow> True"
| "ok_cond S N (Neg c) \<longleftrightarrow> ok_cond S N c"
| "ok_cond S N (And c d) \<longleftrightarrow> ok_cond S N c \<and> ok_cond S N d"
| "ok_cond S N (Or c d) \<longleftrightarrow> ok_cond S N c \<and> ok_cond S N d"
| "ok_cond S N (Ge a b) \<longleftrightarrow> ok_exp S N a \<and> ok_exp S N b"
| "ok_cond S N (Gt a b) \<longleftrightarrow> ok_exp S N a \<and> ok_exp S N b"
| "ok_cond S N (Lt a b) \<longleftrightarrow> ok_exp S N a \<and> ok_exp S N b"
| "ok_cond S N (Eq a b) \<longleftrightarrow> ok_exp S N a \<and> ok_exp S N b"

lemma ok_exp_eval:
  assumes "ok_exp S N e" and "flat S env" and "numeric N env"
  shows "\<exists>n. peval env e = Val n"
  using assms
proof (induction S N e rule: ok_exp.induct)
  case (2 S N x)
  then show ?case using numeric_eval [of N env x] by simp
next
  case (3 S N x n)
  then show ?case using flat_eval [of S env x] by (cases "peval env (Name x)") auto
qed auto

lemma ok_cond_eval:
  assumes "flat S env" and "numeric N env"
  shows "ok_cond S N c \<Longrightarrow> \<exists>b. ceval env c = Some b"
proof (induction c)
  case (Ge a b)
  then show ?case using ok_exp_eval [OF _ assms, of a] ok_exp_eval [OF _ assms, of b] by auto
next
  case (Gt a b)
  then show ?case using ok_exp_eval [OF _ assms, of a] ok_exp_eval [OF _ assms, of b] by auto
next
  case (Lt a b)
  then show ?case using ok_exp_eval [OF _ assms, of a] ok_exp_eval [OF _ assms, of b] by auto
next
  case (Eq a b)
  then show ?case using ok_exp_eval [OF _ assms, of a] ok_exp_eval [OF _ assms, of b] by auto
qed auto

text \<open>
  The check of a list of directives: \<open>V\<close> are macros that an included header leaves numeric.
  \<open>after V N d\<close> are macros that are numeric after \<open>d\<close> when those in \<open>N\<close> are before it.
\<close>

fun spoils :: "string list \<Rightarrow> directive \<Rightarrow> string \<Rightarrow> bool" where
  "spoils V (Include h) x \<longleftrightarrow> \<not> own_name x \<and> x \<notin> set V"
| "spoils V (If c ds es) x \<longleftrightarrow> list_ex (\<lambda>d. spoils V d x) ds \<or> list_ex (\<lambda>d. spoils V d x) es"
| "spoils V d x \<longleftrightarrow> changes d x"

fun after :: "string list \<Rightarrow> string list \<Rightarrow> directive \<Rightarrow> string list" where
  "after V N (Define x (Some (Num n))) = x # N"
| "after V N d = filter (\<lambda>x. \<not> spoils V d x) N"

fun ok_dir :: "string list \<Rightarrow> string list \<Rightarrow> string list \<Rightarrow> directive \<Rightarrow> bool"
  and ok_dirs :: "string list \<Rightarrow> string list \<Rightarrow> string list \<Rightarrow> directive list \<Rightarrow> bool" where
  "ok_dir S V N (Define x b) \<longleftrightarrow> (x \<in> set S \<longrightarrow> flat_body S (Some b))"
| "ok_dir S V N (If c ds es) \<longleftrightarrow> ok_cond S N c \<and> ok_dirs S V N ds \<and> ok_dirs S V N es"
| "ok_dir S V N (Undef x) \<longleftrightarrow> True"
| "ok_dir S V N (Include h) \<longleftrightarrow> True"
| "ok_dir S V N (Warn t) \<longleftrightarrow> True"
| "ok_dirs S V N [] \<longleftrightarrow> True"
| "ok_dirs S V N (d # ds) \<longleftrightarrow> ok_dir S V N d \<and> ok_dirs S V (after V N d) ds"

text \<open>
  What is asked of a system header: it leaves the macros of the headers alone, defines the
  macros that they compare as nothing or as numbers, and those in \<open>V\<close> as numbers.
\<close>

definition sys_header :: "string list \<Rightarrow> string list \<Rightarrow> (string \<Rightarrow> env \<Rightarrow> env) \<Rightarrow> bool" where
  "sys_header S V I \<longleftrightarrow> keeps_own I \<and> (\<forall>h env. flat S env \<longrightarrow> flat S (I h env)) \<and>
     (\<forall>h env x. x \<in> set V \<and> numeric_body (map_of env x) \<longrightarrow> numeric_body (map_of (I h env) x))"

lemma numeric_after:
  assumes "numeric N env" and "\<And>x. x \<in> set N \<Longrightarrow> \<not> spoils V d x \<Longrightarrow> numeric_body (map_of (macros s') x)"
    and "exec I d s = Some s'"
  shows "numeric (after V N d) (macros s')"
  using assms by (cases "(V, N, d)" rule: after.cases) (auto simp: numeric_def)

lemma ok_dirs_run:
  "ok_dir S V N d \<Longrightarrow> sys_header S V I \<Longrightarrow> flat S (macros s) \<Longrightarrow> numeric N (macros s) \<Longrightarrow>
    \<exists>s'. exec I d s = Some s' \<and> flat S (macros s') \<and>
      (\<forall>x \<in> set N. \<not> spoils V d x \<longrightarrow> numeric_body (map_of (macros s') x))"
  "ok_dirs S V N ds \<Longrightarrow> sys_header S V I \<Longrightarrow> flat S (macros s) \<Longrightarrow> numeric N (macros s) \<Longrightarrow>
    \<exists>s'. execs I ds s = Some s' \<and> flat S (macros s') \<and>
      (\<forall>x \<in> set N. \<not> list_ex (\<lambda>d. spoils V d x) ds \<longrightarrow> numeric_body (map_of (macros s') x))"
proof (induction S V N d and S V N ds arbitrary: s and s rule: ok_dir_ok_dirs.induct)
  case (2 S V N c ds es)
  obtain b where b: "ceval (macros s) c = Some b"
    using ok_cond_eval [OF "2.prems"(3,4), of c] "2.prems"(1) by auto
  with "2.IH" "2.prems" show ?case by (cases b) (fastforce)+
next
  case (4 S V N h)
  then show ?case by (auto simp: sys_header_def keeps_own_def numeric_def)
next
  case (7 S V N d ds)
  from "7.IH"(1) [of s] "7.prems" obtain t where t: "exec I d s = Some t" "flat S (macros t)"
    "\<And>x. x \<in> set N \<Longrightarrow> \<not> spoils V d x \<Longrightarrow> numeric_body (map_of (macros t) x)" by fastforce
  have "numeric (after V N d) (macros t)"
    using "7.prems"(4) t(3,1) by (rule numeric_after)
  with "7.IH"(2) [of t] "7.prems" t(2) obtain u where u: "execs I ds t = Some u" "flat S (macros u)"
    "\<forall>x \<in> set (after V N d). \<not> list_ex (\<lambda>d. spoils V d x) ds \<longrightarrow> numeric_body (map_of (macros u) x)" by auto
  have "x \<in> set (after V N d)" if "x \<in> set N" "\<not> spoils V d x" for x
    using that by (cases "(V, N, d)" rule: after.cases) auto
  with t u show ?case by auto
qed (auto simp: flat_def numeric_def)

section \<open>Definedness\<close>

text \<open>
  A directive that only tests whether macros are defined and defines others, as a function
  of what is defined before it.
\<close>

fun holds :: "(string \<Rightarrow> bool) \<Rightarrow> cond \<Rightarrow> bool" where
  "holds D (Defined x) \<longleftrightarrow> D x"
| "holds D (Neg c) \<longleftrightarrow> \<not> holds D c"
| "holds D (And c d) \<longleftrightarrow> holds D c \<and> holds D d"
| "holds D (Or c d) \<longleftrightarrow> holds D c \<or> holds D d"
| "holds D _ \<longleftrightarrow> False"

fun tests_only :: "(string \<Rightarrow> bool) \<Rightarrow> cond \<Rightarrow> bool" where
  "tests_only P (Defined x) \<longleftrightarrow> P x"
| "tests_only P (Neg c) \<longleftrightarrow> tests_only P c"
| "tests_only P (And c d) \<longleftrightarrow> tests_only P c \<and> tests_only P d"
| "tests_only P (Or c d) \<longleftrightarrow> tests_only P c \<and> tests_only P d"
| "tests_only P _ \<longleftrightarrow> False"

fun sets_macro :: "(string \<Rightarrow> bool) \<Rightarrow> string \<Rightarrow> directive \<Rightarrow> bool" where
  "sets_macro D x (Define y b) \<longleftrightarrow> y = x"
| "sets_macro D x (If c ds es) \<longleftrightarrow> (if holds D c then list_ex (sets_macro D x) ds else list_ex (sets_macro D x) es)"
| "sets_macro D x _ \<longleftrightarrow> False"

text \<open>Nested groups of definitions that test macros in \<open>P\<close> and define others.\<close>

fun simple_group :: "(string \<Rightarrow> bool) \<Rightarrow> directive \<Rightarrow> bool" where
  "simple_group P (Define y b) \<longleftrightarrow> \<not> P y"
| "simple_group P (If c ds es) \<longleftrightarrow> tests_only P c \<and> list_all (simple_group P) ds \<and> list_all (simple_group P) es"
| "simple_group P _ \<longleftrightarrow> False"

lemma ceval_holds: "tests_only P c \<Longrightarrow> (\<And>x. P x \<Longrightarrow> D x = (map_of env x \<noteq> None)) \<Longrightarrow> ceval env c = Some (holds D c)"
  by (induction c) auto

lemma simple_group_run:
  "exec I d s = Some s' \<Longrightarrow> simple_group P d \<Longrightarrow> (\<And>x. P x \<Longrightarrow> D x = def_in s x) \<Longrightarrow>
    (\<forall>x. P x \<longrightarrow> def_in s' x = def_in s x) \<and> (def_in s' x \<longleftrightarrow> def_in s x \<or> sets_macro D x d)"
  "execs I ds s = Some s' \<Longrightarrow> list_all (simple_group P) ds \<Longrightarrow> (\<And>x. P x \<Longrightarrow> D x = def_in s x) \<Longrightarrow>
    (\<forall>x. P x \<longrightarrow> def_in s' x = def_in s x) \<and> (def_in s' x \<longleftrightarrow> def_in s x \<or> list_ex (sets_macro D x) ds)"
proof (induction I d s and I ds s arbitrary: s' and s' rule: exec_execs.induct)
  case (5 I c ds es s)
  then have "ceval (macros s) c = Some (holds D c)" by (intro ceval_holds [of P]) auto
  with 5 show ?case by (auto split: if_splits)
next
  case (7 I d ds s)
  from "7.prems"(1) obtain t where t: "exec I d s = Some t" "execs I ds t = Some s'"
    by (auto split: Option.bind_splits)
  note d = "7.IH"(1) [OF t(1) _ "7.prems"(3)]
  with "7.prems" have "D x = def_in t x" if "P x" for x using that by auto
  from "7.IH"(2) [OF t _ this] d "7.prems"(2) show ?case by auto
qed auto

end
