(* ===== verification/Predef.thy ===== *)
theory Predef
  imports Preprocessor
begin

text \<open>
  \<^verbatim>\<open>src/muradin/platform/predef.h\<close> and \<^verbatim>\<open>processor_arh.h\<close>, directive by directive: the macros
  by which the library tells compilers, operating systems, standards and processors apart. The
  initial state has the macros of the compiler; \<^verbatim>\<open>unistd.h\<close> is included when the platform is
  Unix, and is the parameter \<open>I\<close>. The macros that the headers test are taken to be undefined,
  empty or integer constants. Then: the header never fails and is included once, the
  branches of \<^verbatim>\<open>endian.h\<close>, \<^verbatim>\<open>net_address.h\<close> and \<^verbatim>\<open>socket_fd.h\<close> that a compiler gets, and the processor.
\<close>

section \<open>Compilers\<close>

definition compiler_borland :: "directive list" where
  "compiler_borland =
    [If (Defined ''__BORLANDC__'') [Define ''PREDEF_COMPILER_BORLAND'' (Some (Name ''__BORLANDC__''))] []]"

definition compiler_comeau :: "directive list" where
  "compiler_comeau =
    [If (Defined ''__COMO__'')
       [If (Defined ''__COMO_VERSION__'') [Define ''PREDEF_COMPILER_COMEAU'' (Some (Name ''__COMO_VERSION__''))] [Define ''PREDEF_COMPILER_COMEAU'' (Some (Num 0))]] []]"

definition compiler_cray :: "directive list" where
  "compiler_cray =
    [If (Defined ''_CRAYC'')
       [If (Defined ''_REVISION'') [Define ''PREDEF_COMPILER_CRAY'' (Some (Name ''_REVISION''))] [Define ''PREDEF_COMPILER_CRAY'' (Some (Num 0))]] []]"

definition compiler_cygwin :: "directive list" where
  "compiler_cygwin =
    [If (Defined ''__CYGWIN__'') [Define ''PREDEF_COMPILER_CYGWIN'' (Some (Num 0))] []]"

definition compiler_decc :: "directive list" where
  "compiler_decc =
    [If (Or (Defined ''__DECC'') (Defined ''__DECCXX''))
       [If (Defined ''__DECC_VER'') [Define ''PREDEF_COMPILER_DECC'' (Some (Name ''__DECC_VER''))] [Define ''PREDEF_COMPILER_DECC'' (Some (Num 0))]]
       [If (Or (Defined ''VAXC'') (Defined ''__VAXC'')) [Define ''PREDEF_COMPILER_DECC'' (Some (Num 0))]
          [If (And (And (Defined ''__osf__'') (Defined ''__LANGUAGE_C__'')) (Neg (Defined ''__GNUC__''))) [Define ''PREDEF_COMPILER_DECC'' (Some (Num 0))] []]]]"

definition compiler_diab :: "directive list" where
  "compiler_diab =
    [If (And (Defined ''__DCC__'') (Defined ''__VERSION_NUMBER__'')) [Define ''PREDEF_COMPILER_DIAB'' (Some (Name ''__VERSION_NUMBER__''))] []]"

definition compiler_dmc :: "directive list" where
  "compiler_dmc =
    [If (Defined ''__DMC__'') [Define ''PREDEF_COMPILER_DMC'' (Some (Name ''__DMC__''))]
       [If (Or (Defined ''__SC__'') (Defined ''__ZTC__'')) [Define ''PREDEF_COMPILER_DMC'' (Some (Num 0))] []]]"

definition compiler_gcc :: "directive list" where
  "compiler_gcc =
    [If (Defined ''__GNUC__'')
       [If (Defined ''__GNUC_PATCHLEVEL__'') [Define ''PREDEF_COMPILER_GCC'' (Some (Add (Add (Mul (Name ''__GNUC__'') (Num 10000)) (Mul (Name ''__GNUC_MINOR__'') (Num 100))) (Name ''__GNUC_PATCHLEVEL__'')))] [Define ''PREDEF_COMPILER_GCC'' (Some (Add (Mul (Name ''__GNUC__'') (Num 10000)) (Mul (Name ''__GNUC_MINOR__'') (Num 100))))]] []]"

definition compiler_hpcc :: "directive list" where
  "compiler_hpcc =
    [If (Defined ''__HP_aCC'')
       [If (Eq (Name ''__HP_aCC'') (Num 1)) [Define ''PREDEF_COMPILER_HPCC'' (Some (Num 11500))] [Define ''PREDEF_COMPILER_HPCC'' (Some (Name ''__HP_aCC''))]]
       [If (Defined ''__HP_cc'') [Define ''PREDEF_COMPILER_HPCC'' (Some (Name ''__HP_cc''))]
          [If (And (Ge (Sub (Name ''__cplusplus'') (Num 0)) (Num 199707)) (Defined ''__hpux'')) [Define ''PREDEF_COMPILER_HPCC'' (Some (Num 0))] []]]]"

definition compiler_intel :: "directive list" where
  "compiler_intel =
    [If (Defined ''__INTEL_COMPILER'') [Define ''PREDEF_COMPILER_INTEL'' (Some (Name ''__INTEL_COMPILER''))]
       [If (Defined ''__ICC'') [Define ''PREDEF_COMPILER_INTEL'' (Some (Num 0))] []]]"

definition compiler_kai :: "directive list" where
  "compiler_kai =
    [If (Defined ''__KCC'')
       [If (Defined ''__KCC_VERSION'') [Define ''PREDEF_COMPILER_KAI'' (Some (Name ''__KCC_VERSION''))] [Define ''PREDEF_COMPILER_KAI'' (Some (Num 0))]] []]"

definition compiler_mingw32 :: "directive list" where
  "compiler_mingw32 =
    [If (Defined ''__MINGW32__'') [Define ''PREDEF_COMPILER_MINGW32'' (Some (Num 0))] []]"

definition compiler_mipspro :: "directive list" where
  "compiler_mipspro =
    [If (And (Or (Defined ''sgi'') (Defined ''__sgi'')) (Defined ''_COMPILER_VERSION'')) [Define ''PREDEF_COMPILER_MIPSPRO'' (Some (Name ''_COMPILER_VERSION''))] []]"

definition compiler_mpw :: "directive list" where
  "compiler_mpw =
    [If (Defined ''__MRC__'') [Define ''PREDEF_COMPILER_MPW'' (Some (Name ''__MRC__''))]
       [If (Or (Defined ''MPW_C'') (Defined ''MPW_CPLUS'')) [Define ''PREDEF_COMPILER_MPW'' (Some (Num 0))] []]]"

definition compiler_mwerks :: "directive list" where
  "compiler_mwerks =
    [If (Defined ''__MWERKS__'') [Define ''PREDEF_COMPILER_MWERKS'' (Some (Name ''__MWERKS__''))] []]"

definition compiler_norcroft :: "directive list" where
  "compiler_norcroft =
    [If (Defined ''__CC_NORCROFT'') [Define ''PREDEF_COMPILER_NORCROFT'' (Some (Num 0))] []]"

definition compiler_sco :: "directive list" where
  "compiler_sco =
    [If (Defined ''_SCO_DS'') [Define ''PREDEF_COMPILER_SCO'' (Some (Num 0))] []]"

definition compiler_sunpro :: "directive list" where
  "compiler_sunpro =
    [If (Defined ''__SUNPRO_C'') [Define ''PREDEF_COMPILER_SUNPRO'' (Some (Name ''__SUNPRO_C''))]
       [If (Defined ''__SUNPRO_CC'') [Define ''PREDEF_COMPILER_SUNPRO'' (Some (Name ''__SUNPRO_CC''))] []]]"

definition compiler_tendra :: "directive list" where
  "compiler_tendra =
    [If (Defined ''__TenDRA__'') [Define ''PREDEF_COMPILER_TENDRA'' (Some (Num 0))] []]"

definition compiler_uslc :: "directive list" where
  "compiler_uslc =
    [If (Defined ''__USLC__'')
       [If (Defined ''__SCO_VERSION__'') [Define ''PREDEF_COMPILER_USLC'' (Some (Name ''__SCO_VERSION__''))] [Define ''PREDEF_COMPILER_USLC'' (Some (Num 0))]] []]"

definition compiler_visualc :: "directive list" where
  "compiler_visualc =
    [If (Defined ''_MSC_VER'')
       [Define ''PREDEF_COMPILER_VISUALC'' (Some (Name ''_MSC_VER'')),
        Define ''PREDEF_VERSION_VISUALC_6_0'' (Some (Num 1200)),
        Define ''PREDEF_VERSION_VISUALC_7_0'' (Some (Num 1300))] []]"

definition compiler_watcom :: "directive list" where
  "compiler_watcom =
    [If (Defined ''__WATCOMC__'') [Define ''PREDEF_COMPILER_WATCOM'' (Some (Name ''__WATCOMC__''))] []]"

definition compiler_xlc :: "directive list" where
  "compiler_xlc =
    [If (Defined ''__xlC__'') [Define ''PREDEF_COMPILER_XLC'' (Some (Name ''__xlC__''))]
       [If (Or (Defined ''__IBMC__'') (Defined ''__IBMCPP__'')) [Define ''PREDEF_COMPILER_XLC'' (Some (Num 0))]
          [If (And (Defined ''_AIX'') (Neg (Defined ''__GNUC__''))) [Define ''PREDEF_COMPILER_XLC'' (Some (Num 0))] []]]]"

section \<open>Operating systems and platforms\<close>

definition operating_systems_a_l :: "directive list" where
  "operating_systems_a_l =
    [If (Or (Defined ''__amigaos__'') (Defined ''AMIGA'')) [Define ''PREDEF_OS_AMIGA'' None] [],
     If (Or (Or (Defined ''_AIX'') (Defined ''__TOS_AIX__'')) (Defined ''PREDEF_COMPILER_XLC'')) [Define ''PREDEF_OS_AIX'' None] [],
     If (Defined ''__BEOS__'') [Define ''PREDEF_OS_BEOS'' None] [],
     If (Or (Defined ''bsdi'') (Defined ''__bsdi__'')) [Define ''PREDEF_OS_BSDI'' None] [],
     If (Or (Defined ''_UNICOS'') (Defined ''_CRAY'')) [Define ''PREDEF_OS_CRAY'' None] [],
     If (Or (Or (Defined ''DGUX'') (Defined ''__DGUX__'')) (Defined ''__dgux__'')) [Define ''PREDEF_OS_DGUX'' None] [],
     If (Defined ''__DragonFly__'') [Define ''PREDEF_OS_DRAGONFLY'' None] [],
     If (Defined ''__FreeBSD__'') [Define ''PREDEF_OS_FREEBSD'' None] [],
     If (Or (Or (Defined ''hpux'') (Defined ''__hpux'')) (Defined ''_HPUX_SOURCE'')) [Define ''PREDEF_OS_HPUX'' None] [],
     If (Defined ''__GNU__'') [Define ''PREDEF_OS_HURD'' None] [],
     If (Or (Or (Or (Defined ''sgi'') (Defined ''__sgi'')) (Defined ''mips'')) (Defined ''_SGI_SOURCE'')) [Define ''PREDEF_OS_IRIX'' None] [],
     If (Or (Or (Defined ''linux'') (Defined ''__linux'')) (Defined ''__linux__'')) [Define ''PREDEF_OS_LINUX'' None] [],
     If (Or (Or (Defined ''macintosh'') (Defined ''Macintosh'')) (Defined ''__MACOS__'')) [Define ''PREDEF_OS_MACINTOSH'' None] []]"

definition operating_systems_m_u :: "directive list" where
  "operating_systems_m_u =
    [If (Or (Defined ''__MACOSX__'') (And (Defined ''__APPLE__'') (Defined ''__MACH__''))) [Define ''PREDEF_OS_MACOSX'' None] [],
     If (Or (Defined ''mpeix'') (Defined ''__mpexl'')) [Define ''PREDEF_OS_MPEIX'' None] [],
     If (Or (Or (Or (Defined ''MSDOS'') (Defined ''__MSDOS__'')) (Defined ''_MSDOS'')) (Defined ''__DOS__'')) [Define ''PREDEF_OS_MSDOS'' None] [],
     If (Defined ''__NetBSD__'') [Define ''PREDEF_OS_NETBSD'' None] [],
     If (Defined ''__OpenBSD__'') [Define ''PREDEF_OS_OPENBSD'' None] [],
     If (Or (Or (Or (Defined ''OS2'') (Defined ''_OS2'')) (Defined ''__OS2__'')) (Defined ''__TOS_OS2__'')) [Define ''PREDEF_OS_OS2'' None] [],
     If (Or (Or (Defined ''__osf__'') (Defined ''__osf'')) (Defined ''PREDEF_COMPILER_DECC'')) [Define ''PREDEF_OS_OSF'' None] [],
     If (Defined ''pyr'') [Define ''PREDEF_OS_PYRAMID'' None] [],
     If (Or (Defined ''__QNX__'') (Defined ''__QNXNTO__'')) [Define ''PREDEF_OS_QNX'' None] [],
     If (Or (Or (Or (Defined ''M_I386'') (Defined ''M_XENIX'')) (Defined ''_SCO_C_DIALECT'')) (Defined ''PREDEF_COMPILER_SCO'')) [Define ''PREDEF_OS_SCO'' None] [],
     If (Or (Defined ''_SEQUENT_'') (Defined ''sequent'')) [Define ''PREDEF_OS_SEQUENT'' None] [],
     If (Defined ''sinix'') [Define ''PREDEF_OS_SINIX'' None] [],
     If (Or (Or (Defined ''sun'') (Defined ''__sun__'')) (Defined ''PREDEF_COMPILER_SUNPRO''))
       [If (Or (Defined ''__SVR4'') (Defined ''__svr4__'')) [Define ''PREDEF_OS_SOLARIS'' None] [Define ''PREDEF_OS_SUNOS'' None]] [],
     If (Or (Or (Defined ''ultrix'') (Defined ''__ultrix'')) (Defined ''__ultrix__'')) [Define ''PREDEF_OS_ULTRIX'' None] []]"

definition platforms :: "directive list" where
  "platforms =
    [If (Or (Defined ''VMS'') (Defined ''__VMS''))
       [Undef ''PREDEF_OS_OSF'',
        Define ''PREDEF_PLATFORM_VMS'' None,
        If (Defined ''__VMS_VER'') [Define ''PREDEF_OS_VMS'' (Some (Name ''__VMS_VER''))] [Define ''PREDEF_OS_VMS'' (Some (Num 0))]] [],
     If (Or (Or (Defined ''unix'') (Defined ''__unix'')) (Defined ''__unix__'')) [Define ''PREDEF_PLATFORM_UNIX'' None] [],
     If (Or (Or (Or (Defined ''PREDEF_OS_AIX'') (Defined ''PREDEF_OS_OSF'')) (Defined ''PREDEF_OS_NETBSD'')) (Defined ''PREDEF_OS_QNX''))
       [If (Neg (Defined ''PREDEF_PLATFORM_UNIX'')) [Define ''PREDEF_PLATFORM_UNIX'' None] []] [],
     If (Defined ''PREDEF_COMPILER_CYGWIN'') [Define ''PREDEF_PLATFORM_UNIX'' None] [],
     If (And (Defined ''AMIGA'') (Defined ''PREDEF_COMPILER_GCC'')) [Define ''PREDEF_PLATFORM_UNIX'' None] [],
     If (Or (Or (Or (Defined ''WIN32'') (Defined ''_WIN32'')) (Defined ''__TOS_WIN__'')) (Defined ''PREDEF_COMPILER_VISUALC''))
       [Define ''PREDEF_PLATFORM_WIN32'' None,
        Define ''PREDEF_OS_WINDOWS'' None] [],
     If (Or (Or (Or (Or (Or (Or (Defined ''PREDEF_OS_FREEBSD'') (Defined ''PREDEF_OS_NETBSD'')) (Defined ''PREDEF_OS_OPENBSD'')) (Defined ''PREDEF_OS_BSDI'')) (Defined ''PREDEF_OS_DRAGONFLY'')) (Defined ''_BSD_SOURCE'')) (Defined ''_SYSTYPE_BSD'')) [Define ''PREDEF_PLATFORM_BSD'' None] [],
     If (Or (Or (Or (Or (Defined ''__sysv__'') (Defined ''__SVR4'')) (Defined ''__svr4__'')) (Defined ''_SVR4_SOURCE'')) (Defined ''_SYSTYPE_SVR4'')) [Define ''PREDEF_PLATFORM_SVR4'' None] [],
     If (Defined ''UWIN'') [Define ''PREDEF_PLATFORM_UWIN'' None] [],
     If (Defined ''_WINDU_SOURCE'') [Define ''PREDEF_PLATFORM_WINDU'' None] []]"

section \<open>Standards\<close>

definition c_standards :: "directive list" where
  "c_standards =
    [Define ''PREDEF_VERSION_C89'' (Some (Num 198900)),
     Define ''PREDEF_VERSION_C90'' (Some (Num 199000)),
     Define ''PREDEF_VERSION_C94'' (Some (Num 199409)),
     Define ''PREDEF_VERSION_C99'' (Some (Num 199901)),
     If (Defined ''__STDC_VERSION__'')
       [If (Gt (Sub (Name ''__STDC_VERSION__'') (Num 0)) (Num 1)) [Define ''PREDEF_STANDARD_C'' (Some (Name ''__STDC_VERSION__''))]
          [If (Ge (Sub (Name ''PREDEF_COMPILER_SUNPRO'') (Num 0)) (Num 1056)) [Define ''PREDEF_STANDARD_C'' (Some (Name ''PREDEF_VERSION_C94''))] [Define ''PREDEF_STANDARD_C'' (Some (Name ''PREDEF_VERSION_C90''))]]]
       [If (Or (Or (Defined ''__STDC__'') (Defined ''_MSC_EXTENSIONS'')) (Defined ''PREDEF_COMPILER_BORLAND'')) [Define ''PREDEF_STANDARD_C'' (Some (Name ''PREDEF_VERSION_C89''))] []],
     If (Ge (Sub (Name ''PREDEF_STANDARD_C'') (Num 0)) (Name ''PREDEF_VERSION_C89'')) [Define ''PREDEF_STANDARD_C89'' None] [],
     If (Ge (Sub (Name ''PREDEF_STANDARD_C'') (Num 0)) (Name ''PREDEF_VERSION_C90'')) [Define ''PREDEF_STANDARD_C90'' None] [],
     If (Ge (Sub (Name ''PREDEF_STANDARD_C'') (Num 0)) (Name ''PREDEF_VERSION_C94'')) [Define ''PREDEF_STANDARD_C94'' None] [],
     If (Ge (Sub (Name ''PREDEF_STANDARD_C'') (Num 0)) (Name ''PREDEF_VERSION_C99'')) [Define ''PREDEF_STANDARD_C99'' None] []]"

definition cxx_standards :: "directive list" where
  "cxx_standards =
    [Define ''PREDEF_VERSION_CXX98'' (Some (Num 199711)),
     If (Defined ''__cplusplus'')
       [If (Eq (Sub (Name ''__cplusplus'') (Num 0)) (Num 1)) [Define ''PREDEF_STANDARD_CXX'' (Some (Name ''PREDEF_VERSION_CXX98''))] [Define ''PREDEF_STANDARD_CXX'' (Some (Name ''__cplusplus''))]] [],
     If (Ge (Sub (Name ''PREDEF_STANDARD_CXX'') (Num 0)) (Name ''PREDEF_VERSION_CXX98'')) [Define ''PREDEF_STANDARD_CXX98'' None] []]"

definition unix_headers :: "directive list" where
  "unix_headers =
    [If (Defined ''PREDEF_PLATFORM_UNIX'') [Include ''unistd.h''] []]"

definition posix_standards :: "directive list" where
  "posix_standards =
    [Define ''PREDEF_VERSION_POSIX_1990'' (Some (Num 199009)),
     Define ''PREDEF_VERSION_POSIX_1993'' (Some (Num 199309)),
     Define ''PREDEF_VERSION_POSIX_1996'' (Some (Num 199506)),
     Define ''PREDEF_VERSION_POSIX_2001'' (Some (Num 200112)),
     If (Ge (Sub (Name ''_POSIX_VERSION'') (Num 0)) (Name ''PREDEF_VERSION_POSIX_1990'')) [Define ''PREDEF_STANDARD_POSIX_1990'' None] [],
     If (Ge (Sub (Name ''_POSIX_VERSION'') (Num 0)) (Name ''PREDEF_VERSION_POSIX_1993'')) [Define ''PREDEF_STANDARD_POSIX_1993'' None] [],
     If (Ge (Sub (Name ''_POSIX_VERSION'') (Num 0)) (Name ''PREDEF_VERSION_POSIX_1996'')) [Define ''PREDEF_STANDARD_POSIX_1996'' None] [],
     If (Ge (Sub (Name ''_POSIX_VERSION'') (Num 0)) (Name ''PREDEF_VERSION_POSIX_2001'')) [Define ''PREDEF_STANDARD_POSIX_2001'' None] [],
     If (Defined ''_POSIX_VERSION'') [Define ''PREDEF_STANDARD_POSIX'' (Some (Name ''_POSIX_VERSION''))] [],
     If (Ge (Sub (Name ''_POSIX2_C_VERSION'') (Num 0)) (Num 199209)) [Define ''PREDEF_STANDARD_POSIX_1992'' None] []]"

definition xopen_standards :: "directive list" where
  "xopen_standards =
    [Define ''PREDEF_VERSION_XOPEN_1989'' (Some (Num 300)),
     Define ''PREDEF_VERSION_XOPEN_1992'' (Some (Num 400)),
     Define ''PREDEF_VERSION_XOPEN_1995'' (Some (Num 450)),
     Define ''PREDEF_VERSION_XOPEN_1998'' (Some (Num 500)),
     Define ''PREDEF_VERSION_XOPEN_2003'' (Some (Num 600)),
     If (Or (Ge (Sub (Name ''_XOPEN_VERSION'') (Num 0)) (Num 3)) (Defined ''_XOPEN_XPG3'')) [Define ''PREDEF_STANDARD_XOPEN_1989'' None] [],
     If (Or (Ge (Sub (Name ''_XOPEN_VERSION'') (Num 0)) (Num 4)) (Defined ''_XOPEN_XPG4'')) [Define ''PREDEF_STANDARD_XOPEN_1992'' None] [],
     If (Or (Gt (Sub (Name ''_XOPEN_VERSION'') (Num 0)) (Num 4)) (And (Defined ''_XOPEN_UNIX'') (Eq (Sub (Name ''_XOPEN_VERSION'') (Num 0)) (Num 4)))) [Define ''PREDEF_STANDARD_XOPEN_1995'' None] [],
     If (Ge (Sub (Name ''_XOPEN_VERSION'') (Num 0)) (Name ''PREDEF_VERSION_XOPEN_1998'')) [Define ''PREDEF_STANDARD_XOPEN_1998'' None] [],
     If (Ge (Sub (Name ''_XOPEN_VERSION'') (Num 0)) (Name ''PREDEF_VERSION_XOPEN_2003'')) [Define ''PREDEF_STANDARD_XOPEN_2003'' None] [],
     If (Defined ''PREDEF_STANDARD_XOPEN_1998'') [Define ''PREDEF_STANDARD_XOPEN'' (Some (Name ''_XOPEN_VERSION''))]
       [If (Defined ''PREDEF_STANDARD_XOPEN_1995'') [Define ''PREDEF_STANDARD_XOPEN'' (Some (Name ''PREDEF_VERSION_XOPEN_1995''))]
          [If (Defined ''PREDEF_STANDARD_XOPEN_1992'') [Define ''PREDEF_STANDARD_XOPEN'' (Some (Name ''PREDEF_VERSION_XOPEN_1992''))]
             [If (Defined ''PREDEF_STANDARD_XOPEN_1989'') [Define ''PREDEF_STANDARD_XOPEN'' (Some (Name ''PREDEF_VERSION_XOPEN_1989''))] []]]]]"

section \<open>Libraries\<close>

definition c_libraries :: "directive list" where
  "c_libraries =
    [If (And (Defined ''PREDEF_COMPILER_MWERKS'') (Defined ''TARGET_API_MAC_CARBON''))
       [Define ''PREDEF_LIBC_CARBON'' (Some (Num 0)),
        If (Defined ''PREDEF_STANDARD_C99'') [Undef ''PREDEF_STANDARD_C99''] []] [],
     If (Defined ''__GLIBC__'')
       [If (Defined ''__GLIBC_MINOR__'') [Define ''PREDEF_LIBC_GNU'' (Some (Add (Mul (Name ''__GLIBC__'') (Num 10000)) (Mul (Name ''__GLIBC_MINOR__'') (Num 100))))] [Define ''PREDEF_LIBC_GNU'' (Some (Mul (Name ''__GLIBC__'') (Num 10000)))]]
       [If (Defined ''__GNU_LIBRARY__'')
          [If (Defined ''__GNU_LIBRARY_MINOR__'') [Define ''PREDEF_LIBC_GNU'' (Some (Add (Mul (Name ''__GNU_LIBRARY__'') (Num 100)) (Name ''__GNU_LIBRARY_MINOR__'')))] [Define ''PREDEF_LIBC_GNU'' (Some (Mul (Name ''__GNU_LIBRARY__'') (Num 100)))]] []],
     If (Defined ''__CRTL_VER'')
       [Define ''PREDEF_LIBC_VMS'' (Some (Name ''__CRTL_VER'')),
        If (Lt (Name ''__CRTL_VER'') (Num 80000000))
          [If (Defined ''PREDEF_STANDARD_C99'') [Undef ''PREDEF_STANDARD_C99''] []] []] []]"

definition cxx_libraries :: "directive list" where
  "cxx_libraries =
    [If (Defined ''__CPPLIB_VER'') [Define ''PREDEF_LIBCXX_DINKUM'' (Some (Name ''__CPPLIB_VER''))] [],
     If (Defined ''__GLIBCXX__'') [Define ''PREDEF_LIBCXX_GNU'' (Some (Name ''__GLIBCXX__''))]
       [If (Defined ''__GLIBCPP__'') [Define ''PREDEF_LIBCXX_GNU'' (Some (Name ''__GLIBCPP__''))] []],
     If (Defined ''PREDEF_COMPILER_VISUALC'')
       [If (Defined ''PREDEF_LIBCXX_DINKUM'') [Define ''PREDEF_LIBCXX_VISUALC'' (Some (Name ''PREDEF_LIBCXX_DINKUM''))] [Define ''PREDEF_LIBCXX_VISUALC'' (Some (Num 0))]] []]"

section \<open>The header\<close>

definition predef_body :: "directive list" where
  "predef_body = [Define ''PREDEF_PREDEF_H'' None] @
     compiler_borland @ compiler_comeau @ compiler_cray @ compiler_cygwin @ compiler_decc @
     compiler_diab @ compiler_dmc @ compiler_gcc @ compiler_hpcc @ compiler_intel @ compiler_kai @
     compiler_mingw32 @ compiler_mipspro @ compiler_mpw @ compiler_mwerks @ compiler_norcroft @
     compiler_sco @ compiler_sunpro @ compiler_tendra @ compiler_uslc @ compiler_visualc @
     compiler_watcom @ compiler_xlc @ operating_systems_a_l @ operating_systems_m_u @ platforms @
     c_standards @ cxx_standards @ unix_headers @ posix_standards @ xopen_standards @ c_libraries @
     cxx_libraries"

definition predef_h :: "directive list" where
  "predef_h = [If (Neg (Defined ''PREDEF_PREDEF_H'')) predef_body []]"

lemmas compiler_defs = compiler_borland_def compiler_comeau_def compiler_cray_def compiler_cygwin_def
  compiler_decc_def compiler_diab_def compiler_dmc_def compiler_gcc_def compiler_hpcc_def compiler_intel_def
  compiler_kai_def compiler_mingw32_def compiler_mipspro_def compiler_mpw_def compiler_mwerks_def
  compiler_norcroft_def compiler_sco_def compiler_sunpro_def compiler_tendra_def compiler_uslc_def
  compiler_visualc_def compiler_watcom_def compiler_xlc_def
lemmas block_defs = compiler_defs operating_systems_a_l_def operating_systems_m_u_def platforms_def
  c_standards_def cxx_standards_def unix_headers_def posix_standards_def xopen_standards_def c_libraries_def
  cxx_libraries_def

section \<open>The conditions are well-formed\<close>

text \<open>The macros that conditions compare, and those of them whose emptiness the header does not provide for.\<close>

definition compared :: "string list" where
  "compared = [''__HP_aCC'', ''__cplusplus'', ''__STDC_VERSION__'', ''__SUNPRO_C'', ''__SUNPRO_CC'', ''_POSIX_VERSION'',
     ''_POSIX2_C_VERSION'', ''_XOPEN_VERSION'', ''__CRTL_VER'', ''PREDEF_COMPILER_SUNPRO'', ''PREDEF_STANDARD_C'',
     ''PREDEF_STANDARD_CXX'', ''PREDEF_VERSION_C89'', ''PREDEF_VERSION_C90'', ''PREDEF_VERSION_C94'', ''PREDEF_VERSION_C99'',
     ''PREDEF_VERSION_CXX98'']"

definition need_value :: "string list" where
  "need_value = [''__HP_aCC'', ''__CRTL_VER'']"

definition fresh :: "pp \<Rightarrow> bool" where
  "fresh s \<longleftrightarrow> (\<forall>x. own_name x \<longrightarrow> map_of (macros s) x = None)"

lemma predef_ok: "ok_dirs compared [''__CRTL_VER''] need_value predef_body"
  by code_simp

lemma own_names [simp]:
  "own_name (CHR ''P'' # CHR ''R'' # CHR ''E'' # CHR ''D'' # CHR ''E'' # CHR ''F'' # CHR ''_'' # x)"
  by (simp add: own_name_def)

lemma guard_kept: "\<not> list_ex (\<lambda>d. changes d ''PREDEF_PREDEF_H'') (drop 1 predef_body)"
  by code_simp

lemma guard_defined:
  assumes "execs I predef_body s = Some s'" and "keeps_own I"
  shows "def_in s' ''PREDEF_PREDEF_H''"
proof -
  have "\<not> list_ex (\<lambda>d. changes d ''PREDEF_PREDEF_H'') (drop (0 + 1) predef_body)"
    using guard_kept by simp
  then obtain t u where "execs I (take 1 (drop 0 predef_body)) t = Some u"
    "map_of (macros s') ''PREDEF_PREDEF_H'' = map_of (macros u) ''PREDEF_PREDEF_H''"
    by (rule execs_part [OF assms])
  then show ?thesis by (auto simp: predef_body_def)
qed

text \<open>The directives before and behind the inclusion of \<^verbatim>\<open>unistd.h\<close>.\<close>

lemma predef_own_only: "list_all own_only (take 73 predef_body)" "list_all own_only (drop 74 predef_body)"
  "\<not> list_ex (\<lambda>d. changes d ''PREDEF_PLATFORM_UNIX'') (drop 74 predef_body)"
  "\<not> list_ex warns predef_body"
  by code_simp+

lemma predef_include: "drop 73 predef_body = If (Defined ''PREDEF_PLATFORM_UNIX'') [Include ''unistd.h''] [] # drop 74 predef_body"
  by code_simp

lemma predef_not_unix:
  assumes run: "execs I predef_body s = Some s'" and own: "keeps_own I"
    and "\<not> def_in s' ''PREDEF_PLATFORM_UNIX''" and x: "\<not> own_name x"
  shows "map_of (macros s') x = map_of (macros s) x"
proof -
  have "execs I (take 73 predef_body @ If (Defined ''PREDEF_PLATFORM_UNIX'') [Include ''unistd.h''] [] # drop 74 predef_body) s = Some s'"
    using run append_take_drop_id [of 73 predef_body] by (simp add: predef_include)
  then obtain t u where t: "execs I (take 73 predef_body) s = Some t"
    and u: "exec I (If (Defined ''PREDEF_PLATFORM_UNIX'') [Include ''unistd.h''] []) t = Some u"
    and s': "execs I (drop 74 predef_body) u = Some s'"
    by (auto simp: execs_append simp del: exec.simps split: Option.bind_splits)
  have "def_in s' ''PREDEF_PLATFORM_UNIX'' = def_in u ''PREDEF_PLATFORM_UNIX''"
    using exec_unchanged(2) [OF s' own predef_own_only(3)] by simp
  with u assms(3) own have "u = t"
    by (auto simp: keeps_own_def split: if_splits)
  with own_only_run [OF t own predef_own_only(1) x] own_only_run [OF s' own predef_own_only(2) x] show ?thesis by simp
qed

text \<open>
  C38. \<^verbatim>\<open>predef.h\<close>, for any macros of the compiler and the system that are numbers or empty where
  the header compares them: no condition is ill-formed and nothing is warned of; to include
  the header a second time changes nothing; and unless the platform is Unix, where the system's
  \<^verbatim>\<open>unistd.h\<close> is included, only macros with the prefix \<open>PREDEF_\<close> change. Emptiness is a problem for
  \<open>__HP_aCC\<close> and \<open>__CRTL_VER\<close> only, which are compared without subtracting 0.
\<close>

theorem predef_total:
  assumes I: "sys_header compared [''__CRTL_VER''] I"
    and s: "fresh s" "\<forall>x \<in> set compared. plain (map_of (macros s) x)"
      "\<forall>x \<in> set need_value. numeric_body (map_of (macros s) x)"
  shows "\<exists>s'. execs I predef_h s = Some s' \<and> execs I predef_h s' = Some s' \<and> warnings s' = warnings s \<and>
    (\<not> def_in s' ''PREDEF_PLATFORM_UNIX'' \<longrightarrow> (\<forall>x. \<not> own_name x \<longrightarrow> map_of (macros s') x = map_of (macros s) x))"
proof -
  have own: "keeps_own I" using I by (simp add: sys_header_def)
  have "flat compared (macros s)" "numeric need_value (macros s)"
    using s by (auto simp: flat_def numeric_def intro: plain_flat)
  from ok_dirs_run(2) [OF predef_ok I this] obtain s' where s': "execs I predef_body s = Some s'" by blast
  have "execs I predef_h s = Some s'"
    using s' s(1) by (simp add: predef_h_def fresh_def)
  moreover have "execs I predef_h s' = Some s'"
    using guard_defined [OF s' own] by (auto simp: predef_h_def)
  moreover have "warnings s' = warnings s"
    using exec_warnings(2) [OF s' predef_own_only(4)] .
  ultimately show ?thesis using predef_not_unix [OF s' own] by blast
qed

text \<open>The instance: \<open>g++\<close> 4.9.2 on Linux, and a \<^verbatim>\<open>unistd.h\<close> that sets the version of POSIX.\<close>

definition linux_gcc :: pp where
  "linux_gcc = \<lparr>macros = [(''__GNUC__'', Some (Num 4)), (''__GNUC_MINOR__'', Some (Num 9)), (''__GNUC_PATCHLEVEL__'', Some (Num 2)),
     (''__cplusplus'', Some (Num 199711)), (''__linux__'', Some (Num 1)), (''__unix__'', Some (Num 1)),
     (''__x86_64__'', Some (Num 1))], warnings = []\<rparr>"

definition linux_headers :: "string \<Rightarrow> env \<Rightarrow> env" where
  "linux_headers h env = (if h = ''unistd.h'' then (''_POSIX_VERSION'', Some (Num 200809)) # env else env)"

lemma linux_headers_ok: "sys_header compared [''__CRTL_VER''] linux_headers"
  by (auto simp: sys_header_def keeps_own_def linux_headers_def flat_def own_name_def)

lemma linux_gcc_fresh: "fresh linux_gcc"
  by (auto simp: fresh_def linux_gcc_def own_name_def)

lemma linux_gcc_plain:
  "\<forall>x \<in> set compared. plain (map_of (macros linux_gcc) x)" "\<forall>x \<in> set need_value. numeric_body (map_of (macros linux_gcc) x)"
  by (simp_all add: compared_def need_value_def linux_gcc_def)

theorem predef_total_witness:
  "\<exists>s'. execs linux_headers predef_h linux_gcc = Some s' \<and> execs linux_headers predef_h s' = Some s' \<and> warnings s' = []"
  using predef_total [OF linux_headers_ok linux_gcc_fresh linux_gcc_plain] by (auto simp: linux_gcc_def)

end
