(* ===== verification/Predef_Select.thy ===== *)
theory Predef_Select
  imports Predef
begin

text \<open>
  Which branches of \<^verbatim>\<open>socket_fd.h\<close> and \<^verbatim>\<open>endian.h\<close> a compiler gets through \<^verbatim>\<open>predef.h\<close>, as conditions
  on the macros of the compiler, and the processor that \<^verbatim>\<open>processor_arh.h\<close> finds.
\<close>

section \<open>What the library selects\<close>

text \<open>The type of a socket handle in \<^verbatim>\<open>socket_fd.h\<close>, and where \<^verbatim>\<open>endian.h\<close> takes \<open>htobe16\<close> and the like from.\<close>

datatype handle_type = UINT_PTR | CInt

definition SOCKET_FD :: "pp \<Rightarrow> handle_type option" where
  "SOCKET_FD s =
     (if def_in s ''PREDEF_OS_WINDOWS'' then Some UINT_PTR
      else if def_in s ''PREDEF_OS_LINUX'' \<or> def_in s ''PREDEF_PLATFORM_UNIX'' then Some CInt
      else None)"

datatype endian_source = SystemHeader | OwnFunctions

definition endian_functions :: "pp \<Rightarrow> endian_source option" where
  "endian_functions s =
     (if def_in s ''PREDEF_OS_LINUX'' then Some SystemHeader
      else if def_in s ''PREDEF_COMPILER_VISUALC'' then Some OwnFunctions
      else None)"

section \<open>The macros that the library tests\<close>

text \<open>
  A macro that one directive alone defines: it is defined in the end when the conditions
  around its definition held there, and the directive saw the macros of the compiler unchanged.
\<close>

definition alone :: "(string \<Rightarrow> bool) \<Rightarrow> directive list \<Rightarrow> nat \<Rightarrow> string \<Rightarrow> bool" where
  "alone P ds i x \<longleftrightarrow> own_name x \<and> i < length ds \<and> simple_group P (ds ! i) \<and> list_all own_only (take i ds) \<and>
     \<not> list_ex (\<lambda>d. changes d x) (take i ds) \<and> \<not> list_ex (\<lambda>d. changes d x) (drop (i + 1) ds)"

lemma alone_run:
  assumes "alone P ds i x" and run: "execs I ds s = Some s'" and own: "keeps_own I" and "fresh s"
  shows "\<exists>t. execs I (take i ds) s = Some t \<and> (def_in s' x \<longleftrightarrow> sets_macro (def_in t) x (ds ! i)) \<and>
    (\<forall>y. \<not> own_name y \<longrightarrow> def_in t y = def_in s y)"
proof -
  note al = assms(1) [unfolded alone_def]
  obtain t u where t: "execs I (take i ds) s = Some t" and u: "execs I (take 1 (drop i ds)) t = Some u"
    "map_of (macros s') x = map_of (macros u) x"
    "\<And>y. \<not> list_ex (\<lambda>d. changes d y) (take i ds) \<Longrightarrow> map_of (macros t) y = map_of (macros s) y"
    using execs_part [OF run own, of x i 1] al by blast
  have "take 1 (drop i ds) = [ds ! i]" using al by (simp add: take_Suc_conv_app_nth Cons_nth_drop_Suc [symmetric])
  with u(1) have "exec I (ds ! i) t = Some u" by (auto split: Option.bind_splits)
  from simple_group_run(1) [OF this, of P "def_in t" x] al
  have "def_in u x \<longleftrightarrow> def_in t x \<or> sets_macro (def_in t) x (ds ! i)" by simp
  moreover have "\<not> def_in t x" using u(3) [of x] al \<open>fresh s\<close> by (simp add: fresh_def)
  ultimately show ?thesis
    using t u(2) own_only_run [OF t own] al by auto
qed

lemma holds_cong: "tests_only P c \<Longrightarrow> (\<And>y. P y \<Longrightarrow> D y = E y) \<Longrightarrow> holds D c = holds E c"
  by (induction c) auto

lemma sets_macro_cong: "simple_group P d \<Longrightarrow> (\<And>y. P y \<Longrightarrow> D y = E y) \<Longrightarrow> sets_macro D x d = sets_macro E x d"
proof (induction D x d rule: sets_macro.induct)
  case (2 D x c ds es)
  then have "holds D c = holds E c" by (intro holds_cong [of P]) auto
  moreover have "sets_macro D x d = sets_macro E x d" if "d \<in> set ds \<union> set es" and "d \<in> set ds \<longleftrightarrow> holds D c" for d
    using that 2 by (auto simp: list_all_iff)
  ultimately show ?case using 2 by (auto simp: list_ex_iff list_all_iff)
qed auto

abbreviation foreign :: "string \<Rightarrow> bool" where
  "foreign y \<equiv> \<not> own_name y"

text \<open>When the directive tests macros of the compiler only, the macro is defined as these say.\<close>

lemma alone_foreign:
  assumes "alone foreign ds i x" and "execs I ds s = Some s'" and "keeps_own I" and "fresh s"
  shows "def_in s' x \<longleftrightarrow> sets_macro (def_in s) x (ds ! i)"
proof -
  from alone_run [OF assms] obtain t where "def_in s' x \<longleftrightarrow> sets_macro (def_in t) x (ds ! i)"
    "\<forall>y. foreign y \<longrightarrow> def_in t y = def_in s y" by blast
  with sets_macro_cong [of foreign "ds ! i" "def_in t" "def_in s" x] assms(1) show ?thesis
    by (simp add: alone_def)
qed

lemma linux_def:
  assumes "execs I predef_body s = Some s'" and "keeps_own I" and "fresh s"
  shows "def_in s' ''PREDEF_OS_LINUX'' \<longleftrightarrow> def_in s ''linux'' \<or> def_in s ''__linux'' \<or> def_in s ''__linux__''"
proof -
  have "alone foreign predef_body 35 ''PREDEF_OS_LINUX''" by code_simp
  moreover have "sets_macro D ''PREDEF_OS_LINUX'' (predef_body ! 35) \<longleftrightarrow> D ''linux'' \<or> D ''__linux'' \<or> D ''__linux__''" for D
    by code_simp simp
  ultimately show ?thesis using alone_foreign [OF _ assms] by simp
qed

lemma visualc_def:
  assumes "execs I predef_body s = Some s'" and "keeps_own I" and "fresh s"
  shows "def_in s' ''PREDEF_COMPILER_VISUALC'' \<longleftrightarrow> def_in s ''_MSC_VER''"
proof -
  have "alone foreign predef_body 21 ''PREDEF_COMPILER_VISUALC''" by code_simp
  moreover have "sets_macro D ''PREDEF_COMPILER_VISUALC'' (predef_body ! 21) \<longleftrightarrow> D ''_MSC_VER''" for D
    by code_simp simp
  ultimately show ?thesis using alone_foreign [OF _ assms] by simp
qed

lemma windows_def:
  assumes "execs I predef_body s = Some s'" and "keeps_own I" and "fresh s"
  shows "def_in s' ''PREDEF_OS_WINDOWS'' \<longleftrightarrow>
    def_in s ''WIN32'' \<or> def_in s ''_WIN32'' \<or> def_in s ''__TOS_WIN__'' \<or> def_in s ''_MSC_VER''"
proof -
  have "alone (\<lambda>y. foreign y \<or> y = ''PREDEF_COMPILER_VISUALC'') predef_body 56 ''PREDEF_OS_WINDOWS''" by code_simp
  from alone_run [OF this assms] obtain t where t: "execs I (take 56 predef_body) s = Some t"
    "def_in s' ''PREDEF_OS_WINDOWS'' \<longleftrightarrow> sets_macro (def_in t) ''PREDEF_OS_WINDOWS'' (predef_body ! 56)"
    "\<forall>y. foreign y \<longrightarrow> def_in t y = def_in s y" by blast
  have "sets_macro D ''PREDEF_OS_WINDOWS'' (predef_body ! 56) \<longleftrightarrow>
      D ''WIN32'' \<or> D ''_WIN32'' \<or> D ''__TOS_WIN__'' \<or> D ''PREDEF_COMPILER_VISUALC''" for D
    by code_simp simp
  moreover have "alone foreign (take 56 predef_body) 21 ''PREDEF_COMPILER_VISUALC''" by code_simp
  moreover have "sets_macro D ''PREDEF_COMPILER_VISUALC'' (take 56 predef_body ! 21) \<longleftrightarrow> D ''_MSC_VER''" for D
    by code_simp simp
  ultimately show ?thesis
    using t alone_foreign [OF _ t(1) assms(2,3), of 21 "''PREDEF_COMPILER_VISUALC''"] by (simp add: own_name_def)
qed

text \<open>The systems on which \<open>PREDEF_PLATFORM_UNIX\<close> is defined without a macro that says Unix.\<close>

lemma aix_def:
  assumes "execs I (take 52 predef_body) s = Some s'" and "keeps_own I" and "fresh s"
  shows "def_in s' ''PREDEF_OS_AIX'' \<longleftrightarrow>
    def_in s ''_AIX'' \<or> def_in s ''__TOS_AIX__'' \<or> def_in s ''__xlC__'' \<or> def_in s ''__IBMC__'' \<or> def_in s ''__IBMCPP__''"
proof -
  have "alone (\<lambda>y. foreign y \<or> y = ''PREDEF_COMPILER_XLC'') (take 52 predef_body) 25 ''PREDEF_OS_AIX''" by code_simp
  from alone_run [OF this assms] obtain t where t: "execs I (take 25 predef_body) s = Some t"
    "def_in s' ''PREDEF_OS_AIX'' \<longleftrightarrow> sets_macro (def_in t) ''PREDEF_OS_AIX'' (take 52 predef_body ! 25)"
    "\<forall>y. foreign y \<longrightarrow> def_in t y = def_in s y" by (auto simp: min_def)
  have "sets_macro D ''PREDEF_OS_AIX'' (take 52 predef_body ! 25) \<longleftrightarrow> D ''_AIX'' \<or> D ''__TOS_AIX__'' \<or> D ''PREDEF_COMPILER_XLC''" for D
    by code_simp simp
  moreover have "alone foreign (take 25 predef_body) 23 ''PREDEF_COMPILER_XLC''" by code_simp
  moreover have "sets_macro D ''PREDEF_COMPILER_XLC'' (take 25 predef_body ! 23) \<longleftrightarrow>
      D ''__xlC__'' \<or> D ''__IBMC__'' \<or> D ''__IBMCPP__'' \<or> D ''_AIX'' \<and> \<not> D ''__GNUC__''" for D
    by code_simp auto
  ultimately show ?thesis
    using t alone_foreign [OF _ t(1) assms(2,3), of 23 "''PREDEF_COMPILER_XLC''"] by (auto simp: own_name_def)
qed

lemma osf_def:
  assumes "execs I (take 51 predef_body) s = Some s'" and "keeps_own I" and "fresh s"
  shows "def_in s' ''PREDEF_OS_OSF'' \<longleftrightarrow>
    def_in s ''__osf__'' \<or> def_in s ''__osf'' \<or> def_in s ''__DECC'' \<or> def_in s ''__DECCXX'' \<or> def_in s ''VAXC'' \<or> def_in s ''__VAXC''"
proof -
  have "alone (\<lambda>y. foreign y \<or> y = ''PREDEF_COMPILER_DECC'') (take 51 predef_body) 43 ''PREDEF_OS_OSF''" by code_simp
  from alone_run [OF this assms] obtain t where t: "execs I (take 43 predef_body) s = Some t"
    "def_in s' ''PREDEF_OS_OSF'' \<longleftrightarrow> sets_macro (def_in t) ''PREDEF_OS_OSF'' (take 51 predef_body ! 43)"
    "\<forall>y. foreign y \<longrightarrow> def_in t y = def_in s y" by (auto simp: min_def)
  have "sets_macro D ''PREDEF_OS_OSF'' (take 51 predef_body ! 43) \<longleftrightarrow> D ''__osf__'' \<or> D ''__osf'' \<or> D ''PREDEF_COMPILER_DECC''" for D
    by code_simp simp
  moreover have "alone foreign (take 43 predef_body) 5 ''PREDEF_COMPILER_DECC''" by code_simp
  moreover have "sets_macro D ''PREDEF_COMPILER_DECC'' (take 43 predef_body ! 5) \<longleftrightarrow>
      D ''__DECC'' \<or> D ''__DECCXX'' \<or> D ''VAXC'' \<or> D ''__VAXC'' \<or> D ''__osf__'' \<and> D ''__LANGUAGE_C__'' \<and> \<not> D ''__GNUC__''" for D
    by code_simp auto
  ultimately show ?thesis
    using t alone_foreign [OF _ t(1) assms(2,3), of 5 "''PREDEF_COMPILER_DECC''"] by (auto simp: own_name_def)
qed

text \<open>One conditional definition, and one that looks whether the macro is defined already.\<close>

lemma ceval_tests: "tests_only (\<lambda>_. True) c \<Longrightarrow> ceval (macros s) c = Some (holds (def_in s) c)"
  by (rule ceval_holds) auto

lemma if_define:
  assumes "exec I (If c [Define x b] []) s = Some s'" and "tests_only (\<lambda>_. True) c"
  shows "def_in s' y \<longleftrightarrow> def_in s y \<or> y = x \<and> holds (def_in s) c"
  using assms ceval_tests [of c s] by (auto split: if_splits)

lemma if_define_once:
  assumes "exec I (If c [If (Neg (Defined x)) [Define x b] []] []) s = Some s'" and "tests_only (\<lambda>_. True) c"
  shows "def_in s' y \<longleftrightarrow> def_in s y \<or> y = x \<and> holds (def_in s) c"
  using assms ceval_tests [of c s] by (auto split: if_splits option.splits)

lemma if_undef:
  assumes "exec I (If c (Undef x # ds) []) s = Some s'" and "tests_only (\<lambda>_. True) c"
    and "\<not> list_ex (\<lambda>d. changes d x) ds" and "keeps_own I"
  shows "def_in s' x \<longleftrightarrow> def_in s x \<and> \<not> holds (def_in s) c"
proof (cases "holds (def_in s) c")
  case True
  with assms(1) ceval_tests [OF assms(2), of s] have "execs I ds (s\<lparr>macros := undef x (macros s)\<rparr>) = Some s'" by simp
  from exec_unchanged(2) [OF this assms(4,3)] True show ?thesis by simp
qed (use assms ceval_tests [OF assms(2), of s] in auto)

lemma osf_after_vms:
  assumes run: "execs I (take 52 predef_body) s = Some s'" and own: "keeps_own I" and fresh: "fresh s"
  shows "def_in s' ''PREDEF_OS_OSF'' \<longleftrightarrow> \<not> def_in s ''VMS'' \<and> \<not> def_in s ''__VMS'' \<and>
    (def_in s ''__osf__'' \<or> def_in s ''__osf'' \<or> def_in s ''__DECC'' \<or> def_in s ''__DECCXX'' \<or> def_in s ''VAXC'' \<or> def_in s ''__VAXC'')"
proof -
  let ?vms = "Or (Defined ''VMS'') (Defined ''__VMS'')"
  let ?ds = "[Define ''PREDEF_PLATFORM_VMS'' None,
        If (Defined ''__VMS_VER'') [Define ''PREDEF_OS_VMS'' (Some (Name ''__VMS_VER''))] [Define ''PREDEF_OS_VMS'' (Some (Num 0))]]"
  have "take 52 predef_body = take 51 predef_body @ [If ?vms (Undef ''PREDEF_OS_OSF'' # ?ds) []]"
    by code_simp
  with run obtain t where t: "execs I (take 51 predef_body) s = Some t"
    and u: "exec I (If ?vms (Undef ''PREDEF_OS_OSF'' # ?ds) []) t = Some s'"
    by (auto simp: execs_append simp del: exec.simps split: Option.bind_splits)
  have d: "def_in s' ''PREDEF_OS_OSF'' \<longleftrightarrow> def_in t ''PREDEF_OS_OSF'' \<and> \<not> holds (def_in t) ?vms"
    by (rule if_undef [OF u _ _ own]) simp_all
  have "list_all own_only (take 51 predef_body)" by code_simp
  then have "def_in t ''VMS'' = def_in s ''VMS''" "def_in t ''__VMS'' = def_in s ''__VMS''"
    by (simp_all add: own_only_run [OF t own] own_name_def)
  with d osf_def [OF t own fresh] show ?thesis by (simp only: holds.simps) blast
qed

lemma unix_parts:
  assumes "execs I (take 52 predef_body) s = Some s'" and "keeps_own I" and "fresh s"
  shows "def_in s' ''PREDEF_OS_NETBSD'' \<longleftrightarrow> def_in s ''__NetBSD__''"
    and "def_in s' ''PREDEF_OS_QNX'' \<longleftrightarrow> def_in s ''__QNX__'' \<or> def_in s ''__QNXNTO__''"
    and "def_in s' ''PREDEF_COMPILER_CYGWIN'' \<longleftrightarrow> def_in s ''__CYGWIN__''"
    and "def_in s' ''PREDEF_COMPILER_GCC'' \<longleftrightarrow> def_in s ''__GNUC__''"
proof -
  have al: "alone foreign (take 52 predef_body) 40 ''PREDEF_OS_NETBSD''" "alone foreign (take 52 predef_body) 45 ''PREDEF_OS_QNX''"
    "alone foreign (take 52 predef_body) 4 ''PREDEF_COMPILER_CYGWIN''" "alone foreign (take 52 predef_body) 8 ''PREDEF_COMPILER_GCC''"
    by code_simp+
  have d: "sets_macro D ''PREDEF_OS_NETBSD'' (take 52 predef_body ! 40) \<longleftrightarrow> D ''__NetBSD__''"
    "sets_macro D ''PREDEF_OS_QNX'' (take 52 predef_body ! 45) \<longleftrightarrow> D ''__QNX__'' \<or> D ''__QNXNTO__''"
    "sets_macro D ''PREDEF_COMPILER_CYGWIN'' (take 52 predef_body ! 4) \<longleftrightarrow> D ''__CYGWIN__''"
    "sets_macro D ''PREDEF_COMPILER_GCC'' (take 52 predef_body ! 8) \<longleftrightarrow> D ''__GNUC__''" for D
    by (code_simp, simp)+
  show "def_in s' ''PREDEF_OS_NETBSD'' \<longleftrightarrow> def_in s ''__NetBSD__''"
    "def_in s' ''PREDEF_OS_QNX'' \<longleftrightarrow> def_in s ''__QNX__'' \<or> def_in s ''__QNXNTO__''"
    "def_in s' ''PREDEF_COMPILER_CYGWIN'' \<longleftrightarrow> def_in s ''__CYGWIN__''"
    "def_in s' ''PREDEF_COMPILER_GCC'' \<longleftrightarrow> def_in s ''__GNUC__''"
    using al [THEN alone_foreign, OF assms] by (simp_all only: d)
qed

text \<open>The macros of the compiler by which a system is Unix.\<close>

definition unix_like :: "(string \<Rightarrow> bool) \<Rightarrow> bool" where
  "unix_like D \<longleftrightarrow> D ''unix'' \<or> D ''__unix'' \<or> D ''__unix__'' \<or>
     D ''_AIX'' \<or> D ''__TOS_AIX__'' \<or> D ''__xlC__'' \<or> D ''__IBMC__'' \<or> D ''__IBMCPP__'' \<or>
     \<not> D ''VMS'' \<and> \<not> D ''__VMS'' \<and>
       (D ''__osf__'' \<or> D ''__osf'' \<or> D ''__DECC'' \<or> D ''__DECCXX'' \<or> D ''VAXC'' \<or> D ''__VAXC'') \<or>
     D ''__NetBSD__'' \<or> D ''__QNX__'' \<or> D ''__QNXNTO__'' \<or> D ''__CYGWIN__'' \<or> D ''AMIGA'' \<and> D ''__GNUC__''"

lemma unix_block: "take 4 (drop 52 predef_body) =
  [If (Or (Or (Defined ''unix'') (Defined ''__unix'')) (Defined ''__unix__'')) [Define ''PREDEF_PLATFORM_UNIX'' None] [],
   If (Or (Or (Or (Defined ''PREDEF_OS_AIX'') (Defined ''PREDEF_OS_OSF'')) (Defined ''PREDEF_OS_NETBSD'')) (Defined ''PREDEF_OS_QNX''))
     [If (Neg (Defined ''PREDEF_PLATFORM_UNIX'')) [Define ''PREDEF_PLATFORM_UNIX'' None] []] [],
   If (Defined ''PREDEF_COMPILER_CYGWIN'') [Define ''PREDEF_PLATFORM_UNIX'' None] [],
   If (And (Defined ''AMIGA'') (Defined ''PREDEF_COMPILER_GCC'')) [Define ''PREDEF_PLATFORM_UNIX'' None] []]"
  by code_simp

lemma unix_block_run:
  assumes "execs I (take 4 (drop 52 predef_body)) t = Some u"
  shows "def_in u ''PREDEF_PLATFORM_UNIX'' \<longleftrightarrow> def_in t ''PREDEF_PLATFORM_UNIX'' \<or>
    def_in t ''unix'' \<or> def_in t ''__unix'' \<or> def_in t ''__unix__'' \<or> def_in t ''PREDEF_OS_AIX'' \<or> def_in t ''PREDEF_OS_OSF'' \<or>
    def_in t ''PREDEF_OS_NETBSD'' \<or> def_in t ''PREDEF_OS_QNX'' \<or> def_in t ''PREDEF_COMPILER_CYGWIN'' \<or>
    def_in t ''AMIGA'' \<and> def_in t ''PREDEF_COMPILER_GCC''"
proof -
  let ?x = "''PREDEF_PLATFORM_UNIX''"
  let ?c1 = "Or (Or (Defined ''unix'') (Defined ''__unix'')) (Defined ''__unix__'')"
  let ?c2 = "Or (Or (Or (Defined ''PREDEF_OS_AIX'') (Defined ''PREDEF_OS_OSF'')) (Defined ''PREDEF_OS_NETBSD'')) (Defined ''PREDEF_OS_QNX'')"
  let ?c3 = "Defined ''PREDEF_COMPILER_CYGWIN''" and ?c4 = "And (Defined ''AMIGA'') (Defined ''PREDEF_COMPILER_GCC'')"
  obtain t1 t2 t3 where r: "exec I (If ?c1 [Define ?x None] []) t = Some t1"
    "exec I (If ?c2 [If (Neg (Defined ?x)) [Define ?x None] []] []) t1 = Some t2"
    "exec I (If ?c3 [Define ?x None] []) t2 = Some t3" "exec I (If ?c4 [Define ?x None] []) t3 = Some u"
    using assms unfolding unix_block by (auto simp del: exec.simps split: Option.bind_splits)
  have "def_in t1 y \<longleftrightarrow> def_in t y \<or> y = ?x \<and> holds (def_in t) ?c1" for y by (rule if_define [OF r(1)]) simp
  moreover have "def_in t2 y \<longleftrightarrow> def_in t1 y \<or> y = ?x \<and> holds (def_in t1) ?c2" for y by (rule if_define_once [OF r(2)]) simp
  moreover have "def_in t3 y \<longleftrightarrow> def_in t2 y \<or> y = ?x \<and> holds (def_in t2) ?c3" for y by (rule if_define [OF r(3)]) simp
  moreover have "def_in u y \<longleftrightarrow> def_in t3 y \<or> y = ?x \<and> holds (def_in t3) ?c4" for y by (rule if_define [OF r(4)]) simp
  ultimately show ?thesis by (simp del: not_None_eq) blast
qed

lemma unix_def:
  assumes run: "execs I predef_body s = Some s'" and own: "keeps_own I" and fresh: "fresh s"
  shows "def_in s' ''PREDEF_PLATFORM_UNIX'' \<longleftrightarrow> unix_like (def_in s)"
proof -
  have ch: "\<not> list_ex (\<lambda>d. changes d ''PREDEF_PLATFORM_UNIX'') (drop (52 + 4) predef_body)"
    "\<not> list_ex (\<lambda>d. changes d ''PREDEF_PLATFORM_UNIX'') (take 52 predef_body)" "list_all own_only (take 52 predef_body)"
    by code_simp+
  obtain t u where t: "execs I (take 52 predef_body) s = Some t" and u: "execs I (take 4 (drop 52 predef_body)) t = Some u"
    "map_of (macros s') ''PREDEF_PLATFORM_UNIX'' = map_of (macros u) ''PREDEF_PLATFORM_UNIX''"
    using execs_part [OF run own ch(1)] by blast
  have "\<not> def_in t ''PREDEF_PLATFORM_UNIX''"
    using exec_unchanged(2) [OF t own ch(2)] fresh by (simp add: fresh_def)
  moreover have "def_in t y = def_in s y" if "foreign y" for y
    using own_only_run [OF t own ch(3) that] by simp
  then have "def_in t ''unix'' = def_in s ''unix''" "def_in t ''__unix'' = def_in s ''__unix''"
    "def_in t ''__unix__'' = def_in s ''__unix__''" "def_in t ''AMIGA'' = def_in s ''AMIGA''"
    by (simp_all add: own_name_def)
  ultimately show ?thesis
    using unix_block_run [OF u(1)] u(2) aix_def [OF t own fresh] osf_after_vms [OF t own fresh] unix_parts [OF t own fresh]
    unfolding unix_like_def by metis
qed

text \<open>
  C37. What the library is compiled for, whatever the compiler defines: a socket handle is a
  \<open>UINT_PTR\<close> when a Windows macro or \<open>_MSC_VER\<close> is defined, otherwise an \<open>int\<close> when a Linux macro is or
  the system is Unix by one of the macros listed in \<open>unix_like\<close>, and otherwise has no type. \<open>htobe16\<close> and
  its relatives come from the system header exactly on Linux and from the library exactly for
  Visual C++; on every other system, all other Unix systems included, nothing declares them.
\<close>

theorem predef_selects:
  assumes "keeps_own I" and "fresh s" and "execs I predef_h s = Some s'"
  shows "SOCKET_FD s' =
      (if def_in s ''WIN32'' \<or> def_in s ''_WIN32'' \<or> def_in s ''__TOS_WIN__'' \<or> def_in s ''_MSC_VER'' then Some UINT_PTR
       else if def_in s ''linux'' \<or> def_in s ''__linux'' \<or> def_in s ''__linux__'' \<or> unix_like (def_in s) then Some CInt
       else None) \<and>
    endian_functions s' =
      (if def_in s ''linux'' \<or> def_in s ''__linux'' \<or> def_in s ''__linux__'' then Some SystemHeader
       else if def_in s ''_MSC_VER'' then Some OwnFunctions
       else None)"
proof -
  have "execs I predef_body s = Some s'"
    using assms(2,3) by (auto simp: predef_h_def fresh_def split: if_splits Option.bind_splits)
  note macros = linux_def [OF this assms(1,2)] visualc_def [OF this assms(1,2)] windows_def [OF this assms(1,2)]
    unix_def [OF this assms(1,2)]
  show ?thesis
    unfolding SOCKET_FD_def endian_functions_def macros by simp
qed

theorem predef_selects_witness:
  "\<exists>s'. execs linux_headers predef_h linux_gcc = Some s' \<and> SOCKET_FD s' = Some CInt \<and> endian_functions s' = Some SystemHeader"
proof -
  have run: "execs linux_headers predef_h linux_gcc \<noteq> None" by code_simp
  then obtain s' where s': "execs linux_headers predef_h linux_gcc = Some s'" by blast
  have "keeps_own linux_headers" using linux_headers_ok by (simp add: sys_header_def)
  from predef_selects [OF this linux_gcc_fresh s'] s' show ?thesis
    by (auto simp: linux_gcc_def)
qed

end
