(* ===== verification/Processor_Arh.thy ===== *)
theory Processor_Arh
  imports Predef
begin

text \<open>
  \<^verbatim>\<open>src/muradin/platform/processor_arh.h\<close>, directive by directive: the processor, from the macros
  of the compiler that \<^verbatim>\<open>predef.h\<close> has found. With \<open>g++\<close> exactly one processor is found, or a
  warning is given.
\<close>

definition processors :: "directive list" where
  "processors =
    [If (Defined ''PREDEF_COMPILER_VISUALC'')
       [If (Defined ''_M_IX86'') [Define ''PREDEF_CPU_X86'' None] [],
        If (Or (Or (Or (Defined ''__amd64__'') (Defined ''__amd64'')) (Defined ''__x86_64__'')) (Defined ''__x86_64'')) [Define ''PREDEF_CPU_X86_64'' None] [],
        If (Defined ''_M_ALPHA'') [Define ''PREDEF_CPU_ALPHA'' None] []]
       [If (Defined ''PREDEF_COMPILER_SUNPRO'')
          [If (Defined ''__sparc'')
             [Define ''PREDEF_CPU_SPARC'' None,
              Define ''PREDEF_CPU_SUN_SPARC'' None,
              Define ''PREDEF_CPU_SUN_SPARC32'' None] [],
           If (Defined ''__sparcv9'')
             [Define ''PREDEF_CPU_SPARC'' None,
              Define ''PREDEF_CPU_SUN_SPARC'' None,
              Define ''PREDEF_CPU_SUN_SPARC64'' None] [],
           If (Defined ''__i386'')
             [Define ''PREDEF_CPU_X86'' None,
              Define ''PREDEF_CPU_SUN_I386'' None] []]
          [If (Defined ''PREDEF_COMPILER_DECC'')
             [If (Defined ''__alpha'') [Define ''PREDEF_CPU_ALPHA'' None] []]
             [If (Defined ''PREDEF_COMPILER_GCC'')
                [If (Or (Defined ''__alpha'') (Defined ''__alpha__'')) [Define ''PREDEF_CPU_ALPHA'' None]
                   [If (Defined ''__i386__'') [Define ''PREDEF_CPU_X86'' None]
                      [If (Defined ''__sparc'') [Define ''PREDEF_CPU_SUN_SPARC32'' None]
                         [If (Defined ''__hppa__'') [Define ''PREDEF_CPU_HPPA'' None]
                            [If (Defined ''__mips__'') [Define ''PREDEF_CPU_MIPS'' None]
                               [If (Defined ''__PPC__'') [Define ''PREDEF_CPU_PPC'' None]
                                  [If (Or (Or (Or (Defined ''__amd64__'') (Defined ''__amd64'')) (Defined ''__x86_64__'')) (Defined ''__x86_64'')) [Define ''PREDEF_CPU_X86_64'' None] [Warn ''Unknown processor architecture!'']]]]]]]]
                [If (Defined ''PREDEF_COMPILER_HPCC'')
                   [If (Defined ''__hppa'') [Define ''PREDEF_CPU_HPPA'' None] []]
                   [If (Or (Or (Defined ''__mips'') (Defined ''__mips__'')) (Defined ''__MIPS__'')) [Define ''PREDEF_CPU_MIPS'' None]
                      [If (Defined ''PREDEF_COMPILER_XLC'')
                         [If (Defined ''_POWER'') [Define ''PREDEF_CPU_POWER'' None] []]
                         [If (Defined ''PREDEF_COMPILER_MPW'') [Define ''PREDEF_CPU_PPC'' None] [Warn ''Unknown processor architecture!'']]]]]]]]]"

definition processor_arh_h :: "directive list" where
  "processor_arh_h =
    [If (Neg (Defined ''MURADIN_CONFIG_PROCESSOR_ARH_H__''))
       ([Define ''MURADIN_CONFIG_PROCESSOR_ARH_H__'' None, Include ''muradin/config/predef.h''] @ processors) []]"

definition gcc_processors :: "string list" where
  "gcc_processors = [''PREDEF_CPU_ALPHA'', ''PREDEF_CPU_X86'', ''PREDEF_CPU_SUN_SPARC32'', ''PREDEF_CPU_HPPA'',
     ''PREDEF_CPU_MIPS'', ''PREDEF_CPU_PPC'', ''PREDEF_CPU_X86_64'']"

text \<open>One of these macros has been added, and no warning, or one warning and no macro.\<close>

definition found :: "pp \<Rightarrow> pp option \<Rightarrow> bool" where
  "found s r \<longleftrightarrow> (\<exists>x \<in> set gcc_processors. r = Some (s\<lparr>macros := (x, None) # undef x (macros s)\<rparr>)) \<or>
     r = Some (s\<lparr>warnings := warnings s @ [''Unknown processor architecture!'']\<rparr>)"

lemma if_step:
  "ceval (macros s) c = Some b \<Longrightarrow> execs I [If c ds es] s = (if b then execs I ds s else execs I es s)"
  by (cases "execs I ds s"; cases "execs I es s") auto

lemma found_if:
  assumes "ceval (macros s) c = Some b" and "x \<in> set gcc_processors" and "found s (execs I rest s)"
  shows "found s (execs I [If c [Define x None] rest] s)"
  unfolding if_step [OF assms(1)] using assms(2,3) by (auto simp: found_def)

lemma found_warn: "found s (execs I [Warn ''Unknown processor architecture!''] s)"
  by (simp add: found_def)

lemma branch_taken: "map_of (macros s) x \<noteq> None \<Longrightarrow> execs I [If (Defined x) ds es] s = execs I ds s"
  by (subst if_step) auto

lemma branch_skipped: "map_of (macros s) x = None \<Longrightarrow> execs I [If (Defined x) ds es] s = execs I es s"
  by (subst if_step) auto

text \<open>
  With \<open>g++\<close> exactly one of seven macros is added, or a warning is given. \<open>PREDEF_CPU_SPARC\<close>, which
  the comment of the header lists for Sparc processors, is not one of them.
\<close>

theorem gcc_processor:
  assumes "def_in s ''PREDEF_COMPILER_GCC''" and "map_of (macros s) ''PREDEF_COMPILER_VISUALC'' = None"
    and "map_of (macros s) ''PREDEF_COMPILER_SUNPRO'' = None" and "map_of (macros s) ''PREDEF_COMPILER_DECC'' = None"
  shows "found s (execs I processors s)"
  unfolding processors_def branch_skipped [OF assms(2)] branch_skipped [OF assms(3)] branch_skipped [OF assms(4)] branch_taken [OF assms(1)]
  by (intro found_if found_warn) (simp_all add: gcc_processors_def)

end
